(* ===== verification/Prelude.thy ===== *)
theory Prelude
  imports Main "HOL-Library.Multiset" "HOL-Library.Word"
begin

text \<open>
  The prelude of the development: the named collections its proofs draw on, the types and result
  codes the components share, the C library routines the sources call (\<open>qsort\<close>, \<open>bsearch\<close>,
  conversions between integer widths), and the notion of a best-\<open>k\<close> selection that every
  nearest-neighbour routine of the program is measured against, with the interface locale of a
  bounded best-\<open>k\<close> accumulator.
\<close>

named_theorems clib_simps \<open>equations of the modelled C library routines\<close>
named_theorems best_k_intros \<open>introduction rules for best-k selections\<close>

subsection \<open>Result codes and widths\<close>

text \<open>The SQLite result codes the sources return.\<close>

datatype sqlite_rc =
    SQLITE_OK | SQLITE_ERROR | SQLITE_NOMEM | SQLITE_NOTFOUND | SQLITE_FULL | SQLITE_CANTOPEN | SQLITE_EMPTY
  | SQLITE_CONSTRAINT | SQLITE_MISUSE

text \<open>
  Row ids are \<open>i64\<close> values; the sources only copy and compare them, so they are \<open>int\<close>s here. Passing
  one through a parameter of C type \<open>int\<close> keeps the low 32 bits, read in two's complement.
\<close>

type_synonym i64 = int

definition c_int :: "int \<Rightarrow> int" where
  "c_int x = (x + 2 ^ 31) mod 2 ^ 32 - 2 ^ 31"

lemma c_int_id: "- (2 ^ 31) \<le> x \<Longrightarrow> x < 2 ^ 31 \<Longrightarrow> c_int x = x"
  by (simp add: c_int_def)

lemma c_int_range: "- (2 ^ 31) \<le> c_int x \<and> c_int x < 2 ^ 31"
  by (simp add: c_int_def)

lemma c_int_idem [simp]: "c_int (c_int x) = c_int x"
  using c_int_range [of x] by (simp add: c_int_id)

subsection \<open>Lists\<close>

lemma mset_swap_update:
  assumes "i < length xs" and "j < length xs"
  shows "mset (xs[i := xs ! j, j := xs ! i]) = mset xs"
  using assms by (simp add: mset_swap)

lemma mset_list_update:
  "i < length xs \<Longrightarrow> mset (xs[i := x]) = add_mset x (mset xs - {#xs ! i#})"
  by (simp add: mset_update)

lemma take_Suc_nth: "i < length xs \<Longrightarrow> take (Suc i) xs = take i xs @ [xs ! i]"
  by (simp add: take_Suc_conv_app_nth)

lemma sorted_map_nth_mono:
  "sorted (map f xs) \<Longrightarrow> i \<le> j \<Longrightarrow> j < length xs \<Longrightarrow> f (xs ! i) \<le> f (xs ! j)"
  using sorted_nth_mono [of "map f xs" i j] by simp

subsection \<open>The C library: qsort and bsearch\<close>

text \<open>
  \<open>qsort\<close> is modelled as the merge sort the GNU C library runs: split off \<open>n / 2\<close> elements, sort
  both parts, merge taking from the left part while the comparison is not positive. The comparison
  returns a C \<open>int\<close>.
\<close>

fun cmp_merge :: "('a \<Rightarrow> 'a \<Rightarrow> int) \<Rightarrow> 'a list \<Rightarrow> 'a list \<Rightarrow> 'a list" where
  "cmp_merge cmp [] ys = ys"
| "cmp_merge cmp xs [] = xs"
| "cmp_merge cmp (x # xs) (y # ys) =
     (if cmp x y \<le> 0 then x # cmp_merge cmp xs (y # ys) else y # cmp_merge cmp (x # xs) ys)"

fun c_qsort :: "('a \<Rightarrow> 'a \<Rightarrow> int) \<Rightarrow> 'a list \<Rightarrow> 'a list" where
  "c_qsort cmp xs =
     (if length xs \<le> 1 then xs
      else cmp_merge cmp (c_qsort cmp (take (length xs div 2) xs))
                         (c_qsort cmp (drop (length xs div 2) xs)))"

declare c_qsort.simps [simp del]

lemma mset_cmp_merge [simp]: "mset (cmp_merge cmp xs ys) = mset xs + mset ys"
  by (induction cmp xs ys rule: cmp_merge.induct) auto

lemma set_cmp_merge [simp]: "set (cmp_merge cmp xs ys) = set xs \<union> set ys"
  by (metis mset_cmp_merge set_mset_mset set_mset_union)

lemma mset_c_qsort [simp]: "mset (c_qsort cmp xs) = mset xs"
proof (induction cmp xs rule: c_qsort.induct)
  case (1 cmp xs)
  show ?case
  proof (cases "length xs \<le> 1")
    case True
    then show ?thesis by (simp add: c_qsort.simps [of cmp xs])
  next
    case False
    then have "mset (c_qsort cmp xs) =
        mset (take (length xs div 2) xs) + mset (drop (length xs div 2) xs)"
      by (simp add: c_qsort.simps [of cmp xs] 1)
    also have "\<dots> = mset xs"
      by (metis append_take_drop_id mset_append)
    finally show ?thesis .
  qed
qed

lemma set_c_qsort [simp]: "set (c_qsort cmp xs) = set xs"
  by (metis mset_c_qsort set_mset_mset)

lemma length_c_qsort [simp]: "length (c_qsort cmp xs) = length xs"
  by (metis mset_c_qsort size_mset)

text \<open>
  A comparison is consistent with an integer key on a set when its sign is the sign of the
  difference of the keys there.
\<close>

definition cmp_by :: "('a \<Rightarrow> 'a \<Rightarrow> int) \<Rightarrow> ('a \<Rightarrow> int) \<Rightarrow> 'a set \<Rightarrow> bool" where
  "cmp_by cmp key S \<longleftrightarrow> (\<forall>x\<in>S. \<forall>y\<in>S. (cmp x y \<le> 0) = (key x \<le> key y))"

lemma cmp_by_subset: "cmp_by cmp key S \<Longrightarrow> T \<subseteq> S \<Longrightarrow> cmp_by cmp key T"
  by (auto simp: cmp_by_def)

lemma sorted_cmp_merge:
  assumes "cmp_by cmp key (set xs \<union> set ys)"
    and "sorted (map key xs)" and "sorted (map key ys)"
  shows "sorted (map key (cmp_merge cmp xs ys))"
  using assms
proof (induction cmp xs ys rule: cmp_merge.induct)
  case (3 cmp x xs y ys)
  have sub: "cmp_by cmp key (set xs \<union> set (y # ys))" "cmp_by cmp key (set (x # xs) \<union> set ys)"
    using "3.prems"(1) by (auto elim: cmp_by_subset)
  have "(cmp x y \<le> 0) = (key x \<le> key y)"
    using "3.prems"(1) by (auto simp: cmp_by_def)
  then show ?case
    using 3 sub by (cases "cmp x y \<le> 0") auto
qed auto

lemma sorted_c_qsort:
  "cmp_by cmp key (set xs) \<Longrightarrow> sorted (map key (c_qsort cmp xs))"
proof (induction cmp xs rule: c_qsort.induct)
  case (1 cmp xs)
  show ?case
  proof (cases "length xs \<le> 1")
    case True
    then have "c_qsort cmp xs = xs" by (simp add: c_qsort.simps [of cmp xs])
    with True show ?thesis by (cases xs) auto
  next
    case False
    have "cmp_by cmp key (set (take (length xs div 2) xs))"
      and "cmp_by cmp key (set (drop (length xs div 2) xs))"
      using "1.prems" by (meson cmp_by_subset set_take_subset set_drop_subset)+
    moreover have "set (take (length xs div 2) xs) \<union> set (drop (length xs div 2) xs) = set xs"
      by (metis append_take_drop_id set_append)
    ultimately show ?thesis
      using False 1 by (simp add: c_qsort.simps [of cmp xs] sorted_cmp_merge)
  qed
qed

text \<open>The comparison function of row ids.\<close>

definition cmp_i64 :: "i64 \<Rightarrow> i64 \<Rightarrow> int" where
  "cmp_i64 x y = (if x < y then -1 else if x > y then 1 else 0)"

lemma cmp_i64_by: "cmp_by cmp_i64 (\<lambda>x. x) S"
  by (auto simp: cmp_by_def cmp_i64_def)

text \<open>\<open>bsearch\<close>: halve \<open>[l, u)\<close> until the probe compares equal or the interval is empty.\<close>

function c_bsearch_loop :: "('k \<Rightarrow> 'a \<Rightarrow> int) \<Rightarrow> 'k \<Rightarrow> 'a list \<Rightarrow> nat \<Rightarrow> nat \<Rightarrow> nat option" where
  "c_bsearch_loop cmp x xs l u =
     (if l < u then
        (let idx = (l + u) div 2; c = cmp x (xs ! idx) in
         if c < 0 then c_bsearch_loop cmp x xs l idx
         else if c > 0 then c_bsearch_loop cmp x xs (Suc idx) u
         else Some idx)
      else None)"
  by pat_completeness auto
termination
  by (relation "measure (\<lambda>(cmp, x, xs, l, u). u - l)") auto

declare c_bsearch_loop.simps [simp del]

definition c_bsearch :: "('k \<Rightarrow> 'a \<Rightarrow> int) \<Rightarrow> 'k \<Rightarrow> 'a list \<Rightarrow> nat option" where
  "c_bsearch cmp x xs = c_bsearch_loop cmp x xs 0 (length xs)"

lemma c_bsearch_loop_step:
  "l < u \<Longrightarrow> c_bsearch_loop cmp_i64 x xs l u =
     (if x < xs ! ((l + u) div 2) then c_bsearch_loop cmp_i64 x xs l ((l + u) div 2)
      else if x > xs ! ((l + u) div 2) then c_bsearch_loop cmp_i64 x xs (Suc ((l + u) div 2)) u
      else Some ((l + u) div 2))"
  by (subst c_bsearch_loop.simps) (simp add: cmp_i64_def Let_def)

lemma c_bsearch_loop_sound:
  "c_bsearch_loop cmp_i64 x xs l u = Some i \<Longrightarrow> u \<le> length xs \<Longrightarrow> i < length xs \<and> xs ! i = x"
proof (induction cmp_i64 x xs l u rule: c_bsearch_loop.induct)
  case (1 x xs l u)
  from "1.prems" have lu: "l < u"
    by (simp add: c_bsearch_loop.simps [of _ x xs l u] split: if_splits)
  let ?i = "(l + u) div 2"
  consider (lt) "x < xs ! ?i" | (gt) "x > xs ! ?i" | (eq) "xs ! ?i = x" by linarith
  then show ?case
  proof cases
    case lt
    then show ?thesis
      using "1.hyps"(1) "1.prems" lu by (auto simp: c_bsearch_loop_step cmp_i64_def)
  next
    case gt
    then show ?thesis
      using "1.hyps"(2) "1.prems" lu by (auto simp: c_bsearch_loop_step cmp_i64_def)
  next
    case eq
    then have "i = ?i" using "1.prems" lu by (simp add: c_bsearch_loop_step)
    then show ?thesis using eq "1.prems" lu by auto
  qed
qed

lemma c_bsearch_loop_complete:
  assumes "sorted xs" and "l \<le> i" and "i < u" and "u \<le> length xs" and "xs ! i = x"
  shows "c_bsearch_loop cmp_i64 x xs l u \<noteq> None"
  using assms
proof (induction cmp_i64 x xs l u rule: c_bsearch_loop.induct)
  case (1 x xs l u)
  let ?m = "(l + u) div 2"
  have lu: "l < u" and m: "?m < u" "u \<le> length xs" using "1.prems" by auto
  consider (lt) "x < xs ! ?m" | (gt) "x > xs ! ?m" | (eq) "xs ! ?m = x" by linarith
  then show ?case
  proof cases
    case lt
    have "\<not> ?m \<le> i" using lt "1.prems" sorted_nth_mono [of xs ?m i] by auto
    then have "i < ?m" by simp
    then show ?thesis
      using "1.hyps"(1) "1.prems" lu lt m by (simp add: c_bsearch_loop_step cmp_i64_def)
  next
    case gt
    have "\<not> i \<le> ?m" using gt "1.prems" m sorted_nth_mono [of xs i ?m] by auto
    then have "Suc ?m \<le> i" by simp
    then show ?thesis
      using "1.hyps"(2) "1.prems" lu gt m by (simp add: c_bsearch_loop_step cmp_i64_def)
  next
    case eq
    then show ?thesis using lu by (simp add: c_bsearch_loop_step)
  qed
qed

lemma c_bsearch_sound: "c_bsearch cmp_i64 x xs \<noteq> None \<Longrightarrow> x \<in> set xs"
  using c_bsearch_loop_sound [of x xs 0 "length xs"]
  by (fastforce simp: c_bsearch_def)

lemma c_bsearch_iff [clib_simps]:
  "sorted xs \<Longrightarrow> c_bsearch cmp_i64 x xs \<noteq> None \<longleftrightarrow> x \<in> set xs"
  using c_bsearch_sound [of x xs] c_bsearch_loop_complete [of xs 0 _ "length xs" x]
  by (auto simp: c_bsearch_def in_set_conv_nth)

subsection \<open>Best-k selections\<close>

text \<open>
  \<open>S\<close> is a best-\<open>k\<close> selection of \<open>M\<close> by \<open>key\<close>: a sub-multiset, as large as \<open>k\<close> allows, none of whose
  elements has a larger key than an element left out.
\<close>

definition best_k :: "('a \<Rightarrow> int) \<Rightarrow> nat \<Rightarrow> 'a multiset \<Rightarrow> 'a multiset \<Rightarrow> bool" where
  "best_k key k M S \<longleftrightarrow>
     S \<subseteq># M \<and> size S = min k (size M) \<and> (\<forall>x\<in>#S. \<forall>y\<in>#M - S. key x \<le> key y)"

lemma best_kI [best_k_intros]:
  "S \<subseteq># M \<Longrightarrow> size S = min k (size M) \<Longrightarrow>
   (\<And>x y. x \<in># S \<Longrightarrow> y \<in># M - S \<Longrightarrow> key x \<le> key y) \<Longrightarrow> best_k key k M S"
  by (simp add: best_k_def)

lemma best_k_sub: "best_k key k M S \<Longrightarrow> S \<subseteq># M"
  by (simp add: best_k_def)

lemma best_k_size: "best_k key k M S \<Longrightarrow> size S = min k (size M)"
  by (simp add: best_k_def)

lemma best_k_le: "best_k key k M S \<Longrightarrow> x \<in># S \<Longrightarrow> y \<in># M - S \<Longrightarrow> key x \<le> key y"
  by (simp add: best_k_def)

lemma best_k_empty [simp]: "best_k key k {#} {#}"
  by (simp add: best_k_def)

lemma best_k_all: "size M \<le> k \<Longrightarrow> best_k key k M M"
  by (simp add: best_k_def)

text \<open>With enough room everything is selected.\<close>

lemma best_k_everything:
  assumes "best_k key k M S" and "size M \<le> k"
  shows "S = M"
proof -
  have "S \<subseteq># M" "size S = size M" using best_k_sub [OF assms(1)] best_k_size [OF assms(1)] assms(2) by auto
  then show ?thesis using mset_subset_size [of S M] by (auto simp: subset_mset.le_less)
qed

lemma best_k_split:
  "best_k key k M S \<longleftrightarrow>
     (\<exists>N. M = S + N \<and> size S = min k (size S + size N) \<and> (\<forall>x\<in>#S. \<forall>y\<in>#N. key x \<le> key y))"
  by (auto simp: best_k_def subset_mset.le_iff_add)

text \<open>Adding an element to a selection that is not full yet.\<close>

lemma best_k_add_room:
  assumes "best_k key k M S" and "size S < k"
  shows "best_k key k (add_mset a M) (add_mset a S)"
proof -
  from assms(1) obtain N where "M = S + N" and "size S = min k (size S + size N)"
    by (auto simp: best_k_split)
  with assms(2) have "M = S" by (auto simp: min_def split: if_splits)
  then show ?thesis using best_k_all [of "add_mset a S" k key] assms(2) by simp
qed

text \<open>Leaving out an element that is no better than every selected one.\<close>

lemma best_k_add_skip:
  assumes "best_k key k M S" and "size S = k" and "\<And>x. x \<in># S \<Longrightarrow> key x \<le> key a"
  shows "best_k key k (add_mset a M) S"
proof -
  from assms(1) obtain N where "M = S + N" and "\<forall>x\<in>#S. \<forall>y\<in>#N. key x \<le> key y"
    by (auto simp: best_k_split)
  then show ?thesis
    using assms(2,3) unfolding best_k_split by (intro exI [of _ "add_mset a N"]) auto
qed

text \<open>Replacing a worst selected element by a better newcomer.\<close>

lemma best_k_replace:
  assumes bk: "best_k key k M (add_mset w S)" and full: "size (add_mset w S) = k"
    and worst: "\<And>x. x \<in># S \<Longrightarrow> key x \<le> key w" and better: "key a \<le> key w"
  shows "best_k key k (add_mset a M) (add_mset a S)"
proof -
  from bk obtain N where M: "M = add_mset w S + N"
    and le: "\<forall>x\<in>#add_mset w S. \<forall>y\<in>#N. key x \<le> key y"
    by (auto simp: best_k_split)
  have "key a \<le> key y" if "y \<in># N" for y using le better that by force
  then show ?thesis
    using M le full worst better unfolding best_k_split
    by (intro exI [of _ "add_mset w N"]) auto
qed

text \<open>A best-\<open>k\<close> selection is determined up to equal keys.\<close>

lemma best_k_drop_far:
  assumes bk: "best_k key k M S" and full: "size S = k"
    and far: "\<And>x y. x \<in># S \<Longrightarrow> y \<in># N \<Longrightarrow> key x \<le> key y"
  shows "best_k key k (M + N) S"
  using far
proof (induction N)
  case empty
  then show ?case using bk by simp
next
  case (add a N)
  then have "best_k key k (M + N) S" by auto
  then show ?case using best_k_add_skip [of key k "M + N" S a] full add.prems by simp
qed

text \<open>The first \<open>k\<close> elements of a sorted list.\<close>

lemma best_k_take:
  assumes "sorted (map key xs)"
  shows "best_k key k (mset xs) (mset (take k xs))"
proof -
  have "mset xs = mset (take k xs) + mset (drop k xs)"
    by (metis append_take_drop_id mset_append)
  moreover have "key x \<le> key y" if "x \<in> set (take k xs)" "y \<in> set (drop k xs)" for x y
  proof -
    have "sorted (map key (take k xs @ drop k xs))" using assms by simp
    then show ?thesis unfolding map_append sorted_append using that by auto
  qed
  ultimately show ?thesis unfolding best_k_split by (intro exI [of _ "mset (drop k xs)"]) auto
qed

text \<open>Selecting from two selections.\<close>

lemma best_k_le_union:
  assumes A: "best_k key k M A" and S: "best_k key k (A + B) S"
    and x: "x \<in># S" and y: "y \<in># M - A"
  shows "key x \<le> key y"
proof -
  have "size A < size M" using best_k_sub [OF A] y
    by (metis mset_subset_size size_mset_mono subset_mset.le_less Diff_eq_empty_iff_mset empty_iff
        order_refl set_mset_empty)
  then have k: "size A = k" using best_k_size [OF A] by simp
  then have "size S = k" using best_k_size [OF S] by simp
  show ?thesis
  proof (cases "A \<subseteq># S")
    case True
    then have "S = A" using k \<open>size S = k\<close> mset_subset_size [of A S] by (auto simp: subset_mset.le_less)
    then show ?thesis using best_k_le [OF A _ y] x by simp
  next
    case False
    then obtain a where a: "count S a < count A a" by (auto simp: subseteq_mset_def not_le)
    then have "a \<in># A" "a \<in># (A + B) - S"
      by (auto simp: in_diff_count intro: count_inI)
    then show ?thesis using best_k_le [OF S x] best_k_le [OF A _ y] by force
  qed
qed

lemma best_k_union:
  assumes A: "best_k key k M A" and B: "best_k key k N B" and S: "best_k key k (A + B) S"
  shows "best_k key k (M + N) S"
proof (rule best_kI)
  have sub: "A \<subseteq># M" "B \<subseteq># N" "S \<subseteq># A + B" using A B S by (auto dest: best_k_sub)
  then show "S \<subseteq># M + N" by (meson subset_mset.add_mono subset_mset.order_trans)
  show "size S = min k (size (M + N))"
    using best_k_size [OF A] best_k_size [OF B] best_k_size [OF S] by auto
  fix x y assume x: "x \<in># S" and "y \<in># M + N - S"
  moreover have "M + N - S \<subseteq># (M - A) + (N - B) + (A + B - S)"
  proof (rule mset_subset_eqI)
    fix a
    have "count A a \<le> count M a" "count B a \<le> count N a"
      using sub by (auto intro: mset_subset_eq_count)
    then show "count (M + N - S) a \<le> count ((M - A) + (N - B) + (A + B - S)) a" by simp
  qed
  ultimately consider "y \<in># M - A" | "y \<in># N - B" | "y \<in># A + B - S"
    by (metis mset_subset_eqD union_iff)
  then show "key x \<le> key y"
    using best_k_le_union [OF A S x] best_k_le_union [OF B _ x, of A y] S best_k_le [OF S x]
    by cases (auto simp: add.commute)
qed

lemma best_k_image:
  assumes "best_k (\<lambda>x. key (f x)) k M S"
  shows "best_k key k (image_mset f M) (image_mset f S)"
proof -
  from assms obtain N where "M = S + N" "size S = min k (size S + size N)"
    "\<forall>x\<in>#S. \<forall>y\<in>#N. key (f x) \<le> key (f y)"
    unfolding best_k_split by blast
  then show ?thesis unfolding best_k_split by (intro exI [of _ "image_mset f N"]) auto
qed

subsection \<open>The interface of a bounded best-k accumulator\<close>

text \<open>
  The flat scan, the k-d tree and the inverted file all feed candidates one at a time into a bounded
  buffer. What they rely on: a fresh buffer is empty, and one insertion turns a best-\<open>k\<close> selection of
  what was fed so far into one of what has been fed now. Then any sequence of candidates leaves a
  best-\<open>k\<close> selection of all of them.
\<close>

locale best_k_buffer =
  fixes key :: "'h \<Rightarrow> int"
    and k :: nat
    and ok :: "'h \<Rightarrow> bool"
    and start :: 's
    and feed :: "'h \<Rightarrow> 's \<Rightarrow> 's"
    and contents :: "'s \<Rightarrow> 'h multiset"
    and inv :: "'s \<Rightarrow> bool"
  assumes start_inv: "inv start"
    and start_empty: "contents start = {#}"
    and feed_inv: "inv s \<Longrightarrow> ok h \<Longrightarrow> inv (feed h s)"
    and feed_best: "inv s \<Longrightarrow> ok h \<Longrightarrow> best_k key k M (contents s) \<Longrightarrow>
      best_k key k (add_mset h M) (contents (feed h s))"
begin

lemma fold_inv: "inv s \<Longrightarrow> \<forall>h\<in>set hs. ok h \<Longrightarrow> inv (fold feed hs s)"
  by (induction hs arbitrary: s) (auto intro: feed_inv)

lemma fold_best:
  "inv s \<Longrightarrow> \<forall>h\<in>set hs. ok h \<Longrightarrow> best_k key k M (contents s) \<Longrightarrow>
   best_k key k (M + mset hs) (contents (fold feed hs s))"
proof (induction hs arbitrary: s M)
  case Nil
  then show ?case by simp
next
  case (Cons h hs)
  then have "best_k key k (add_mset h M + mset hs) (contents (fold feed hs (feed h s)))"
    by (intro Cons.IH) (auto intro: feed_inv feed_best)
  then show ?case by simp
qed

lemma feed_all_best:
  "\<forall>h\<in>set hs. ok h \<Longrightarrow> best_k key k (mset hs) (contents (fold feed hs start))"
  using fold_best [of start hs "{#}"] start_inv start_empty by simp

end

end
