(* ===== verification/IEEE_Float.thy ===== *)
theory IEEE_Float
  imports Prelude
begin

text \<open>
  The C types \<open>float\<close> and \<open>double\<close> (\<open>f32\<close> and \<open>f64\<close> in the sources) as IEEE 754 binary32 and binary64
  bit patterns, with comparison, addition, subtraction, multiplication, division, square root and
  the conversions, each rounded to nearest with ties to even, as a compiler that evaluates every
  operation in its own type does. NaN payloads are not tracked: an operation that yields a NaN
  yields the quiet NaN.

  A finite magnitude is a non-negative integer number of units in the last place of the smallest subnormal
  (\<open>2 ^ -149\<close>, \<open>2 ^ -1074\<close>). The magnitude bits of a pattern are monotone in the value, which makes
  comparison of patterns comparison of integers (\<open>fkey\<close>) and rounding a function on integers.
\<close>

type_synonym f32 = "32 word"
type_synonym f64 = "64 word"

subsection \<open>Formats, decoding, rounding\<close>

text \<open>A format: stored mantissa bits, exponent of the unit, magnitude bits of infinity.\<close>

record fformat =
  fmant :: nat
  funit :: nat
  finf :: int

definition binary32 :: fformat where
  "binary32 = \<lparr>fmant = 23, funit = 149, finf = 255 * 2 ^ 23\<rparr>"

definition binary64 :: fformat where
  "binary64 = \<lparr>fmant = 52, funit = 1074, finf = 2047 * 2 ^ 52\<rparr>"

datatype fpval = FNaN | FInf bool | FFin bool int

text \<open>Magnitude bits to units and back.\<close>

definition mag_units :: "nat \<Rightarrow> int \<Rightarrow> int" where
  "mag_units m b = (if b < 2 ^ (m + 1) then b
     else (let k = b div 2 ^ m - 1 in (b - k * 2 ^ m) * 2 ^ nat k))"

fun bit_length :: "int \<Rightarrow> nat" where
  "bit_length n = (if n \<le> 0 then 0 else Suc (bit_length (n div 2)))"

declare bit_length.simps [simp del]

text \<open>\<open>n / d\<close> to the nearest integer, ties to even.\<close>

definition rne :: "int \<Rightarrow> int \<Rightarrow> int" where
  "rne n d = (let q = n div d; r = n mod d in
     if 2 * r > d \<or> (2 * r = d \<and> odd q) then q + 1 else q)"

text \<open>The magnitude bits of the representable number nearest to \<open>n / d\<close> units.\<close>

definition round_mag :: "nat \<Rightarrow> int \<Rightarrow> int \<Rightarrow> int" where
  "round_mag m n d = (let k = bit_length (n div d) - (m + 1) in int k * 2 ^ m + rne n (d * 2 ^ k))"

text \<open>Exact results before rounding: a signed ratio of units.\<close>

datatype fexact = XNaN | XInf bool | XRat bool int int

definition xround :: "fformat \<Rightarrow> fexact \<Rightarrow> bool \<times> int" where
  "xround F x = (case x of
     XNaN \<Rightarrow> (False, finf F + 2 ^ (fmant F - 1))
   | XInf s \<Rightarrow> (s, finf F)
   | XRat s n d \<Rightarrow> (s, min (finf F) (round_mag (fmant F) n d)))"

definition fp_of_mag :: "fformat \<Rightarrow> bool \<Rightarrow> int \<Rightarrow> fpval" where
  "fp_of_mag F s b = (if b > finf F then FNaN else if b = finf F then FInf s
     else FFin s (mag_units (fmant F) b))"

subsection \<open>Exact arithmetic\<close>

definition fp_int :: "bool \<Rightarrow> int \<Rightarrow> int" where
  "fp_int s a = (if s then - a else a)"

definition x_of_int :: "bool \<Rightarrow> int \<Rightarrow> fexact" where
  "x_of_int s0 v = (if v = 0 then XRat s0 0 1 else XRat (v < 0) \<bar>v\<bar> 1)"

fun x_add :: "fpval \<Rightarrow> fpval \<Rightarrow> fexact" where
  "x_add FNaN _ = XNaN"
| "x_add _ FNaN = XNaN"
| "x_add (FInf s) (FInf t) = (if s = t then XInf s else XNaN)"
| "x_add (FInf s) (FFin _ _) = XInf s"
| "x_add (FFin _ _) (FInf t) = XInf t"
| "x_add (FFin s a) (FFin t b) = x_of_int (s \<and> t) (fp_int s a + fp_int t b)"

fun fp_neg :: "fpval \<Rightarrow> fpval" where
  "fp_neg FNaN = FNaN"
| "fp_neg (FInf s) = FInf (\<not> s)"
| "fp_neg (FFin s a) = FFin (\<not> s) a"

fun x_mul :: "nat \<Rightarrow> fpval \<Rightarrow> fpval \<Rightarrow> fexact" where
  "x_mul u FNaN _ = XNaN"
| "x_mul u _ FNaN = XNaN"
| "x_mul u (FInf s) (FInf t) = XInf (s \<noteq> t)"
| "x_mul u (FInf s) (FFin t b) = (if b = 0 then XNaN else XInf (s \<noteq> t))"
| "x_mul u (FFin s a) (FInf t) = (if a = 0 then XNaN else XInf (s \<noteq> t))"
| "x_mul u (FFin s a) (FFin t b) = XRat (s \<noteq> t) (a * b) (2 ^ u)"

fun x_div :: "nat \<Rightarrow> fpval \<Rightarrow> fpval \<Rightarrow> fexact" where
  "x_div u FNaN _ = XNaN"
| "x_div u _ FNaN = XNaN"
| "x_div u (FInf s) (FInf t) = XNaN"
| "x_div u (FInf s) (FFin t b) = XInf (s \<noteq> t)"
| "x_div u (FFin s a) (FInf t) = XRat (s \<noteq> t) 0 1"
| "x_div u (FFin s a) (FFin t b) =
     (if b = 0 then (if a = 0 then XNaN else XInf (s \<noteq> t)) else XRat (s \<noteq> t) (a * 2 ^ u) b)"

fun isqrt :: "int \<Rightarrow> int" where
  "isqrt n = (if n \<le> 0 then 0
     else (let r = 2 * isqrt (n div 4) in if (r + 1) * (r + 1) \<le> n then r + 1 else r))"

declare isqrt.simps [simp del]

text \<open>
  The square root is rounded from its floor with a sticky half unit: the floor has far more bits
  than the format keeps, so the sticky bit decides every tie as the exact root would.
\<close>

fun x_sqrt :: "nat \<Rightarrow> fpval \<Rightarrow> fexact" where
  "x_sqrt u FNaN = XNaN"
| "x_sqrt u (FInf s) = (if s then XNaN else XInf False)"
| "x_sqrt u (FFin s a) =
     (if a = 0 then XRat s 0 1
      else if s then XNaN
      else (let n = a * 2 ^ u; r = isqrt n in
            XRat False (2 * r + (if r * r = n then 0 else 1)) 2))"

subsection \<open>binary32\<close>

definition fneg_bit :: "f32 \<Rightarrow> bool" where
  "fneg_bit x \<longleftrightarrow> 2 ^ 31 \<le> uint x"

definition fmag :: "f32 \<Rightarrow> int" where
  "fmag x = uint x mod 2 ^ 31"

definition fval :: "f32 \<Rightarrow> fpval" where
  "fval x = fp_of_mag binary32 (fneg_bit x) (fmag x)"

definition f32_pack :: "bool \<times> int \<Rightarrow> f32" where
  "f32_pack p = (if fst p then word_of_int (2 ^ 31 + snd p) else word_of_int (snd p))"

definition f32_of :: "fexact \<Rightarrow> f32" where
  "f32_of x = f32_pack (xround binary32 x)"

definition fisnan :: "f32 \<Rightarrow> bool" where
  "fisnan x \<longleftrightarrow> 255 * 2 ^ 23 < fmag x"

definition ffinite :: "f32 \<Rightarrow> bool" where
  "ffinite x \<longleftrightarrow> fmag x < 255 * 2 ^ 23"

text \<open>The order key of a number that is not a NaN: both zeros have key 0.\<close>

definition fkey :: "f32 \<Rightarrow> int" where
  "fkey x = fp_int (fneg_bit x) (fmag x)"

definition flt :: "f32 \<Rightarrow> f32 \<Rightarrow> bool" where
  "flt x y \<longleftrightarrow> \<not> fisnan x \<and> \<not> fisnan y \<and> fkey x < fkey y"

definition fle :: "f32 \<Rightarrow> f32 \<Rightarrow> bool" where
  "fle x y \<longleftrightarrow> \<not> fisnan x \<and> \<not> fisnan y \<and> fkey x \<le> fkey y"

definition feq :: "f32 \<Rightarrow> f32 \<Rightarrow> bool" where
  "feq x y \<longleftrightarrow> \<not> fisnan x \<and> \<not> fisnan y \<and> fkey x = fkey y"

definition fadd :: "f32 \<Rightarrow> f32 \<Rightarrow> f32" where
  "fadd x y = f32_of (x_add (fval x) (fval y))"

definition fsub :: "f32 \<Rightarrow> f32 \<Rightarrow> f32" where
  "fsub x y = f32_of (x_add (fval x) (fp_neg (fval y)))"

definition fmul :: "f32 \<Rightarrow> f32 \<Rightarrow> f32" where
  "fmul x y = f32_of (x_mul 149 (fval x) (fval y))"

definition fdiv :: "f32 \<Rightarrow> f32 \<Rightarrow> f32" where
  "fdiv x y = f32_of (x_div 149 (fval x) (fval y))"

definition f32_of_int :: "int \<Rightarrow> f32" where
  "f32_of_int i = f32_of (x_of_int False (i * 2 ^ 149))"

definition FLT_MAX :: f32 where
  "FLT_MAX = 0x7F7FFFFF"

subsection \<open>binary64\<close>

definition dneg_bit :: "f64 \<Rightarrow> bool" where
  "dneg_bit x \<longleftrightarrow> 2 ^ 63 \<le> uint x"

definition dmag :: "f64 \<Rightarrow> int" where
  "dmag x = uint x mod 2 ^ 63"

definition dval :: "f64 \<Rightarrow> fpval" where
  "dval x = fp_of_mag binary64 (dneg_bit x) (dmag x)"

definition f64_of :: "fexact \<Rightarrow> f64" where
  "f64_of x = (let p = xround binary64 x in
     if fst p then word_of_int (2 ^ 63 + snd p) else word_of_int (snd p))"

definition disnan :: "f64 \<Rightarrow> bool" where
  "disnan x \<longleftrightarrow> 2047 * 2 ^ 52 < dmag x"

definition dkey :: "f64 \<Rightarrow> int" where
  "dkey x = fp_int (dneg_bit x) (dmag x)"

definition dlt :: "f64 \<Rightarrow> f64 \<Rightarrow> bool" where
  "dlt x y \<longleftrightarrow> \<not> disnan x \<and> \<not> disnan y \<and> dkey x < dkey y"

definition dle :: "f64 \<Rightarrow> f64 \<Rightarrow> bool" where
  "dle x y \<longleftrightarrow> \<not> disnan x \<and> \<not> disnan y \<and> dkey x \<le> dkey y"

definition deq :: "f64 \<Rightarrow> f64 \<Rightarrow> bool" where
  "deq x y \<longleftrightarrow> \<not> disnan x \<and> \<not> disnan y \<and> dkey x = dkey y"

definition dadd :: "f64 \<Rightarrow> f64 \<Rightarrow> f64" where
  "dadd x y = f64_of (x_add (dval x) (dval y))"

definition dsub :: "f64 \<Rightarrow> f64 \<Rightarrow> f64" where
  "dsub x y = f64_of (x_add (dval x) (fp_neg (dval y)))"

definition dmul :: "f64 \<Rightarrow> f64 \<Rightarrow> f64" where
  "dmul x y = f64_of (x_mul 1074 (dval x) (dval y))"

definition ddiv :: "f64 \<Rightarrow> f64 \<Rightarrow> f64" where
  "ddiv x y = f64_of (x_div 1074 (dval x) (dval y))"

definition dsqrt :: "f64 \<Rightarrow> f64" where
  "dsqrt x = f64_of (x_sqrt 1074 (dval x))"

definition dfabs :: "f64 \<Rightarrow> f64" where
  "dfabs x = word_of_int (dmag x)"

definition f64_of_int :: "int \<Rightarrow> f64" where
  "f64_of_int i = f64_of (x_of_int False (i * 2 ^ 1074))"

definition f64_of_f32 :: "f32 \<Rightarrow> f64" where
  "f64_of_f32 x = f64_of (case fval x of FNaN \<Rightarrow> XNaN | FInf s \<Rightarrow> XInf s
     | FFin s a \<Rightarrow> XRat s (a * 2 ^ 925) 1)"

definition f32_of_f64 :: "f64 \<Rightarrow> f32" where
  "f32_of_f64 x = f32_of (case dval x of FNaN \<Rightarrow> XNaN | FInf s \<Rightarrow> XInf s
     | FFin s a \<Rightarrow> XRat s a (2 ^ 925))"

subsection \<open>Comparison\<close>

lemma flt_irrefl [simp]: "\<not> flt x x"
  by (simp add: flt_def)

lemma flt_trans: "flt x y \<Longrightarrow> flt y z \<Longrightarrow> flt x z"
  by (auto simp: flt_def)

lemma not_flt_iff: "\<not> fisnan x \<Longrightarrow> \<not> fisnan y \<Longrightarrow> \<not> flt x y \<longleftrightarrow> fkey y \<le> fkey x"
  by (auto simp: flt_def)

lemma flt_iff_key: "\<not> fisnan x \<Longrightarrow> \<not> fisnan y \<Longrightarrow> flt x y \<longleftrightarrow> fkey x < fkey y"
  by (auto simp: flt_def)

lemma fle_iff_key: "\<not> fisnan x \<Longrightarrow> \<not> fisnan y \<Longrightarrow> fle x y \<longleftrightarrow> fkey x \<le> fkey y"
  by (auto simp: fle_def)

lemma ffinite_not_nan: "ffinite x \<Longrightarrow> \<not> fisnan x"
  by (simp add: ffinite_def fisnan_def)

subsection \<open>Rounding is monotone and exact on representable numbers\<close>

lemma bit_length_upper: "n < 2 ^ bit_length n"
proof (induction n rule: bit_length.induct)
  case (1 n)
  show ?case
  proof (cases "n \<le> 0")
    case True
    then show ?thesis by (simp add: bit_length.simps [of n])
  next
    case False
    with 1 have "n div 2 < 2 ^ bit_length (n div 2)" by simp
    with False show ?thesis by (simp add: bit_length.simps [of n])
  qed
qed

lemma bit_length_lower: "0 < n \<Longrightarrow> 2 ^ (bit_length n - 1) \<le> n"
proof (induction n rule: bit_length.induct)
  case (1 n)
  show ?case
  proof (cases "n div 2 = 0")
    case True
    then have "bit_length n = 1"
      using "1.prems" by (simp add: bit_length.simps [of n] bit_length.simps [of 0])
    then show ?thesis using "1.prems" by simp
  next
    case False
    with "1.prems" have pos: "0 < n div 2" by linarith
    then have "0 < bit_length (n div 2)" by (simp add: bit_length.simps [of "n div 2"])
    then have "(2::int) ^ bit_length (n div 2) = 2 * 2 ^ (bit_length (n div 2) - 1)"
      by (simp flip: power_Suc)
    also have "\<dots> \<le> 2 * (n div 2)" using 1 pos by simp
    also have "\<dots> \<le> n" by simp
    finally show ?thesis using "1.prems" by (simp add: bit_length.simps [of n])
  qed
qed

lemma bit_length_mono: "m \<le> n \<Longrightarrow> bit_length m \<le> bit_length n"
proof -
  assume le: "m \<le> n"
  show ?thesis
  proof (cases "m \<le> 0")
    case True
    then show ?thesis by (simp add: bit_length.simps [of m])
  next
    case False
    then have "2 ^ (bit_length m - 1) \<le> m" using bit_length_lower [of m] by simp
    also have "m < 2 ^ bit_length n" using le bit_length_upper [of n] by linarith
    finally have "bit_length m - 1 < bit_length n" by simp
    then show ?thesis by linarith
  qed
qed

lemma rne_bounds: "0 < d \<Longrightarrow> n div d \<le> rne n d \<and> rne n d \<le> n div d + 1"
  by (simp add: rne_def Let_def)

lemma rne_exact: "0 < d \<Longrightarrow> rne (q * d) d = q"
  by (simp add: rne_def)

lemma rne_mono:
  assumes "0 < d" and "n \<le> n'"
  shows "rne n d \<le> rne n' d"
proof (cases "n div d = n' div d")
  case True
  have "n mod d \<le> n' mod d"
    using True assms(2) by (metis add_le_cancel_left div_mult_mod_eq)
  with True show ?thesis by (simp add: rne_def Let_def)
next
  case False
  moreover have "n div d \<le> n' div d" using assms by (simp add: zdiv_mono1)
  ultimately have "n div d + 1 \<le> n' div d" by simp
  with rne_bounds [OF assms(1), of n] rne_bounds [OF assms(1), of n'] show ?thesis by linarith
qed

lemma round_mag_nonneg: "0 \<le> n \<Longrightarrow> 0 < d \<Longrightarrow> 0 \<le> round_mag m n d"
  using rne_bounds [of "d * 2 ^ (bit_length (n div d) - (m + 1))" n]
  by (simp add: round_mag_def Let_def) (smt (verit) pos_imp_zdiv_nonneg_iff zero_less_mult_iff
      zero_less_power mult_nonneg_nonneg of_nat_0_le_iff zero_le_power)

lemma int_div_less: "(x::int) < y * z \<Longrightarrow> 0 < z \<Longrightarrow> x div z < y"
proof (rule ccontr)
  assume "x < y * z" and z: "0 < z" and "\<not> x div z < y"
  then have "y * z \<le> x div z * z" by (simp add: mult_right_mono)
  also have "\<dots> \<le> x" using z by (metis mult.commute div_mult_mod_eq le_add_same_cancel1 pos_mod_sign)
  finally show False using \<open>x < y * z\<close> by simp
qed

text \<open>The rounded significand stays within one binade of its exponent.\<close>

lemma round_sig_bounds:
  assumes "0 \<le> n" and "0 < d" and k: "k = bit_length (n div d) - (m + 1)"
  shows "rne n (d * 2 ^ k) \<le> 2 ^ (m + 1)" and "0 < k \<Longrightarrow> 2 ^ m \<le> rne n (d * 2 ^ k)"
proof -
  let ?q = "n div d"
  have q: "n div (d * 2 ^ k) = ?q div 2 ^ k" using assms by (simp add: zdiv_zmult2_eq)
  have up: "?q < 2 ^ bit_length ?q" by (rule bit_length_upper)
  have "?q < 2 ^ (m + 1 + k)"
    using up k power_increasing [of "bit_length ?q" "m + 1 + k" "2::int"] by linarith
  then have "?q < 2 ^ (m + 1) * 2 ^ k" by (simp add: power_add)
  then have "?q div 2 ^ k < 2 ^ (m + 1)" by (rule int_div_less)  simp
  then show "rne n (d * 2 ^ k) \<le> 2 ^ (m + 1)"
    using rne_bounds [of "d * 2 ^ k" n] assms q by (simp add: add1_zle_eq)
  assume pos: "0 < k"
  then have bl: "bit_length ?q - 1 = m + k" using k by linarith
  have "0 < ?q"
  proof (rule ccontr)
    assume "\<not> 0 < ?q"
    then show False using pos k by (simp add: bit_length.simps [of ?q])
  qed
  then have "2 ^ (m + k) \<le> ?q" using bit_length_lower [of ?q] bl by simp
  then have "2 ^ m \<le> ?q div 2 ^ k"
    by (metis power_add zero_less_power zero_less_numeral zdiv_mono1 nonzero_mult_div_cancel_right
        less_irrefl)
  then show "2 ^ m \<le> rne n (d * 2 ^ k)" using rne_bounds [of "d * 2 ^ k" n] assms q by simp
qed

lemma round_mag_mono:
  assumes "0 \<le> n" and "n \<le> n'" and "0 < d"
  shows "round_mag m n d \<le> round_mag m n' d"
proof -
  define k where "k = bit_length (n div d) - (m + 1)"
  define k' where "k' = bit_length (n' div d) - (m + 1)"
  have "n div d \<le> n' div d" using assms by (simp add: zdiv_mono1)
  then have kk: "k \<le> k'" unfolding k_def k'_def using bit_length_mono by (simp add: diff_le_mono)
  show ?thesis
  proof (cases "k = k'")
    case True
    then have "rne n (d * 2 ^ k) \<le> rne n' (d * 2 ^ k')" using assms by (simp add: rne_mono)
    with True show ?thesis by (simp add: round_mag_def Let_def k_def k'_def)
  next
    case False
    with kk have lt: "k < k'" by simp
    have "int k * 2 ^ m + rne n (d * 2 ^ k) \<le> int k * 2 ^ m + 2 ^ (m + 1)"
      using round_sig_bounds(1) [OF assms(1,3) k_def] by simp
    also have "\<dots> = (int k + 1) * 2 ^ m + 2 ^ m" by (simp add: algebra_simps)
    also have "\<dots> \<le> int k' * 2 ^ m + 2 ^ m"
      using lt by (intro add_right_mono mult_right_mono) auto
    also have "\<dots> \<le> int k' * 2 ^ m + rne n' (d * 2 ^ k')"
      using round_sig_bounds(2) [of n' d k' m] assms k'_def lt by simp
    finally show ?thesis by (simp add: round_mag_def Let_def k_def k'_def)
  qed
qed

text \<open>Magnitude bits above the first two binades are an exponent \<open>k\<close> and a full significand.\<close>

lemma mag_split:
  assumes "2 ^ (m + 1) \<le> b"
  defines "k \<equiv> b div 2 ^ m - 1"
  shows "1 \<le> k" and "2 ^ m \<le> b - k * 2 ^ m" and "b - k * 2 ^ m < 2 ^ (m + 1)"
    and "mag_units m b = (b - k * 2 ^ m) * 2 ^ nat k"
proof -
  have "2 * 2 ^ m \<le> b" using assms(1) by simp
  then have "2 \<le> b div 2 ^ m"
    by (metis zdiv_mono1 zero_less_power zero_less_numeral nonzero_mult_div_cancel_right less_irrefl)
  then show "1 \<le> k" by (simp add: k_def)
  have b: "b = b div 2 ^ m * 2 ^ m + b mod 2 ^ m" by (rule div_mult_mod_eq [symmetric])
  have r: "0 \<le> b mod 2 ^ m" "b mod 2 ^ m < 2 ^ m" by simp_all
  have e: "b - k * 2 ^ m = 2 ^ m + b mod 2 ^ m"
    using b by (simp add: k_def algebra_simps)
  show "2 ^ m \<le> b - k * 2 ^ m" "b - k * 2 ^ m < 2 ^ (m + 1)" using e r by simp_all
  show "mag_units m b = (b - k * 2 ^ m) * 2 ^ nat k"
    using assms(1) by (simp add: mag_units_def Let_def k_def)
qed

lemma bit_length_unique:
  assumes "2 ^ a \<le> n" and "n < 2 ^ Suc a"
  shows "bit_length n = Suc a"
proof -
  have pos: "0 < n" using assms(1) by (smt (verit) zero_less_power)
  have "(2::int) ^ (bit_length n - 1) < 2 ^ Suc a" using bit_length_lower [OF pos] assms(2) by linarith
  then have 1: "bit_length n - 1 < Suc a" by (simp only: power_strict_increasing_iff)
  have "(2::int) ^ a < 2 ^ bit_length n" using bit_length_upper [of n] assms(1) by linarith
  then have "a < bit_length n" by simp
  with 1 show ?thesis by linarith
qed

lemma round_mag_units:
  assumes "0 \<le> b"
  shows "round_mag m (mag_units m b) 1 = b"
proof (cases "b < 2 ^ (m + 1)")
  case True
  have "bit_length b \<le> m + 1"
  proof (cases "b = 0")
    case True
    then show ?thesis by (simp add: bit_length.simps)
  next
    case False
    then have "(2::int) ^ (bit_length b - 1) < 2 ^ (m + 1)"
      using bit_length_lower [of b] assms True by linarith
    then have "bit_length b - 1 < m + 1" by (simp only: power_strict_increasing_iff)
    then show ?thesis by simp
  qed
  with True show ?thesis
    using rne_exact [of 1 b] by (simp add: round_mag_def mag_units_def)
next
  case False
  then have hi: "2 ^ (m + 1) \<le> b" by simp
  define k where "k = b div 2 ^ m - 1"
  note ms = mag_split [OF hi, folded k_def]
  let ?s = "b - k * 2 ^ m"
  have lo: "2 ^ (m + nat k) \<le> ?s * 2 ^ nat k" using ms(2) by (simp add: power_add)
  have up: "?s * 2 ^ nat k < 2 ^ Suc (m + nat k)"
  proof -
    have "?s * 2 ^ nat k < 2 ^ (m + 1) * 2 ^ nat k" using ms(3) by (intro mult_strict_right_mono) auto
    then show ?thesis by (simp add: power_add)
  qed
  have "bit_length (?s * 2 ^ nat k) = Suc (m + nat k)" by (rule bit_length_unique [OF lo up])
  then have "bit_length (mag_units m b) - (m + 1) = nat k" using ms(4) by simp
  then show ?thesis
    using ms(1,4) rne_exact [of "2 ^ nat k" ?s] by (simp add: round_mag_def Let_def)
qed

lemma mag_units_nonneg: "0 \<le> b \<Longrightarrow> 0 \<le> mag_units m b"
proof (cases "b < 2 ^ (m + 1)")
  case True
  then show "0 \<le> b \<Longrightarrow> ?thesis" by (simp add: mag_units_def)
next
  case False
  then have "2 ^ (m + 1) \<le> b" by simp
  note ms = mag_split(2,4) [OF this]
  have "(0::int) \<le> 2 ^ m" by simp
  with ms(1) have "0 \<le> b - (b div 2 ^ m - 1) * 2 ^ m" by linarith
  then show ?thesis by (simp only: ms(2)) simp
qed

lemma mag_units_0 [simp]: "mag_units m 0 = 0"
  by (simp add: mag_units_def)

lemma mag_units_mono:
  assumes "0 \<le> a" and "a \<le> b"
  shows "mag_units m a \<le> mag_units m b"
proof (rule ccontr)
  assume "\<not> mag_units m a \<le> mag_units m b"
  then have "round_mag m (mag_units m b) 1 \<le> round_mag m (mag_units m a) 1"
    using assms by (intro round_mag_mono) (auto intro: mag_units_nonneg)
  then have "b \<le> a" using assms by (simp add: round_mag_units)
  with \<open>\<not> mag_units m a \<le> mag_units m b\<close> assms show False by simp
qed

subsection \<open>Keys of results\<close>

lemma fmag_range: "0 \<le> fmag x \<and> fmag x < 2 ^ 31"
  by (simp add: fmag_def)

lemma f32_pack_fields:
  assumes "0 \<le> b" and "b < 2 ^ 31"
  shows "fmag (f32_pack (s, b)) = b" and "fneg_bit (f32_pack (s, b)) = s"
proof -
  have "uint (word_of_int v :: 32 word) = v" if "0 \<le> v" "v < 2 ^ 32" for v :: int
    using that by (simp add: uint_word_of_int)
  from this [of "2 ^ 31 + b"] this [of b]
  have u: "uint (f32_pack (s, b)) = (if s then 2 ^ 31 + b else b)"
    using assms by (cases s) (simp_all add: f32_pack_def del: of_int_add)
  show "fmag (f32_pack (s, b)) = b"
  proof (cases s)
    case True
    have "(2 ^ 31 + b) mod 2 ^ 31 = b mod 2 ^ 31" by simp
    with True u assms show ?thesis by (simp add: fmag_def)
  next
    case False
    with u assms show ?thesis by (simp add: fmag_def)
  qed
  show "fneg_bit (f32_pack (s, b)) = s" using u assms by (simp add: fneg_bit_def)
qed

text \<open>Rounded magnitude bits, saturating at infinity.\<close>

definition rmag :: "int \<Rightarrow> int \<Rightarrow> int" where
  "rmag n d = min (255 * 2 ^ 23) (round_mag 23 n d)"

lemma rmag_0 [simp]: "rmag 0 1 = 0"
  using round_mag_units [of 0 23] by (simp add: rmag_def)

lemma rmag_nonneg: "0 \<le> n \<Longrightarrow> 0 < d \<Longrightarrow> 0 \<le> rmag n d"
  by (simp add: rmag_def round_mag_nonneg)

lemma rmag_mono: "0 \<le> n \<Longrightarrow> n \<le> n' \<Longrightarrow> 0 < d \<Longrightarrow> rmag n d \<le> rmag n' d"
  unfolding rmag_def by (intro min.mono order_refl round_mag_mono)

lemma f32_of_XRat:
  assumes "0 \<le> n" and "0 < d"
  shows "fmag (f32_of (XRat s n d)) = rmag n d" and "fneg_bit (f32_of (XRat s n d)) = s"
    and "\<not> fisnan (f32_of (XRat s n d))"
proof -
  have r: "0 \<le> rmag n d" "rmag n d \<le> 255 * 2 ^ 23"
    using assms by (auto simp: rmag_nonneg) (simp add: rmag_def)
  have e: "f32_of (XRat s n d) = f32_pack (s, rmag n d)"
    by (simp add: f32_of_def xround_def rmag_def binary32_def)
  have "rmag n d < 2 ^ 31" using r by simp
  then show m: "fmag (f32_of (XRat s n d)) = rmag n d" and "fneg_bit (f32_of (XRat s n d)) = s"
    using f32_pack_fields [of "rmag n d" s] r by (simp_all add: e)
  show "\<not> fisnan (f32_of (XRat s n d))" using m r by (simp add: fisnan_def)
qed

lemma f32_of_XInf:
  "fmag (f32_of (XInf s)) = 255 * 2 ^ 23" "fneg_bit (f32_of (XInf s)) = s"
  "\<not> fisnan (f32_of (XInf s))"
  using f32_pack_fields [of "255 * 2 ^ 23" s]
  by (auto simp: f32_of_def xround_def binary32_def fisnan_def)

text \<open>The signed value in units of a finite number, and the key a signed value rounds to.\<close>

definition fint :: "f32 \<Rightarrow> int" where
  "fint x = fp_int (fneg_bit x) (mag_units 23 (fmag x))"

definition skey :: "int \<Rightarrow> int" where
  "skey v = (if v < 0 then - rmag (- v) 1 else rmag v 1)"

lemma skey_mono: "v \<le> w \<Longrightarrow> skey v \<le> skey w"
  using rmag_mono [of "- w" "- v" 1] rmag_mono [of v w 1] rmag_nonneg [of "- v" 1] rmag_nonneg [of w 1]
  by (auto simp: skey_def)

lemma fval_finite: "ffinite x \<Longrightarrow> fval x = FFin (fneg_bit x) (mag_units 23 (fmag x))"
  by (simp add: fval_def fp_of_mag_def ffinite_def binary32_def)

lemma skey_fint: "ffinite x \<Longrightarrow> skey (fint x) = fkey x"
proof -
  assume f: "ffinite x"
  have "rmag (mag_units 23 (fmag x)) 1 = fmag x"
    using f fmag_range [of x] by (simp add: rmag_def round_mag_units ffinite_def)
  moreover have "0 \<le> mag_units 23 (fmag x)" using fmag_range by (simp add: mag_units_nonneg)
  ultimately show ?thesis
    by (cases "mag_units 23 (fmag x) = 0") (auto simp: skey_def fint_def fkey_def fp_int_def)
qed

lemma fint_mono:
  assumes "ffinite x" and "ffinite y" and "fkey x \<le> fkey y"
  shows "fint x \<le> fint y"
proof -
  note r = fmag_range [of x] fmag_range [of y]
  note nn = mag_units_nonneg [of "fmag x" 23] mag_units_nonneg [of "fmag y" 23]
  consider (pp) "\<not> fneg_bit x" "\<not> fneg_bit y" | (np) "fneg_bit x" "\<not> fneg_bit y"
    | (nn) "fneg_bit x" "fneg_bit y" | (pn) "\<not> fneg_bit x" "fneg_bit y"
    by blast
  then show ?thesis
  proof cases
    case pp
    then show ?thesis using assms r mag_units_mono [of "fmag x" "fmag y" 23]
      by (simp add: fint_def fkey_def fp_int_def)
  next
    case np
    then show ?thesis using r nn by (simp add: fint_def fp_int_def)
  next
    case nn
    then show ?thesis using assms r mag_units_mono [of "fmag y" "fmag x" 23]
      by (simp add: fint_def fkey_def fp_int_def)
  next
    case pn
    with assms r have "fmag x = 0" "fmag y = 0" by (auto simp: fkey_def fp_int_def)
    then show ?thesis by (simp add: fint_def fp_int_def)
  qed
qed

lemma fkey_of_int:
  "fkey (f32_of (x_of_int s v)) = skey v \<and> \<not> fisnan (f32_of (x_of_int s v))"
proof -
  show ?thesis
    by (auto simp: x_of_int_def fkey_def fp_int_def skey_def f32_of_XRat)
qed

lemma fkey_fsub:
  assumes "ffinite x" and "ffinite y"
  shows "fkey (fsub x y) = skey (fint x - fint y)" and "\<not> fisnan (fsub x y)"
  using fkey_of_int [of "fneg_bit x \<and> \<not> fneg_bit y" "fint x - fint y"] assms
  by (auto simp: fsub_def fval_finite fint_def fp_int_def)

lemma fkey_fadd:
  assumes "ffinite x" and "ffinite y"
  shows "fkey (fadd x y) = skey (fint x + fint y)" and "\<not> fisnan (fadd x y)"
  using fkey_of_int [of "fneg_bit x \<and> fneg_bit y" "fint x + fint y"] assms
  by (auto simp: fadd_def fval_finite fint_def fp_int_def)

text \<open>Squares: the key of a square depends on the magnitude only and is monotone in it.\<close>

definition sqmag :: "int \<Rightarrow> int" where
  "sqmag b = (if b < 255 * 2 ^ 23 then rmag (mag_units 23 b * mag_units 23 b) (2 ^ 149)
     else 255 * 2 ^ 23)"

lemma fkey_square:
  assumes "\<not> fisnan x"
  shows "fkey (fmul x x) = sqmag (fmag x)" and "\<not> fisnan (fmul x x)"
proof -
  have nn: "0 \<le> mag_units 23 (fmag x) * mag_units 23 (fmag x)" by simp
  show "fkey (fmul x x) = sqmag (fmag x)"
    using assms f32_of_XRat [OF nn, of "2 ^ 149" False] f32_of_XInf [of False]
    by (cases "ffinite x")
      (auto simp: fmul_def fval_finite fval_def fp_of_mag_def binary32_def ffinite_def fisnan_def
        sqmag_def fkey_def fp_int_def)
  show "\<not> fisnan (fmul x x)"
  proof (cases "ffinite x")
    case True
    then show ?thesis
      using f32_of_XRat(3) [OF nn, of "2 ^ 149" False] by (simp add: fmul_def fval_finite)
  next
    case False
    with assms have "fval x = FInf (fneg_bit x)"
      by (simp add: fval_def fp_of_mag_def binary32_def ffinite_def fisnan_def)
    then show ?thesis using f32_of_XInf(3) by (simp add: fmul_def)
  qed
qed

lemma sqmag_mono: "0 \<le> a \<Longrightarrow> a \<le> b \<Longrightarrow> sqmag a \<le> sqmag b"
  using rmag_mono [of "mag_units 23 a * mag_units 23 a" "mag_units 23 b * mag_units 23 b" "2 ^ 149"]
    mag_units_mono [of a b 23] mag_units_nonneg [of a 23]
  by (auto simp: sqmag_def mult_mono) (simp add: rmag_def)

lemma fmag_abs_key: "fmag x = \<bar>fkey x\<bar>"
  using fmag_range [of x] by (auto simp: fkey_def fp_int_def)

text \<open>
  The square of a rounded difference grows with the distance: if \<open>n\<close> lies between \<open>q\<close> and \<open>p\<close>, the
  square of \<open>q - n\<close> is at most the square of \<open>q - p\<close>, rounding and overflow included.
\<close>

lemma fsq_diff_mono:
  assumes fin: "ffinite q" "ffinite n" "ffinite p"
    and between: "fkey q \<le> fkey n \<and> fkey n \<le> fkey p \<or> fkey p \<le> fkey n \<and> fkey n \<le> fkey q"
  shows "fkey (fmul (fsub q n) (fsub q n)) \<le> fkey (fmul (fsub q p) (fsub q p))"
proof -
  have z: "skey 0 = 0" by (simp add: skey_def)
  from between have "\<bar>skey (fint q - fint n)\<bar> \<le> \<bar>skey (fint q - fint p)\<bar>"
  proof
    assume "fkey q \<le> fkey n \<and> fkey n \<le> fkey p"
    then have "fint q \<le> fint n" "fint n \<le> fint p" using fin fint_mono by auto
    then show ?thesis
      using skey_mono [of "fint q - fint p" "fint q - fint n"] skey_mono [of "fint q - fint n" 0] z
      by linarith
  next
    assume "fkey p \<le> fkey n \<and> fkey n \<le> fkey q"
    then have "fint p \<le> fint n" "fint n \<le> fint q" using fin fint_mono by auto
    then show ?thesis
      using skey_mono [of "fint q - fint n" "fint q - fint p"] skey_mono [of 0 "fint q - fint n"] z
      by linarith
  qed
  then have "fmag (fsub q n) \<le> fmag (fsub q p)"
    using fkey_fsub(1) fin by (simp add: fmag_abs_key)
  then show ?thesis
    using fkey_square fkey_fsub(2) fin fmag_range [of "fsub q n"] by (simp add: sqmag_mono)
qed

end
