(* ===== verification/RowidMap.thy ===== *)
theory RowidMap
  imports Prelude
begin

text \<open>
  The set of row ids that pass the filters of a nearest-neighbour query (\<open>RowidMap\<close> in
  \<^verbatim>\<open>sqlite-vec.c\<close>): a growable array filled chunk by chunk and then sorted, which the three index
  searches probe with \<open>bsearch\<close>. \<open>rowids\<close> holds the first \<open>count\<close> entries of the C array.
\<close>

record rowid_map =
  rowids :: "i64 list"
  capacity :: nat
  pre_filter :: bool

definition map_count :: "rowid_map \<Rightarrow> nat" where
  "map_count m = length (rowids m)"

text \<open>\<open>ok\<close> is the outcome of the reallocation, when one is needed.\<close>

definition rowid_map_add :: "bool \<Rightarrow> rowid_map \<Rightarrow> i64 \<Rightarrow> sqlite_rc \<times> rowid_map" where
  "rowid_map_add ok m r =
     (if map_count m \<ge> capacity m
      then (if ok
            then (SQLITE_OK, m\<lparr>capacity := capacity m * 2 + 16, rowids := rowids m @ [r]\<rparr>)
            else (SQLITE_NOMEM, m))
      else (SQLITE_OK, m\<lparr>rowids := rowids m @ [r]\<rparr>))"

definition map_wf :: "rowid_map \<Rightarrow> bool" where
  "map_wf m \<longleftrightarrow> map_count m \<le> capacity m"

text \<open>The membership test the index searches make.\<close>

definition map_has :: "rowid_map \<Rightarrow> i64 \<Rightarrow> bool" where
  "map_has m r \<longleftrightarrow> c_bsearch cmp_i64 r (rowids m) \<noteq> None"

lemma map_has_sorted: "sorted (rowids m) \<Longrightarrow> map_has m r \<longleftrightarrow> r \<in> set (rowids m)"
  unfolding map_has_def by (rule c_bsearch_iff)

text \<open>The final sort of \<open>vec0Filter_chunks_to_rowid_map\<close>.\<close>

definition map_sort :: "rowid_map \<Rightarrow> rowid_map" where
  "map_sort m = m\<lparr>rowids := c_qsort cmp_i64 (rowids m)\<rparr>"

lemma map_sort_sorted: "sorted (rowids (map_sort m))"
  using sorted_c_qsort [OF cmp_i64_by, of "rowids m"] by (simp add: map_sort_def)

lemma map_sort_has: "map_has (map_sort m) r \<longleftrightarrow> r \<in> set (rowids m)"
  using map_has_sorted [OF map_sort_sorted] by (simp add: map_sort_def)

fun rowid_map_add_all :: "bool \<Rightarrow> rowid_map \<Rightarrow> i64 list \<Rightarrow> sqlite_rc \<times> rowid_map" where
  "rowid_map_add_all ok m [] = (SQLITE_OK, m)"
| "rowid_map_add_all ok m (r # rs) =
     (case rowid_map_add ok m r of
        (SQLITE_OK, m') \<Rightarrow> rowid_map_add_all ok m' rs
      | (rc, m') \<Rightarrow> (rc, m'))"

lemma rowid_map_add_ok:
  "map_wf m \<Longrightarrow> fst (rowid_map_add True m r) = SQLITE_OK
     \<and> map_wf (snd (rowid_map_add True m r))
     \<and> rowids (snd (rowid_map_add True m r)) = rowids m @ [r]
     \<and> pre_filter (snd (rowid_map_add True m r)) = pre_filter m"
  by (auto simp: rowid_map_add_def map_wf_def map_count_def)

lemma rowid_map_add_all_ok:
  "map_wf m \<Longrightarrow> \<exists>m'. rowid_map_add_all True m rs = (SQLITE_OK, m') \<and> map_wf m'
     \<and> rowids m' = rowids m @ rs \<and> pre_filter m' = pre_filter m"
proof (induction rs arbitrary: m)
  case Nil
  then show ?case by simp
next
  case (Cons r rs)
  obtain m1 where m1: "rowid_map_add True m r = (SQLITE_OK, m1)" "map_wf m1"
    "rowids m1 = rowids m @ [r]" "pre_filter m1 = pre_filter m"
    using rowid_map_add_ok [OF Cons.prems, of r] by (cases "rowid_map_add True m r") auto
  then show ?case using Cons.IH [OF m1(2)] by auto
qed

end
