(* ===== verification/Hits.thy ===== *)
theory Hits
  imports IEEE_Float RowidMap
begin

text \<open>
  Search results: a hit is a row id with its distance, ordered by the order key of the distance. The
  searches of the three indexes and of the flat scan all work on lists of hits.
\<close>

type_synonym hit = "i64 \<times> f32"
type_synonym hits = "hit list"
type_synonym distance_func = "f32 list \<Rightarrow> f32 list \<Rightarrow> nat \<Rightarrow> f32"

abbreviation hit_key :: "hit \<Rightarrow> int" where
  "hit_key h \<equiv> fkey (snd h)"

definition hits_ok :: "nat \<Rightarrow> hits \<Rightarrow> bool" where
  "hits_ok k hs \<longleftrightarrow> length hs \<le> k \<and> (\<forall>h\<in>set hs. \<not> fisnan (snd h))"

text \<open>The filter of a search: without a pre-filter every row passes.\<close>

definition passes :: "rowid_map \<Rightarrow> i64 \<Rightarrow> bool" where
  "passes m r \<longleftrightarrow> \<not> pre_filter m \<or> map_has m r"

definition no_filter :: rowid_map where
  "no_filter = \<lparr>rowids = [], capacity = 0, pre_filter = False\<rparr>"

end
