(* ===== verification/VecIndex.thy ===== *)
theory VecIndex
  imports Prelude
begin

text \<open>
  The contract a vector index gives to the virtual table that maintains it: adding a vector adds
  exactly one live entry, deleting a row id that is stored at most once removes exactly its entries,
  and both keep the index well formed. The k-d tree, the inverted file and the layered graph are its
  interpretations; what the table relies on is proved here once.
\<close>

definition drop_row :: "i64 \<Rightarrow> ('v \<times> i64) multiset \<Rightarrow> ('v \<times> i64) multiset" where
  "drop_row rowid M = filter_mset (\<lambda>x. snd x \<noteq> rowid) M"

lemma drop_row_simps [simp]:
  "drop_row i {#} = {#}" "drop_row i (M + N) = drop_row i M + drop_row i N"
  "drop_row i (add_mset x M) = (if snd x = i then drop_row i M else add_mset x (drop_row i M))"
  by (auto simp: drop_row_def)

lemma drop_row_absent: "(\<And>x. x \<in># M \<Longrightarrow> snd x \<noteq> rowid) \<Longrightarrow> drop_row rowid M = M"
  by (simp add: drop_row_def filter_mset_eq_conv)

lemma drop_row_sum: "drop_row r (sum_list Ms) = sum_list (map (drop_row r) Ms)"
  by (induction Ms) auto

text \<open>
  \<open>room s n\<close> says that \<open>n\<close> more vectors fit; an index without a bound always has room.
\<close>

locale index_ops =
  fixes add :: "'v \<Rightarrow> i64 \<Rightarrow> 's \<Rightarrow> 's"
    and del :: "i64 \<Rightarrow> 's \<Rightarrow> 's"
    and live :: "'s \<Rightarrow> ('v \<times> i64) multiset"
    and stored :: "'s \<Rightarrow> i64 multiset"
    and inv :: "'s \<Rightarrow> bool"
    and vec_ok :: "'v \<Rightarrow> i64 \<Rightarrow> bool"
    and row_ok :: "i64 \<Rightarrow> bool"
    and room :: "'s \<Rightarrow> nat \<Rightarrow> bool"
  assumes add_inv: "inv s \<Longrightarrow> vec_ok v r \<Longrightarrow> room s (Suc n) \<Longrightarrow> inv (add v r s)"
    and add_room: "inv s \<Longrightarrow> vec_ok v r \<Longrightarrow> room s (Suc n) \<Longrightarrow> room (add v r s) n"
    and add_live: "inv s \<Longrightarrow> vec_ok v r \<Longrightarrow> room s (Suc n) \<Longrightarrow> live (add v r s) = add_mset (v, r) (live s)"
    and add_stored: "inv s \<Longrightarrow> vec_ok v r \<Longrightarrow> room s (Suc n) \<Longrightarrow> stored (add v r s) \<subseteq># add_mset r (stored s)"
    and del_inv: "inv s \<Longrightarrow> row_ok r \<Longrightarrow> count (stored s) r \<le> 1 \<Longrightarrow> inv (del r s)"
    and del_room: "inv s \<Longrightarrow> row_ok r \<Longrightarrow> count (stored s) r \<le> 1 \<Longrightarrow> room s n \<Longrightarrow> room (del r s) n"
    and del_live: "inv s \<Longrightarrow> row_ok r \<Longrightarrow> count (stored s) r \<le> 1 \<Longrightarrow>
      live (del r s) = drop_row r (live s)"
    and del_stored: "inv s \<Longrightarrow> row_ok r \<Longrightarrow> count (stored s) r \<le> 1 \<Longrightarrow> stored (del r s) \<subseteq># stored s"

text \<open>An index that starts empty.\<close>

locale vec_index = index_ops +
  fixes empty :: 'b
  assumes empty_inv: "inv empty"
    and empty_live: "live empty = {#}"
    and empty_stored: "stored empty = {#}"
begin

definition load :: "('a \<times> i64) list \<Rightarrow> 'b" where
  "load rows = fold (\<lambda>(v, r). add v r) rows empty"

lemma fold_add:
  assumes "inv s" and "\<forall>x\<in>set rows. vec_ok (fst x) (snd x)" and "room s (length rows)"
  shows "inv (fold (\<lambda>(v, r). add v r) rows s)
    \<and> live (fold (\<lambda>(v, r). add v r) rows s) = live s + mset rows
    \<and> stored (fold (\<lambda>(v, r). add v r) rows s) \<subseteq># stored s + mset (map snd rows)"
  using assms
proof (induction rows arbitrary: s)
  case Nil
  then show ?case by simp
next
  case (Cons x rows)
  obtain v r where x: "x = (v, r)" by force
  have ok: "vec_ok v r" "room s (Suc (length rows))" using Cons.prems x by simp_all
  have "inv (add v r s)" "room (add v r s) (length rows)"
    using Cons.prems(1) ok by (rule add_inv add_room)+
  from Cons.IH [OF this(1) _ this(2)] Cons.prems
  have IH: "inv (fold (\<lambda>(v, r). add v r) rows (add v r s))"
    "live (fold (\<lambda>(v, r). add v r) rows (add v r s)) = live (add v r s) + mset rows"
    "stored (fold (\<lambda>(v, r). add v r) rows (add v r s)) \<subseteq># stored (add v r s) + mset (map snd rows)"
    by auto
  have "stored (add v r s) + mset (map snd rows) \<subseteq># add_mset r (stored s) + mset (map snd rows)"
    using add_stored [OF Cons.prems(1) ok] by simp
  with IH(3) have "stored (fold (\<lambda>(v, r). add v r) rows (add v r s))
      \<subseteq># stored s + mset (map snd (x # rows))"
    using x by (metis (no_types, lifting) add_mset_add_single list.simps(9) mset.simps(2) snd_conv
        subset_mset.order_trans union_mset_add_mset_left union_mset_add_mset_right)
  then show ?case using IH add_live [OF Cons.prems(1) ok] x by simp
qed

lemma load_live:
  "\<forall>x\<in>set rows. vec_ok (fst x) (snd x) \<Longrightarrow> room empty (length rows) \<Longrightarrow>
   inv (load rows) \<and> live (load rows) = mset rows"
  using fold_add [OF empty_inv, of rows] by (simp add: load_def empty_live)

lemma load_del_live:
  assumes "\<forall>x\<in>set rows. vec_ok (fst x) (snd x)" and "room empty (length rows)"
    and "distinct (map snd rows)" and "row_ok r"
  shows "inv (del r (load rows)) \<and> live (del r (load rows)) = drop_row r (mset rows)"
proof -
  have "stored (load rows) \<subseteq># mset (map snd rows)"
    using fold_add [OF empty_inv assms(1,2)] by (simp add: load_def empty_stored)
  then have "count (stored (load rows)) r \<le> count (mset (map snd rows)) r"
    by (rule mset_subset_eq_count)
  also have "\<dots> \<le> 1" using assms(3) by (simp add: distinct_count_atmost_1)
  finally show ?thesis using load_live [OF assms(1,2)] assms(4) by (simp add: del_inv del_live)
qed

end

end
