(* ===== verification/KDTree.thy ===== *)
theory KDTree
  imports Hits VecIndex
begin

text \<open>
  The k-d tree index of \<^verbatim>\<open>sqlite-vec.c\<close> (\<open>KDNode\<close>, \<open>KDTree\<close>): insertion with local rebuilds, deletion by
  tombstones, bounded nearest-neighbour search, lookup by row id and the file format. A \<open>KDNode *\<close> is
  a value of \<open>kdnode\<close>, \<open>NULL\<close> is \<open>KDNull\<close>; the in-place updates of a subtree become its new value.
  Coordinates are binary32 patterns, so comparisons, the balance factors and the pruning test are the
  ones the C code evaluates. The distance function is the function pointer the code is given; it is an
  argument here, its result already converted to \<open>float\<close>.
\<close>

datatype kdnode =
    KDNull
  | KDNode (kd_point: "f32 list") (kd_rowid: i64) (kd_left: kdnode) (kd_right: kdnode)
      (kd_axis: nat) (kd_size: nat) (kd_deleted: bool) (kd_invalid_count: nat)

record kdtree =
  kd_root :: kdnode
  kd_dimensions :: nat
  kd_tree_size :: nat

type_synonym point_rec = "f32 list \<times> i64"

subsection \<open>Sizes, balance, rebuilding\<close>

fun node_size :: "kdnode \<Rightarrow> nat" where
  "node_size KDNull = 0"
| "node_size (KDNode p r lt rt ax sz del ic) = sz"

fun node_invalid :: "kdnode \<Rightarrow> nat" where
  "node_invalid KDNull = 0"
| "node_invalid (KDNode p r lt rt ax sz del ic) = ic"

fun pullup :: "kdnode \<Rightarrow> kdnode" where
  "pullup KDNull = KDNull"
| "pullup (KDNode p r lt rt ax sz del ic) =
     KDNode p r lt rt ax (1 + node_size lt + node_size rt) del
       ((if del then 1 else 0) + node_invalid lt + node_invalid rt)"

definition ALPHA_BAL :: f32 where
  "ALPHA_BAL = 0x3F400000"

definition ALPHA_DEL :: f32 where
  "ALPHA_DEL = 0x3E99999A"

fun is_unbalanced :: "kdnode \<Rightarrow> bool" where
  "is_unbalanced KDNull = False"
| "is_unbalanced (KDNode p r lt rt ax sz del ic) =
     (if sz \<le> 2 then False
      else (let bound = fmul ALPHA_BAL (f32_of_int (int sz)) in
            flt bound (f32_of_int (int (node_size lt))) \<or>
            flt bound (f32_of_int (int (node_size rt)))))"

fun too_many_deleted :: "kdnode \<Rightarrow> bool" where
  "too_many_deleted KDNull = False"
| "too_many_deleted (KDNode p r lt rt ax sz del ic) =
     flt (fmul ALPHA_DEL (f32_of_int (int sz))) (f32_of_int (int ic))"

fun collect_valid_nodes :: "kdnode \<Rightarrow> point_rec list" where
  "collect_valid_nodes KDNull = []"
| "collect_valid_nodes (KDNode p r lt rt ax sz del ic) =
     collect_valid_nodes lt @ (if del then [] else [(p, r)]) @ collect_valid_nodes rt"

text \<open>The comparison reads the axis from the file-level variable \<open>current_axis\<close>.\<close>

definition pointrec_cmp :: "nat \<Rightarrow> point_rec \<Rightarrow> point_rec \<Rightarrow> int" where
  "pointrec_cmp current_axis a b =
     (if flt (fst a ! current_axis) (fst b ! current_axis) then -1
      else if flt (fst b ! current_axis) (fst a ! current_axis) then 1 else 0)"

text \<open>\<open>arr\<close> is the part \<open>[l, r)\<close> of the array that the call sorts and splits.\<close>

function build_balanced :: "point_rec list \<Rightarrow> nat \<Rightarrow> nat \<Rightarrow> kdnode" where
  "build_balanced arr depth dims =
     (if arr = [] then KDNull
      else (let axis = depth mod dims;
                sorted_arr = c_qsort (pointrec_cmp axis) arr;
                mid = length arr div 2
            in pullup (KDNode (fst (sorted_arr ! mid)) (snd (sorted_arr ! mid))
                 (build_balanced (take mid sorted_arr) (depth + 1) dims)
                 (build_balanced (drop (mid + 1) sorted_arr) (depth + 1) dims)
                 axis 0 False 0)))"
  by pat_completeness auto
termination
  by (relation "measure (\<lambda>(arr, depth, dims). length arr)") (auto simp: length_greater_0_conv)

declare build_balanced.simps [simp del]

fun rebuild_subtree :: "kdnode \<Rightarrow> nat \<Rightarrow> kdnode" where
  "rebuild_subtree KDNull dims = KDNull"
| "rebuild_subtree root dims = build_balanced (collect_valid_nodes root) 0 dims"

subsection \<open>Insertion and deletion\<close>

text \<open>\<open>ok\<close> is the outcome of the two allocations of the new leaf.\<close>

fun kdtree_insert_rec :: "bool \<Rightarrow> kdnode \<Rightarrow> f32 list \<Rightarrow> i64 \<Rightarrow> nat \<Rightarrow> nat \<Rightarrow> kdnode" where
  "kdtree_insert_rec ok KDNull point rowid depth dims =
     (if ok then KDNode (take dims point) rowid KDNull KDNull (depth mod dims) 1 False 0 else KDNull)"
| "kdtree_insert_rec ok (KDNode p r lt rt ax sz del ic) point rowid depth dims =
     (let node =
        (if flt (point ! ax) (p ! ax)
         then pullup (KDNode p r (kdtree_insert_rec ok lt point rowid (depth + 1) dims) rt ax sz del ic)
         else pullup (KDNode p r lt (kdtree_insert_rec ok rt point rowid (depth + 1) dims) ax sz del ic))
      in if is_unbalanced node \<or> too_many_deleted node then rebuild_subtree node dims else node)"

definition kdtree_insert :: "bool \<Rightarrow> kdtree \<Rightarrow> f32 list \<Rightarrow> i64 \<Rightarrow> nat \<Rightarrow> sqlite_rc \<times> kdtree" where
  "kdtree_insert ok tree point rowid dims =
     (let newRoot = kdtree_insert_rec ok (kd_root tree) point rowid 0 dims in
      if newRoot = KDNull then (SQLITE_NOMEM, tree)
      else (SQLITE_OK, tree\<lparr>kd_root := newRoot, kd_tree_size := kd_tree_size tree + 1\<rparr>))"

fun kdtree_delete_rec :: "kdnode \<Rightarrow> i64 \<Rightarrow> nat \<Rightarrow> nat \<Rightarrow> kdnode" where
  "kdtree_delete_rec KDNull rowid depth dims = KDNull"
| "kdtree_delete_rec (KDNode p r lt rt ax sz del ic) rowid depth dims =
     (if r = rowid
      then (let node = pullup (KDNode p r lt rt ax sz True ic) in
            if too_many_deleted node then rebuild_subtree node dims else node)
      else (let node = pullup (KDNode p r (kdtree_delete_rec lt rowid (depth + 1) dims)
                                          (kdtree_delete_rec rt rowid (depth + 1) dims) ax sz del ic) in
            if is_unbalanced node \<or> too_many_deleted node then rebuild_subtree node dims else node))"

text \<open>The row id parameter of \<open>kdtree_delete\<close> is an \<open>int\<close>.\<close>

definition kdtree_delete :: "kdtree \<Rightarrow> i64 \<Rightarrow> sqlite_rc \<times> kdtree" where
  "kdtree_delete tree rowid =
     (if kd_root tree = KDNull then (SQLITE_ERROR, tree)
      else (SQLITE_OK, tree\<lparr>kd_root :=
              kdtree_delete_rec (kd_root tree) (c_int rowid) 0 (kd_dimensions tree)\<rparr>))"

definition kdtree_update :: "bool \<Rightarrow> kdtree \<Rightarrow> i64 \<Rightarrow> f32 list \<Rightarrow> nat \<Rightarrow> sqlite_rc \<times> kdtree" where
  "kdtree_update ok tree rowid new_point dims =
     (if kd_root tree = KDNull then (SQLITE_ERROR, tree)
      else (case kdtree_delete tree rowid of
              (SQLITE_OK, tree') \<Rightarrow> kdtree_insert ok tree' new_point rowid dims
            | (rc, tree') \<Rightarrow> (rc, tree')))"

fun kdtree_find_vector_by_rowid_rec :: "kdnode \<Rightarrow> i64 \<Rightarrow> f32 list option" where
  "kdtree_find_vector_by_rowid_rec KDNull rowid = None"
| "kdtree_find_vector_by_rowid_rec (KDNode p r lt rt ax sz del ic) rowid =
     (if \<not> del \<and> r = rowid then Some p
      else (case kdtree_find_vector_by_rowid_rec lt rowid of
              Some res \<Rightarrow> Some res
            | None \<Rightarrow> kdtree_find_vector_by_rowid_rec rt rowid))"

definition kdtree_find_vector_by_rowid :: "kdtree \<Rightarrow> i64 \<Rightarrow> f32 list option" where
  "kdtree_find_vector_by_rowid tree rowid = kdtree_find_vector_by_rowid_rec (kd_root tree) rowid"

text \<open>The least point along an axis; the axis of a level is taken from the depth.\<close>

fun kdtree_find_min :: "kdnode \<Rightarrow> nat \<Rightarrow> nat \<Rightarrow> nat \<Rightarrow> kdnode" where
  "kdtree_find_min KDNull axis depth dims = KDNull"
| "kdtree_find_min (KDNode p r lt rt ax sz del ic) axis depth dims =
     (let node = KDNode p r lt rt ax sz del ic in
      if depth mod dims = axis
      then (if lt = KDNull then node else kdtree_find_min lt axis (depth + 1) dims)
      else (let left_min = kdtree_find_min lt axis (depth + 1) dims;
                right_min = kdtree_find_min rt axis (depth + 1) dims;
                m1 = (if left_min \<noteq> KDNull \<and> flt (kd_point left_min ! axis) (p ! axis)
                      then left_min else node)
            in if right_min \<noteq> KDNull \<and> flt (kd_point right_min ! axis) (kd_point m1 ! axis)
               then right_min else m1))"

subsection \<open>Bounded search\<close>

text \<open>The scan for the largest distance in a full buffer: index and value.\<close>

definition max_hit :: "nat \<Rightarrow> hits \<Rightarrow> nat \<times> f32" where
  "max_hit k hs = foldl (\<lambda>(maxIdx, maxDist) i.
       if flt maxDist (snd (hs ! i)) then (i, snd (hs ! i)) else (maxIdx, maxDist))
     (0, snd (hs ! 0)) [1..<k]"

definition topk_insert :: "nat \<Rightarrow> i64 \<Rightarrow> f32 \<Rightarrow> hits \<Rightarrow> hits" where
  "topk_insert k rowid dist2 hs =
     (if length hs < k then hs @ [(rowid, dist2)]
      else (let (maxIdx, maxDist) = max_hit k hs in
            if flt dist2 maxDist then hs[maxIdx := (rowid, dist2)] else hs))"

fun kdtree_search_topk_rec ::
  "kdnode \<Rightarrow> f32 list \<Rightarrow> nat \<Rightarrow> nat \<Rightarrow> hits \<Rightarrow> rowid_map \<Rightarrow> distance_func \<Rightarrow> hits" where
  "kdtree_search_topk_rec KDNull query dims k hs m distfunc = hs"
| "kdtree_search_topk_rec (KDNode p r lt rt ax sz del ic) query dims k hs m distfunc =
     (let hs1 = (if \<not> del then
                   (let dist2 = distfunc query p dims; valid = map_has m r in
                    if \<not> pre_filter m \<or> valid then topk_insert k r dist2 hs else hs)
                 else hs);
          go_left = flt (query ! ax) (p ! ax);
          hs2 = (if go_left then kdtree_search_topk_rec lt query dims k hs1 m distfunc
                 else kdtree_search_topk_rec rt query dims k hs1 m distfunc);
          diff = fsub (query ! ax) (p ! ax);
          maxDist2 = (if length hs2 = k then snd (max_hit k hs2) else FLT_MAX)
      in if flt (fmul diff diff) maxDist2
         then (if go_left then kdtree_search_topk_rec rt query dims k hs2 m distfunc
               else kdtree_search_topk_rec lt query dims k hs2 m distfunc)
         else hs2)"

text \<open>A missing tree and a \<open>k\<close> that is not positive give no results; \<open>k\<close> is a C \<open>int\<close>.\<close>

definition kdtree_topk ::
  "kdtree option \<Rightarrow> f32 list \<Rightarrow> int \<Rightarrow> rowid_map \<Rightarrow> distance_func \<Rightarrow> hits" where
  "kdtree_topk tree query k m distfunc =
     (case tree of
        None \<Rightarrow> []
      | Some t \<Rightarrow>
          if kd_root t = KDNull \<or> k \<le> 0 then []
          else kdtree_search_topk_rec (kd_root t) query (kd_dimensions t) (nat k) [] m distfunc)"

subsection \<open>The contents of a tree and its invariant\<close>

fun kd_points :: "kdnode \<Rightarrow> f32 list set" where
  "kd_points KDNull = {}"
| "kd_points (KDNode p r lt rt ax sz del ic) = insert p (kd_points lt \<union> kd_points rt)"

fun kd_count :: "kdnode \<Rightarrow> nat" where
  "kd_count KDNull = 0"
| "kd_count (KDNode p r lt rt ax sz del ic) = 1 + kd_count lt + kd_count rt"

fun kd_dead :: "kdnode \<Rightarrow> nat" where
  "kd_dead KDNull = 0"
| "kd_dead (KDNode p r lt rt ax sz del ic) = (if del then 1 else 0) + kd_dead lt + kd_dead rt"

text \<open>The live points, as a multiset of (coordinates, row id).\<close>

definition kd_live :: "kdnode \<Rightarrow> point_rec multiset" where
  "kd_live t = mset (collect_valid_nodes t)"

definition point_ok :: "nat \<Rightarrow> f32 list \<Rightarrow> bool" where
  "point_ok dims p \<longleftrightarrow> length p = dims \<and> (\<forall>c\<in>set p. \<not> fisnan c)"

fun kd_inv :: "nat \<Rightarrow> kdnode \<Rightarrow> bool" where
  "kd_inv dims KDNull = True"
| "kd_inv dims (KDNode p r lt rt ax sz del ic) =
     (point_ok dims p \<and> ax < dims \<and>
      (\<forall>x\<in>kd_points lt. fkey (x ! ax) \<le> fkey (p ! ax)) \<and>
      (\<forall>x\<in>kd_points rt. fkey (p ! ax) \<le> fkey (x ! ax)) \<and>
      sz = 1 + kd_count lt + kd_count rt \<and>
      ic = (if del then 1 else 0) + kd_dead lt + kd_dead rt \<and>
      kd_inv dims lt \<and> kd_inv dims rt)"

lemma kd_live_simps [simp]:
  "kd_live KDNull = {#}"
  "kd_live (KDNode p r lt rt ax sz del ic) =
     (if del then {#} else {#(p, r)#}) + kd_live lt + kd_live rt"
  by (auto simp: kd_live_def)

lemma pullup_frame [simp]:
  "kd_points (pullup t) = kd_points t" "kd_live (pullup t) = kd_live t"
  "kd_count (pullup t) = kd_count t" "kd_dead (pullup t) = kd_dead t"
  "collect_valid_nodes (pullup t) = collect_valid_nodes t" "pullup t = KDNull \<longleftrightarrow> t = KDNull"
  by (cases t; simp)+

lemma kd_inv_sizes: "kd_inv dims t \<Longrightarrow> node_size t = kd_count t \<and> node_invalid t = kd_dead t"
  by (cases t) auto

lemma kd_inv_points: "kd_inv dims t \<Longrightarrow> x \<in> kd_points t \<Longrightarrow> point_ok dims x"
  by (induction t) auto

lemma point_ok_nth: "point_ok dims p \<Longrightarrow> i < dims \<Longrightarrow> \<not> fisnan (p ! i)"
  by (auto simp: point_ok_def)

lemma kd_live_points: "(p, r) \<in># kd_live t \<Longrightarrow> p \<in> kd_points t"
  by (induction t) (auto split: if_splits)

text \<open>A node whose children satisfy the invariant satisfies it after \<open>pullup\<close>.\<close>

lemma kd_inv_pullup:
  assumes "point_ok dims p" and "ax < dims" and "kd_inv dims lt" and "kd_inv dims rt"
    and "\<And>x. x \<in> kd_points lt \<Longrightarrow> fkey (x ! ax) \<le> fkey (p ! ax)"
    and "\<And>x. x \<in> kd_points rt \<Longrightarrow> fkey (p ! ax) \<le> fkey (x ! ax)"
  shows "kd_inv dims (pullup (KDNode p r lt rt ax sz del ic))"
  using assms kd_inv_sizes by auto

subsection \<open>Rebuilding\<close>

lemma pointrec_cmp_by:
  assumes "\<And>x. x \<in> S \<Longrightarrow> \<not> fisnan (fst x ! ax)"
  shows "cmp_by (pointrec_cmp ax) (\<lambda>x. fkey (fst x ! ax)) S"
  unfolding cmp_by_def
proof (intro ballI)
  fix x y assume "x \<in> S" "y \<in> S"
  then show "(pointrec_cmp ax x y \<le> 0) = (fkey (fst x ! ax) \<le> fkey (fst y ! ax))"
    using assms [of x] assms [of y] by (auto simp: pointrec_cmp_def flt_iff_key)
qed

text \<open>The sorted array splits at the middle into smaller, middle and larger points.\<close>

lemma sorted_split_mid:
  assumes "xs \<noteq> []" and "\<And>x. x \<in> set xs \<Longrightarrow> \<not> fisnan (fst x ! ax)"
  defines "ys \<equiv> c_qsort (pointrec_cmp ax) xs" and "mid \<equiv> length xs div 2"
  shows "mset xs = add_mset (ys ! mid) (mset (take mid ys) + mset (drop (mid + 1) ys))"
    and "x \<in> set (take mid ys) \<Longrightarrow> fkey (fst x ! ax) \<le> fkey (fst (ys ! mid) ! ax)"
    and "x \<in> set (drop (mid + 1) ys) \<Longrightarrow> fkey (fst (ys ! mid) ! ax) \<le> fkey (fst x ! ax)"
proof -
  have mid: "mid < length ys" using assms(1) by (simp add: ys_def mid_def)
  have "sorted (map (\<lambda>x. fkey (fst x ! ax)) ys)"
    unfolding ys_def by (rule sorted_c_qsort) (use assms(2) in \<open>auto intro: pointrec_cmp_by\<close>)
  note mono = sorted_map_nth_mono [OF this]
  have "ys = take mid ys @ ys ! mid # drop (mid + 1) ys" using mid by (simp add: id_take_nth_drop)
  then have "mset ys = mset (take mid ys @ ys ! mid # drop (mid + 1) ys)" by simp
  then show "mset xs = add_mset (ys ! mid) (mset (take mid ys) + mset (drop (mid + 1) ys))"
    by (simp add: ys_def)
  show "fkey (fst x ! ax) \<le> fkey (fst (ys ! mid) ! ax)" if "x \<in> set (take mid ys)"
    using that mono [of _ mid] mid by (auto simp: in_set_conv_nth)
  show "fkey (fst (ys ! mid) ! ax) \<le> fkey (fst x ! ax)" if "x \<in> set (drop (mid + 1) ys)"
    using that mono [of mid] mid by (auto simp: in_set_conv_nth)
qed

definition rec_ok :: "nat \<Rightarrow> point_rec list \<Rightarrow> bool" where
  "rec_ok dims arr \<longleftrightarrow> (\<forall>x\<in>set arr. point_ok dims (fst x))"

lemma build_balanced_props:
  assumes "0 < dims" and "rec_ok dims arr"
  shows "kd_live (build_balanced arr depth dims) = mset arr
    \<and> kd_points (build_balanced arr depth dims) = fst ` set arr
    \<and> kd_inv dims (build_balanced arr depth dims)
    \<and> kd_dead (build_balanced arr depth dims) = 0"
  using assms
proof (induction arr depth dims rule: build_balanced.induct)
  case (1 arr depth dims)
  show ?case
  proof (cases "arr = []")
    case True
    then show ?thesis by (simp add: build_balanced.simps [of "[]"])
  next
    case False
    define ax where "ax = depth mod dims"
    define ys where "ys = c_qsort (pointrec_cmp ax) arr"
    define mid where "mid = length arr div 2"
    define lt where "lt = build_balanced (take mid ys) (depth + 1) dims"
    define rt where "rt = build_balanced (drop (mid + 1) ys) (depth + 1) dims"
    have ax: "ax < dims" using "1.prems" by (simp add: ax_def)
    have nan: "\<not> fisnan (fst x ! ax)" if "x \<in> set arr" for x
      using that "1.prems" ax by (auto simp: rec_ok_def dest: point_ok_nth)
    note sp = sorted_split_mid [OF False nan, folded ys_def mid_def]
    have sub: "set (take mid ys) \<subseteq> set arr" "set (drop (mid + 1) ys) \<subseteq> set arr"
      using set_take_subset [of mid ys] set_drop_subset [of "mid + 1" ys] by (auto simp: ys_def)
    then have ok: "rec_ok dims (take mid ys)" "rec_ok dims (drop (mid + 1) ys)"
      using "1.prems" by (auto simp: rec_ok_def)
    have L: "kd_live lt = mset (take mid ys) \<and> kd_points lt = fst ` set (take mid ys)
        \<and> kd_inv dims lt \<and> kd_dead lt = 0"
      unfolding lt_def using "1.IH"(1) [OF False ax_def ys_def mid_def] ok "1.prems" by blast
    have R: "kd_live rt = mset (drop (mid + 1) ys) \<and> kd_points rt = fst ` set (drop (mid + 1) ys)
        \<and> kd_inv dims rt \<and> kd_dead rt = 0"
      unfolding rt_def using "1.IH"(2) [OF False ax_def ys_def mid_def] ok "1.prems" by blast
    have e: "build_balanced arr depth dims =
        pullup (KDNode (fst (ys ! mid)) (snd (ys ! mid)) lt rt ax 0 False 0)"
      using False by (simp add: build_balanced.simps [of arr] Let_def ax_def ys_def mid_def
          lt_def rt_def)
    have "set arr = insert (ys ! mid) (set (take mid ys) \<union> set (drop (mid + 1) ys))"
      using arg_cong [OF sp(1), of set_mset] by simp
    then have pts: "kd_points (build_balanced arr depth dims) = fst ` set arr"
      using L R by (simp add: e image_Un)
    have "ys ! mid \<in> set arr" using arg_cong [OF sp(1), of set_mset] by simp
    then have "point_ok dims (fst (ys ! mid))" using "1.prems" by (auto simp: rec_ok_def)
    then have "kd_inv dims (build_balanced arr depth dims)"
      unfolding e using ax L R sp(2,3) by (intro kd_inv_pullup) auto
    then show ?thesis using pts L R sp(1) by (simp add: e)
  qed
qed

lemma collect_points: "x \<in> set (collect_valid_nodes t) \<Longrightarrow> fst x \<in> kd_points t"
  using kd_live_points [of "fst x" "snd x" t] by (simp add: kd_live_def)

lemma rebuild_subtree_props:
  assumes "0 < dims" and "kd_inv dims t"
  shows "kd_live (rebuild_subtree t dims) = kd_live t
    \<and> kd_points (rebuild_subtree t dims) \<subseteq> kd_points t
    \<and> kd_inv dims (rebuild_subtree t dims)
    \<and> kd_dead (rebuild_subtree t dims) = 0"
proof (cases t)
  case KDNull
  then show ?thesis by simp
next
  case (KDNode p r lt rt ax sz del ic)
  have "rec_ok dims (collect_valid_nodes t)"
    using assms(2) collect_points kd_inv_points by (auto simp: rec_ok_def)
  from build_balanced_props [OF assms(1) this, of 0] show ?thesis
    using KDNode collect_points by (auto simp: kd_live_def)
qed

subsection \<open>Insertion and deletion on the contents\<close>

text \<open>All row ids of a tree, tombstones included.\<close>

fun kd_rowids :: "kdnode \<Rightarrow> i64 multiset" where
  "kd_rowids KDNull = {#}"
| "kd_rowids (KDNode p r lt rt ax sz del ic) = add_mset r (kd_rowids lt + kd_rowids rt)"

lemma kd_rowids_pullup [simp]: "kd_rowids (pullup t) = kd_rowids t"
  by (cases t) auto

lemma kd_rowids_build:
  assumes "0 < dims" and "rec_ok dims arr"
  shows "kd_rowids (build_balanced arr depth dims) = mset (map snd arr)"
proof -
  have "kd_dead t = 0 \<Longrightarrow> kd_rowids t = image_mset snd (kd_live t)" for t
    by (induction t) (auto split: if_splits)
  then show ?thesis using build_balanced_props [OF assms, of depth] by simp
qed

lemma kd_live_sub_rowids: "image_mset snd (kd_live t) \<subseteq># kd_rowids t"
proof (induction t)
  case (KDNode p r lt rt ax sz del ic)
  then have "image_mset snd (kd_live lt) + image_mset snd (kd_live rt) \<subseteq># kd_rowids lt + kd_rowids rt"
    by (rule subset_mset.add_mono)
  then show ?case by (auto simp: subset_mset.order_trans [OF _ mset_subset_eq_add_right]
      intro: subset_mset.order_trans [of _ "kd_rowids lt + kd_rowids rt"])
qed simp

lemma kd_rowids_rebuild:
  assumes "0 < dims" and "kd_inv dims t"
  shows "kd_rowids (rebuild_subtree t dims) \<subseteq># kd_rowids t"
proof (cases t)
  case KDNull
  then show ?thesis by simp
next
  case (KDNode p r lt rt ax sz del ic)
  have "rec_ok dims (collect_valid_nodes t)"
    using assms(2) collect_points kd_inv_points by (auto simp: rec_ok_def)
  then have "kd_rowids (rebuild_subtree t dims) = image_mset snd (kd_live t)"
    using assms(1) KDNode by (simp add: kd_rowids_build kd_live_def)
  then show ?thesis using kd_live_sub_rowids by simp
qed

lemma kdtree_insert_rec_props:
  assumes "0 < dims" and "kd_inv dims t" and "point_ok dims point"
  shows "kd_live (kdtree_insert_rec True t point rowid depth dims) = add_mset (point, rowid) (kd_live t)
    \<and> kd_points (kdtree_insert_rec True t point rowid depth dims) \<subseteq> insert point (kd_points t)
    \<and> kd_inv dims (kdtree_insert_rec True t point rowid depth dims)
    \<and> kd_rowids (kdtree_insert_rec True t point rowid depth dims) \<subseteq># add_mset rowid (kd_rowids t)"
  using assms(2)
proof (induction t arbitrary: depth)
  case KDNull
  then show ?case using assms by (simp add: point_ok_def)
next
  case (KDNode p r lt rt ax sz del ic)
  let ?lt = "kdtree_insert_rec True lt point rowid (depth + 1) dims"
  let ?rt = "kdtree_insert_rec True rt point rowid (depth + 1) dims"
  have inv: "kd_inv dims lt" "kd_inv dims rt" "point_ok dims p" "ax < dims" using KDNode.prems by auto
  note L = KDNode.IH(1) [OF inv(1), of "depth + 1"] and R = KDNode.IH(2) [OF inv(2), of "depth + 1"]
  define node where "node = (if flt (point ! ax) (p ! ax)
      then pullup (KDNode p r ?lt rt ax sz del ic) else pullup (KDNode p r lt ?rt ax sz del ic))"
  have cmp: "flt (point ! ax) (p ! ax) \<longleftrightarrow> fkey (point ! ax) < fkey (p ! ax)"
    using inv(3,4) assms(3) by (intro flt_iff_key) (auto dest: point_ok_nth)
  have node: "kd_live node = add_mset (point, rowid) (kd_live (KDNode p r lt rt ax sz del ic))
    \<and> kd_points node \<subseteq> insert point (kd_points (KDNode p r lt rt ax sz del ic)) \<and> kd_inv dims node"
  proof (cases "flt (point ! ax) (p ! ax)")
    case True
    then have "kd_inv dims node"
      unfolding node_def using L inv KDNode.prems cmp by (simp only: if_True) (intro kd_inv_pullup, auto)
    with True L show ?thesis by (auto simp: node_def)
  next
    case False
    then have "kd_inv dims node"
      unfolding node_def using R inv KDNode.prems cmp by (simp only: if_False) (intro kd_inv_pullup, auto)
    with False R show ?thesis by (auto simp: node_def)
  qed
  have rows: "kd_rowids node \<subseteq># add_mset rowid (kd_rowids (KDNode p r lt rt ax sz del ic))"
    using L R subset_mset.add_right_mono [of "kd_rowids ?lt" "add_mset rowid (kd_rowids lt)" "kd_rowids rt"]
      subset_mset.add_left_mono [of "kd_rowids ?rt" "add_mset rowid (kd_rowids rt)" "kd_rowids lt"]
    by (auto simp: node_def add_mset_commute)
  have "kdtree_insert_rec True (KDNode p r lt rt ax sz del ic) point rowid depth dims =
      (if is_unbalanced node \<or> too_many_deleted node then rebuild_subtree node dims else node)"
    by (simp add: node_def Let_def)
  then show ?case
    using node rows rebuild_subtree_props [OF assms(1), of node] kd_rowids_rebuild [OF assms(1), of node]
    by (auto intro: subset_mset.order_trans)
qed

lemma kd_live_rowids: "x \<in># kd_live t \<Longrightarrow> snd x \<in># kd_rowids t"
  by (induction t) (auto split: if_splits)

lemma drop_row_kd_live: "rowid \<notin># kd_rowids t \<Longrightarrow> drop_row rowid (kd_live t) = kd_live t"
  using kd_live_rowids by (intro drop_row_absent) auto

lemma kdtree_delete_rec_props:
  assumes "0 < dims" and "kd_inv dims t" and "count (kd_rowids t) rowid \<le> 1"
  shows "kd_live (kdtree_delete_rec t rowid depth dims) = drop_row rowid (kd_live t)
    \<and> kd_points (kdtree_delete_rec t rowid depth dims) \<subseteq> kd_points t
    \<and> kd_inv dims (kdtree_delete_rec t rowid depth dims)
    \<and> kd_rowids (kdtree_delete_rec t rowid depth dims) \<subseteq># kd_rowids t"
  using assms(2,3)
proof (induction t arbitrary: depth)
  case KDNull
  then show ?case by simp
next
  case (KDNode p r lt rt ax sz del ic)
  have inv: "kd_inv dims lt" "kd_inv dims rt" "point_ok dims p" "ax < dims" using KDNode.prems by auto
  show ?case
  proof (cases "r = rowid")
    case True
    define node where "node = pullup (KDNode p r lt rt ax sz True ic)"
    have "rowid \<notin># kd_rowids lt" "rowid \<notin># kd_rowids rt"
      using KDNode.prems(2) True by (auto simp: not_in_iff)
    then have live: "kd_live node = drop_row rowid (kd_live (KDNode p r lt rt ax sz del ic))"
      using True by (auto simp: node_def drop_row_kd_live)
    have ninv: "kd_inv dims node"
      unfolding node_def using inv KDNode.prems by (intro kd_inv_pullup) auto
    have "kdtree_delete_rec (KDNode p r lt rt ax sz del ic) rowid depth dims =
        (if too_many_deleted node then rebuild_subtree node dims else node)"
      using True by (simp add: node_def Let_def)
    then show ?thesis
      using live ninv rebuild_subtree_props [OF assms(1) ninv] kd_rowids_rebuild [OF assms(1), of node]
      by (auto simp: node_def)
  next
    case False
    let ?lt = "kdtree_delete_rec lt rowid (depth + 1) dims"
    let ?rt = "kdtree_delete_rec rt rowid (depth + 1) dims"
    have cnt: "count (kd_rowids lt) rowid \<le> 1" "count (kd_rowids rt) rowid \<le> 1"
      using KDNode.prems(2) False by auto
    note L = KDNode.IH(1) [OF inv(1) cnt(1), of "depth + 1"]
      and R = KDNode.IH(2) [OF inv(2) cnt(2), of "depth + 1"]
    define node where "node = pullup (KDNode p r ?lt ?rt ax sz del ic)"
    have ninv: "kd_inv dims node"
      unfolding node_def using L R inv KDNode.prems by (intro kd_inv_pullup) auto
    have "kdtree_delete_rec (KDNode p r lt rt ax sz del ic) rowid depth dims =
        (if is_unbalanced node \<or> too_many_deleted node then rebuild_subtree node dims else node)"
      using False by (simp add: node_def Let_def)
    moreover have "kd_live node = drop_row rowid (kd_live (KDNode p r lt rt ax sz del ic))"
      using False L R by (simp add: node_def)
    moreover have "kd_points node \<subseteq> kd_points (KDNode p r lt rt ax sz del ic)"
      using L R by (auto simp: node_def)
    moreover have "kd_rowids node \<subseteq># kd_rowids (KDNode p r lt rt ax sz del ic)"
      using L R by (auto simp: node_def intro: subset_mset.add_mono)
    ultimately show ?thesis
      using ninv rebuild_subtree_props [OF assms(1) ninv] kd_rowids_rebuild [OF assms(1), of node]
      by (simp split: if_split) (meson subset_mset.order_trans subset_trans)
  qed
qed

subsection \<open>The search buffer\<close>

lemma max_hit_props:
  assumes "0 < n" and "n \<le> length hs" and "\<forall>h\<in>set hs. \<not> fisnan (snd h)"
  shows "fst (max_hit n hs) < n \<and> snd (max_hit n hs) = snd (hs ! fst (max_hit n hs))
    \<and> (\<forall>i<n. hit_key (hs ! i) \<le> fkey (snd (max_hit n hs)))"
  using assms(1,2)
proof (induction n rule: nat_induct_non_zero)
  case 1
  then show ?case by (simp add: max_hit_def)
next
  case (Suc n)
  let ?f = "\<lambda>(maxIdx, maxDist) i. if flt maxDist (snd (hs ! i)) then (i, snd (hs ! i)) else (maxIdx, maxDist)"
  have step: "max_hit (Suc n) hs = ?f (max_hit n hs) n"
    using Suc.hyps by (simp add: max_hit_def)
  obtain mi md where m: "max_hit n hs = (mi, md)" by force
  have IH: "mi < n" "md = snd (hs ! mi)" "\<forall>i<n. hit_key (hs ! i) \<le> fkey md"
    using Suc.IH Suc.prems m by auto
  have "\<not> fisnan md" "\<not> fisnan (snd (hs ! n))" using IH(1,2) Suc.prems assms(3) by auto
  then have "flt md (snd (hs ! n)) \<longleftrightarrow> fkey md < hit_key (hs ! n)" by (rule flt_iff_key)
  then show ?case using IH step m by (auto simp: less_Suc_eq split: if_splits)
qed

lemma max_hit_full:
  assumes "hits_ok k hs" and "length hs = k" and "0 < k" and "max_hit k hs = (mi, md)"
  shows "mi < length hs" and "md = snd (hs ! mi)" and "\<not> fisnan md"
    and "h \<in> set hs \<Longrightarrow> hit_key h \<le> fkey md"
proof -
  have nan: "\<forall>h\<in>set hs. \<not> fisnan (snd h)" using assms(1) by (simp add: hits_ok_def)
  note mp = max_hit_props [of k hs, OF assms(3) _ nan, unfolded assms(4)]
  show 1: "mi < length hs" and 2: "md = snd (hs ! mi)" using mp assms(2) by auto
  show "\<not> fisnan md" using nan 1 2 by simp
  show "h \<in> set hs \<Longrightarrow> hit_key h \<le> fkey md" using mp assms(2) by (auto simp: in_set_conv_nth)
qed

lemma topk_insert_ok:
  assumes "hits_ok k hs" and "\<not> fisnan d"
  shows "hits_ok k (topk_insert k r d hs)"
  using assms set_update_subset_insert [of hs]
  by (fastforce simp: hits_ok_def topk_insert_def split: prod.splits)

lemma topk_insert_best:
  assumes "0 < k" and "hits_ok k hs" and "\<not> fisnan d" and "best_k hit_key k M (mset hs)"
  shows "best_k hit_key k (add_mset (r, d) M) (mset (topk_insert k r d hs))"
proof (cases "length hs < k")
  case True
  then have "mset (topk_insert k r d hs) = add_mset (r, d) (mset hs)" by (simp add: topk_insert_def)
  then show ?thesis using best_k_add_room [OF assms(4)] True by simp
next
  case False
  with assms(2) have full: "length hs = k" by (simp add: hits_ok_def)
  obtain mi md where m: "max_hit k hs = (mi, md)" by force
  note mh = max_hit_full [OF assms(2) full assms(1) m]
  show ?thesis
  proof (cases "flt d md")
    case True
    then have e: "mset (topk_insert k r d hs) = add_mset (r, d) (mset hs - {#hs ! mi#})"
      using False m mh(1) by (simp add: topk_insert_def mset_list_update)
    define S where "S = mset hs - {#hs ! mi#}"
    have S: "mset hs = add_mset (hs ! mi) S" using mh(1) by (simp add: S_def)
    have "best_k hit_key k (add_mset (r, d) M) (add_mset (r, d) S)"
    proof (rule best_k_replace [where w = "hs ! mi"])
      show "best_k hit_key k M (add_mset (hs ! mi) S)" using assms(4) S by simp
      show "size (add_mset (hs ! mi) S) = k" using full S by (metis size_mset)
      show "hit_key x \<le> hit_key (hs ! mi)" if "x \<in># S" for x
        using mh(4) [of x] mh(2) in_diffD [of x "mset hs" "{#hs ! mi#}"] that by (simp add: S_def)
      show "hit_key (r, d) \<le> hit_key (hs ! mi)" using True mh(2) by (simp add: flt_def)
    qed
    then show ?thesis by (simp add: e S_def)
  next
    case nb: False
    then have "mset (topk_insert k r d hs) = mset hs" using False m by (simp add: topk_insert_def)
    moreover have "hit_key x \<le> hit_key (r, d)" if "x \<in># mset hs" for x
      using that nb mh(3) mh(4) [of x] assms(3) by (auto simp: not_flt_iff)
    ultimately show ?thesis using best_k_add_skip [OF assms(4)] full by simp
  qed
qed

text \<open>The buffer of the tree search is a best-\<open>k\<close> accumulator, for every positive \<open>k\<close>.\<close>

interpretation kd_buffer: best_k_buffer hit_key "Suc k" "\<lambda>h. \<not> fisnan (snd h)" "[]"
  "\<lambda>h hs. topk_insert (Suc k) (fst h) (snd h) hs" mset "hits_ok (Suc k)" for k
proof unfold_locales
  show "hits_ok (Suc k) []" by (simp add: hits_ok_def)
qed (auto intro: topk_insert_ok topk_insert_best)

subsection \<open>Search\<close>

text \<open>The candidates of a query: the live rows that pass the filter, with their distances.\<close>

definition kd_cands ::
  "rowid_map \<Rightarrow> distance_func \<Rightarrow> f32 list \<Rightarrow> nat \<Rightarrow> kdnode \<Rightarrow> (i64 \<times> f32) multiset" where
  "kd_cands m distfunc q dims t =
     {# (r, distfunc q p dims). (p, r) \<in># filter_mset (\<lambda>x. passes m (snd x)) (kd_live t) #}"

lemma kd_cands_simps [simp]:
  "kd_cands m f q dims KDNull = {#}"
  "kd_cands m f q dims (KDNode p r lt rt ax sz del ic) =
     (if del \<or> \<not> passes m r then {#} else {#(r, f q p dims)#})
     + kd_cands m f q dims lt + kd_cands m f q dims rt"
  by (auto simp: kd_cands_def)

lemma kd_cands_dist: "h \<in># kd_cands m f q dims t \<Longrightarrow> \<exists>p\<in>kd_points t. snd h = f q p dims"
  by (auto simp: kd_cands_def dest: kd_live_points)

text \<open>
  What the pruning test needs of the distance function on the points of the tree: no distance is a
  NaN, no squared coordinate difference reaches \<open>FLT_MAX\<close>, and the squared difference to a splitting
  coordinate is a lower bound for the distance to every point on the far side of it.
\<close>

definition between_key :: "f32 \<Rightarrow> f32 \<Rightarrow> f32 \<Rightarrow> bool" where
  "between_key a b c \<longleftrightarrow> fkey a \<le> fkey b \<and> fkey b \<le> fkey c \<or> fkey c \<le> fkey b \<and> fkey b \<le> fkey a"

definition axis_sq :: "f32 list \<Rightarrow> f32 list \<Rightarrow> nat \<Rightarrow> f32" where
  "axis_sq q n i = fmul (fsub (q ! i) (n ! i)) (fsub (q ! i) (n ! i))"

definition prune_safe :: "distance_func \<Rightarrow> f32 list \<Rightarrow> nat \<Rightarrow> f32 list set \<Rightarrow> bool" where
  "prune_safe f q dims S \<longleftrightarrow>
     (\<forall>p\<in>S. \<not> fisnan (f q p dims)) \<and>
     (\<forall>n\<in>S. \<forall>i<dims. flt (axis_sq q n i) FLT_MAX) \<and>
     (\<forall>n\<in>S. \<forall>p\<in>S. \<forall>i<dims. between_key (q ! i) (n ! i) (p ! i) \<longrightarrow>
        fkey (axis_sq q n i) \<le> fkey (f q p dims))"

lemma prune_safe_subset: "prune_safe f q dims S \<Longrightarrow> T \<subseteq> S \<Longrightarrow> prune_safe f q dims T"
  unfolding prune_safe_def by blast

lemma prune_safe_bound:
  "prune_safe f q dims S \<Longrightarrow> n \<in> S \<Longrightarrow> p \<in> S \<Longrightarrow> i < dims \<Longrightarrow>
   between_key (q ! i) (n ! i) (p ! i) \<Longrightarrow> fkey (axis_sq q n i) \<le> fkey (f q p dims)"
  unfolding prune_safe_def by blast

lemma search_best:
  assumes "0 < k" and "kd_inv dims t" and "prune_safe f q dims (kd_points t)" and "point_ok dims q"
    and "hits_ok k hs" and "best_k hit_key k M (mset hs)"
  shows "hits_ok k (kdtree_search_topk_rec t q dims k hs m f)
    \<and> best_k hit_key k (M + kd_cands m f q dims t) (mset (kdtree_search_topk_rec t q dims k hs m f))"
  using assms(2,3,5,6)
proof (induction t arbitrary: hs M)
  case KDNull
  then show ?case by simp
next
  case (KDNode p r lt rt ax sz del ic)
  have inv: "kd_inv dims lt" "kd_inv dims rt" "point_ok dims p" "ax < dims" using KDNode.prems by auto
  have ps: "prune_safe f q dims (kd_points lt)" "prune_safe f q dims (kd_points rt)"
    using KDNode.prems(2) by (auto elim: prune_safe_subset)
  have nan: "\<not> fisnan (f q p dims)" using KDNode.prems(2) by (simp add: prune_safe_def)
  define own where "own = (if del \<or> \<not> passes m r then {#} else {#(r, f q p dims)#})"
  define hs1 where "hs1 = (if del \<or> \<not> passes m r then hs else topk_insert k r (f q p dims) hs)"
  have 1: "hits_ok k hs1" "best_k hit_key k (M + own) (mset hs1)"
    using KDNode.prems(3,4) nan assms(1) by (auto simp: hs1_def own_def topk_insert_ok topk_insert_best)
  define go where "go = flt (q ! ax) (p ! ax)"
  define near where "near = (if go then lt else rt)"
  define far where "far = (if go then rt else lt)"
  define hs2 where "hs2 = kdtree_search_topk_rec near q dims k hs1 m f"
  define M2 where "M2 = M + own + kd_cands m f q dims near"
  have 2: "hits_ok k hs2" "best_k hit_key k M2 (mset hs2)"
    using KDNode.IH(1) [OF inv(1) ps(1) 1] KDNode.IH(2) [OF inv(2) ps(2) 1]
    by (auto simp: hs2_def near_def M2_def)
  define visit where "visit = flt (axis_sq q p ax) (if length hs2 = k then snd (max_hit k hs2) else FLT_MAX)"
  have res: "kdtree_search_topk_rec (KDNode p r lt rt ax sz del ic) q dims k hs m f =
      (if visit then kdtree_search_topk_rec far q dims k hs2 m f else hs2)"
    by (auto simp: Let_def visit_def axis_sq_def hs2_def hs1_def near_def far_def go_def passes_def)
  have tot: "M + kd_cands m f q dims (KDNode p r lt rt ax sz del ic) = M2 + kd_cands m f q dims far"
    by (auto simp: M2_def own_def near_def far_def ac_simps)
  show ?case
  proof (cases visit)
    case True
    then show ?thesis
      using KDNode.IH(1) [OF inv(1) ps(1) 2] KDNode.IH(2) [OF inv(2) ps(2) 2]
      unfolding res tot by (auto simp: far_def)
  next
    case False
    have sq: "flt (axis_sq q p ax) FLT_MAX" using KDNode.prems(2) inv(4) by (simp add: prune_safe_def)
    with False have full: "length hs2 = k" unfolding visit_def by (cases "length hs2 = k") simp_all
    obtain mi md where m: "max_hit k hs2 = (mi, md)" by force
    note mh = max_hit_full [OF 2(1) full assms(1) m]
    have md: "fkey md \<le> fkey (axis_sq q p ax)"
      using False full m mh(3) sq by (auto simp: visit_def flt_def)
    have cmp: "go \<longleftrightarrow> fkey (q ! ax) < fkey (p ! ax)"
      unfolding go_def using inv(3,4) assms(4) by (intro flt_iff_key) (auto dest: point_ok_nth)
    have "hit_key x \<le> hit_key y" if x: "x \<in># mset hs2" and y: "y \<in># kd_cands m f q dims far" for x y
    proof -
      obtain b where b: "b \<in> kd_points far" "snd y = f q b dims" using kd_cands_dist [OF y] by blast
      then have "between_key (q ! ax) (p ! ax) (b ! ax)"
        using cmp KDNode.prems(1) by (auto simp: far_def between_key_def split: if_splits)
      moreover have "b \<in> kd_points (KDNode p r lt rt ax sz del ic)"
        using b(1) by (auto simp: far_def split: if_splits)
      ultimately have "fkey (axis_sq q p ax) \<le> hit_key y"
        using prune_safe_bound [OF KDNode.prems(2), of p b ax] inv(4) b(2) by simp
      then show ?thesis using mh(4) [of x] x md by simp
    qed
    then have "best_k hit_key k (M2 + kd_cands m f q dims far) (mset hs2)"
      using 2 full by (intro best_k_drop_far) auto
    then show ?thesis using False 2(1) unfolding res tot by simp
  qed
qed

subsection \<open>The tree as a vector index\<close>

definition kd_new :: "nat \<Rightarrow> kdtree" where
  "kd_new dims = \<lparr>kd_root = KDNull, kd_dimensions = dims, kd_tree_size = 0\<rparr>"

definition kd_tree_inv :: "nat \<Rightarrow> kdtree \<Rightarrow> bool" where
  "kd_tree_inv dims t \<longleftrightarrow> kd_dimensions t = dims \<and> 0 < dims \<and> kd_inv dims (kd_root t)"

lemma kdtree_insert_spec:
  assumes "kd_tree_inv dims t" and "point_ok dims v"
  shows "fst (kdtree_insert True t v r dims) = SQLITE_OK
    \<and> kd_tree_inv dims (snd (kdtree_insert True t v r dims))
    \<and> kd_live (kd_root (snd (kdtree_insert True t v r dims))) = add_mset (v, r) (kd_live (kd_root t))
    \<and> kd_rowids (kd_root (snd (kdtree_insert True t v r dims))) \<subseteq># add_mset r (kd_rowids (kd_root t))"
proof -
  have d: "0 < dims" "kd_inv dims (kd_root t)" using assms(1) by (auto simp: kd_tree_inv_def)
  note p = kdtree_insert_rec_props [OF d assms(2), of r 0]
  then have "kdtree_insert_rec True (kd_root t) v r 0 dims \<noteq> KDNull" by auto
  then show ?thesis using p assms(1) by (simp add: kdtree_insert_def Let_def kd_tree_inv_def)
qed

lemma kdtree_delete_spec:
  assumes "kd_tree_inv dims t" and "c_int r = r" and "count (kd_rowids (kd_root t)) r \<le> 1"
  shows "kd_tree_inv dims (snd (kdtree_delete t r))
    \<and> kd_live (kd_root (snd (kdtree_delete t r))) = drop_row r (kd_live (kd_root t))
    \<and> kd_rowids (kd_root (snd (kdtree_delete t r))) \<subseteq># kd_rowids (kd_root t)"
proof -
  have d: "0 < dims" "kd_inv dims (kd_root t)" "kd_dimensions t = dims"
    using assms(1) by (auto simp: kd_tree_inv_def)
  from kdtree_delete_rec_props [OF d(1,2) assms(3), of 0] show ?thesis
    using assms(1,2) d(3) by (auto simp: kdtree_delete_def kd_tree_inv_def)
qed

interpretation kd_index: vec_index
  "\<lambda>v r t. snd (kdtree_insert True t v r (Suc d))" "\<lambda>r t. snd (kdtree_delete t r)"
  "\<lambda>t. kd_live (kd_root t)" "\<lambda>t. kd_rowids (kd_root t)" "kd_tree_inv (Suc d)"
  "\<lambda>v r. point_ok (Suc d) v" "\<lambda>r. c_int r = r" "\<lambda>s n. True" "kd_new (Suc d)" for d
proof unfold_locales
  show "kd_tree_inv (Suc d) (kd_new (Suc d))" by (simp add: kd_tree_inv_def kd_new_def)
  show "kd_live (kd_root (kd_new (Suc d))) = {#}" "kd_rowids (kd_root (kd_new (Suc d))) = {#}"
    by (simp_all add: kd_new_def)
qed (auto simp: kdtree_insert_spec kdtree_delete_spec)

end
