(* ===== verification/ByteIO.thy ===== *)
theory ByteIO
  imports IEEE_Float
begin

text \<open>
  \<open>fwrite\<close> and \<open>fread\<close> of the fixed-width values the index files hold, on a file that is the list of its
  bytes, on a little-endian machine: \<open>int\<close> in four bytes, \<open>i64\<close> in eight, \<open>float\<close> in four. A read that
  finds too few bytes leaves its target as it was; the targets are fresh memory, whose contents are
  the argument \<open>junk\<close>.
\<close>

type_synonym bytes = "8 word list"

definition c_i64 :: "int \<Rightarrow> int" where
  "c_i64 x = (x + 2 ^ 63) mod 2 ^ 64 - 2 ^ 63"

fun le_bytes :: "nat \<Rightarrow> int \<Rightarrow> bytes" where
  "le_bytes 0 x = []"
| "le_bytes (Suc n) x = word_of_int x # le_bytes n (x div 256)"

fun le_int :: "bytes \<Rightarrow> int" where
  "le_int [] = 0"
| "le_int (b # bs) = uint b + 256 * le_int bs"

lemma length_le_bytes [simp]: "length (le_bytes n x) = n"
  by (induction n arbitrary: x) auto

lemma le_int_le_bytes: "le_int (le_bytes n x) = x mod 256 ^ n"
proof (induction n arbitrary: x)
  case (Suc n)
  have "x mod 256 + 256 * (x div 256 mod 256 ^ n) = x mod (256 * 256 ^ n)"
    by (simp add: zmod_zmult2_eq)
  then show ?case using Suc by (simp add: uint_word_of_int)
qed simp

definition fread :: "nat \<Rightarrow> bytes \<Rightarrow> bytes option \<times> bytes" where
  "fread n fs = (if n \<le> length fs then (Some (take n fs), drop n fs) else (None, []))"

definition fwrite_int :: "int \<Rightarrow> bytes" where
  "fwrite_int x = le_bytes 4 x"

definition fread_int :: "int \<Rightarrow> bytes \<Rightarrow> int \<times> bytes" where
  "fread_int junk fs = (case fread 4 fs of (Some bs, r) \<Rightarrow> (c_int (le_int bs), r) | (None, r) \<Rightarrow> (junk, r))"

definition fwrite_i64 :: "i64 \<Rightarrow> bytes" where
  "fwrite_i64 x = le_bytes 8 x"

definition fread_i64 :: "int \<Rightarrow> bytes \<Rightarrow> i64 \<times> bytes" where
  "fread_i64 junk fs = (case fread 8 fs of (Some bs, r) \<Rightarrow> (c_i64 (le_int bs), r) | (None, r) \<Rightarrow> (junk, r))"

definition fwrite_floats :: "f32 list \<Rightarrow> bytes" where
  "fwrite_floats xs = concat (map (\<lambda>x. le_bytes 4 (uint x)) xs)"

fun fread_floats :: "int \<Rightarrow> nat \<Rightarrow> bytes \<Rightarrow> f32 list \<times> bytes" where
  "fread_floats junk 0 fs = ([], fs)"
| "fread_floats junk (Suc n) fs =
     (case fread 4 fs of (b, r) \<Rightarrow>
        (let x = (case b of Some bs \<Rightarrow> word_of_int (le_int bs) | None \<Rightarrow> word_of_int junk);
             (xs, r') = fread_floats junk n r
         in (x # xs, r')))"

lemma c_int_mod: "c_int (x mod 2 ^ 32) = c_int x"
  by (simp add: c_int_def mod_add_left_eq)

lemma c_i64_mod: "c_i64 (x mod 2 ^ 64) = c_i64 x"
  by (simp add: c_i64_def mod_add_left_eq)

lemma c_i64_id: "- (2 ^ 63) \<le> x \<Longrightarrow> x < 2 ^ 63 \<Longrightarrow> c_i64 x = x"
  by (simp add: c_i64_def)

lemma fread_fwrite_int [simp]: "fread_int junk (fwrite_int x @ fs) = (c_int x, fs)"
  using c_int_mod [of x] by (simp add: fread_int_def fread_def fwrite_int_def le_int_le_bytes)

lemma fread_fwrite_i64 [simp]: "fread_i64 junk (fwrite_i64 x @ fs) = (c_i64 x, fs)"
  using c_i64_mod [of x] by (simp add: fread_i64_def fread_def fwrite_i64_def le_int_le_bytes)

lemma fread_fwrite_floats [simp]:
  "n = length xs \<Longrightarrow> fread_floats junk n (fwrite_floats xs @ fs) = (xs, fs)"
proof (induction xs arbitrary: n)
  case (Cons x xs)
  have "uint x mod 4294967296 = uint x" using uint_bounded [of x] by simp
  then show ?case using Cons by (simp add: fwrite_floats_def fread_def le_int_le_bytes)
qed (simp add: fwrite_floats_def)

lemma fread_int_shorter: "fread_int junk fs = (x, r) \<Longrightarrow> length r \<le> length fs - 4"
  by (auto simp: fread_int_def fread_def split: if_splits)

lemma fread_i64_shorter: "fread_i64 junk fs = (x, r) \<Longrightarrow> length r \<le> length fs"
  by (auto simp: fread_i64_def fread_def split: if_splits)

lemma fread_floats_shorter: "fread_floats junk n fs = (xs, r) \<Longrightarrow> length r \<le> length fs"
  by (induction n arbitrary: fs xs r)
    (fastforce simp: fread_def Let_def split: if_splits prod.splits)+

end
