(* ===== verification/KDTree_File.thy ===== *)
theory KDTree_File
  imports KDTree ByteIO
begin

text \<open>
  The file format of the k-d tree index: \<open>serialize_kdnode\<close> writes a pre-order walk with a null marker
  for missing children, \<open>deserialize_kdnode\<close> reads it back.
\<close>

fun serialize_kdnode :: "kdnode \<Rightarrow> nat \<Rightarrow> bytes" where
  "serialize_kdnode KDNull dims = fwrite_int 1"
| "serialize_kdnode (KDNode p r lt rt ax sz del ic) dims =
     fwrite_int 0 @ fwrite_i64 r @ fwrite_int (int ax) @ fwrite_int (int sz)
     @ fwrite_int (if del then 1 else 0) @ fwrite_int (int ic) @ fwrite_floats (take dims p)
     @ serialize_kdnode lt dims @ serialize_kdnode rt dims"

text \<open>
  Every call reads a marker, so the recursion is bounded by the number of bytes left; \<open>fuel\<close> makes it
  structural, and \<open>deserialize_fuel\<close> below shows that any fuel above the length gives the same result.
  \<open>junk\<close> is what fresh memory holds.
\<close>

fun deserialize_kdnode :: "int \<Rightarrow> nat \<Rightarrow> bytes \<Rightarrow> nat \<Rightarrow> kdnode \<times> bytes" where
  "deserialize_kdnode junk 0 fs dims = (KDNull, fs)"
| "deserialize_kdnode junk (Suc fuel) fs dims =
     (case fread 4 fs of
        (None, f1) \<Rightarrow> (KDNull, f1)
      | (Some bs, f1) \<Rightarrow>
          if c_int (le_int bs) \<noteq> 0 then (KDNull, f1)
          else (let (r, f2) = fread_i64 junk f1;
                    (ax, f3) = fread_int junk f2;
                    (sz, f4) = fread_int junk f3;
                    (del, f5) = fread_int junk f4;
                    (ic, f6) = fread_int junk f5;
                    (p, f7) = fread_floats junk dims f6;
                    (lt, f8) = deserialize_kdnode junk fuel f7 dims;
                    (rt, f9) = deserialize_kdnode junk fuel f8 dims
                in (KDNode p r lt rt (nat ax) (nat sz) (del \<noteq> 0) (nat ic), f9)))"

text \<open>A file that cannot be opened gives \<open>SQLITE_CANTOPEN\<close> on writing and \<open>NULL\<close> on reading.\<close>

definition serialize_kdtree :: "bool \<Rightarrow> kdtree \<Rightarrow> sqlite_rc \<times> bytes option" where
  "serialize_kdtree opens t =
     (if \<not> opens then (SQLITE_CANTOPEN, None)
      else (SQLITE_OK, Some (fwrite_int (int (kd_dimensions t)) @ fwrite_int (int (kd_tree_size t))
              @ serialize_kdnode (kd_root t) (kd_dimensions t))))"

definition deserialize_kdtree :: "int \<Rightarrow> bytes option \<Rightarrow> kdtree option" where
  "deserialize_kdtree junk file =
     (case file of None \<Rightarrow> None
      | Some fs \<Rightarrow>
          (let (dim, f1) = fread_int junk fs;
               (sz, f2) = fread_int junk f1;
               (root, f3) = deserialize_kdnode junk (Suc (length f2)) f2 (nat dim)
           in Some \<lparr>kd_root = root, kd_dimensions = nat dim, kd_tree_size = nat sz\<rparr>))"

subsection \<open>Fuel\<close>

lemma deserialize_shorter:
  "deserialize_kdnode junk fuel fs dims = (t, r) \<Longrightarrow> length r \<le> length fs"
proof (induction fuel arbitrary: fs t r)
  case (Suc fuel)
  then show ?case
    by (fastforce simp: fread_def Let_def split: if_splits prod.splits
        dest!: fread_int_shorter fread_i64_shorter fread_floats_shorter Suc.IH)
qed simp

lemma deserialize_fuel:
  "length fs < n \<Longrightarrow> length fs < m \<Longrightarrow> deserialize_kdnode junk n fs dims = deserialize_kdnode junk m fs dims"
proof (induction n arbitrary: fs m)
  case (Suc n)
  then obtain m' where m: "m = Suc m'" by (cases m) auto
  show ?case
  proof (cases "4 \<le> length fs \<and> c_int (le_int (take 4 fs)) = 0")
    case False
    then show ?thesis by (auto simp: m fread_def)
  next
    case True
    obtain r f2 where 2: "fread_i64 junk (drop 4 fs) = (r, f2)" by force
    obtain ax f3 where 3: "fread_int junk f2 = (ax, f3)" by force
    obtain sz f4 where 4: "fread_int junk f3 = (sz, f4)" by force
    obtain del f5 where 5: "fread_int junk f4 = (del, f5)" by force
    obtain ic f6 where 6: "fread_int junk f5 = (ic, f6)" by force
    obtain p f7 where 7: "fread_floats junk dims f6 = (p, f7)" by force
    have l: "length f7 < n" "length f7 < m'"
      using True Suc.prems m fread_i64_shorter [OF 2] fread_int_shorter [OF 3] fread_int_shorter [OF 4]
        fread_int_shorter [OF 5] fread_int_shorter [OF 6] fread_floats_shorter [OF 7] by auto
    obtain lt f8 where 8: "deserialize_kdnode junk n f7 dims = (lt, f8)" by force
    then have 80: "deserialize_kdnode junk m' f7 dims = (lt, f8)" using Suc.IH [OF l] by simp
    have "length f8 \<le> length f7" using deserialize_shorter [OF 8] .
    then have 9: "deserialize_kdnode junk n f8 dims = deserialize_kdnode junk m' f8 dims"
      using Suc.IH [of f8 m'] l by simp
    show ?thesis using True by (simp add: m fread_def 2 3 4 5 6 7 8 80 9)
  qed
qed simp

subsection \<open>Round trip\<close>

text \<open>The values of a tree fit the widths of the file: \<open>int\<close> counts and axes, \<open>i64\<close> row ids.\<close>

fun kd_fits :: "nat \<Rightarrow> kdnode \<Rightarrow> bool" where
  "kd_fits dims KDNull = True"
| "kd_fits dims (KDNode p r lt rt ax sz del ic) =
     (length p = dims \<and> - (2 ^ 63) \<le> r \<and> r < 2 ^ 63 \<and> ax < 2 ^ 31 \<and> sz < 2 ^ 31 \<and> ic < 2 ^ 31
      \<and> kd_fits dims lt \<and> kd_fits dims rt)"

lemma c_int_nat: "n < 2 ^ 31 \<Longrightarrow> c_int (int n) = int n"
  by (rule c_int_id) auto

lemma fread_marker: "fread 4 (fwrite_int x @ fs) = (Some (le_bytes 4 x), fs)"
  by (simp add: fread_def fwrite_int_def)

lemma marker_value: "c_int (le_int (le_bytes 4 x)) = c_int x"
  using c_int_mod [of x] by (simp add: le_int_le_bytes)

lemma deserialize_serialize:
  "kd_fits dims t \<Longrightarrow> kd_count t < fuel \<Longrightarrow>
   deserialize_kdnode junk fuel (serialize_kdnode t dims @ fs) dims = (t, fs)"
proof (induction t arbitrary: fuel fs)
  case KDNull
  then obtain f where "fuel = Suc f" by (cases fuel) auto
  moreover have "c_int 1 = 1" by (simp add: c_int_def)
  ultimately show ?case by (simp add: fread_marker marker_value)
next
  case (KDNode p r lt rt ax sz del ic)
  then obtain f where f: "fuel = Suc f" "kd_count lt < f" "kd_count rt < f" by (cases fuel) auto
  have c: "c_int 0 = 0" "c_int 1 = 1" by (simp_all add: c_int_def)
  have w: "c_i64 r = r" "c_int (int ax) = int ax" "c_int (int sz) = int sz" "c_int (int ic) = int ic"
    using KDNode.prems by (auto simp: c_i64_id c_int_nat)
  show ?case
    using KDNode.prems by (simp add: f fread_marker marker_value c w KDNode.IH)
qed

lemma kd_count_serialize: "kd_count t < length (serialize_kdnode t dims)"
  by (induction t) (auto simp: fwrite_int_def)

text \<open>
  C22. Reading back the file that \<open>serialize_kdtree\<close> writes gives the same tree, for every tree whose
  counts fit an \<open>int\<close> and whose row ids fit an \<open>i64\<close>.
\<close>

theorem kdtree_file_round_trip:
  assumes "kd_fits (kd_dimensions t) (kd_root t)" and "kd_dimensions t < 2 ^ 31" and "kd_tree_size t < 2 ^ 31"
  shows "fst (serialize_kdtree True t) = SQLITE_OK
    \<and> deserialize_kdtree junk (snd (serialize_kdtree True t)) = Some t"
proof -
  let ?body = "serialize_kdnode (kd_root t) (kd_dimensions t)"
  have "deserialize_kdnode junk (Suc (length ?body)) (?body @ []) (kd_dimensions t) = (kd_root t, [])"
    using assms(1) kd_count_serialize [of "kd_root t" "kd_dimensions t"]
    by (intro deserialize_serialize) auto
  then show ?thesis
    using assms(2,3)
    by (simp add: serialize_kdtree_def deserialize_kdtree_def c_int_nat del: deserialize_kdnode.simps)
qed

theorem kdtree_file_round_trip_witness:
  "deserialize_kdtree 7 (snd (serialize_kdtree True (snd (kdtree_insert True (kd_new 2) [0, 1] 5 2)))) =
     Some (snd (kdtree_insert True (kd_new 2) [0, 1] 5 2))"
  using kdtree_file_round_trip [of "snd (kdtree_insert True (kd_new 2) [0, 1] 5 2)" 7]
  by (simp add: kdtree_insert_def kd_new_def)

end
