(* ===== verification/MaxHeap.thy ===== *)
theory MaxHeap
  imports Hits
begin

text \<open>
  The bounded max-heap of \<open>ivf_search\<close>: the array of hits, the sift-down loop it repeats three times, the
  heap construction when the buffer fills, the replacement of the root and the drain into the output
  arrays.
\<close>

function sift_down :: "hits \<Rightarrow> nat \<Rightarrow> nat \<Rightarrow> hits" where
  "sift_down heap heap_size idx =
     (let l = idx * 2 + 1; r = l + 1;
          largest1 = (if l < heap_size \<and> flt (snd (heap ! idx)) (snd (heap ! l)) then l else idx);
          largest = (if r < heap_size \<and> flt (snd (heap ! largest1)) (snd (heap ! r)) then r else largest1)
      in if largest = idx then heap
         else sift_down (heap[idx := heap ! largest, largest := heap ! idx]) heap_size largest)"
  by pat_completeness auto
termination
  by (relation "measure (\<lambda>(heap, heap_size, idx). heap_size - idx)") (auto simp: Let_def split: if_splits)

declare sift_down.simps [simp del]

definition heapify :: "nat \<Rightarrow> hits \<Rightarrow> hits" where
  "heapify topk heap = foldl (\<lambda>h p. sift_down h topk p) heap (rev [0..<topk div 2])"

definition heap_feed :: "nat \<Rightarrow> hit \<Rightarrow> hits \<Rightarrow> hits" where
  "heap_feed topk h heap =
     (if length heap < topk
      then (let heap1 = heap @ [h] in if length heap1 = topk then heapify topk heap1 else heap1)
      else if flt (snd h) (snd (heap ! 0)) then sift_down (heap[0 := h]) topk 0
      else heap)"

text \<open>The drain fills \<open>buf\<close> from its end.\<close>

fun heap_drain :: "hits \<Rightarrow> nat \<Rightarrow> hits \<Rightarrow> hits" where
  "heap_drain heap 0 buf = buf"
| "heap_drain heap (Suc n) buf =
     (let heap1 = heap[0 := heap ! n] in
      heap_drain (if n > 0 then sift_down heap1 n 0 else heap1) n (heap ! 0 # buf))"

subsection \<open>Sifting restores the heap order\<close>

abbreviation parent :: "nat \<Rightarrow> nat" where
  "parent j \<equiv> (j - 1) div 2"

definition heap_from :: "hits \<Rightarrow> nat \<Rightarrow> nat \<Rightarrow> bool" where
  "heap_from hs n p \<longleftrightarrow> (\<forall>j. 0 < j \<and> j < n \<and> p \<le> parent j \<longrightarrow> hit_key (hs ! j) \<le> hit_key (hs ! parent j))"

text \<open>A heap with one hole: the order holds except between the hole and its children.\<close>

definition heap_hole :: "hits \<Rightarrow> nat \<Rightarrow> nat \<Rightarrow> nat \<Rightarrow> bool" where
  "heap_hole hs n p i \<longleftrightarrow> p \<le> i
     \<and> (\<forall>j. 0 < j \<and> j < n \<and> p \<le> parent j \<and> parent j \<noteq> i \<longrightarrow> hit_key (hs ! j) \<le> hit_key (hs ! parent j))
     \<and> (\<forall>j. 0 < j \<and> j < n \<and> parent j = i \<and> 0 < i \<and> p \<le> parent i \<longrightarrow> hit_key (hs ! j) \<le> hit_key (hs ! parent i))"

definition heap_nan_free :: "hits \<Rightarrow> bool" where
  "heap_nan_free hs \<longleftrightarrow> (\<forall>h\<in>set hs. \<not> fisnan (snd h))"

lemma children: "0 < j \<Longrightarrow> parent j = i \<longleftrightarrow> j = 2 * i + 1 \<or> j = 2 * i + 2" for i j :: nat
  by auto

lemma sift_swap_mset:
  assumes "i < n" and "g < n" and "n \<le> length hs"
  shows "mset (take n (hs[i := hs ! g, g := hs ! i])) = mset (take n hs)"
  using assms mset_swap_update [of i "take n hs" g] by (simp add: take_update_swap)

text \<open>The choice of the largest of a node and its children.\<close>

definition sift_target :: "hits \<Rightarrow> nat \<Rightarrow> nat \<Rightarrow> nat" where
  "sift_target hs n i =
     (let g = (if 2 * i + 1 < n \<and> flt (snd (hs ! i)) (snd (hs ! (2 * i + 1))) then 2 * i + 1 else i)
      in if 2 * i + 2 < n \<and> flt (snd (hs ! g)) (snd (hs ! (2 * i + 2))) then 2 * i + 2 else g)"

lemma sift_down_step:
  "sift_down hs n i = (let g = sift_target hs n i in
     if g = i then hs else sift_down (hs[i := hs ! g, g := hs ! i]) n g)"
  by (subst sift_down.simps) (auto simp: sift_target_def Let_def mult.commute)

lemma sift_target_props:
  assumes "heap_nan_free hs" and "n \<le> length hs" and "i < n"
  shows "sift_target hs n i = i \<or> (sift_target hs n i = 2 * i + 1 \<or> sift_target hs n i = 2 * i + 2) \<and> sift_target hs n i < n"
    and "hit_key (hs ! i) \<le> hit_key (hs ! sift_target hs n i)"
    and "0 < j \<Longrightarrow> j < n \<Longrightarrow> parent j = i \<Longrightarrow> hit_key (hs ! j) \<le> hit_key (hs ! sift_target hs n i)"
proof -
  have nan: "\<not> fisnan (snd (hs ! l))" if "l < n" for l using assms(1,2) that by (simp add: heap_nan_free_def)
  have cmp: "flt (snd (hs ! a)) (snd (hs ! b)) \<longleftrightarrow> hit_key (hs ! a) < hit_key (hs ! b)" if "a < n" "b < n" for a b
    using nan that by (intro flt_iff_key) auto
  show "sift_target hs n i = i \<or> (sift_target hs n i = 2 * i + 1 \<or> sift_target hs n i = 2 * i + 2) \<and> sift_target hs n i < n"
    by (simp add: sift_target_def Let_def)
  show "hit_key (hs ! i) \<le> hit_key (hs ! sift_target hs n i)"
    using assms(3) by (auto simp: sift_target_def Let_def cmp)
  show "hit_key (hs ! j) \<le> hit_key (hs ! sift_target hs n i)" if "0 < j" "j < n" "parent j = i"
    using that assms(3) children [OF that(1), of i] by (auto simp: sift_target_def Let_def cmp)
qed


lemma sift_hole_step:
  assumes hole: "heap_hole hs n p i" and nan: "heap_nan_free hs" and len: "n \<le> length hs" and i: "i < n"
    and g: "g = sift_target hs n i" "g \<noteq> i"
  shows "heap_hole (hs[i := hs ! g, g := hs ! i]) n p g"
proof -
  note t = sift_target_props [OF nan len i, folded g(1)]
  have g2: "g = 2 * i + 1 \<or> g = 2 * i + 2" "g < n" using t(1) g(2) by auto
  then have pg: "parent g = i" "i < g" by auto
  have p: "p \<le> i" using hole by (simp add: heap_hole_def)
  have h1: "hit_key (hs ! j) \<le> hit_key (hs ! parent j)" if "0 < j" "j < n" "p \<le> parent j" "parent j \<noteq> i" for j
    using hole that by (simp add: heap_hole_def)
  have h2: "hit_key (hs ! j) \<le> hit_key (hs ! parent i)" if "0 < j" "j < n" "parent j = i" "0 < i" "p \<le> parent i" for j
    using hole that by (simp add: heap_hole_def)
  let ?hs = "hs[i := hs ! g, g := hs ! i]"
  have nth: "?hs ! j = (if j = g then hs ! i else if j = i then hs ! g else hs ! j)" if "j < n" for j
    using that i g2 len by (simp add: nth_list_update)
  have a: "hit_key (?hs ! j) \<le> hit_key (?hs ! parent j)" if j: "0 < j" "j < n" "p \<le> parent j" "parent j \<noteq> g" for j
  proof -
    have pj: "parent j < n" "parent j < j" using j by auto
    consider "j = i" | "parent j = i" | "j \<noteq> i" "parent j \<noteq> i" by blast
    then show ?thesis
    proof cases
      case 1
      then have "hit_key (hs ! g) \<le> hit_key (hs ! parent i)" using h2 [of g] g2 pg j by auto
      then show ?thesis using 1 j pj pg(2) nth [of j] nth [of "parent j"] by auto
    next
      case 2
      then show ?thesis using t(2) t(3) [of j] j nth [of j] nth [of "parent j"] pj pg by auto
    next
      case 3
      then have "j \<noteq> g" using pg by auto
      with 3 show ?thesis using h1 [of j] j nth [of j] nth [of "parent j"] pj by auto
    qed
  qed
  have b: "hit_key (?hs ! j) \<le> hit_key (?hs ! parent g)" if j: "0 < j" "j < n" "parent j = g" for j
  proof -
    have "hit_key (hs ! j) \<le> hit_key (hs ! g)" using h1 [of j] j pg p by simp
    moreover have "j \<noteq> g" "j \<noteq> i" using j pg by auto
    ultimately show ?thesis using nth [of j] nth [of i] j i pg by auto
  qed
  have "p \<le> g" using p pg by simp
  then show ?thesis unfolding heap_hole_def using a b by blast
qed

lemma sift_down_props:
  assumes "heap_hole hs n p i" and "heap_nan_free hs" and "n \<le> length hs" and "i < n"
  shows "heap_from (sift_down hs n i) n p \<and> length (sift_down hs n i) = length hs
    \<and> mset (take n (sift_down hs n i)) = mset (take n hs) \<and> mset (sift_down hs n i) = mset hs"
  using assms
proof (induction "n - i" arbitrary: hs i rule: less_induct)
  case less
  define g where "g = sift_target hs n i"
  note t = sift_target_props [OF less.prems(2-4), folded g_def]
  show ?case
  proof (cases "g = i")
    case True
    have "hit_key (hs ! j) \<le> hit_key (hs ! parent j)" if "0 < j" "j < n" "p \<le> parent j" for j
      using less.prems(1) that t(3) [of j] True unfolding heap_hole_def by (cases "parent j = i") auto
    then have "heap_from hs n p" by (simp add: heap_from_def)
    moreover have "sift_down hs n i = hs" using True by (simp add: sift_down_step [of hs] Let_def g_def)
    ultimately show ?thesis by simp
  next
    case False
    let ?hs = "hs[i := hs ! g, g := hs ! i]"
    have g: "i < g" "g < n" using t(1) False by auto
    have hole: "heap_hole ?hs n p g" using less.prems False by (intro sift_hole_step) (auto simp: g_def)
    have ms: "mset ?hs = mset hs" using g less.prems(3) by (intro mset_swap_update) auto
    then have nan: "heap_nan_free ?hs" using less.prems(2) by (simp add: heap_nan_free_def flip: set_mset_mset)
    have "sift_down hs n i = sift_down ?hs n g" using False by (simp add: sift_down_step [of hs] Let_def g_def)
    moreover have "mset (take n ?hs) = mset (take n hs)"
      using g less.prems(3,4) by (intro sift_swap_mset) auto
    ultimately show ?thesis using less.hyps [OF _ hole nan] g less.prems(3) ms by simp
  qed
qed

subsection \<open>Construction, replacement and drain\<close>

lemma heap_hole_above: "heap_from hs n (Suc p) \<Longrightarrow> heap_hole hs n p p"
  unfolding heap_from_def heap_hole_def by auto

lemma heapify_props:
  assumes "heap_nan_free hs" and "n \<le> length hs"
  shows "heap_from (heapify n hs) n 0 \<and> length (heapify n hs) = length hs \<and> mset (heapify n hs) = mset hs"
proof -
  have "heap_from (foldl (\<lambda>h p. sift_down h n p) hs (rev [p..<n div 2])) n p
      \<and> length (foldl (\<lambda>h p. sift_down h n p) hs (rev [p..<n div 2])) = length hs
      \<and> mset (foldl (\<lambda>h p. sift_down h n p) hs (rev [p..<n div 2])) = mset hs" if "p \<le> n div 2" for p
    using that
  proof (induction p rule: inc_induct)
    case base
    have "heap_from hs n (n div 2)" unfolding heap_from_def by auto
    then show ?case by simp
  next
    case (step p)
    define h where "h = foldl (\<lambda>h p. sift_down h n p) hs (rev [Suc p..<n div 2])"
    have IH: "heap_from h n (Suc p)" "length h = length hs" "mset h = mset hs" using step.IH by (auto simp: h_def)
    have nan: "heap_nan_free h" using assms(1) IH(3) by (simp add: heap_nan_free_def flip: set_mset_mset)
    have e: "foldl (\<lambda>h p. sift_down h n p) hs (rev [p..<n div 2]) = sift_down h n p"
      using step.hyps by (simp add: upt_conv_Cons h_def)
    show ?case
      unfolding e using sift_down_props [OF heap_hole_above [OF IH(1)] nan] IH assms(2) step.hyps by simp
  qed
  from this [of 0] show ?thesis by (simp add: heapify_def)
qed

lemma heap_root_max: "heap_from hs n 0 \<Longrightarrow> j < n \<Longrightarrow> hit_key (hs ! j) \<le> hit_key (hs ! 0)"
proof (induction j rule: less_induct)
  case (less j)
  show ?case
  proof (cases "j = 0")
    case False
    then have "hit_key (hs ! j) \<le> hit_key (hs ! parent j)" using less.prems by (simp add: heap_from_def)
    also have "\<dots> \<le> hit_key (hs ! 0)" using less False by auto
    finally show ?thesis .
  qed simp
qed


lemma heap_hole_root: "heap_from hs n 0 \<Longrightarrow> heap_hole (hs[0 := x]) n 0 0"
  unfolding heap_from_def heap_hole_def by (auto simp: nth_list_update)

lemma sift_down_frame:
  assumes "n \<le> length hs" and "i < n"
  shows "length (sift_down hs n i) = length hs \<and> mset (take n (sift_down hs n i)) = mset (take n hs)
    \<and> mset (sift_down hs n i) = mset hs"
  using assms
proof (induction "n - i" arbitrary: hs i rule: less_induct)
  case less
  define g where "g = sift_target hs n i"
  have t: "g = i \<or> i < g \<and> g < n" by (simp add: g_def sift_target_def Let_def)
  show ?case
  proof (cases "g = i")
    case True
    then show ?thesis by (simp add: sift_down_step [of hs] Let_def g_def)
  next
    case False
    let ?hs = "hs[i := hs ! g, g := hs ! i]"
    have "sift_down hs n i = sift_down ?hs n g" using False by (simp add: sift_down_step [of hs] Let_def g_def)
    moreover have "mset (take n ?hs) = mset (take n hs)" "mset ?hs = mset hs"
      using t less.prems False by (auto intro!: sift_swap_mset mset_swap_update)
    moreover have "n - g < n - i" using t False by auto
    ultimately show ?thesis using less.hyps [of g ?hs] t False less.prems(1) by simp
  qed
qed

definition heap_inv :: "nat \<Rightarrow> hits \<Rightarrow> bool" where
  "heap_inv k hs \<longleftrightarrow> length hs \<le> k \<and> heap_nan_free hs \<and> (length hs = k \<longrightarrow> heap_from hs k 0)"

lemma heap_nan_free_mset: "mset hs = mset hs' \<Longrightarrow> heap_nan_free hs \<Longrightarrow> heap_nan_free hs'"
  by (metis heap_nan_free_def set_mset_mset)

lemma heap_feed_inv:
  assumes "0 < k" and "heap_inv k hs" and "\<not> fisnan (snd h)"
  shows "heap_inv k (heap_feed k h hs)"
proof -
  have nan: "heap_nan_free (hs @ [h])" "heap_nan_free (hs[0 := h])"
    using assms(2,3) set_update_subset_insert [of hs 0 h] by (auto simp: heap_inv_def heap_nan_free_def)
  consider "length hs + 1 < k" | "length hs + 1 = k" | "length hs = k" "flt (snd h) (snd (hs ! 0))"
    | "length hs = k" "\<not> flt (snd h) (snd (hs ! 0))"
    using assms(2) unfolding heap_inv_def by linarith
  then show ?thesis
  proof cases
    case 1
    then show ?thesis using nan by (simp add: heap_feed_def heap_inv_def)
  next
    case 2
    then show ?thesis
      using heapify_props [OF nan(1), of k] heap_nan_free_mset [OF _ nan(1)] by (auto simp: heap_feed_def heap_inv_def)
  next
    case 3
    then have "heap_hole (hs[0 := h]) k 0 0" using assms(2) by (auto simp: heap_inv_def intro: heap_hole_root)
    from sift_down_props [OF this nan(2)] 3 assms(1) heap_nan_free_mset [OF _ nan(2)] show ?thesis
      by (auto simp: heap_feed_def heap_inv_def)
  next
    case 4
    then show ?thesis using assms(2) by (simp add: heap_feed_def)
  qed
qed

lemma heap_feed_best:
  assumes "0 < k" and "heap_inv k hs" and "\<not> fisnan (snd h)" and "best_k hit_key k M (mset hs)"
  shows "best_k hit_key k (add_mset h M) (mset (heap_feed k h hs))"
proof (cases "length hs < k")
  case True
  have "heap_nan_free (hs @ [h])" using assms(2,3) by (auto simp: heap_inv_def heap_nan_free_def)
  then have "mset (heap_feed k h hs) = add_mset h (mset hs)"
    using True heapify_props [of "hs @ [h]" k] by (auto simp: heap_feed_def Let_def)
  then show ?thesis using best_k_add_room [OF assms(4)] True by simp
next
  case False
  with assms(2) have full: "length hs = k" and heap: "heap_from hs k 0" by (auto simp: heap_inv_def)
  have ne: "hs \<noteq> []" using full assms(1) by auto
  have root: "hit_key x \<le> hit_key (hs ! 0)" if "x \<in> set hs" for x
    using that heap_root_max [OF heap] full by (auto simp: in_set_conv_nth)
  have nan: "\<not> fisnan (snd (hs ! 0))" using assms(2) ne by (simp add: heap_inv_def heap_nan_free_def)
  have cmp: "flt (snd h) (snd (hs ! 0)) \<longleftrightarrow> hit_key h < hit_key (hs ! 0)" using nan assms(3) by (intro flt_iff_key)
  define S where "S = mset hs - {#hs ! 0#}"
  have S: "mset hs = add_mset (hs ! 0) S" using ne by (simp add: S_def)
  show ?thesis
  proof (cases "flt (snd h) (snd (hs ! 0))")
    case True
    have "mset (heap_feed k h hs) = mset (hs[0 := h])"
      using True full assms(1) sift_down_frame [of k "hs[0 := h]" 0] by (simp add: heap_feed_def)
    then have e: "mset (heap_feed k h hs) = add_mset h S" using ne by (simp add: mset_list_update S_def)
    show ?thesis unfolding e
    proof (rule best_k_replace [where w = "hs ! 0"])
      show "best_k hit_key k M (add_mset (hs ! 0) S)" using assms(4) S by simp
      show "size (add_mset (hs ! 0) S) = k" using full S by (metis size_mset)
      show "hit_key x \<le> hit_key (hs ! 0)" if "x \<in># S" for x
        using root that in_diffD [of x "mset hs" "{#hs ! 0#}"] by (simp add: S_def)
      show "hit_key h \<le> hit_key (hs ! 0)" using True cmp by simp
    qed
  next
    case nb: False
    then have "mset (heap_feed k h hs) = mset hs" using full by (simp add: heap_feed_def)
    moreover have "hit_key x \<le> hit_key h" if "x \<in># mset hs" for x using root [of x] that nb cmp by simp
    ultimately show ?thesis using best_k_add_skip [OF assms(4)] full by simp
  qed
qed

text \<open>The heap is a best-\<open>k\<close> accumulator, like the buffer of the tree search.\<close>

interpretation heap_buffer: best_k_buffer hit_key "Suc k" "\<lambda>h. \<not> fisnan (snd h)" "[]"
  "heap_feed (Suc k)" mset "heap_inv (Suc k)" for k
proof unfold_locales
  show "heap_inv (Suc k) []" by (simp add: heap_inv_def heap_nan_free_def)
qed (auto intro: heap_feed_inv heap_feed_best)

lemma heap_drain_mset: "n \<le> length hs \<Longrightarrow> mset (heap_drain hs n buf) = mset (take n hs) + mset buf"
proof (induction hs n buf rule: heap_drain.induct)
  case (2 hs n buf)
  define h1 where "h1 = hs[0 := hs ! n]"
  define h2 where "h2 = (if n > 0 then sift_down h1 n 0 else h1)"
  have len: "length h1 = length hs" "length h2 = length hs" "mset (take n h2) = mset (take n h1)"
    using "2.prems" sift_down_frame [of n h1 0] by (auto simp: h1_def h2_def)
  have "heap_drain hs (Suc n) buf = heap_drain h2 n (hs ! 0 # buf)" by (simp add: h1_def h2_def Let_def)
  then have "mset (heap_drain hs (Suc n) buf) = mset (take n h2) + mset (hs ! 0 # buf)"
    using "2.IH" [OF h1_def, folded h2_def] "2.prems" len(2) by simp
  moreover have "add_mset (hs ! 0) (mset (take n h1)) = mset (take (Suc n) hs)"
  proof (cases "n = 0")
    case True
    then show ?thesis using "2.prems" by (cases hs) (auto simp: h1_def)
  next
    case False
    then have "take n h1 = (take n hs)[0 := hs ! n]" by (simp add: h1_def take_update_swap)
    moreover have "hs ! 0 \<in># mset (take n hs)"
      using False "2.prems" nth_mem [of 0 "take n hs"] by auto
    ultimately show ?thesis using False "2.prems" by (simp add: mset_list_update take_Suc_nth)
  qed
  ultimately show ?case using len by simp
qed simp


lemma heap_drain_sorted:
  "heap_from hs n 0 \<Longrightarrow> heap_nan_free hs \<Longrightarrow> n \<le> length hs \<Longrightarrow> sorted (map hit_key buf) \<Longrightarrow>
   (\<And>x y. x \<in> set (take n hs) \<Longrightarrow> y \<in> set buf \<Longrightarrow> hit_key x \<le> hit_key y) \<Longrightarrow>
   sorted (map hit_key (heap_drain hs n buf))"
proof (induction hs n buf rule: heap_drain.induct)
  case (2 hs n buf)
  define h1 where "h1 = hs[0 := hs ! n]"
  define h2 where "h2 = (if n > 0 then sift_down h1 n 0 else h1)"
  have hn: "heap_from hs n 0" using "2.prems"(1) by (auto simp: heap_from_def)
  have root: "hit_key x \<le> hit_key (hs ! 0)" if "x \<in> set (take (Suc n) hs)" for x
    using that heap_root_max [OF "2.prems"(1)] "2.prems"(3) by (auto simp: in_set_conv_nth)
  have sub: "set h1 \<subseteq> set hs" using "2.prems"(3) set_update_subset_insert [of hs 0 "hs ! n"] by (auto simp: h1_def)
  then have nan1: "heap_nan_free h1" using "2.prems"(2) by (auto simp: heap_nan_free_def)
  have hole: "heap_hole h1 n 0 0" unfolding h1_def using hn by (rule heap_hole_root)
  have h2: "heap_from h2 n 0 \<and> length h2 = length hs \<and> mset (take n h2) = mset (take n h1) \<and> mset h2 = mset h1"
    using sift_down_props [OF hole nan1] "2.prems"(3) by (auto simp: h2_def h1_def heap_from_def)
  then have nan: "heap_nan_free h2" using nan1 heap_nan_free_mset by metis
  have "set (take n h2) = set (take n h1)" using h2 by (metis set_mset_mset)
  also have "\<dots> \<subseteq> set (take (Suc n) hs)"
  proof
    fix x assume "x \<in> set (take n h1)"
    then obtain j where j: "j < n" "x = h1 ! j" using "2.prems"(3) by (auto simp: in_set_conv_nth h1_def)
    then have "x = hs ! (if j = 0 then n else j)" using "2.prems"(3) by (cases hs) (auto simp: h1_def nth_list_update)
    then have "x = take (Suc n) hs ! (if j = 0 then n else j)" using j(1) by simp
    moreover have "(if j = 0 then n else j) < length (take (Suc n) hs)" using j(1) "2.prems"(3) by simp
    ultimately show "x \<in> set (take (Suc n) hs)" using nth_mem by metis
  qed
  finally have le: "hit_key x \<le> hit_key (hs ! 0)" if "x \<in> set (take n h2)" for x using root that by blast
  have r0: "hs ! 0 \<in> set (take (Suc n) hs)" using "2.prems"(3) by (auto simp: in_set_conv_nth)
  have "heap_drain hs (Suc n) buf = heap_drain h2 n (hs ! 0 # buf)" by (simp add: h1_def h2_def Let_def)
  moreover have "sorted (map hit_key (hs ! 0 # buf))" using "2.prems"(4,5) r0 by auto
  moreover have "hit_key x \<le> hit_key y" if x: "x \<in> set (take n h2)" and y: "y \<in> set (hs ! 0 # buf)" for x y
    using le [OF x] y "2.prems"(5) [OF r0, of y] by auto
  ultimately show ?case
    using "2.IH" [OF h1_def, folded h2_def] h2 nan "2.prems"(3) by simp
qed simp

end
