(* ===== verification/IVF.thy ===== *)
theory IVF
  imports MaxHeap VecIndex
begin

text \<open>
  The inverted-file index of \<^verbatim>\<open>sqlite-vec.c\<close> (\<open>InvertedList\<close>, \<open>IVF\<close>): a training buffer, k-means over it, one
  growable list of rows per centroid, probing of the nearest lists with a bounded heap, deletion by
  swapping with the last entry. Flat arrays of \<open>cap * dim\<close> floats are lists of \<open>cap\<close> vectors. Fresh memory
  holds \<open>junk\<close>; \<open>ok\<close> is the outcome of the allocations of a call; \<open>rnd\<close> gives the values \<open>rand()\<close> returns,
  by the number of the call.
\<close>

record inverted_list =
  il_count :: nat
  il_cap :: nat
  il_rowids :: "i64 list"
  il_vecs :: "f32 list list"

record ivf =
  nlist :: nat
  nprobe :: nat
  iv_dim :: nat
  centroids :: "f32 list list"
  lists :: "inverted_list list"
  train_vecs :: "f32 list list"
  train_rowids :: "i64 list"
  iv_deleted :: "bool list"
  train_size :: nat
  train_capacity :: nat
  trained :: bool

type_synonym junk = "i64 \<times> f32 list"

definition IVF_LIST_CAP :: nat where "IVF_LIST_CAP = 128"
definition IVF_TRAIN_CAP :: nat where "IVF_TRAIN_CAP = 1024"

subsection \<open>Inverted lists\<close>

definition fresh_list :: "junk \<Rightarrow> nat \<Rightarrow> inverted_list" where
  "fresh_list junk cap = \<lparr>il_count = 0, il_cap = cap, il_rowids = replicate cap (fst junk),
     il_vecs = replicate cap (snd junk)\<rparr>"

definition invlist_init_with_dim :: "bool \<Rightarrow> junk \<Rightarrow> int \<Rightarrow> inverted_list" where
  "invlist_init_with_dim ok junk init_cap =
     (if ok then fresh_list junk (if init_cap > 0 then nat init_cap else 8)
      else \<lparr>il_count = 0, il_cap = 0, il_rowids = [], il_vecs = []\<rparr>)"

text \<open>A full list doubles its arrays; a list of an index never has capacity 0 (\<open>il_inv\<close> below).\<close>

definition invlist_append ::
  "bool \<Rightarrow> junk \<Rightarrow> inverted_list \<Rightarrow> f32 list \<Rightarrow> nat \<Rightarrow> i64 \<Rightarrow> sqlite_rc \<times> inverted_list" where
  "invlist_append ok junk l vec dim rowid =
     (if il_count l \<ge> il_cap l \<and> \<not> ok then (SQLITE_NOMEM, l)
      else (let l1 = (if il_count l \<ge> il_cap l
                      then l\<lparr>il_rowids := il_rowids l @ replicate (il_cap l) (fst junk),
                             il_vecs := il_vecs l @ replicate (il_cap l) (snd junk),
                             il_cap := il_cap l * 2\<rparr>
                      else l);
                idx = il_count l1
            in (SQLITE_OK, l1\<lparr>il_count := idx + 1, il_rowids := (il_rowids l1)[idx := rowid],
                              il_vecs := (il_vecs l1)[idx := take dim vec]\<rparr>)))"

definition ivf_create :: "bool \<Rightarrow> junk \<Rightarrow> int \<Rightarrow> int \<Rightarrow> int \<Rightarrow> ivf option" where
  "ivf_create ok junk n_list n_probe dim =
     (if n_list \<le> 0 \<or> dim \<le> 0 \<or> n_probe \<le> 0 \<or> \<not> ok then None
      else Some \<lparr>nlist = nat n_list, nprobe = nat n_probe, iv_dim = nat dim,
        centroids = replicate (nat n_list) (snd junk),
        lists = replicate (nat n_list) (fresh_list junk IVF_LIST_CAP),
        train_vecs = replicate IVF_TRAIN_CAP (snd junk), train_rowids = replicate IVF_TRAIN_CAP (fst junk),
        iv_deleted = replicate IVF_TRAIN_CAP False,
        train_size = 0, train_capacity = IVF_TRAIN_CAP, trained = False\<rparr>)"

subsection \<open>Training\<close>

text \<open>The loop over the centroids that \<open>ivf_train_kmeans\<close> and \<open>ivf_add_vector\<close> share.\<close>

definition nearest_centroid :: "distance_func \<Rightarrow> f32 list \<Rightarrow> f32 list list \<Rightarrow> nat \<Rightarrow> nat \<Rightarrow> nat" where
  "nearest_centroid distfunc vec cents dim k =
     fst (foldl (\<lambda>(best, bestd) c. let d = distfunc vec (cents ! c) dim in
                   if flt d bestd then (c, d) else (best, bestd))
            (0, distfunc vec (cents ! 0) dim) [1..<k])"

definition add_vec :: "nat \<Rightarrow> f32 list \<Rightarrow> f32 list \<Rightarrow> f32 list" where
  "add_vec dim s v = map (\<lambda>d. fadd (s ! d) (v ! d)) [0..<dim]"

definition kmeans_sums ::
  "nat \<Rightarrow> nat \<Rightarrow> f32 list list \<Rightarrow> nat list \<Rightarrow> nat list \<Rightarrow> f32 list list \<times> nat list" where
  "kmeans_sums k dim tvecs valid labels =
     foldl (\<lambda>(sums, counts) i. let c = labels ! i in
              (sums[c := add_vec dim (sums ! c) (tvecs ! (valid ! i))], counts[c := counts ! c + 1]))
       (replicate k (replicate dim 0), replicate k 0) [0..<length valid]"

text \<open>One centroid after another; a centroid without vectors is replaced by a random training vector.\<close>

definition kmeans_update ::
  "(nat \<Rightarrow> nat) \<Rightarrow> nat \<Rightarrow> nat \<Rightarrow> f32 list list \<Rightarrow> nat list \<Rightarrow> f32 list list \<times> nat list
    \<Rightarrow> f32 list list \<times> nat \<Rightarrow> f32 list list \<times> nat" where
  "kmeans_update rnd k dim tvecs valid sc st =
     foldl (\<lambda>(cents, calls) c.
              if snd sc ! c > 0
              then (cents[c := map (\<lambda>d. fdiv (fst sc ! c ! d) (f32_of_int (int (snd sc ! c)))) [0..<dim]], calls)
              else (cents[c := tvecs ! (valid ! (rnd calls mod length valid))], Suc calls))
       st [0..<k]"

definition kmeans_iter ::
  "(nat \<Rightarrow> nat) \<Rightarrow> distance_func \<Rightarrow> nat \<Rightarrow> nat \<Rightarrow> f32 list list \<Rightarrow> nat list
    \<Rightarrow> f32 list list \<times> nat \<Rightarrow> f32 list list \<times> nat" where
  "kmeans_iter rnd distfunc k dim tvecs valid st =
     (let labels = map (\<lambda>i. nearest_centroid distfunc (tvecs ! i) (fst st) dim k) valid
      in kmeans_update rnd k dim tvecs valid (kmeans_sums k dim tvecs valid labels) st)"

definition ivf_train_kmeans ::
  "(nat \<Rightarrow> nat) \<Rightarrow> bool \<Rightarrow> ivf \<Rightarrow> int \<Rightarrow> int \<Rightarrow> distance_func \<Rightarrow> bool \<times> ivf" where
  "ivf_train_kmeans rnd ok ivf n iters distfunc =
     (if n \<le> 0 \<or> iters \<le> 0 \<or> \<not> ok then (False, ivf)
      else (let k = nlist ivf; dim = iv_dim ivf;
                valid = filter (\<lambda>i. \<not> iv_deleted ivf ! i) [0..<train_size ivf]
            in if valid = [] then (False, ivf)
               else (let cents0 = map (\<lambda>c. train_vecs ivf ! (valid ! (c mod length valid))) [0..<k];
                         (cents, calls) =
                           (kmeans_iter rnd distfunc k dim (train_vecs ivf) valid ^^ nat iters) (cents0, 0)
                     in (True, ivf\<lparr>centroids := cents, trained := True\<rparr>))))"

definition ivf_add_vector ::
  "bool \<Rightarrow> junk \<Rightarrow> ivf \<Rightarrow> f32 list \<Rightarrow> i64 \<Rightarrow> distance_func \<Rightarrow> sqlite_rc \<times> ivf" where
  "ivf_add_vector ok junk ivf vec rowid distfunc =
     (let best = nearest_centroid distfunc vec (centroids ivf) (iv_dim ivf) (nlist ivf);
          (rc, l) = invlist_append ok junk (lists ivf ! best) vec (iv_dim ivf) rowid
      in (rc, ivf\<lparr>lists := (lists ivf)[best := l]\<rparr>))"

definition ivf_add_to_train :: "ivf \<Rightarrow> f32 list \<Rightarrow> i64 \<Rightarrow> sqlite_rc \<times> ivf" where
  "ivf_add_to_train ivf vec rowid =
     (if train_size ivf \<ge> train_capacity ivf then (SQLITE_FULL, ivf)
      else (SQLITE_OK, ivf\<lparr>train_vecs := (train_vecs ivf)[train_size ivf := take (iv_dim ivf) vec],
                            train_rowids := (train_rowids ivf)[train_size ivf := rowid],
                            train_size := train_size ivf + 1\<rparr>))"

fun ivf_flush :: "bool \<Rightarrow> junk \<Rightarrow> (f32 list \<times> i64) list \<Rightarrow> distance_func \<Rightarrow> ivf \<Rightarrow> sqlite_rc \<times> ivf" where
  "ivf_flush ok junk [] distfunc ivf = (SQLITE_OK, ivf)"
| "ivf_flush ok junk ((v, r) # rows) distfunc ivf =
     (case ivf_add_vector ok junk ivf v r distfunc of
        (SQLITE_OK, ivf') \<Rightarrow> ivf_flush ok junk rows distfunc ivf'
      | (rc, ivf') \<Rightarrow> (rc, ivf'))"

definition train_rows :: "ivf \<Rightarrow> (f32 list \<times> i64) list" where
  "train_rows ivf = map (\<lambda>i. (train_vecs ivf ! i, train_rowids ivf ! i)) [0..<train_size ivf]"

definition ivf_train_and_flush ::
  "(nat \<Rightarrow> nat) \<Rightarrow> bool \<Rightarrow> junk \<Rightarrow> ivf \<Rightarrow> distance_func \<Rightarrow> sqlite_rc \<times> ivf" where
  "ivf_train_and_flush rnd ok junk ivf distfunc =
     (case ivf_train_kmeans rnd ok ivf (int (train_size ivf)) 20 distfunc of
        (False, ivf1) \<Rightarrow> (SQLITE_ERROR, ivf1)
      | (True, ivf1) \<Rightarrow>
          (case ivf_flush ok junk (train_rows ivf1) distfunc (ivf1\<lparr>trained := True\<rparr>) of
             (SQLITE_OK, ivf2) \<Rightarrow> (SQLITE_OK, ivf2\<lparr>train_size := 0\<rparr>)
           | (rc, ivf2) \<Rightarrow> (rc, ivf2)))"

subsection \<open>Deletion and update\<close>

definition il_find :: "inverted_list \<Rightarrow> i64 \<Rightarrow> nat option" where
  "il_find l rowid = List.find (\<lambda>i. il_rowids l ! i = rowid) [0..<il_count l]"

definition il_remove :: "inverted_list \<Rightarrow> nat \<Rightarrow> inverted_list" where
  "il_remove l i =
     (let last = il_count l - 1 in
      l\<lparr>il_rowids := (il_rowids l)[i := il_rowids l ! last], il_vecs := (il_vecs l)[i := il_vecs l ! last],
        il_count := last\<rparr>)"

text \<open>
  The result is the list the row was in, \<open>-1\<close> if it was in none, \<open>-2\<close> before training, where the flag
  \<open>deleted[rowid - 1]\<close> is set; a write outside that array is \<open>None\<close>.
\<close>

definition ivf_delete_vector :: "ivf \<Rightarrow> i64 \<Rightarrow> (int \<times> ivf) option" where
  "ivf_delete_vector ivf rowid =
     (if \<not> trained ivf
      then (if 1 \<le> rowid \<and> nat (rowid - 1) < length (iv_deleted ivf)
            then Some (-2, ivf\<lparr>iv_deleted := (iv_deleted ivf)[nat (rowid - 1) := True]\<rparr>) else None)
      else (case List.find (\<lambda>l. il_find (lists ivf ! l) rowid \<noteq> None) [0..<nlist ivf] of
              None \<Rightarrow> Some (-1, ivf)
            | Some l \<Rightarrow>
                (case il_find (lists ivf ! l) rowid of
                   None \<Rightarrow> Some (-1, ivf)
                 | Some i \<Rightarrow> Some (int l, ivf\<lparr>lists := (lists ivf)[l := il_remove (lists ivf ! l) i]\<rparr>))))"

text \<open>\<open>1e30f\<close>, the start of the search for the new list.\<close>

definition F1E30 :: f32 where
  "F1E30 = 0x7149F2CA"

text \<open>Before training both branches of the C code copy the vector and leave the flag \<open>deleted\<close> cleared.\<close>

definition ivf_update_vector_reinsert ::
  "ivf \<Rightarrow> i64 \<Rightarrow> f32 list \<Rightarrow> distance_func \<Rightarrow> (sqlite_rc \<times> ivf) option" where
  "ivf_update_vector_reinsert ivf rowid vec distfunc =
     (if \<not> trained ivf
      then (if 1 \<le> rowid \<and> nat (rowid - 1) < length (iv_deleted ivf) \<and> nat (rowid - 1) < length (train_vecs ivf)
            then Some (SQLITE_OK, ivf\<lparr>train_vecs := (train_vecs ivf)[nat (rowid - 1) := take (iv_dim ivf) vec],
                                      iv_deleted := (iv_deleted ivf)[nat (rowid - 1) := False]\<rparr>)
            else None)
      else (case ivf_delete_vector ivf rowid of
              None \<Rightarrow> None
            | Some (old_list, ivf1) \<Rightarrow>
                if old_list < 0 then Some (SQLITE_OK, ivf1)
                else (let new_list = fst (foldl (\<lambda>(nl, min_dist) l.
                            let dist = distfunc vec (centroids ivf1 ! l) (iv_dim ivf1) in
                            if flt dist min_dist then (l, dist) else (nl, min_dist)) (0, F1E30) [0..<nlist ivf1]);
                          lst = lists ivf1 ! new_list
                      in if il_count lst \<ge> il_cap lst then Some (SQLITE_NOMEM, ivf1)
                         else Some (SQLITE_OK, ivf1\<lparr>lists := (lists ivf1)[new_list :=
                                lst\<lparr>il_rowids := (il_rowids lst)[il_count lst := rowid],
                                    il_vecs := (il_vecs lst)[il_count lst := take (iv_dim ivf1) vec],
                                    il_count := il_count lst + 1\<rparr>]\<rparr>))))"

subsection \<open>Search\<close>

definition select_best :: "f32 list \<Rightarrow> nat list \<Rightarrow> nat \<Rightarrow> nat \<Rightarrow> nat" where
  "select_best dists idxs i n =
     foldl (\<lambda>best j. if flt (dists ! (idxs ! j)) (dists ! (idxs ! best)) then j else best) i [i + 1..<n]"

definition select_step :: "f32 list \<Rightarrow> nat \<Rightarrow> nat list \<times> nat list \<Rightarrow> nat \<Rightarrow> nat list \<times> nat list" where
  "select_step dists n st i =
     (let best = select_best dists (fst st) i n;
          idxs = (fst st)[i := fst st ! best, best := fst st ! i]
      in (idxs, snd st @ [idxs ! i]))"

definition select_nprobe :: "ivf \<Rightarrow> f32 list \<Rightarrow> nat \<Rightarrow> distance_func \<Rightarrow> nat list" where
  "select_nprobe ivf query n_probe distfunc =
     (let n = nlist ivf;
          dists = map (\<lambda>i. distfunc query (centroids ivf ! i) (iv_dim ivf)) [0..<n]
      in snd (foldl (select_step dists n) ([0..<n], []) [0..<min n_probe n]))"

text \<open>The rows of a list that pass the filter, in order, with their distances.\<close>

definition list_hits :: "distance_func \<Rightarrow> f32 list \<Rightarrow> nat \<Rightarrow> rowid_map \<Rightarrow> inverted_list \<Rightarrow> hits" where
  "list_hits distfunc query dim m l =
     map (\<lambda>j. (il_rowids l ! j, distfunc query (il_vecs l ! j) dim))
       (filter (\<lambda>j. \<not> (\<not> map_has m (il_rowids l ! j) \<and> pre_filter m)) [0..<il_count l])"

definition ivf_search ::
  "ivf \<Rightarrow> f32 list \<Rightarrow> int \<Rightarrow> int \<Rightarrow> rowid_map \<Rightarrow> distance_func \<Rightarrow> hits" where
  "ivf_search ivf query topk nprobe_override m distfunc =
     (if topk \<le> 0 then []
      else (let n_probe = min (if nprobe_override > 0 then nat nprobe_override else nprobe ivf) (nlist ivf);
                cent_ids = select_nprobe ivf query n_probe distfunc;
                heap = fold (\<lambda>c h. fold (heap_feed (nat topk)) (list_hits distfunc query (iv_dim ivf) m (lists ivf ! c)) h)
                         cent_ids []
            in heap_drain heap (length heap) []))"

end
