(* ===== verification/Distance.thy ===== *)
theory Distance
  imports IEEE_Float
begin

text \<open>
  The distance functions of \<^verbatim>\<open>sqlite-vec.c\<close>, in the build without the AVX and NEON variants: squared
  differences and absolute differences over \<open>f32\<close> and \<open>i8\<close> vectors, cosine distance, and the Hamming
  distance of bit vectors with its table-driven and its word-at-a-time path. A vector argument is the
  list of its elements; \<open>i8\<close> elements are integers in \<open>[-128, 127]\<close>, bytes are \<open>8 word\<close>s.
\<close>

unbundle bit_operations_syntax

subsection \<open>L2, L1 and cosine\<close>

definition l2_sqr_float :: "f32 list \<Rightarrow> f32 list \<Rightarrow> nat \<Rightarrow> f32" where
  "l2_sqr_float a b qty =
     f32_of_f64 (dsqrt (f64_of_f32
       (foldl (\<lambda>res i. let t = fsub (a ! i) (b ! i) in fadd res (fmul t t)) 0 [0..<qty])))"

definition l2_sqr_int8 :: "int list \<Rightarrow> int list \<Rightarrow> nat \<Rightarrow> f32" where
  "l2_sqr_int8 a b d =
     f32_of_f64 (dsqrt (f64_of_f32
       (foldl (\<lambda>res i. let t = f32_of_int (a ! i - b ! i) in fadd res (fmul t t)) 0 [0..<d])))"

definition distance_l2_sqr_float :: "f32 list \<Rightarrow> f32 list \<Rightarrow> nat \<Rightarrow> f32" where
  "distance_l2_sqr_float a b d = l2_sqr_float a b d"

definition distance_l2_sqr_int8 :: "int list \<Rightarrow> int list \<Rightarrow> nat \<Rightarrow> f32" where
  "distance_l2_sqr_int8 a b d = l2_sqr_int8 a b d"

definition l1_int8 :: "int list \<Rightarrow> int list \<Rightarrow> nat \<Rightarrow> int" where
  "l1_int8 a b d = foldl (\<lambda>res i. c_int (res + \<bar>a ! i - b ! i\<bar>)) 0 [0..<d]"

definition distance_l1_int8 :: "int list \<Rightarrow> int list \<Rightarrow> nat \<Rightarrow> int" where
  "distance_l1_int8 a b d = l1_int8 a b d"

definition l1_f32 :: "f32 list \<Rightarrow> f32 list \<Rightarrow> nat \<Rightarrow> f64" where
  "l1_f32 a b d =
     foldl (\<lambda>res i. dadd res (dfabs (dsub (f64_of_f32 (a ! i)) (f64_of_f32 (b ! i))))) 0 [0..<d]"

definition distance_l1_f32 :: "f32 list \<Rightarrow> f32 list \<Rightarrow> nat \<Rightarrow> f64" where
  "distance_l1_f32 a b d = l1_f32 a b d"

text \<open>
  The final expression \<open>1 - (dot / (sqrt(aMag) * sqrt(bMag)))\<close> is evaluated in double precision, since
  \<open>sqrt\<close> takes and returns a \<open>double\<close>.
\<close>

definition cosine_final :: "f32 \<Rightarrow> f32 \<Rightarrow> f32 \<Rightarrow> f32" where
  "cosine_final dot aMag bMag =
     f32_of_f64 (dsub (f64_of_int 1)
       (ddiv (f64_of_f32 dot) (dmul (dsqrt (f64_of_f32 aMag)) (dsqrt (f64_of_f32 bMag)))))"

definition distance_cosine_float :: "f32 list \<Rightarrow> f32 list \<Rightarrow> nat \<Rightarrow> f32" where
  "distance_cosine_float a b qty =
     (let (dot, aMag, bMag) = foldl (\<lambda>(dot, am, bm) i.
         (fadd dot (fmul (a ! i) (b ! i)),
          fadd am (fmul (a ! i) (a ! i)),
          fadd bm (fmul (b ! i) (b ! i)))) (0, 0, 0) [0..<qty]
      in cosine_final dot aMag bMag)"

definition distance_cosine_int8 :: "int list \<Rightarrow> int list \<Rightarrow> nat \<Rightarrow> f32" where
  "distance_cosine_int8 a b d =
     (let (dot, aMag, bMag) = foldl (\<lambda>(dot, am, bm) i.
         (fadd dot (f32_of_int (a ! i * b ! i)),
          fadd am (f32_of_int (a ! i * a ! i)),
          fadd bm (f32_of_int (b ! i * b ! i)))) (0, 0, 0) [0..<d]
      in cosine_final dot aMag bMag)"

subsection \<open>Hamming\<close>

definition hamdist_table :: "nat list" where
  "hamdist_table = [
     0, 1, 1, 2, 1, 2, 2, 3, 1, 2, 2, 3, 2, 3, 3, 4, 1, 2, 2, 3, 2, 3, 3, 4,
     2, 3, 3, 4, 3, 4, 4, 5, 1, 2, 2, 3, 2, 3, 3, 4, 2, 3, 3, 4, 3, 4, 4, 5,
     2, 3, 3, 4, 3, 4, 4, 5, 3, 4, 4, 5, 4, 5, 5, 6, 1, 2, 2, 3, 2, 3, 3, 4,
     2, 3, 3, 4, 3, 4, 4, 5, 2, 3, 3, 4, 3, 4, 4, 5, 3, 4, 4, 5, 4, 5, 5, 6,
     2, 3, 3, 4, 3, 4, 4, 5, 3, 4, 4, 5, 4, 5, 5, 6, 3, 4, 4, 5, 4, 5, 5, 6,
     4, 5, 5, 6, 5, 6, 6, 7, 1, 2, 2, 3, 2, 3, 3, 4, 2, 3, 3, 4, 3, 4, 4, 5,
     2, 3, 3, 4, 3, 4, 4, 5, 3, 4, 4, 5, 4, 5, 5, 6, 2, 3, 3, 4, 3, 4, 4, 5,
     3, 4, 4, 5, 4, 5, 5, 6, 3, 4, 4, 5, 4, 5, 5, 6, 4, 5, 5, 6, 5, 6, 6, 7,
     2, 3, 3, 4, 3, 4, 4, 5, 3, 4, 4, 5, 4, 5, 5, 6, 3, 4, 4, 5, 4, 5, 5, 6,
     4, 5, 5, 6, 5, 6, 6, 7, 3, 4, 4, 5, 4, 5, 5, 6, 4, 5, 5, 6, 5, 6, 6, 7,
     4, 5, 5, 6, 5, 6, 6, 7, 5, 6, 6, 7, 6, 7, 7, 8]"

definition distance_hamming_u8 :: "8 word list \<Rightarrow> 8 word list \<Rightarrow> nat \<Rightarrow> f32" where
  "distance_hamming_u8 a b n =
     f32_of_int (foldl (\<lambda>same i. same + int (hamdist_table ! unat (a ! i XOR b ! i))) 0 [0..<n])"

text \<open>The number of set bits, which is what \<open>__builtin_popcountl\<close> of the compiler returns.\<close>

definition popcount :: "'a::len word \<Rightarrow> nat" where
  "popcount w = length (filter (bit w) [0..<LENGTH('a)])"

text \<open>The fallback for MSVC on ARM takes an \<open>unsigned int\<close> and clears the lowest set bit per round.\<close>

function builtin_popcountl :: "32 word \<Rightarrow> nat \<Rightarrow> nat" where
  "builtin_popcountl x c = (if x = 0 then c else builtin_popcountl (x AND (x - 1)) (Suc c))"
  by pat_completeness auto
termination
proof (relation "measure (\<lambda>(x, c). unat x)")
  fix x :: "32 word" and c :: nat
  assume "x \<noteq> 0"
  then have "x - 1 < x" by (simp add: measure_unat word_less_nat_alt)
  moreover have "x AND (x - 1) \<le> x - 1" by (rule word_and_le1)
  ultimately have "x AND (x - 1) < x" by simp
  then show "((x AND (x - 1), Suc c), (x, c)) \<in> measure (\<lambda>(x, c). unat x)"
    by (simp add: word_less_nat_alt)
qed simp

declare builtin_popcountl.simps [simp del]

text \<open>Eight bytes read as a little-endian \<open>u64\<close>.\<close>

definition le_u64 :: "8 word list \<Rightarrow> 64 word" where
  "le_u64 bs = word_of_int (horner_sum uint (2 ^ 8) bs)"

definition u64_at :: "8 word list \<Rightarrow> nat \<Rightarrow> 64 word" where
  "u64_at bs i = le_u64 (take 8 (drop (8 * i) bs))"

definition distance_hamming_u64 :: "8 word list \<Rightarrow> 8 word list \<Rightarrow> nat \<Rightarrow> f32" where
  "distance_hamming_u64 a b n =
     f32_of_int (foldl (\<lambda>same i. same + int (popcount (u64_at a i XOR u64_at b i))) 0 [0..<n])"

definition distance_hamming :: "8 word list \<Rightarrow> 8 word list \<Rightarrow> nat \<Rightarrow> f32" where
  "distance_hamming a b dimensions =
     (if dimensions mod 64 = 0 then distance_hamming_u64 a b (dimensions div 8 div 8)
      else distance_hamming_u8 a b (dimensions div 8))"

subsection \<open>Hamming distance is the number of differing bits\<close>

definition hamming_bits :: "8 word list \<Rightarrow> 8 word list \<Rightarrow> nat" where
  "hamming_bits a b = (\<Sum>(x, y)\<leftarrow>zip a b. popcount (x XOR y))"

lemma popcount_sum: "popcount w = (\<Sum>n<LENGTH('a). of_bool (bit w n))" for w :: "'a::len word"
proof -
  have "length (filter p [0..<n]) = (\<Sum>i<n. of_bool (p i))" for p n
    by (induction n) auto
  then show ?thesis by (simp add: popcount_def)
qed

lemma hamdist_table_all:
  "list_all (\<lambda>i. hamdist_table ! nat i = popcount (word_of_int i :: 8 word)) [0..255]"
  by code_simp

lemma hamdist_table_popcount: "hamdist_table ! unat x = popcount x" for x :: "8 word"
proof -
  have "uint x \<in> set [0..255]" using uint_bounded [of x] by simp
  then have "hamdist_table ! nat (uint x) = popcount (word_of_int (uint x) :: 8 word)"
    using hamdist_table_all unfolding list_all_iff by blast
  then show ?thesis by simp
qed

lemma foldl_sum_int: "foldl (\<lambda>same i. same + int (f i)) s xs = s + int (\<Sum>i\<leftarrow>xs. f i)"
  by (induction xs arbitrary: s) auto

lemma bit_le_u64:
  "length bs = 8 \<Longrightarrow> n < 64 \<Longrightarrow> bit (le_u64 bs) n = bit (bs ! (n div 8)) (n mod 8)"
  using bit_horner_sum_uint_exp_iff [of bs n] less_mult_imp_div_less [of n 8 8]
  by (simp add: le_u64_def bit_word_of_int_iff)

lemma sum_group8: "sum f {i * 8..<i * 8 + 8} = (\<Sum>j<8. f (i * 8 + j))" for i :: nat
  by (rule sum.reindex_bij_witness [of _ "\<lambda>j. i * 8 + j" "\<lambda>k. k - i * 8"]) auto

lemma popcount_le_u64_xor:
  assumes "length xs = 8" and "length ys = 8"
  shows "popcount (le_u64 xs XOR le_u64 ys) = (\<Sum>i<8. popcount (xs ! i XOR ys ! i))"
proof -
  let ?f = "\<lambda>n. of_bool (bit (le_u64 xs XOR le_u64 ys) n) :: nat"
  have "popcount (le_u64 xs XOR le_u64 ys) = sum ?f {..<8 * 8}"
    by (simp add: popcount_sum)
  also have "\<dots> = (\<Sum>i<8. sum ?f {i * 8..<i * 8 + 8})"
    by (rule sum.nat_group [symmetric])
  also have "\<dots> = (\<Sum>i<8. \<Sum>j<8. of_bool (bit (xs ! i XOR ys ! i) j))"
  proof (rule sum.cong [OF refl])
    fix i :: nat assume i: "i \<in> {..<8}"
    have "sum ?f {i * 8..<i * 8 + 8} = (\<Sum>j<8. ?f (i * 8 + j))" by (rule sum_group8)
    also have "\<dots> = (\<Sum>j<8. of_bool (bit (xs ! i XOR ys ! i) j))"
      using i assms by (intro sum.cong refl) (auto simp: bit_le_u64 bit_xor_iff)
    finally show "sum ?f {i * 8..<i * 8 + 8} = (\<Sum>j<8. of_bool (bit (xs ! i XOR ys ! i) j))" .
  qed
  finally show ?thesis by (simp add: popcount_sum)
qed

lemma hamming_bits_nth:
  "length a = n \<Longrightarrow> length b = n \<Longrightarrow> hamming_bits a b = (\<Sum>i<n. popcount (a ! i XOR b ! i))"
  by (simp add: hamming_bits_def sum_list_sum_nth atLeast0LessThan)

lemma hamming_u8_bits:
  "length a = n \<Longrightarrow> length b = n \<Longrightarrow> distance_hamming_u8 a b n = f32_of_int (int (hamming_bits a b))"
  by (simp add: distance_hamming_u8_def foldl_sum_int hamdist_table_popcount hamming_bits_nth
      interv_sum_list_conv_sum_set_nat atLeast0LessThan)

lemma hamming_u64_bits:
  assumes "length a = 8 * n" and "length b = 8 * n"
  shows "distance_hamming_u64 a b n = f32_of_int (int (hamming_bits a b))"
proof -
  have chunk: "popcount (u64_at a i XOR u64_at b i) = (\<Sum>j<8. popcount (a ! (i * 8 + j) XOR b ! (i * 8 + j)))"
    if "i < n" for i
  proof -
    have l: "8 * i + 8 \<le> length a" "8 * i + 8 \<le> length b" using assms that by auto
    show ?thesis
      using popcount_le_u64_xor [of "take 8 (drop (8 * i) a)" "take 8 (drop (8 * i) b)"] l
      by (simp add: u64_at_def mult.commute)
  qed
  have "(\<Sum>i<n. popcount (u64_at a i XOR u64_at b i)) =
      (\<Sum>i<n. \<Sum>j<8. popcount (a ! (i * 8 + j) XOR b ! (i * 8 + j)))"
    using chunk by simp
  also have "\<dots> = (\<Sum>i<n. sum (\<lambda>k. popcount (a ! k XOR b ! k)) {i * 8..<i * 8 + 8})"
    by (simp only: sum_group8)
  also have "\<dots> = (\<Sum>k<n * 8. popcount (a ! k XOR b ! k))" by (rule sum.nat_group)
  also have "\<dots> = hamming_bits a b" using assms by (simp add: hamming_bits_nth mult.commute)
  finally show ?thesis
    by (simp add: distance_hamming_u64_def foldl_sum_int interv_sum_list_conv_sum_set_nat
        atLeast0LessThan)
qed

lemma distance_hamming_bits:
  assumes "dims mod 8 = 0" and "length a = dims div 8" and "length b = dims div 8"
  shows "distance_hamming a b dims = f32_of_int (int (hamming_bits a b))"
proof (cases "dims mod 64 = 0")
  case True
  then have "dims div 8 = 8 * (dims div 8 div 8)" by presburger
  with True assms show ?thesis by (simp add: distance_hamming_def hamming_u64_bits)
next
  case False
  with assms show ?thesis by (simp add: distance_hamming_def hamming_u8_bits)
qed

text \<open>
  C25. The Hamming distance dispatcher returns the number of differing bits, both when it walks the
  vectors eight bytes at a time with the compiler's population count (dimensions divisible by 64)
  and when it walks them byte by byte through the 256-entry table.
\<close>

theorem distance_hamming_counts_bits:
  assumes "dims mod 8 = 0" and "length a = dims div 8" and "length b = dims div 8"
  shows "distance_hamming a b dims = f32_of_int (int (hamming_bits a b))"
  using assms by (rule distance_hamming_bits)

theorem distance_hamming_counts_bits_witness:
  "distance_hamming [1, 2, 3, 4, 5, 6, 7, 8] [1, 2, 3, 4, 5, 6, 7, 255] 64 =
     f32_of_int (int (hamming_bits [1, 2, 3, 4, 5, 6, 7, 8] [1, 2, 3, 4, 5, 6, 7, 255])) \<and>
   hamming_bits [1, 2, 3, 4, 5, 6, 7, 8] [1, 2, 3, 4, 5, 6, 7, 255] = 7"
  using distance_hamming_counts_bits
    [of 64 "[1, 2, 3, 4, 5, 6, 7, 8]" "[1, 2, 3, 4, 5, 6, 7, 255]"]
  by (rule conjI) (simp_all, code_simp)

subsection \<open>Symmetry\<close>

lemma x_add_comm: "x_add u v = x_add v u"
  by (cases u; cases v) (auto simp: add.commute conj_commute)

lemma x_mul_comm: "x_mul k u v = x_mul k v u"
  by (cases u; cases v) (auto simp: mult.commute)

lemma fadd_comm: "fadd x y = fadd y x"
  by (simp add: fadd_def x_add_comm)

lemma fmul_comm: "fmul x y = fmul y x"
  by (simp add: fmul_def x_mul_comm)

lemma dmul_comm: "dmul x y = dmul y x"
  by (simp add: dmul_def x_mul_comm)

text \<open>Negating both operands of an exact sum negates it, up to the sign of zero.\<close>

lemma x_add_swap:
  "x_add u (fp_neg v) = x_add v (fp_neg u) \<or>
   (\<exists>s. x_add u (fp_neg v) = XInf s \<and> x_add v (fp_neg u) = XInf (\<not> s)) \<or>
   (\<exists>s n. x_add u (fp_neg v) = XRat s n 1 \<and> x_add v (fp_neg u) = XRat (\<not> s) n 1) \<or>
   (\<exists>s t. x_add u (fp_neg v) = XRat s 0 1 \<and> x_add v (fp_neg u) = XRat t 0 1)"
proof (cases u; cases v)
  fix s a t b
  assume "u = FFin s a" and "v = FFin t b"
  then show ?thesis
    by (cases "fp_int s a = fp_int t b") (auto simp: x_of_int_def fp_int_def abs_minus_commute)
qed auto

lemma x_add_nonneg: "x_add u w = XRat s n d \<Longrightarrow> 0 \<le> n"
  by (cases u; cases w) (auto simp: x_of_int_def split: if_splits)

lemma fsub_swap: "fmag (fsub x y) = fmag (fsub y x)"
  using x_add_swap [of "fval x" "fval y"]
proof (elim disjE exE conjE)
  assume "x_add (fval x) (fp_neg (fval y)) = x_add (fval y) (fp_neg (fval x))"
  then show ?thesis by (simp add: fsub_def)
next
  fix s
  assume "x_add (fval x) (fp_neg (fval y)) = XInf s" "x_add (fval y) (fp_neg (fval x)) = XInf (\<not> s)"
  then show ?thesis by (simp add: fsub_def f32_of_XInf)
next
  fix s n
  assume "x_add (fval x) (fp_neg (fval y)) = XRat s n 1"
    "x_add (fval y) (fp_neg (fval x)) = XRat (\<not> s) n 1"
  then show ?thesis using x_add_nonneg by (simp add: fsub_def f32_of_XRat)
next
  fix s t
  assume "x_add (fval x) (fp_neg (fval y)) = XRat s 0 1" "x_add (fval y) (fp_neg (fval x)) = XRat t 0 1"
  then show ?thesis by (simp add: fsub_def f32_of_XRat)
qed

lemma fsq_mag: "fmag a = fmag b \<Longrightarrow> fmul a a = fmul b b"
  by (simp add: fmul_def fval_def fp_of_mag_def)

lemma fsq_swap: "fmul (fsub x y) (fsub x y) = fmul (fsub y x) (fsub y x)"
  by (rule fsq_mag) (rule fsub_swap)

lemma f32_of_int_minus: "fmul (f32_of_int (- i)) (f32_of_int (- i)) = fmul (f32_of_int i) (f32_of_int i)"
  by (rule fsq_mag) (auto simp: f32_of_int_def x_of_int_def f32_of_XRat abs_mult)

text \<open>The magnitude of a double-precision difference does not depend on the order either.\<close>

lemma f64_of_mag:
  assumes "0 \<le> n"
  shows "dmag (f64_of (XRat s n 1)) = min (2047 * 2 ^ 52) (round_mag 52 n 1)"
proof -
  define b where "b = min (2047 * 2 ^ 52) (round_mag 52 n 1)"
  have r: "0 \<le> b" "b < 2 ^ 63" using round_mag_nonneg [of n 1 52] assms by (auto simp: b_def)
  have u: "uint (word_of_int v :: 64 word) = v" if "0 \<le> v" "v < 2 ^ 64" for v :: int
    using that by (simp add: uint_word_of_int)
  have e: "f64_of (XRat s n 1) = (if s then word_of_int (2 ^ 63 + b) else word_of_int b)"
    by (simp add: f64_of_def xround_def binary64_def Let_def b_def)
  have "(2 ^ 63 + b) mod 2 ^ 63 = b" using r by simp
  then have "dmag (f64_of (XRat s n 1)) = b"
    using r u [of "2 ^ 63 + b"] u [of b] unfolding dmag_def e
    by (cases s) (simp_all del: of_int_add)
  then show ?thesis by (simp add: b_def)
qed

lemma dfabs_dsub_swap: "dfabs (dsub x y) = dfabs (dsub y x)"
  using x_add_swap [of "dval x" "dval y"]
proof (elim disjE exE conjE)
  assume "x_add (dval x) (fp_neg (dval y)) = x_add (dval y) (fp_neg (dval x))"
  then show ?thesis by (simp add: dsub_def)
next
  fix s
  assume "x_add (dval x) (fp_neg (dval y)) = XInf s" "x_add (dval y) (fp_neg (dval x)) = XInf (\<not> s)"
  then show ?thesis
    by (cases s) (simp_all add: dsub_def dfabs_def dmag_def f64_of_def xround_def binary64_def)
next
  fix s n
  assume "x_add (dval x) (fp_neg (dval y)) = XRat s n 1"
    "x_add (dval y) (fp_neg (dval x)) = XRat (\<not> s) n 1"
  then show ?thesis using x_add_nonneg by (simp add: dsub_def dfabs_def f64_of_mag)
next
  fix s t
  assume "x_add (dval x) (fp_neg (dval y)) = XRat s 0 1" "x_add (dval y) (fp_neg (dval x)) = XRat t 0 1"
  then show ?thesis by (simp add: dsub_def dfabs_def f64_of_mag)
qed

lemma cosine_final_swap: "cosine_final dot am bm = cosine_final dot bm am"
  by (simp add: cosine_final_def dmul_comm)

lemma cosine_fold_swap:
  "(case foldl (\<lambda>(dot, am, bm) i. (fadd dot (f i), fadd am (g i), fadd bm (h i))) (d, p, q) xs of
      (dot, am, bm) \<Rightarrow> cosine_final dot am bm) =
   (case foldl (\<lambda>(dot, am, bm) i. (fadd dot (f i), fadd am (h i), fadd bm (g i))) (d, q, p) xs of
      (dot, am, bm) \<Rightarrow> cosine_final dot am bm)"
  by (induction xs arbitrary: d p q) (auto simp: cosine_final_swap)

text \<open>
  Every distance function of the program is symmetric in its two vectors, bit for bit, rounding,
  infinities and NaNs included.
\<close>

theorem distances_symmetric:
  "distance_l2_sqr_float a b n = distance_l2_sqr_float b a n \<and>
   distance_l2_sqr_int8 c d n = distance_l2_sqr_int8 d c n \<and>
   distance_l1_int8 c d n = distance_l1_int8 d c n \<and>
   distance_l1_f32 a b n = distance_l1_f32 b a n \<and>
   distance_cosine_float a b n = distance_cosine_float b a n \<and>
   distance_cosine_int8 c d n = distance_cosine_int8 d c n \<and>
   distance_hamming u v n = distance_hamming v u n"
proof (intro conjI)
  show "distance_l2_sqr_float a b n = distance_l2_sqr_float b a n"
    unfolding distance_l2_sqr_float_def l2_sqr_float_def Let_def by (subst fsq_swap) (rule refl)
  show "distance_l2_sqr_int8 c d n = distance_l2_sqr_int8 d c n"
    unfolding distance_l2_sqr_int8_def l2_sqr_int8_def Let_def
    using f32_of_int_minus [of "c ! _ - d ! _"] by simp
  show "distance_l1_int8 c d n = distance_l1_int8 d c n"
    by (simp add: distance_l1_int8_def l1_int8_def abs_minus_commute)
  show "distance_l1_f32 a b n = distance_l1_f32 b a n"
    unfolding distance_l1_f32_def l1_f32_def by (subst dfabs_dsub_swap) (rule refl)
  show "distance_cosine_float a b n = distance_cosine_float b a n"
    unfolding distance_cosine_float_def Let_def fmul_comm [of "b ! _" "a ! _"]
    by (rule cosine_fold_swap)
  show "distance_cosine_int8 c d n = distance_cosine_int8 d c n"
    unfolding distance_cosine_int8_def Let_def mult.commute [of "d ! _" "c ! _"]
    by (rule cosine_fold_swap)
  show "distance_hamming u v n = distance_hamming v u n"
    by (simp add: distance_hamming_def distance_hamming_u8_def distance_hamming_u64_def
        xor.commute)
qed

subsection \<open>The i8 accumulator does not overflow\<close>

definition i8_vector :: "int list \<Rightarrow> bool" where
  "i8_vector a \<longleftrightarrow> (\<forall>x\<in>set a. -128 \<le> x \<and> x \<le> 127)"

lemma l1_int8_steps:
  assumes "i8_vector a" and "i8_vector b" and "n \<le> length a" and "n \<le> length b" and "n \<le> 8192"
  shows "l1_int8 a b n = (\<Sum>i<n. \<bar>a ! i - b ! i\<bar>) \<and> l1_int8 a b n \<le> 255 * int n"
  using assms(3-)
proof (induction n)
  case 0
  then show ?case by (simp add: l1_int8_def)
next
  case (Suc n)
  then have IH: "l1_int8 a b n = (\<Sum>i<n. \<bar>a ! i - b ! i\<bar>)" "l1_int8 a b n \<le> 255 * int n" by auto
  have "a ! n \<in> set a" "b ! n \<in> set b" using Suc.prems by auto
  then have d: "\<bar>a ! n - b ! n\<bar> \<le> 255" using assms(1,2) by (fastforce simp: i8_vector_def)
  have "0 \<le> l1_int8 a b n" using IH(1) by (simp add: sum_nonneg)
  then have "c_int (l1_int8 a b n + \<bar>a ! n - b ! n\<bar>) = l1_int8 a b n + \<bar>a ! n - b ! n\<bar>"
    using IH(2) d Suc.prems by (intro c_int_id) auto
  then have "l1_int8 a b (Suc n) = l1_int8 a b n + \<bar>a ! n - b ! n\<bar>" by (simp add: l1_int8_def)
  then show ?case using IH d by simp
qed

text \<open>
  For vectors of at most 8192 dimensions (the limit of a vec0 column) the \<open>i32\<close> accumulator of
  the L1 distance of \<open>i8\<close> vectors never overflows: the result is the exact sum of the absolute
  differences, at most 255 per dimension.
\<close>

theorem distance_l1_int8_exact:
  assumes "i8_vector a" and "i8_vector b" and "length a = n" and "length b = n" and "n \<le> 8192"
  shows "distance_l1_int8 a b n = (\<Sum>i<n. \<bar>a ! i - b ! i\<bar>)
    \<and> 0 \<le> distance_l1_int8 a b n \<and> distance_l1_int8 a b n \<le> 255 * int n"
  using l1_int8_steps [of a b n] assms by (simp add: distance_l1_int8_def sum_nonneg)

theorem distance_l1_int8_exact_witness:
  "distance_l1_int8 [-128, 5] [127, -5] 2 = (\<Sum>i<2. \<bar>[-128, 5] ! i - [127, -5] ! i\<bar>) \<and>
   distance_l1_int8 [-128, 5] [127, -5] 2 = 265"
  using distance_l1_int8_exact [of "[-128, 5]" "[127, -5]" 2]
  by (simp add: i8_vector_def numeral_2_eq_2)

subsection \<open>The popcount fallback\<close>

text \<open>
  The fallback for \<open>__builtin_popcountl\<close> that the sources define for MSVC on ARM takes an
  \<open>unsigned int\<close>, so the word-at-a-time Hamming loop, which passes it a 64-bit value, loses the upper
  half: a value whose only set bit is bit 32 counts as having none.
\<close>

theorem builtin_popcountl_drops_upper_half:
  "builtin_popcountl (ucast (2 ^ 32 :: 64 word)) 0 = 0 \<and> popcount (2 ^ 32 :: 64 word) = 1"
  by code_simp

end
