(* ===== verification/Float_Exact.thy ===== *)
theory Float_Exact
  imports IEEE_Float
begin

text \<open>
  The arithmetic of \<open>IEEE_Float\<close> is exact where IEEE 754 says it is: on integers of at most 24 bits in
  binary32 and 53 bits in binary64, through the conversions, sums, differences, products and the square
  roots of squares. The distance functions are exact on integer-valued vectors because of it.
\<close>

named_theorems float_exact \<open>exact results on integers\<close>

subsection \<open>Rounding of representable numbers\<close>

lemma round_mag_exact:
  fixes a :: int
  assumes a: "0 \<le> a" "a < 2 ^ (m + 1)" and e: "e \<le> E"
  shows "mag_units m (round_mag m (a * 2 ^ e) 1) = a * 2 ^ e"
    and "0 \<le> round_mag m (a * 2 ^ e) 1" and "round_mag m (a * 2 ^ e) 1 < (int E + 2) * 2 ^ m"
proof -
  define n where "n = a * 2 ^ e"
  define k where "k = bit_length n - (m + 1)"
  have n0: "0 \<le> n" using a by (simp add: n_def)
  show "0 \<le> round_mag m (a * 2 ^ e) 1" using round_mag_nonneg [of n 1 m] n0 by (simp add: n_def)
  have rm: "round_mag m n 1 = int k * 2 ^ m + rne n (2 ^ k)" by (simp add: round_mag_def k_def Let_def)
  have "mag_units m (round_mag m n 1) = n \<and> round_mag m n 1 < (int E + 2) * 2 ^ m"
  proof (cases "k = 0")
    case True
    then have "bit_length n \<le> m + 1" by (simp add: k_def)
    then have "(2::int) ^ bit_length n \<le> 2 ^ (m + 1)" by (rule power_increasing) simp
    with bit_length_upper [of n] have lt: "n < 2 * 2 ^ m" by simp
    have "rne n 1 = n" using rne_exact [of 1 n] by simp
    then have "round_mag m n 1 = n" using rm True by simp
    moreover have "2 * (2::int) ^ m \<le> (int E + 2) * 2 ^ m" by (rule mult_right_mono) auto
    then have "n < (int E + 2) * 2 ^ m" using lt by linarith
    ultimately have "round_mag m n 1 < (int E + 2) * 2 ^ m" using lt by simp
    with \<open>round_mag m n 1 = n\<close> lt show ?thesis by (simp add: mag_units_def)
  next
    case False
    then have bl: "bit_length n = Suc (m + k)" by (simp add: k_def)
    then have n: "0 < n" using n0 by (cases "n = 0") (simp_all add: bit_length.simps [of 0])
    have lo: "2 ^ (m + k) \<le> n" using bit_length_lower [OF n] bl by simp
    have hi: "n < 2 ^ (m + k + 1)" using bit_length_upper [of n] bl by simp
    have "n < 2 ^ (m + 1) * 2 ^ e" unfolding n_def by (rule mult_strict_right_mono) (use a in auto)
    also have "\<dots> = 2 ^ (m + 1 + e)" by (rule power_add [symmetric])
    finally have "(2::int) ^ (m + k) < 2 ^ (m + 1 + e)" using lo by (rule order_le_less_trans [rotated])
    then have "m + k < m + 1 + e" by (rule power_less_imp_less_exp [rotated]) simp
    then have ke: "k \<le> e" by simp
    define q where "q = a * 2 ^ (e - k)"
    have nq: "n = q * 2 ^ k" using ke by (simp add: n_def q_def flip: power_add)
    have rq: "rne n (2 ^ k) = q" unfolding nq by (rule rne_exact) simp
    have "q * 2 ^ k < 2 ^ (m + 1) * 2 ^ k" "2 ^ m * 2 ^ k \<le> q * 2 ^ k"
      using lo hi nq by (simp_all add: power_add ac_simps)
    then have qb: "q < 2 ^ (m + 1)" "2 ^ m \<le> q" by auto
    define b where "b = int k * 2 ^ m + q"
    have b: "round_mag m n 1 = b" using rm rq by (simp add: b_def)
    have k1: "1 \<le> int k" using False by simp
    have "1 * 2 ^ m \<le> int k * 2 ^ m" using k1 by (intro mult_right_mono) auto
    then have "2 * 2 ^ m \<le> b" using qb(2) unfolding b_def by linarith
    then have big: "\<not> b < 2 ^ (m + 1)" by simp
    have "q div 2 ^ m = 1"
    proof -
      have "(q - 2 ^ m) div 2 ^ m = 0" using qb by (intro div_pos_pos_trivial) auto
      moreover have "q div 2 ^ m = (q - 2 ^ m) div 2 ^ m + 1"
        using div_add_self2 [of "2 ^ m" "q - 2 ^ m"] by simp
      ultimately show ?thesis by simp
    qed
    then have "b div 2 ^ m = int k + 1" by (simp add: b_def)
    then have mu: "mag_units m b = n" using big by (simp add: mag_units_def b_def nq)
    have "int k * 2 ^ m \<le> int E * 2 ^ m" using ke e by (intro mult_right_mono) auto
    then have "b < int E * 2 ^ m + 2 * 2 ^ m" using qb(1) unfolding b_def power_add power_one_right by linarith
    then have "b < (int E + 2) * 2 ^ m" by (simp add: distrib_right)
    then show ?thesis using mu b by simp
  qed
  then show "mag_units m (round_mag m (a * 2 ^ e) 1) = a * 2 ^ e"
    and "round_mag m (a * 2 ^ e) 1 < (int E + 2) * 2 ^ m" by (simp_all add: n_def)
qed

lemma rne_scale: "0 < c \<Longrightarrow> rne (n * c) (d * c) = rne n d"
  by (simp add: rne_def Let_def mult.assoc [symmetric] flip: mult_mod_left)

lemma round_mag_scale: "0 < c \<Longrightarrow> round_mag m (n * c) (d * c) = round_mag m n d"
  using rne_scale [of c n "d * 2 ^ (bit_length (n div d) - (m + 1))"]
  by (simp add: round_mag_def Let_def ac_simps)

lemma f32_of_scale: "0 < c \<Longrightarrow> f32_of (XRat s (n * c) (d * c)) = f32_of (XRat s n d)"
  by (simp add: f32_of_def xround_def round_mag_scale)

lemma f64_of_scale: "0 < c \<Longrightarrow> f64_of (XRat s (n * c) (d * c)) = f64_of (XRat s n d)"
  by (simp add: f64_of_def xround_def round_mag_scale)


subsection \<open>binary32\<close>

lemma fval_exact:
  assumes "0 \<le> a" and "a < 2 ^ 24" and "e \<le> 253"
  shows "fval (f32_of (XRat s (a * 2 ^ e) 1)) = FFin s (a * 2 ^ e)"
proof -
  note r = round_mag_exact [where m = 23 and E = 253, OF assms(1) _ assms(3)]
  define b where "b = round_mag 23 (a * 2 ^ e) 1"
  have b: "0 \<le> b" "b < 255 * 2 ^ 23" "mag_units 23 b = a * 2 ^ e" using r assms(2) by (simp_all add: b_def)
  have "f32_of (XRat s (a * 2 ^ e) 1) = f32_pack (s, b)"
    using b(2) by (simp add: f32_of_def xround_def binary32_def flip: b_def)
  moreover have "fmag (f32_pack (s, b)) = b" "fneg_bit (f32_pack (s, b)) = s"
    using f32_pack_fields [of b s] b(1,2) by simp_all
  ultimately show ?thesis using b by (simp add: fval_def fp_of_mag_def binary32_def)
qed

lemma f32_of_int_zero: "f32_of_int 0 = 0"
  by (simp add: f32_of_int_def x_of_int_def f32_of_def xround_def round_mag_def rne_def binary32_def
      f32_pack_def bit_length.simps [of 0])

lemma fval_0 [simp]: "fval 0 = FFin False 0"
  by (simp add: fval_def fp_of_mag_def fmag_def fneg_bit_def binary32_def)

lemma f32_of_int_alt: "f32_of_int i = f32_of (XRat (i < 0) (\<bar>i\<bar> * 2 ^ 149) 1)"
  by (simp add: f32_of_int_def x_of_int_def abs_mult mult_less_0_iff)

lemma fval_of_int: "\<bar>i\<bar> < 2 ^ 24 \<Longrightarrow> fval (f32_of_int i) = FFin (i < 0) (\<bar>i\<bar> * 2 ^ 149)"
  unfolding f32_of_int_alt by (rule fval_exact) auto

lemma fp_int_abs [simp]: "fp_int (i < 0) (\<bar>i\<bar> * c) = i * c" for i :: int
  by (simp add: fp_int_def)

lemma x_add_int: "x_add (FFin (i < 0) (\<bar>i\<bar> * 2 ^ u)) (FFin (j < 0) (\<bar>j\<bar> * 2 ^ u)) =
    x_of_int False ((i + j) * 2 ^ u)" for i j :: int
  by (auto simp: x_of_int_def simp flip: distrib_right)

lemma fp_neg_int: "0 < c \<Longrightarrow> i \<noteq> 0 \<Longrightarrow> fp_neg (FFin (i < 0) (\<bar>i\<bar> * c)) = FFin (- i < 0) (\<bar>- i\<bar> * c)" for i :: int
  by auto

lemma fadd_int [float_exact]: "\<bar>i\<bar> < 2 ^ 24 \<Longrightarrow> \<bar>j\<bar> < 2 ^ 24 \<Longrightarrow> fadd (f32_of_int i) (f32_of_int j) = f32_of_int (i + j)"
  unfolding fadd_def by (simp only: fval_of_int x_add_int) (simp only: f32_of_int_def)

lemma x_sub_int: "x_add (FFin (i < 0) (\<bar>i\<bar> * 2 ^ u)) (fp_neg (FFin (j < 0) (\<bar>j\<bar> * 2 ^ u))) =
    x_of_int False ((i - j) * 2 ^ u)" for i j :: int
proof -
  have e: "fp_int (\<not> j < 0) (\<bar>j\<bar> * 2 ^ u) = - (j * 2 ^ u)" by (simp add: fp_int_def)
  have "i < 0 \<Longrightarrow> 0 \<le> j \<Longrightarrow> (i - j) * 2 ^ u \<noteq> 0" by simp
  then have "x_of_int (i < 0 \<and> \<not> j < 0) ((i - j) * 2 ^ u) = x_of_int False ((i - j) * 2 ^ u)"
    unfolding x_of_int_def by (cases "i < 0 \<and> \<not> j < 0") (simp_all add: not_less)
  then show ?thesis by (simp add: e left_diff_distrib)
qed

lemma fsub_int [float_exact]: "\<bar>i\<bar> < 2 ^ 24 \<Longrightarrow> \<bar>j\<bar> < 2 ^ 24 \<Longrightarrow> fsub (f32_of_int i) (f32_of_int j) = f32_of_int (i - j)"
  unfolding fsub_def by (simp only: fval_of_int x_sub_int) (simp only: f32_of_int_def)


lemma x_mul_int: "x_mul u (FFin (i < 0) (\<bar>i\<bar> * 2 ^ u)) (FFin (j < 0) (\<bar>j\<bar> * 2 ^ u)) =
    XRat ((i < 0) \<noteq> (j < 0)) (\<bar>i * j\<bar> * 2 ^ u * 2 ^ u) (1 * 2 ^ u)" for i j :: int
  by (simp add: abs_mult ac_simps)

lemma fmul_int [float_exact]:
  assumes "\<bar>i\<bar> < 2 ^ 24" and "\<bar>j\<bar> < 2 ^ 24" and "i = 0 \<and> 0 \<le> j \<or> j = 0 \<and> 0 \<le> i \<or> i \<noteq> 0 \<and> j \<noteq> 0"
  shows "fmul (f32_of_int i) (f32_of_int j) = f32_of_int (i * j)"
proof -
  have "((i < 0) \<noteq> (j < 0)) = (i * j < 0)" using assms(3) by (auto simp: mult_less_0_iff)
  then show ?thesis
    unfolding fmul_def f32_of_int_alt [of "i * j"]
    by (simp only: fval_of_int assms(1,2) x_mul_int) (rule f32_of_scale, simp)
qed

text \<open>Comparing two finite numbers compares their values.\<close>

lemma mag_units_le_iff:
  assumes "0 \<le> a" and "0 \<le> b"
  shows "mag_units m a \<le> mag_units m b \<longleftrightarrow> a \<le> b"
  using mag_units_mono [of a b m] mag_units_mono [of b a m] round_mag_units [of a m] round_mag_units [of b m] assms
  by (metis linorder_le_cases order_antisym)

lemma flt_values:
  assumes "fval x = FFin s a" and "fval y = FFin t b"
  shows "flt x y \<longleftrightarrow> fp_int s a < fp_int t b"
proof -
  have v: "\<not> fisnan z \<and> fneg_bit z = u \<and> mag_units 23 (fmag z) = c" if "fval z = FFin u c" for z u c
    using that by (auto simp: fval_def fp_of_mag_def binary32_def fisnan_def split: if_splits)
  note X = v [OF assms(1)] and Y = v [OF assms(2)]
  have r: "0 \<le> fmag x" "0 \<le> fmag y" using fmag_range by auto
  have le: "fmag x \<le> fmag y \<longleftrightarrow> a \<le> b" "fmag y \<le> fmag x \<longleftrightarrow> b \<le> a"
    using mag_units_le_iff [of "fmag x" "fmag y" 23] mag_units_le_iff [of "fmag y" "fmag x" 23] X Y r by auto
  have z: "0 \<le> a" "0 \<le> b" using mag_units_nonneg [of "fmag x" 23] mag_units_nonneg [of "fmag y" 23] X Y r by auto
  have zz: "fmag x = 0 \<longleftrightarrow> a = 0" "fmag y = 0 \<longleftrightarrow> b = 0"
    using mag_units_le_iff [of "fmag x" 0 23] mag_units_le_iff [of "fmag y" 0 23] X Y r z by auto
  show ?thesis using X Y r le z zz unfolding flt_def fkey_def fp_int_def by auto
qed

lemma flt_int [float_exact]: "\<bar>i\<bar> < 2 ^ 24 \<Longrightarrow> \<bar>j\<bar> < 2 ^ 24 \<Longrightarrow> flt (f32_of_int i) (f32_of_int j) \<longleftrightarrow> i < j"
  by (simp only: flt_values [OF fval_of_int fval_of_int] fp_int_abs) simp

text \<open>Rounding does not move a number across an exact one.\<close>

lemma not_flt_round:
  assumes "fval y = FFin False (a * 2 ^ e)" and "0 \<le> a" and "0 < d" and "a * 2 ^ e * d \<le> n"
  shows "\<not> flt (f32_of (XRat False n d)) y"
proof -
  define c where "c = a * 2 ^ e"
  have c: "0 \<le> c" "fval y = FFin False c" "c * d \<le> n" using assms by (auto simp: c_def)
  have y: "\<not> fisnan y" "\<not> fneg_bit y" "mag_units 23 (fmag y) = c" "fmag y < 255 * 2 ^ 23"
    using c(2) by (auto simp: fval_def fp_of_mag_def binary32_def fisnan_def split: if_splits)
  have "round_mag 23 (c * d) d = fmag y"
    using round_mag_scale [of d 23 c 1] round_mag_units [of "fmag y" 23] y(3) fmag_range [of y] assms(3) by simp
  then have le: "fmag y \<le> round_mag 23 n d"
    using round_mag_mono [of "c * d" n d 23] c assms(3) by simp
  define b where "b = min (255 * 2 ^ 23) (round_mag 23 n d)"
  have "f32_of (XRat False n d) = f32_pack (False, b)"
    by (simp add: f32_of_def xround_def binary32_def b_def)
  moreover have "fmag y \<le> b" "b < 2 ^ 31" using le y(4) by (auto simp: b_def)
  moreover have "0 \<le> b" using \<open>fmag y \<le> b\<close> fmag_range [of y] by simp
  ultimately show ?thesis
    using f32_pack_fields [of b False] y(2) by (simp add: flt_def fkey_def fp_int_def)
qed

subsection \<open>binary64\<close>

lemma f64_of_fields:
  assumes "0 \<le> b" and "b < 2 ^ 63"
    and "x = (if s then word_of_int (2 ^ 63 + b) else word_of_int b :: f64)"
  shows "dmag x = b" and "dneg_bit x = s"
proof -
  have "uint (word_of_int v :: 64 word) = v" if "0 \<le> v" "v < 2 ^ 64" for v :: int
    using that by (simp add: uint_word_of_int)
  from this [of "2 ^ 63 + b"] this [of b]
  have u: "uint x = (if s then 2 ^ 63 + b else b)"
    using assms by (cases s) (simp_all del: of_int_add)
  have "(2 ^ 63 + b) mod 2 ^ 63 = b mod 2 ^ 63" by simp
  with u assms(1,2) show "dmag x = b" by (cases s) (simp_all add: dmag_def)
  show "dneg_bit x = s" using u assms(1,2) by (simp add: dneg_bit_def)
qed

lemma f64_of_bits:
  assumes "0 \<le> a" and "a < 2 ^ 53" and "e \<le> 2045"
  obtains b where "0 \<le> b" and "b < 2047 * 2 ^ 52" and "mag_units 52 b = a * 2 ^ e"
    and "\<And>s. f64_of (XRat s (a * 2 ^ e) 1) = (if s then word_of_int (2 ^ 63 + b) else word_of_int b)"
    and "\<And>s. dmag (f64_of (XRat s (a * 2 ^ e) 1)) = b" and "\<And>s. dneg_bit (f64_of (XRat s (a * 2 ^ e) 1)) = s"
proof -
  note r = round_mag_exact [where m = 52 and E = 2045, OF assms(1) _ assms(3)]
  define b where "b = round_mag 52 (a * 2 ^ e) 1"
  have b: "0 \<le> b" "b < 2047 * 2 ^ 52" "mag_units 52 b = a * 2 ^ e" using r assms(2) by (simp_all add: b_def)
  have w: "f64_of (XRat s (a * 2 ^ e) 1) = (if s then word_of_int (2 ^ 63 + b) else word_of_int b)" for s
    using b(2) by (simp add: f64_of_def xround_def binary64_def flip: b_def)
  note f = f64_of_fields [OF b(1) _ w]
  show ?thesis by (rule that [OF b w]) (use f b(2) in simp_all)
qed

lemma dval_exact:
  assumes "0 \<le> a" and "a < 2 ^ 53" and "e \<le> 2045"
  shows "dval (f64_of (XRat s (a * 2 ^ e) 1)) = FFin s (a * 2 ^ e)"
  by (rule f64_of_bits [OF assms]) (simp add: dval_def fp_of_mag_def binary64_def)

lemma f64_of_int_alt: "f64_of_int i = f64_of (XRat (i < 0) (\<bar>i\<bar> * 2 ^ 1074) 1)"
  by (simp add: f64_of_int_def x_of_int_def abs_mult mult_less_0_iff)

lemma dval_of_int: "\<bar>i\<bar> < 2 ^ 53 \<Longrightarrow> dval (f64_of_int i) = FFin (i < 0) (\<bar>i\<bar> * 2 ^ 1074)"
  unfolding f64_of_int_alt by (rule dval_exact) auto


lemma dadd_int [float_exact]: "\<bar>i\<bar> < 2 ^ 53 \<Longrightarrow> \<bar>j\<bar> < 2 ^ 53 \<Longrightarrow> dadd (f64_of_int i) (f64_of_int j) = f64_of_int (i + j)"
  unfolding dadd_def by (simp only: dval_of_int x_add_int) (simp only: f64_of_int_def)

lemma dsub_int [float_exact]: "\<bar>i\<bar> < 2 ^ 53 \<Longrightarrow> \<bar>j\<bar> < 2 ^ 53 \<Longrightarrow> dsub (f64_of_int i) (f64_of_int j) = f64_of_int (i - j)"
  unfolding dsub_def by (simp only: dval_of_int x_sub_int) (simp only: f64_of_int_def)

lemma dfabs_exact:
  assumes "0 \<le> a" and "a < 2 ^ 53" and "e \<le> 2045"
  shows "dfabs (f64_of (XRat s (a * 2 ^ e) 1)) = f64_of (XRat False (a * 2 ^ e) 1)"
  by (rule f64_of_bits [OF assms]) (simp add: dfabs_def)

lemma dfabs_int [float_exact]: "\<bar>i\<bar> < 2 ^ 53 \<Longrightarrow> dfabs (f64_of_int i) = f64_of_int \<bar>i\<bar>"
  unfolding f64_of_int_alt by (subst dfabs_exact) (auto simp: not_less)

text \<open>Conversions between the formats keep an integer.\<close>

lemma f64_of_f32_int [float_exact]:
  assumes "\<bar>i\<bar> < 2 ^ 24"
  shows "f64_of_f32 (f32_of_int i) = f64_of_int i"
proof -
  have "(2::int) ^ 149 * 2 ^ 925 = 2 ^ 1074" by (simp flip: power_add)
  then have "\<bar>i\<bar> * 2 ^ 149 * 2 ^ 925 = \<bar>i\<bar> * 2 ^ 1074" by (simp only: mult.assoc)
  then show ?thesis unfolding f64_of_f32_def f64_of_int_alt
    by (simp only: fval_of_int [OF assms] fpval.case)
qed

lemma f32_of_f64_int [float_exact]:
  assumes "\<bar>i\<bar> < 2 ^ 53"
  shows "f32_of_f64 (f64_of_int i) = f32_of_int i"
proof -
  have "(2::int) ^ 149 * 2 ^ 925 = 2 ^ 1074" by (simp flip: power_add)
  then have "\<bar>i\<bar> * 2 ^ 1074 = \<bar>i\<bar> * 2 ^ 149 * 2 ^ 925" by (simp only: mult.assoc)
  then have "f32_of_f64 (f64_of_int i) = f32_of (XRat (i < 0) (\<bar>i\<bar> * 2 ^ 149 * 2 ^ 925) (1 * 2 ^ 925))"
    unfolding f32_of_f64_def by (simp only: dval_of_int [OF assms] fpval.case mult_1)
  also have "\<dots> = f32_of_int i" unfolding f32_of_int_alt by (rule f32_of_scale) simp
  finally show ?thesis .
qed

subsection \<open>Square roots\<close>

lemma isqrt_bounds: "0 \<le> n \<Longrightarrow> 0 \<le> isqrt n \<and> isqrt n * isqrt n \<le> n \<and> n < (isqrt n + 1) * (isqrt n + 1)"
proof (induction n rule: isqrt.induct)
  case (1 n)
  show ?case
  proof (cases "n \<le> 0")
    case True
    with "1.prems" show ?thesis by (simp add: isqrt.simps [of 0])
  next
    case False
    define r where "r = isqrt (n div 4)"
    have IH: "0 \<le> r" "r * r \<le> n div 4" "n div 4 < (r + 1) * (r + 1)"
      using "1.IH" [OF False] False by (auto simp: r_def)
    then have "n div 4 \<le> (r + 1) * (r + 1) - 1" by simp
    then have lo: "(2 * r) * (2 * r) \<le> n" and hi: "n < (2 * r + 2) * (2 * r + 2)"
      using IH(2) by (auto simp: algebra_simps)
    have "isqrt n = (if (2 * r + 1) * (2 * r + 1) \<le> n then 2 * r + 1 else 2 * r)"
      using False by (simp add: isqrt.simps [of n] Let_def r_def)
    then show ?thesis using IH(1) lo hi by (auto simp: algebra_simps)
  qed
qed

lemma isqrt_square: "0 \<le> a \<Longrightarrow> isqrt (a * a) = a"
proof -
  assume a: "0 \<le> a"
  have b: "0 \<le> isqrt (a * a)" "isqrt (a * a) * isqrt (a * a) \<le> a * a"
    "a * a < (isqrt (a * a) + 1) * (isqrt (a * a) + 1)"
    using isqrt_bounds [of "a * a"] a by auto
  have "isqrt (a * a) \<le> a" using b(2) a by (smt (verit) mult_strict_mono)
  moreover have "a < isqrt (a * a) + 1" using b(1,3) a by (smt (verit) mult_mono)
  ultimately show ?thesis by simp
qed

lemma dsqrt_int [float_exact]:
  assumes "0 \<le> i" and "i * i < 2 ^ 53"
  shows "dsqrt (f64_of_int (i * i)) = f64_of_int i"
proof (cases "i = 0")
  case True
  then have "dval (f64_of_int (i * i)) = FFin False 0" using dval_of_int [of 0] by simp
  then show ?thesis using True by (simp add: dsqrt_def f64_of_int_def x_of_int_def)
next
  case False
  define c :: int where "c = 2 ^ 1074"
  have c: "0 < c" by (simp add: c_def)
  have v: "dval (f64_of_int (i * i)) = FFin False (i * i * c)"
    using dval_of_int [of "i * i"] assms by (simp add: c_def not_less)
  have sq: "i * i * c * c = (i * c) * (i * c)" by (simp add: ac_simps)
  have "isqrt (i * i * c * c) = i * c" unfolding sq by (rule isqrt_square) (use assms c in simp)
  moreover have "x_sqrt 1074 (FFin False (i * i * c)) =
      (let n = i * i * c * c; r = isqrt n in XRat False (2 * r + (if r * r = n then 0 else 1)) 2)"
    using False c by (simp only: x_sqrt.simps flip: c_def) simp
  ultimately have "dsqrt (f64_of_int (i * i)) = f64_of (XRat False (i * c * 2) (1 * 2))"
    unfolding dsqrt_def v by (simp add: Let_def sq mult.commute)
  also have "\<dots> = f64_of_int i"
    unfolding f64_of_int_alt using f64_of_scale [of 2 False "i * c" 1] assms by (simp add: c_def not_less)
  finally show ?thesis .
qed

end
