(* ===== verification/Distance_Exact.thy ===== *)
theory Distance_Exact
  imports Distance Float_Exact
begin

text \<open>
  The float distances of \<^verbatim>\<open>sqlite-vec.c\<close> on vectors of integers: the partial sums are exact as long as
  they fit the significand, so the L1 distance is the integer distance and the L2 distance of points at
  an integer distance is that integer.
\<close>

definition of_ints :: "int list \<Rightarrow> f32 list" where
  "of_ints xs = map f32_of_int xs"

lemma of_ints_nth [simp]: "i < length xs \<Longrightarrow> of_ints xs ! i = f32_of_int (xs ! i)"
  by (simp add: of_ints_def)

lemma l1_f32_int:
  assumes "n \<le> length xs" and "n \<le> length ys" and "\<forall>i<n. \<bar>xs ! i\<bar> < 2 ^ 24 \<and> \<bar>ys ! i\<bar> < 2 ^ 24"
    and "(\<Sum>i<n. \<bar>xs ! i - ys ! i\<bar>) < 2 ^ 53"
  shows "l1_f32 (of_ints xs) (of_ints ys) n = f64_of_int (\<Sum>i<n. \<bar>xs ! i - ys ! i\<bar>)"
  using assms
proof (induction n)
  case 0
  then show ?case by (simp add: l1_f32_def f64_of_int_def x_of_int_def f64_of_def xround_def round_mag_def
        rne_def bit_length.simps [of 0] binary64_def)
next
  case (Suc n)
  have s: "0 \<le> (\<Sum>i<n. \<bar>xs ! i - ys ! i\<bar>)" by (simp add: sum_nonneg)
  have b: "\<bar>xs ! n\<bar> < 2 ^ 24" "\<bar>ys ! n\<bar> < 2 ^ 24" using Suc.prems(3) by auto
  have IH: "l1_f32 (of_ints xs) (of_ints ys) n = f64_of_int (\<Sum>i<n. \<bar>xs ! i - ys ! i\<bar>)"
    using Suc by simp
  have "l1_f32 (of_ints xs) (of_ints ys) (Suc n) =
      dadd (l1_f32 (of_ints xs) (of_ints ys) n) (dfabs (dsub (f64_of_f32 (f32_of_int (xs ! n))) (f64_of_f32 (f32_of_int (ys ! n)))))"
    using Suc.prems by (simp add: l1_f32_def)
  also have "\<dots> = f64_of_int ((\<Sum>i<n. \<bar>xs ! i - ys ! i\<bar>) + \<bar>xs ! n - ys ! n\<bar>)"
    using b s Suc.prems(4) unfolding IH by (simp add: float_exact)
  finally show ?case by simp
qed

lemma l2_sum_int:
  assumes "n \<le> length xs" and "n \<le> length ys" and "\<forall>i<n. \<bar>xs ! i\<bar> < 2 ^ 24 \<and> \<bar>ys ! i\<bar> < 2 ^ 24"
    and "(\<Sum>i<n. (xs ! i - ys ! i)\<^sup>2) < 2 ^ 24"
  shows "foldl (\<lambda>res i. let t = fsub (of_ints xs ! i) (of_ints ys ! i) in fadd res (fmul t t)) 0 [0..<n]
    = f32_of_int (\<Sum>i<n. (xs ! i - ys ! i)\<^sup>2)"
  using assms
proof (induction n)
  case 0
  then show ?case by (simp add: f32_of_int_zero)
next
  case (Suc n)
  let ?d = "xs ! n - ys ! n"
  have s: "0 \<le> (\<Sum>i<n. (xs ! i - ys ! i)\<^sup>2)" by (simp add: sum_nonneg)
  have b: "\<bar>xs ! n\<bar> < 2 ^ 24" "\<bar>ys ! n\<bar> < 2 ^ 24" using Suc.prems(3) by auto
  have d2: "?d\<^sup>2 < 2 ^ 24" "(\<Sum>i<n. (xs ! i - ys ! i)\<^sup>2) < 2 ^ 24" using Suc.prems(4) s zero_le_power2 [of ?d] unfolding sum.lessThan_Suc by linarith+
  have "x \<le> x * x" if "0 \<le> x" for x :: int using that by (cases "x = 0") (auto simp: mult_le_cancel_left1)
  from this [of "\<bar>?d\<bar>"] have "\<bar>?d\<bar> \<le> ?d\<^sup>2" by (simp add: power2_eq_square)
  then have d: "\<bar>?d\<bar> < 2 ^ 24" using d2 by linarith
  have IH: "foldl (\<lambda>res i. let t = fsub (of_ints xs ! i) (of_ints ys ! i) in fadd res (fmul t t)) 0 [0..<n]
      = f32_of_int (\<Sum>i<n. (xs ! i - ys ! i)\<^sup>2)"
    using Suc.IH Suc.prems d2(2) by simp
  have "fmul (f32_of_int ?d) (f32_of_int ?d) = f32_of_int (?d * ?d)" using d by (intro fmul_int) auto
  then show ?case
    using b s d2 Suc.prems(1,2) by (simp add: IH fsub_int fadd_int power2_eq_square)
qed



subsection \<open>Points of the plane\<close>

lemma int_not_nan: "\<bar>i\<bar> < 2 ^ 24 \<Longrightarrow> \<not> fisnan (f32_of_int i)"
  using fval_of_int [of i] by (auto simp: fval_def fp_of_mag_def fisnan_def binary32_def split: if_splits)

lemma l2_int2:
  assumes "\<bar>a\<bar> < 2 ^ 24" "\<bar>b\<bar> < 2 ^ 24" "\<bar>c\<bar> < 2 ^ 24" "\<bar>d\<bar> < 2 ^ 24"
    and "0 \<le> s" and "(a - c)\<^sup>2 + (b - d)\<^sup>2 = s * s" and "s * s < 2 ^ 24" and "s < 2 ^ 53"
  shows "distance_l2_sqr_float (of_ints [a, b]) (of_ints [c, d]) 2 = f32_of_int s"
proof -
  have "\<forall>i<2. \<bar>[a, b] ! i\<bar> < 2 ^ 24 \<and> \<bar>[c, d] ! i\<bar> < 2 ^ 24" using assms(1-4) by (simp add: less_2_cases_iff)
  moreover have "(\<Sum>i<2. ([a, b] ! i - [c, d] ! i)\<^sup>2) = s * s" using assms(6) by (simp add: numeral_2_eq_2)
  ultimately show ?thesis
    using l2_sum_int [of 2 "[a, b]" "[c, d]"] assms(5,7,8)
    by (simp add: distance_l2_sqr_float_def l2_sqr_float_def f64_of_f32_int dsqrt_int f32_of_f64_int
        del: upt_conv_Cons upt_rec_numeral)
qed

lemma of_ints2_nth: "of_ints [a, b] ! 0 = f32_of_int a" "of_ints [a, b] ! Suc 0 = f32_of_int b"
  by (simp_all add: of_ints_def)

end
