(* ===== verification/IVF_Correct.thy ===== *)
theory IVF_Correct
  imports IVF Distance_Exact
begin

text \<open>
  The inverted file against its contracts: it is a vector index once trained, training moves every
  buffered row into the lists, and a search returns the best rows of the lists whose centroids are
  nearest.
\<close>

subsection \<open>Contents and invariant\<close>

definition il_live :: "inverted_list \<Rightarrow> (f32 list \<times> i64) multiset" where
  "il_live l = mset (take (il_count l) (zip (il_vecs l) (il_rowids l)))"

definition ivf_live :: "ivf \<Rightarrow> (f32 list \<times> i64) multiset" where
  "ivf_live ivf = sum_list (map il_live (lists ivf))"

definition il_inv :: "inverted_list \<Rightarrow> bool" where
  "il_inv l \<longleftrightarrow> 0 < il_cap l \<and> length (il_rowids l) = il_cap l \<and> length (il_vecs l) = il_cap l
     \<and> il_count l \<le> il_cap l"

definition ivf_inv :: "ivf \<Rightarrow> bool" where
  "ivf_inv ivf \<longleftrightarrow> 0 < nlist ivf \<and> length (centroids ivf) = nlist ivf \<and> length (lists ivf) = nlist ivf
     \<and> (\<forall>l\<in>set (lists ivf). il_inv l)
     \<and> train_size ivf \<le> train_capacity ivf \<and> length (train_vecs ivf) = train_capacity ivf
     \<and> length (train_rowids ivf) = train_capacity ivf \<and> length (iv_deleted ivf) = train_capacity ivf"

lemma sum_replicate_empty [simp]: "sum_list (replicate n {#}) = {#}"
  by (induction n) auto

lemma ivf_create_inv: "ivf_create ok junk n p d = Some ivf \<Longrightarrow> ivf_inv ivf \<and> ivf_live ivf = {#} \<and> \<not> trained ivf"
  by (auto simp: ivf_create_def ivf_inv_def il_inv_def fresh_list_def IVF_LIST_CAP_def IVF_TRAIN_CAP_def
      ivf_live_def il_live_def split: if_splits)

lemma foldl_bounded:
  fixes P :: "nat \<Rightarrow> bool"
  assumes "P (fst st)" and "\<And>c. c \<in> set cs \<Longrightarrow> P c"
    and "\<And>st c. fst (f st c) = fst st \<or> fst (f st c) = c"
  shows "P (fst (foldl f st cs))"
  using assms(1,2)
proof (induction cs arbitrary: st)
  case (Cons c cs)
  then have "P (fst (f st c))" using assms(3) [of st c] by auto
  then show ?case using Cons by simp
qed simp

lemma nearest_centroid_less: "0 < k \<Longrightarrow> nearest_centroid f v cents dim k < k"
  unfolding nearest_centroid_def by (rule foldl_bounded [of "\<lambda>c. c < k"]) (auto simp: Let_def split: prod.splits)

lemma invlist_append_ok:
  assumes "il_inv l" and "length v = dim"
  obtains l' where "invlist_append True junk l v dim r = (SQLITE_OK, l')" and "il_inv l'"
    and "il_live l' = add_mset (v, r) (il_live l)" and "il_cap l \<le> il_cap l'"
proof -
  define l1 where "l1 = (if il_count l \<ge> il_cap l
      then l\<lparr>il_rowids := il_rowids l @ replicate (il_cap l) (fst junk),
             il_vecs := il_vecs l @ replicate (il_cap l) (snd junk), il_cap := il_cap l * 2\<rparr> else l)"
  have 1: "il_inv l1" "il_count l1 < il_cap l1" "il_count l1 = il_count l" "il_cap l \<le> il_cap l1"
    using assms by (auto simp: l1_def il_inv_def)
  have "take (il_count l) (zip (il_vecs l1) (il_rowids l1)) = take (il_count l) (zip (il_vecs l) (il_rowids l))"
    using assms(1) by (auto simp: l1_def il_inv_def take_zip)
  then have live: "il_live l1 = il_live l" using 1(3) by (simp add: il_live_def)
  define l2 where "l2 = l1\<lparr>il_count := il_count l1 + 1, il_rowids := (il_rowids l1)[il_count l1 := r],
      il_vecs := (il_vecs l1)[il_count l1 := take dim v]\<rparr>"
  have "invlist_append True junk l v dim r = (SQLITE_OK, l2)"
    by (simp add: invlist_append_def Let_def l2_def l1_def)
  moreover have "il_inv l2" using 1 by (auto simp: il_inv_def l2_def)
  moreover have "il_live l2 = add_mset (v, r) (il_live l1)"
    using 1(1,2) assms(2) by (simp add: il_live_def l2_def il_inv_def zip_update take_Suc_nth)
  moreover have "il_cap l \<le> il_cap l2" using 1(4) by (simp add: l2_def)
  ultimately show ?thesis using that live by simp
qed

lemma sum_list_update_mset:
  fixes Ms :: "'a multiset list"
  assumes "i < length Ms"
  shows "sum_list (Ms[i := A]) + Ms ! i = sum_list Ms + A"
  using assms
proof (induction Ms arbitrary: i)
  case (Cons M Ms)
  then show ?case by (cases i) (auto simp: ac_simps)
qed simp

lemma ivf_live_update:
  assumes "c < length (lists ivf)" and "il_live l + A = il_live (lists ivf ! c) + B"
  shows "ivf_live (ivf\<lparr>lists := (lists ivf)[c := l]\<rparr>) + A = ivf_live ivf + B"
proof -
  have "sum_list ((map il_live (lists ivf))[c := il_live l]) + il_live (lists ivf ! c) = ivf_live ivf + il_live l"
    using sum_list_update_mset [of c "map il_live (lists ivf)" "il_live l"] assms(1) by (simp add: ivf_live_def)
  then have "ivf_live (ivf\<lparr>lists := (lists ivf)[c := l]\<rparr>) + il_live (lists ivf ! c) + A = ivf_live ivf + (il_live l + A)"
    by (simp add: ivf_live_def map_update ac_simps)
  also have "\<dots> = ivf_live ivf + B + il_live (lists ivf ! c)" using assms(2) by (simp add: ac_simps)
  finally show ?thesis by (simp add: ac_simps)
qed

lemma ivf_inv_update:
  "ivf_inv ivf \<Longrightarrow> il_inv l \<Longrightarrow> ivf_inv (ivf\<lparr>lists := (lists ivf)[c := l]\<rparr>)"
  using set_update_subset_insert [of "lists ivf" c l] by (auto simp: ivf_inv_def)

lemma ivf_add_vector_ok:
  assumes "ivf_inv ivf" and "length v = iv_dim ivf"
  obtains ivf' where "ivf_add_vector True junk ivf v r f = (SQLITE_OK, ivf')" and "ivf_inv ivf'"
    and "ivf_live ivf' = add_mset (v, r) (ivf_live ivf)" and "iv_dim ivf' = iv_dim ivf"
    and "trained ivf' = trained ivf"
proof -
  define c where "c = nearest_centroid f v (centroids ivf) (iv_dim ivf) (nlist ivf)"
  have c: "c < length (lists ivf)" using assms(1) nearest_centroid_less by (simp add: c_def ivf_inv_def)
  have "il_inv (lists ivf ! c)" using assms(1) c by (simp add: ivf_inv_def)
  then obtain l where l: "invlist_append True junk (lists ivf ! c) v (iv_dim ivf) r = (SQLITE_OK, l)" "il_inv l"
    "il_live l = add_mset (v, r) (il_live (lists ivf ! c))"
    using assms(2) by (rule invlist_append_ok)
  have "ivf_add_vector True junk ivf v r f = (SQLITE_OK, ivf\<lparr>lists := (lists ivf)[c := l]\<rparr>)"
    using l(1) by (simp add: ivf_add_vector_def Let_def flip: c_def)
  moreover have "ivf_live (ivf\<lparr>lists := (lists ivf)[c := l]\<rparr>) = add_mset (v, r) (ivf_live ivf)"
    using ivf_live_update [OF c, of l "{#}" "{#(v, r)#}"] l(3) by simp
  ultimately show ?thesis using that ivf_inv_update [OF assms(1) l(2)] by simp
qed


lemma mset_swap_remove:
  assumes "i < n" and "n \<le> length xs"
  shows "add_mset (xs ! i) (mset (take (n - 1) (xs[i := xs ! (n - 1)]))) = mset (take n xs)"
proof (cases "i = n - 1")
  case True
  then show ?thesis using assms take_Suc_nth [of i xs] by (cases n) auto
next
  case False
  then have i: "i < n - 1" using assms by simp
  have "mset (take n xs) = add_mset (xs ! (n - 1)) (mset (take (n - 1) xs))"
    using assms take_Suc_nth [of "n - 1" xs] by simp
  moreover have "xs ! i \<in># mset (take (n - 1) xs)"
    using i assms nth_mem [of i "take (n - 1) xs"] by simp
  moreover have "take (n - 1) (xs[i := xs ! (n - 1)]) = (take (n - 1) xs)[i := xs ! (n - 1)]"
    by (simp add: take_update_swap)
  ultimately show ?thesis using i assms by (simp add: mset_list_update)
qed

lemma il_remove_ok:
  assumes "il_inv l" and "i < il_count l"
  shows "il_inv (il_remove l i)
    \<and> add_mset (il_vecs l ! i, il_rowids l ! i) (il_live (il_remove l i)) = il_live l"
proof -
  have "add_mset (zip (il_vecs l) (il_rowids l) ! i)
      (mset (take (il_count l - 1) ((zip (il_vecs l) (il_rowids l))[i := zip (il_vecs l) (il_rowids l) ! (il_count l - 1)])))
      = il_live l"
    unfolding il_live_def using assms by (intro mset_swap_remove) (auto simp: il_inv_def)
  then show ?thesis
    using assms by (auto simp: il_inv_def il_remove_def Let_def il_live_def zip_update)
qed

lemma il_find_Some:
  "il_find l r = Some i \<Longrightarrow> i < il_count l \<and> il_rowids l ! i = r"
  by (auto simp: il_find_def find_Some_iff)

lemma il_find_None:
  "il_inv l \<Longrightarrow> il_find l r = None \<Longrightarrow> x \<in># il_live l \<Longrightarrow> snd x \<noteq> r"
  by (auto simp: il_find_def find_None_iff il_live_def in_set_conv_nth il_inv_def)

lemma ivf_live_lists: "x \<in># ivf_live ivf \<longleftrightarrow> (\<exists>l\<in>set (lists ivf). x \<in># il_live l)"
proof -
  have "x \<in># sum_list Ms \<longleftrightarrow> (\<exists>M\<in>set Ms. x \<in># M)" for Ms :: "(f32 list \<times> i64) multiset list"
    by (induction Ms) auto
  then show ?thesis by (simp add: ivf_live_def)
qed

text \<open>Removing one entry of a row id that occurs once removes the row.\<close>

lemma drop_row_unique:
  assumes "M = add_mset (v, r) N" and "count (image_mset snd M) r \<le> 1"
  shows "drop_row r M = N"
proof -
  have "count (image_mset snd N) r = 0" using assms by simp
  then have "r \<notin># image_mset snd N" by (simp only: count_eq_zero_iff not_False_eq_True)
  then have "drop_row r N = N" by (intro drop_row_absent) auto
  then show ?thesis using assms(1) by simp
qed

lemma ivf_delete_trained:
  assumes "ivf_inv ivf" and "trained ivf" and "count (image_mset snd (ivf_live ivf)) r \<le> 1"
  obtains l ivf' where "ivf_delete_vector ivf r = Some (l, ivf')" and "ivf_inv ivf'"
    and "ivf_live ivf' = drop_row r (ivf_live ivf)" and "trained ivf'"
    and "iv_dim ivf' = iv_dim ivf" and "l = -1 \<longleftrightarrow> r \<notin># image_mset snd (ivf_live ivf)"
proof (cases "List.find (\<lambda>l. il_find (lists ivf ! l) r \<noteq> None) [0..<nlist ivf]")
  case None
  then have "il_find l r = None" if "l \<in> set (lists ivf)" for l
    using that assms(1) by (auto simp: find_None_iff in_set_conv_nth ivf_inv_def)
  then have abs: "snd x \<noteq> r" if x: "x \<in># ivf_live ivf" for x
  proof -
    obtain l where "l \<in> set (lists ivf)" "x \<in># il_live l" using x unfolding ivf_live_lists by blast
    then show ?thesis using il_find_None [of l r x] assms(1) \<open>\<And>l. l \<in> set (lists ivf) \<Longrightarrow> il_find l r = None\<close>
      by (simp add: ivf_inv_def)
  qed
  then have "ivf_live ivf = drop_row r (ivf_live ivf)" by (simp add: drop_row_absent)
  moreover have "ivf_delete_vector ivf r = Some (-1, ivf)" using None assms(2) by (simp add: ivf_delete_vector_def)
  moreover have "r \<notin># image_mset snd (ivf_live ivf)" using abs by auto
  ultimately show ?thesis using that assms(1,2) by blast
next
  case (Some l)
  then obtain i where l: "l < nlist ivf" and i: "il_find (lists ivf ! l) r = Some i"
    by (auto simp: find_Some_iff)
  have inv: "il_inv (lists ivf ! l)" "l < length (lists ivf)" using assms(1) l by (auto simp: ivf_inv_def)
  note f = il_find_Some [OF i]
  define lst where "lst = il_remove (lists ivf ! l) i"
  have rm: "il_inv lst" "add_mset (il_vecs (lists ivf ! l) ! i, r) (il_live lst) = il_live (lists ivf ! l)"
    using il_remove_ok [OF inv(1)] f by (auto simp: lst_def)
  define ivf' where "ivf' = ivf\<lparr>lists := (lists ivf)[l := lst]\<rparr>"
  have live: "ivf_live ivf = add_mset (il_vecs (lists ivf ! l) ! i, r) (ivf_live ivf')"
    using ivf_live_update [OF inv(2), of lst "{#(il_vecs (lists ivf ! l) ! i, r)#}" "{#}"] rm(2)
    by (simp add: ivf'_def)
  have "ivf_delete_vector ivf r = Some (int l, ivf')"
    using Some i assms(2) by (simp add: ivf_delete_vector_def ivf'_def lst_def)
  moreover have "ivf_live ivf' = drop_row r (ivf_live ivf)" using drop_row_unique [OF live assms(3)] by simp
  moreover have "ivf_inv ivf'" unfolding ivf'_def by (rule ivf_inv_update [OF assms(1) rm(1)])
  moreover have "r \<in># image_mset snd (ivf_live ivf)" using live by simp
  ultimately show ?thesis using that assms(2) by (simp add: ivf'_def)
qed


subsection \<open>The trained inverted file as a vector index\<close>

definition ivf_trained :: "junk \<Rightarrow> f32 list list \<Rightarrow> nat \<Rightarrow> nat \<Rightarrow> ivf" where
  "ivf_trained junk cents n_probe dim = \<lparr>nlist = length cents, nprobe = n_probe, iv_dim = dim, centroids = cents,
     lists = replicate (length cents) (fresh_list junk IVF_LIST_CAP),
     train_vecs = [], train_rowids = [], iv_deleted = [], train_size = 0, train_capacity = 0, trained = True\<rparr>"

definition ivf_ok :: "nat \<Rightarrow> ivf \<Rightarrow> bool" where
  "ivf_ok dim ivf \<longleftrightarrow> ivf_inv ivf \<and> trained ivf \<and> iv_dim ivf = dim"

definition ivf_del :: "i64 \<Rightarrow> ivf \<Rightarrow> ivf" where
  "ivf_del r ivf = (case ivf_delete_vector ivf r of Some (l, ivf') \<Rightarrow> ivf' | None \<Rightarrow> ivf)"

lemma ivf_ok_add:
  assumes "ivf_ok dim s" and "length v = dim"
  shows "ivf_ok dim (snd (ivf_add_vector True junk s v r f))
    \<and> ivf_live (snd (ivf_add_vector True junk s v r f)) = add_mset (v, r) (ivf_live s)"
proof -
  have "ivf_inv s" "length v = iv_dim s" using assms by (auto simp: ivf_ok_def)
  then obtain s' where "ivf_add_vector True junk s v r f = (SQLITE_OK, s')" "ivf_inv s'"
    "ivf_live s' = add_mset (v, r) (ivf_live s)" "iv_dim s' = iv_dim s" "trained s' = trained s"
    by (rule ivf_add_vector_ok)
  then show ?thesis using assms by (simp add: ivf_ok_def)
qed

lemma ivf_ok_del:
  assumes "ivf_ok dim s" and "count (image_mset snd (ivf_live s)) r \<le> 1"
  shows "ivf_ok dim (ivf_del r s) \<and> ivf_live (ivf_del r s) = drop_row r (ivf_live s)"
proof -
  have "ivf_inv s" "trained s" using assms(1) by (auto simp: ivf_ok_def)
  then obtain l s' where "ivf_delete_vector s r = Some (l, s')" "ivf_inv s'" "ivf_live s' = drop_row r (ivf_live s)"
    "trained s'" "iv_dim s' = iv_dim s"
    using assms(2) by (metis ivf_delete_trained)
  then show ?thesis using assms(1) by (simp add: ivf_del_def ivf_ok_def)
qed

interpretation ivf_index: vec_index
  "\<lambda>v r s. snd (ivf_add_vector True junk s v r f)" ivf_del ivf_live "\<lambda>s. image_mset snd (ivf_live s)"
  "ivf_ok dim" "\<lambda>v r. length v = dim" "\<lambda>r. True" "\<lambda>s n. True" "ivf_trained junk (c # cs) n_probe dim"
  for junk c cs n_probe dim f
proof unfold_locales
  show "ivf_ok dim (ivf_trained junk (c # cs) n_probe dim)"
    by (auto simp: ivf_ok_def ivf_trained_def ivf_inv_def il_inv_def fresh_list_def IVF_LIST_CAP_def)
  show "ivf_live (ivf_trained junk (c # cs) n_probe dim) = {#}"
    "image_mset snd (ivf_live (ivf_trained junk (c # cs) n_probe dim)) = {#}"
    by (simp_all add: ivf_live_def ivf_trained_def il_live_def fresh_list_def)
qed (simp_all add: ivf_ok_add ivf_ok_del drop_row_def image_mset_subseteq_mono)

lemma ivf_flush_ok:
  assumes "ivf_inv ivf" and "\<forall>x\<in>set rows. length (fst x) = iv_dim ivf"
  shows "\<exists>ivf'. ivf_flush True junk rows f ivf = (SQLITE_OK, ivf') \<and> ivf_inv ivf'
    \<and> ivf_live ivf' = ivf_live ivf + mset rows \<and> trained ivf' = trained ivf \<and> iv_dim ivf' = iv_dim ivf"
  using assms
proof (induction rows arbitrary: ivf)
  case (Cons x rows)
  obtain v r where x: "x = (v, r)" by force
  have "length v = iv_dim ivf" using Cons.prems x by simp
  then obtain i2 where i2: "ivf_add_vector True junk ivf v r f = (SQLITE_OK, i2)" "ivf_inv i2"
    "ivf_live i2 = add_mset (v, r) (ivf_live ivf)" "iv_dim i2 = iv_dim ivf" "trained i2 = trained ivf"
    using Cons.prems(1) by (metis ivf_add_vector_ok)
  then show ?case using Cons.IH [of i2] Cons.prems x by auto
qed simp

lemma foldl_length_fst:
  "(\<And>st c. length (fst (g st c)) = length (fst st)) \<Longrightarrow> length (fst (foldl g st cs)) = length (fst st)"
  by (induction cs arbitrary: st) auto

lemma kmeans_length:
  "length (fst (kmeans_update rnd k dim tv valid sc st)) = length (fst st)"
  unfolding kmeans_update_def by (rule foldl_length_fst) (auto split: prod.splits)

lemma kmeans_iter_length:
  "length (fst ((kmeans_iter rnd f k dim tv valid ^^ n) st)) = length (fst st)"
  by (induction n) (simp_all add: kmeans_iter_def kmeans_length Let_def)

lemma ivf_train_kmeans_ok:
  assumes "ivf_inv ivf" and "ivf_train_kmeans rnd ok ivf n iters f = (True, ivf')"
  shows "ivf_inv ivf' \<and> trained ivf' \<and> ivf_live ivf' = ivf_live ivf \<and> train_rows ivf' = train_rows ivf
    \<and> iv_dim ivf' = iv_dim ivf \<and> lists ivf' = lists ivf"
  using assms
  by (auto simp: ivf_train_kmeans_def Let_def ivf_inv_def ivf_live_def train_rows_def kmeans_iter_length
      split: if_splits prod.splits dest: arg_cong [where f = "\<lambda>p. length (fst p)"])

lemma ivf_train_kmeans_runs:
  assumes "i < train_size ivf" and "\<not> iv_deleted ivf ! i" and "0 < iters"
  shows "fst (ivf_train_kmeans rnd True ivf (int (train_size ivf)) iters f)"
  using assms by (auto simp: ivf_train_kmeans_def Let_def filter_empty_conv split: prod.splits)


subsection \<open>Probing\<close>

lemma select_best_props:
  assumes "i < n" and "n \<le> length idxs" and "\<forall>j<length idxs. \<not> fisnan (dists ! (idxs ! j))"
  defines "b \<equiv> select_best dists idxs i n"
  shows "i \<le> b \<and> b < n \<and> (\<forall>j. i \<le> j \<and> j < n \<longrightarrow> fkey (dists ! (idxs ! b)) \<le> fkey (dists ! (idxs ! j)))"
proof -
  let ?f = "\<lambda>best j. if flt (dists ! (idxs ! j)) (dists ! (idxs ! best)) then j else best"
  let ?P = "\<lambda>b m. i \<le> b \<and> b < m \<and> (\<forall>j. i \<le> j \<and> j < m \<longrightarrow> fkey (dists ! (idxs ! b)) \<le> fkey (dists ! (idxs ! j)))"
  have "?P (foldl ?f i [i + 1..<m]) m" if "i < m" "m \<le> n" for m
    using that
  proof (induction m)
    case (Suc m)
    show ?case
    proof (cases "i = m")
      case False
      then have IH: "?P (foldl ?f i [i + 1..<m]) m" using Suc by simp
      define c where "c = foldl ?f i [i + 1..<m]"
      have c: "i \<le> c" "c < m" "\<forall>j. i \<le> j \<and> j < m \<longrightarrow> fkey (dists ! (idxs ! c)) \<le> fkey (dists ! (idxs ! j))"
        using IH unfolding c_def by auto
      have "flt (dists ! (idxs ! m)) (dists ! (idxs ! c)) \<longleftrightarrow> fkey (dists ! (idxs ! m)) < fkey (dists ! (idxs ! c))"
        using assms(2,3) c(2) Suc.prems by (intro flt_iff_key) auto
      moreover have "foldl ?f i [i + 1..<Suc m] = ?f c m" using False Suc.prems by (simp add: c_def)
      ultimately show ?thesis using c by (auto simp: less_Suc_eq)
    qed (auto simp: le_less_Suc_eq)
  qed simp
  from this [OF assms(1) order_refl] show ?thesis by (simp add: b_def select_best_def)
qed

text \<open>After \<open>i\<close> steps the first \<open>i\<close> entries are out and none of the others is nearer.\<close>

definition selected :: "f32 list \<Rightarrow> nat \<Rightarrow> nat list \<times> nat list \<Rightarrow> nat \<Rightarrow> bool" where
  "selected dists n st i \<longleftrightarrow> mset (fst st) = mset [0..<n] \<and> snd st = take i (fst st)
     \<and> (\<forall>a<i. \<forall>b. i \<le> b \<and> b < n \<longrightarrow> fkey (dists ! (fst st ! a)) \<le> fkey (dists ! (fst st ! b)))"

lemma select_step_selected:
  assumes st: "selected dists n st i" and i: "i < n" and nan: "\<forall>j<n. \<not> fisnan (dists ! j)"
  shows "selected dists n (select_step dists n st i) (Suc i)"
proof -
  define xs where "xs = fst st"
  have ms: "mset xs = mset [0..<n]" and out: "snd st = take i xs" using st by (auto simp: selected_def xs_def)
  have len: "length xs = n" using ms by (metis diff_zero length_upt size_mset)
  have "set xs = {0..<n}" using ms by (metis set_mset_mset set_upt)
  then have el: "xs ! j < n" if "j < n" for j using that len nth_mem [of j xs] by auto
  define b where "b = select_best dists xs i n"
  have b: "i \<le> b" "b < n" "\<And>j. i \<le> j \<Longrightarrow> j < n \<Longrightarrow> fkey (dists ! (xs ! b)) \<le> fkey (dists ! (xs ! j))"
    using select_best_props [of i n xs dists] i len nan el by (auto simp: b_def)
  define ys where "ys = xs[i := xs ! b, b := xs ! i]"
  have step: "select_step dists n st i = (ys, take i xs @ [ys ! i])"
    by (simp add: select_step_def Let_def ys_def b_def out flip: xs_def)
  have nth: "ys ! j = (if j = b then xs ! i else if j = i then xs ! b else xs ! j)" if "j < n" for j
    using that b(2) i len by (simp add: ys_def nth_list_update)
  have "take i ys = take i xs" using b(1) by (simp add: ys_def)
  then have o: "take i xs @ [ys ! i] = take (Suc i) ys" using i len by (simp add: take_Suc_nth ys_def)
  have low: "fkey (dists ! (xs ! a)) \<le> fkey (dists ! (xs ! c))" if "a < i" "i \<le> c" "c < n" for a c
    using st that by (simp add: selected_def xs_def)
  have yi: "ys ! i = xs ! b" using nth [OF i] by auto
  have "fkey (dists ! (ys ! a)) \<le> fkey (dists ! (ys ! c))" if a: "a < Suc i" and c: "Suc i \<le> c" "c < n" for a c
  proof -
    obtain c' where c': "ys ! c = xs ! c'" "i \<le> c'" "c' < n" using nth [OF c(2)] c i by (cases "c = b") auto
    show ?thesis
    proof (cases "a = i")
      case True
      then show ?thesis using yi b(3) c' by simp
    next
      case False
      then have "ys ! a = xs ! a" using a b(1) i nth [of a] by auto
      then show ?thesis using low [of a c'] a False c' by simp
    qed
  qed
  moreover have "mset ys = mset [0..<n]" unfolding ys_def using b(2) i len ms by (simp add: mset_swap)
  ultimately show ?thesis by (simp add: selected_def step o)
qed

lemma select_nprobe_selected:
  assumes "\<forall>j<nlist ivf. \<not> fisnan (f q (centroids ivf ! j) (iv_dim ivf))"
  shows "best_k (\<lambda>i. fkey (f q (centroids ivf ! i) (iv_dim ivf))) p (mset [0..<nlist ivf])
      (mset (select_nprobe ivf q p f))
    \<and> distinct (select_nprobe ivf q p f)"
proof -
  define n where "n = nlist ivf"
  define ds where "ds = map (\<lambda>i. f q (centroids ivf ! i) (iv_dim ivf)) [0..<n]"
  have nan: "\<forall>j<n. \<not> fisnan (ds ! j)" using assms by (simp add: ds_def n_def)
  have "selected ds n (foldl (select_step ds n) ([0..<n], []) [0..<m]) m" if "m \<le> n" for m
    using that
  proof (induction m)
    case (Suc m)
    then show ?case using select_step_selected [OF _ _ nan, of _ m] by simp
  qed (simp add: selected_def)
  then have sel: "selected ds n (foldl (select_step ds n) ([0..<n], []) [0..<m]) m" if "m = min p n" for m
    using that by simp
  define m where "m = min p n"
  define st where "st = foldl (select_step ds n) ([0..<n], []) [0..<m]"
  define idxs where "idxs = fst st"
  have "select_nprobe ivf q p f = snd st"
    by (simp only: select_nprobe_def Let_def st_def m_def flip: n_def ds_def)
  moreover have sl: "selected ds n st m" unfolding st_def by (rule sel [OF m_def])
  ultimately have st: "mset idxs = mset [0..<n]" "select_nprobe ivf q p f = take m idxs"
    by (auto simp: selected_def idxs_def)
  have le: "fkey (ds ! (idxs ! a)) \<le> fkey (ds ! (idxs ! b))" if "a < m" "m \<le> b" "b < n" for a b
    using sl that by (simp add: selected_def idxs_def)
  have len: "length idxs = n" using st(1) by (metis diff_zero length_upt size_mset)
  have "set idxs = {0..<n}" using st(1) by (metis set_mset_mset set_upt)
  then have key: "fkey (ds ! (idxs ! a)) = fkey (f q (centroids ivf ! (idxs ! a)) (iv_dim ivf))" if "a < n" for a
    using that len nth_mem [of a idxs] by (simp add: ds_def)
  have split: "mset idxs = mset (take m idxs) + mset (drop m idxs)"
    by (metis append_take_drop_id mset_append)
  have "best_k (\<lambda>i. fkey (f q (centroids ivf ! i) (iv_dim ivf))) p (mset idxs) (mset (take m idxs))"
  proof (rule best_kI)
    show "mset (take m idxs) \<subseteq># mset idxs" using split by simp
    show "size (mset (take m idxs)) = min p (size (mset idxs))" using len by (simp add: m_def)
    fix x y assume x: "x \<in># mset (take m idxs)" and "y \<in># mset idxs - mset (take m idxs)"
    then have y: "y \<in> set (drop m idxs)" using split by simp
    obtain a where a: "a < m" "x = idxs ! a" using x len by (auto simp: in_set_conv_nth)
    obtain c where c: "c < n - m" "y = idxs ! (m + c)" using y len by (auto simp: in_set_conv_nth)
    show "fkey (f q (centroids ivf ! x) (iv_dim ivf)) \<le> fkey (f q (centroids ivf ! y) (iv_dim ivf))"
      using le [of a "m + c"] a c key [of a] key [of "m + c"] by simp
  qed
  moreover have "distinct idxs" using st(1) by (metis distinct_upt mset_eq_imp_distinct_iff)
  ultimately show ?thesis using st by (simp flip: n_def)
qed


subsection \<open>Search results\<close>

text \<open>The rows of a list that pass the filter, with their distances.\<close>

definition il_cands :: "rowid_map \<Rightarrow> distance_func \<Rightarrow> f32 list \<Rightarrow> nat \<Rightarrow> inverted_list \<Rightarrow> hit multiset" where
  "il_cands m f q dim l = {# (r, f q v dim). (v, r) \<in># filter_mset (\<lambda>x. passes m (snd x)) (il_live l) #}"

lemma mset_list_hits:
  assumes "il_inv l"
  shows "mset (list_hits f q dim m l) = il_cands m f q dim l"
proof -
  have len: "il_count l \<le> length (zip (il_vecs l) (il_rowids l))" using assms by (simp add: il_inv_def)
  have "take (il_count l) (zip (il_vecs l) (il_rowids l)) = map (\<lambda>j. (il_vecs l ! j, il_rowids l ! j)) [0..<il_count l]"
    using assms by (intro nth_equalityI) (auto simp: il_inv_def)
  then have "il_live l = mset (map (\<lambda>j. (il_vecs l ! j, il_rowids l ! j)) [0..<il_count l])" by (simp add: il_live_def)
  then have "il_cands m f q dim l = mset (map (\<lambda>(v, r). (r, f q v dim)) (filter (\<lambda>x. passes m (snd x))
      (map (\<lambda>j. (il_vecs l ! j, il_rowids l ! j)) [0..<il_count l])))"
    by (simp add: il_cands_def mset_filter mset_map case_prod_unfold)
  moreover have "(\<not> (\<not> map_has m r \<and> pre_filter m)) = passes m r" for r by (auto simp: passes_def)
  ultimately show ?thesis by (simp add: list_hits_def filter_map o_def)
qed

definition probe_hits :: "ivf \<Rightarrow> f32 list \<Rightarrow> rowid_map \<Rightarrow> distance_func \<Rightarrow> nat list \<Rightarrow> hits" where
  "probe_hits ivf q m f cs = concat (map (\<lambda>c. list_hits f q (iv_dim ivf) m (lists ivf ! c)) cs)"

lemma fold_probe:
  "fold (\<lambda>c. fold (heap_feed k) (list_hits f q (iv_dim ivf) m (lists ivf ! c))) cs h
   = fold (heap_feed k) (probe_hits ivf q m f cs) h"
  by (induction cs arbitrary: h) (simp_all add: probe_hits_def)

lemma ivf_search_heap:
  assumes "0 < topk" and "p = (if 0 < override then nat override else nprobe ivf)"
    and "\<forall>h\<in>set (probe_hits ivf q m f (select_nprobe ivf q (min p (nlist ivf)) f)). \<not> fisnan (snd h)"
  defines "hs \<equiv> probe_hits ivf q m f (select_nprobe ivf q (min p (nlist ivf)) f)"
  shows "best_k hit_key (nat topk) (mset hs) (mset (ivf_search ivf q topk override m f))
    \<and> (nat topk \<le> length hs \<longrightarrow> sorted (map hit_key (ivf_search ivf q topk override m f)))"
proof -
  obtain k where k: "nat topk = Suc k" using assms(1) by (cases "nat topk") auto
  define heap where "heap = fold (heap_feed (Suc k)) hs []"
  have best: "best_k hit_key (Suc k) (mset hs) (mset heap)"
    unfolding heap_def by (rule heap_buffer.feed_all_best) (use assms(3) in \<open>simp add: hs_def\<close>)
  have inv: "heap_inv (Suc k) heap"
    unfolding heap_def by (rule heap_buffer.fold_inv) (use assms(3) heap_buffer.start_inv in \<open>simp_all add: hs_def\<close>)
  have res: "ivf_search ivf q topk override m f = heap_drain heap (length heap) []"
    using assms(1,2) k by (simp add: ivf_search_def Let_def fold_probe heap_def hs_def)
  have ms: "mset (ivf_search ivf q topk override m f) = mset heap" by (simp add: res heap_drain_mset)
  have "sorted (map hit_key (heap_drain heap (length heap) []))" if "nat topk \<le> length hs"
  proof -
    have "length heap = Suc k" using best_k_size [OF best] that k by simp
    then show ?thesis using inv by (intro heap_drain_sorted) (auto simp: heap_inv_def)
  qed
  then show ?thesis using best k ms by (simp add: res)
qed


definition ivf_cands :: "rowid_map \<Rightarrow> distance_func \<Rightarrow> f32 list \<Rightarrow> ivf \<Rightarrow> nat list \<Rightarrow> hit multiset" where
  "ivf_cands m f q ivf cs = sum_list (map (\<lambda>c. il_cands m f q (iv_dim ivf) (lists ivf ! c)) cs)"

lemma mset_probe_hits:
  "ivf_inv ivf \<Longrightarrow> \<forall>c\<in>set cs. c < nlist ivf \<Longrightarrow> mset (probe_hits ivf q m f cs) = ivf_cands m f q ivf cs"
  by (induction cs) (simp_all add: probe_hits_def ivf_cands_def mset_list_hits ivf_inv_def)

lemma probe_hits_no_nan:
  assumes "ivf_inv ivf" and "\<forall>c\<in>set cs. c < nlist ivf" and "\<forall>x\<in>#ivf_live ivf. \<not> fisnan (f q (fst x) (iv_dim ivf))"
  shows "\<forall>h\<in>set (probe_hits ivf q m f cs). \<not> fisnan (snd h)"
proof
  fix h assume "h \<in> set (probe_hits ivf q m f cs)"
  then obtain c where c: "c \<in> set cs" "h \<in> set (list_hits f q (iv_dim ivf) m (lists ivf ! c))"
    by (auto simp: probe_hits_def)
  then have l: "lists ivf ! c \<in> set (lists ivf)" "il_inv (lists ivf ! c)" using assms(1,2) by (auto simp: ivf_inv_def)
  have "h \<in># il_cands m f q (iv_dim ivf) (lists ivf ! c)" using c(2) mset_list_hits [OF l(2)] by (metis set_mset_mset)
  then obtain v r where "(v, r) \<in># il_live (lists ivf ! c)" "h = (r, f q v (iv_dim ivf))" by (auto simp: il_cands_def)
  moreover from this(1) l(1) have "(v, r) \<in># ivf_live ivf" unfolding ivf_live_lists by blast
  ultimately show "\<not> fisnan (snd h)" using assms(3) by auto
qed

lemma select_nprobe_bound:
  assumes "\<forall>c\<in>set (centroids ivf). \<not> fisnan (f q c (iv_dim ivf))" and "ivf_inv ivf"
  shows "\<forall>c\<in>set (select_nprobe ivf q p f). c < nlist ivf"
proof -
  have "mset (select_nprobe ivf q p f) \<subseteq># mset [0..<nlist ivf]"
    using select_nprobe_selected [of ivf f q p, THEN conjunct1] assms by (auto simp: ivf_inv_def dest: best_k_sub)
  then show ?thesis using mset_subset_eqD by fastforce
qed

text \<open>
  C10. The search of the inverted file probes the lists of the nearest centroids and returns, of the rows
  in them that pass the filter, \<open>topk\<close> with the smallest distances (all if there are fewer), in order of
  distance when there are at least \<open>topk\<close>.
\<close>

theorem ivf_search_best_of_probed:
  assumes "ivf_inv ivf" and "0 < topk"
    and "\<forall>c\<in>set (centroids ivf). \<not> fisnan (f q c (iv_dim ivf))"
    and "\<forall>x\<in>#ivf_live ivf. \<not> fisnan (f q (fst x) (iv_dim ivf))"
    and "p = min (if 0 < override then nat override else nprobe ivf) (nlist ivf)"
  shows "distinct (select_nprobe ivf q p f)
    \<and> best_k (\<lambda>i. fkey (f q (centroids ivf ! i) (iv_dim ivf))) p (mset [0..<nlist ivf]) (mset (select_nprobe ivf q p f))
    \<and> best_k (\<lambda>h. fkey (snd h)) (nat topk) (ivf_cands m f q ivf (select_nprobe ivf q p f))
        (mset (ivf_search ivf q topk override m f))
    \<and> (nat topk \<le> size (ivf_cands m f q ivf (select_nprobe ivf q p f)) \<longrightarrow>
        sorted (map (\<lambda>h. fkey (snd h)) (ivf_search ivf q topk override m f)))"
proof -
  let ?ps = "select_nprobe ivf q p f"
  note b = select_nprobe_bound [of ivf f q p, OF assms(3,1)]
  have "best_k hit_key (nat topk) (mset (probe_hits ivf q m f ?ps)) (mset (ivf_search ivf q topk override m f))
    \<and> (nat topk \<le> length (probe_hits ivf q m f ?ps) \<longrightarrow> sorted (map hit_key (ivf_search ivf q topk override m f)))"
    unfolding assms(5) using probe_hits_no_nan [of ivf ?ps f q m, OF assms(1) b assms(4)] assms(2,5)
    by (intro ivf_search_heap) auto
  moreover have "size (ivf_cands m f q ivf ?ps) = length (probe_hits ivf q m f ?ps)"
    by (simp flip: mset_probe_hits [OF assms(1) b])
  ultimately show ?thesis
    using select_nprobe_selected [of ivf f q p] assms(1,3)
    by (simp add: mset_probe_hits [OF assms(1) b] ivf_inv_def)
qed

lemma ivf_cands_perm:
  assumes "mset cs = mset cs'"
  shows "ivf_cands m f q ivf cs = ivf_cands m f q ivf cs'"
proof -
  have "sum_list (map g xs) = \<Sum>\<^sub># (image_mset g (mset xs))" for g :: "nat \<Rightarrow> hit multiset" and xs
    by (simp flip: sum_mset_sum_list mset_map)
  then show ?thesis unfolding ivf_cands_def using assms by metis
qed

lemma sum_il_cands: "sum_list (map (il_cands m f q d) ls) =
    {# (r, f q v d). (v, r) \<in># filter_mset (\<lambda>x. passes m (snd x)) (sum_list (map il_live ls)) #}"
  by (induction ls) (simp_all add: il_cands_def)

text \<open>
  When as many lists are probed as there are, the inverted file returns the best rows of all its
  live rows that pass the filter.
\<close>

theorem ivf_search_exact_when_all_probed:
  assumes "ivf_inv ivf" and "0 < topk"
    and "\<forall>c\<in>set (centroids ivf). \<not> fisnan (f q c (iv_dim ivf))"
    and "\<forall>x\<in>#ivf_live ivf. \<not> fisnan (f q (fst x) (iv_dim ivf))"
    and "int (nlist ivf) \<le> override"
  shows "best_k (\<lambda>h. fkey (snd h)) (nat topk)
      {# (r, f q v (iv_dim ivf)). (v, r) \<in># filter_mset (\<lambda>x. passes m (snd x)) (ivf_live ivf) #}
      (mset (ivf_search ivf q topk override m f))"
proof -
  let ?n = "nlist ivf"
  let ?ps = "select_nprobe ivf q ?n f"
  have n: "0 < override" "min (nat override) ?n = ?n" using assms(1,5) by (auto simp: ivf_inv_def)
  note b = select_nprobe_bound [of ivf f q ?n, OF assms(3,1)]
  have "best_k (\<lambda>i. fkey (f q (centroids ivf ! i) (iv_dim ivf))) ?n (mset [0..<?n]) (mset ?ps)"
    using select_nprobe_selected [of ivf f q ?n] assms(1,3) by (simp add: ivf_inv_def)
  then have ps: "mset ?ps = mset [0..<?n]" by (rule best_k_everything) simp
  have "ivf_cands m f q ivf ?ps = ivf_cands m f q ivf [0..<?n]"
    by (rule ivf_cands_perm [OF ps])
  also have "\<dots> = sum_list (map (il_cands m f q (iv_dim ivf)) (lists ivf))"
    unfolding ivf_cands_def using assms(1)
    by (intro arg_cong [of _ _ sum_list] nth_equalityI) (auto simp: ivf_inv_def)
  also have "\<dots> = {# (r, f q v (iv_dim ivf)). (v, r) \<in># filter_mset (\<lambda>x. passes m (snd x)) (ivf_live ivf) #}"
    unfolding ivf_live_def by (rule sum_il_cands)
  finally show ?thesis
    using probe_hits_no_nan [of ivf ?ps f q m, OF assms(1) b assms(4)] assms(2) n
      ivf_search_heap [of topk "nat override" override ivf q m f] mset_probe_hits [OF assms(1) b] by simp
qed


subsection \<open>Instances\<close>

definition sample_ivf :: ivf where
  "sample_ivf = fold (\<lambda>(v, r) s. snd (ivf_add_vector True (0, []) s v r distance_l2_sqr_float))
     [(of_ints [0, 0], 1), (of_ints [3, 4], 2), (of_ints [6, 8], 3)]
     (ivf_trained (0, []) [of_ints [0, 0], of_ints [6, 8]] 1 2)"

lemma sample_ivf_ok: "ivf_ok 2 sample_ivf \<and> ivf_live sample_ivf =
    mset [(of_ints [0, 0], 1), (of_ints [3, 4], 2), (of_ints [6, 8], 3)]"
  using ivf_index.load_live [of "[(of_ints [0, 0], 1), (of_ints [3, 4], 2), (of_ints [6, 8], 3)]" 2 "(0, [])"
      distance_l2_sqr_float "of_ints [0, 0]" "[of_ints [6, 8]]" 1]
  by (simp add: ivf_index.load_def sample_ivf_def of_ints_def)

lemma ivf_add_frame:
  "centroids (snd (ivf_add_vector ok junk s v r f)) = centroids s" "nlist (snd (ivf_add_vector ok junk s v r f)) = nlist s"
  by (simp_all add: ivf_add_vector_def Let_def split: prod.splits)

lemma sample_ivf_centroids: "centroids sample_ivf = [of_ints [0, 0], of_ints [6, 8]]" "nlist sample_ivf = 2"
  by (simp_all add: sample_ivf_def ivf_add_frame ivf_trained_def)

lemma sample_l2:
  "distance_l2_sqr_float (of_ints [0, 0]) (of_ints [0, 0]) 2 = f32_of_int 0"
  "distance_l2_sqr_float (of_ints [0, 0]) (of_ints [3, 4]) 2 = f32_of_int 5"
  "distance_l2_sqr_float (of_ints [0, 0]) (of_ints [6, 8]) 2 = f32_of_int 10"
  by (rule l2_int2; simp)+

theorem ivf_search_best_of_probed_witness:
  "best_k (\<lambda>h. fkey (snd h)) 2
     (ivf_cands no_filter distance_l2_sqr_float (of_ints [0, 0]) sample_ivf
       (select_nprobe sample_ivf (of_ints [0, 0]) 1 distance_l2_sqr_float))
     (mset (ivf_search sample_ivf (of_ints [0, 0]) 2 1 no_filter distance_l2_sqr_float))"
  using ivf_search_best_of_probed [of sample_ivf 2 distance_l2_sqr_float "of_ints [0, 0]" 1 1 no_filter] sample_ivf_ok
  by (simp add: sample_ivf_centroids sample_l2 int_not_nan ivf_ok_def)

theorem ivf_search_exact_when_all_probed_witness:
  "best_k (\<lambda>h. fkey (snd h)) 2 {#(1, f32_of_int 0), (2, f32_of_int 5), (3, f32_of_int 10)#}
     (mset (ivf_search sample_ivf (of_ints [0, 0]) 2 2 no_filter distance_l2_sqr_float))"
  using ivf_search_exact_when_all_probed [of sample_ivf 2 distance_l2_sqr_float "of_ints [0, 0]" 2 no_filter]
    sample_ivf_ok
  by (simp add: sample_ivf_centroids sample_l2 int_not_nan ivf_ok_def passes_def no_filter_def add_mset_commute)

definition two_rows :: ivf where
  "two_rows = \<lparr>nlist = 1, nprobe = 1, iv_dim = 2, centroids = [of_ints [0, 0]],
     lists = [\<lparr>il_count = 2, il_cap = 2, il_rowids = [1, 2], il_vecs = [of_ints [0, 0], of_ints [3, 4]]\<rparr>],
     train_vecs = [], train_rowids = [], iv_deleted = [], train_size = 0, train_capacity = 0, trained = True\<rparr>"

text \<open>
  A search that finds fewer than \<open>topk\<close> rows never builds its heap and still drains it as one: the
  nearer row comes last.
\<close>

theorem ivf_search_unsorted_when_few:
  "ivf_search two_rows (of_ints [0, 0]) 5 1 no_filter distance_l2_sqr_float = [(2, f32_of_int 5), (1, f32_of_int 0)]"
proof -
  have s: "sift_down h 1 0 = h" for h by (simp add: sift_down.simps)
  have p: "select_nprobe two_rows (of_ints [0, 0]) 1 distance_l2_sqr_float = [0]"
    by (simp add: select_nprobe_def select_step_def select_best_def two_rows_def Let_def)
  have h: "list_hits distance_l2_sqr_float (of_ints [0, 0]) 2 no_filter (lists two_rows ! 0) = [(1, f32_of_int 0), (2, f32_of_int 5)]"
    by (simp add: list_hits_def two_rows_def no_filter_def sample_l2 upt_rec)
  have d: "iv_dim two_rows = 2" "nlist two_rows = 1" by (simp_all add: two_rows_def)
  show ?thesis
    unfolding ivf_search_def Let_def by (simp add: p [simplified] h d heap_feed_def s [simplified])
qed

subsection \<open>Training and maintenance\<close>

text \<open>
  C16. Training with at least one row not marked deleted succeeds and moves every buffered row into the
  lists, the rows marked deleted included: they come back.
\<close>

theorem ivf_train_and_flush_moves_all:
  assumes "ivf_inv ivf" and "i < train_size ivf" and "\<not> iv_deleted ivf ! i"
    and "\<forall>j<train_size ivf. length (train_vecs ivf ! j) = iv_dim ivf"
  shows "\<exists>ivf'. ivf_train_and_flush rnd True junk ivf f = (SQLITE_OK, ivf') \<and> ivf_inv ivf' \<and> trained ivf'
    \<and> train_size ivf' = 0
    \<and> ivf_live ivf' = ivf_live ivf + mset (train_rows ivf)"
proof -
  obtain ivf1 where t: "ivf_train_kmeans rnd True ivf (int (train_size ivf)) 20 f = (True, ivf1)"
    using ivf_train_kmeans_runs [OF assms(2,3), of 20 rnd f] by (metis prod.collapse zero_less_numeral)
  note k = ivf_train_kmeans_ok [OF assms(1) t]
  define i1 where "i1 = ivf1\<lparr>trained := True\<rparr>"
  have i1: "ivf_inv i1" "ivf_live i1 = ivf_live ivf" "iv_dim i1 = iv_dim ivf" "trained i1"
    using k by (auto simp: i1_def ivf_inv_def ivf_live_def)
  have "\<forall>x\<in>set (train_rows ivf1). length (fst x) = iv_dim i1"
    using k i1(3) assms(4) by (auto simp: train_rows_def)
  from ivf_flush_ok [OF i1(1) this, of junk f] obtain i2 where
    i2: "ivf_flush True junk (train_rows ivf1) f i1 = (SQLITE_OK, i2)" "ivf_inv i2"
      "ivf_live i2 = ivf_live i1 + mset (train_rows ivf1)" "trained i2 = trained i1" by blast
  then have "ivf_train_and_flush rnd True junk ivf f = (SQLITE_OK, i2\<lparr>train_size := 0\<rparr>)"
    using t by (simp add: ivf_train_and_flush_def i1_def)
  moreover have "ivf_inv (i2\<lparr>train_size := 0\<rparr>)" "ivf_live (i2\<lparr>train_size := 0\<rparr>) = ivf_live i2"
    using i2(2) by (auto simp: ivf_inv_def ivf_live_def)
  moreover have "train_rows ivf1 = train_rows ivf" using k by blast
  ultimately show ?thesis using i2(3,4) i1(2,4) by simp
qed

definition sample_untrained :: ivf where
  "sample_untrained = \<lparr>nlist = 1, nprobe = 1, iv_dim = 2, centroids = [[]], lists = [fresh_list (0, []) IVF_LIST_CAP],
     train_vecs = [of_ints [0, 0], of_ints [3, 4]], train_rowids = [1, 2], iv_deleted = [True, False],
     train_size = 2, train_capacity = 2, trained = False\<rparr>"

theorem ivf_train_and_flush_moves_all_witness:
  "(of_ints [0, 0], 1) \<in># ivf_live (snd (ivf_train_and_flush (\<lambda>_. 0) True (0, []) sample_untrained distance_l2_sqr_float))
   \<and> iv_deleted sample_untrained ! 0"
proof -
  have inv: "ivf_inv sample_untrained"
    by (simp add: ivf_inv_def sample_untrained_def il_inv_def fresh_list_def IVF_LIST_CAP_def)
  have "\<forall>j<train_size sample_untrained. length (train_vecs sample_untrained ! j) = iv_dim sample_untrained"
    by (simp add: sample_untrained_def less_2_cases_iff of_ints_def)
  from ivf_train_and_flush_moves_all [OF inv _ _ this, of 1 "\<lambda>_. 0" "(0, [])" distance_l2_sqr_float]
  show ?thesis by (auto simp: sample_untrained_def train_rows_def upt_rec)
qed



definition full_rows :: ivf where
  "full_rows = two_rows\<lparr>nlist := 2, centroids := [of_ints [0, 0], of_ints [6, 8]],
     lists := lists two_rows @ [\<lparr>il_count = 1, il_cap = 1, il_rowids = [3], il_vecs = [of_ints [6, 8]]\<rparr>]\<rparr>"



text \<open>
  C13. A trained inverted file holds exactly the rows added to it, whichever list each went to and
  however often the lists grew; deleting a row removes it and no other, and reports \<open>-1\<close> only for a row
  that is not stored.
\<close>

theorem ivf_add_then_delete:
  assumes "\<forall>x\<in>set rows. length (fst x) = dim" and "distinct (map snd rows)"
    and "t = fold (\<lambda>(v, r) s. snd (ivf_add_vector True junk s v r f)) rows (ivf_trained junk (c # cs) n_probe dim)"
  shows "ivf_inv t \<and> ivf_live t = mset rows
    \<and> (\<exists>l t'. ivf_delete_vector t r = Some (l, t') \<and> ivf_inv t' \<and> ivf_live t' = mset (filter (\<lambda>x. snd x \<noteq> r) rows)
        \<and> (l = -1 \<longleftrightarrow> r \<notin> set (map snd rows)))"
proof -
  have t: "ivf_ok dim t" "ivf_live t = mset rows"
    using ivf_index.load_live [OF assms(1) TrueI, of junk f c cs n_probe]
    by (simp_all add: assms(3) ivf_index.load_def case_prod_unfold)
  have "count (image_mset snd (ivf_live t)) r \<le> 1"
    using t(2) assms(2) by (metis distinct_count_atmost_1 le_numeral_extra(4) mset_map zero_le)
  with t(1) obtain l t' where "ivf_delete_vector t r = Some (l, t')" "ivf_inv t'" "ivf_live t' = drop_row r (ivf_live t)"
    "l = -1 \<longleftrightarrow> r \<notin># image_mset snd (ivf_live t)"
    using ivf_delete_trained [of t r] unfolding ivf_ok_def by metis
  then show ?thesis using t by (auto simp: ivf_ok_def drop_row_def)
qed

theorem ivf_add_then_delete_witness:
  "\<exists>l t'. ivf_delete_vector sample_ivf 2 = Some (l, t') \<and> ivf_live t' = mset [(of_ints [0, 0], 1), (of_ints [6, 8], 3)] \<and> l \<noteq> -1"
  using ivf_add_then_delete [of "[(of_ints [0, 0], 1), (of_ints [3, 4], 2), (of_ints [6, 8], 3)]" 2 sample_ivf "(0, [])"
      distance_l2_sqr_float "of_ints [0, 0]" "[of_ints [6, 8]]" 1 2]
  by (auto simp: sample_ivf_def of_ints_def)

end
