(* ===== verification/IVF_File.thy ===== *)
theory IVF_File
  imports IVF_Correct ByteIO
begin

text \<open>
  The file format of the inverted-file index: the parameters, the centroids, every list with all its
  slots, the training buffer. The tombstones of the training buffer are not part of it.
\<close>

definition fwrite_bool :: "bool \<Rightarrow> bytes" where
  "fwrite_bool b = [if b then 1 else 0]"

definition fread_bool :: "int \<Rightarrow> bytes \<Rightarrow> bool \<times> bytes" where
  "fread_bool junk fs = (case fs of [] \<Rightarrow> (junk \<noteq> 0, []) | b # r \<Rightarrow> (b \<noteq> 0, r))"

definition fwrite_i64s :: "i64 list \<Rightarrow> bytes" where
  "fwrite_i64s xs = concat (map fwrite_i64 xs)"

fun fread_i64s :: "int \<Rightarrow> nat \<Rightarrow> bytes \<Rightarrow> i64 list \<times> bytes" where
  "fread_i64s junk 0 fs = ([], fs)"
| "fread_i64s junk (Suc n) fs = (let (x, r) = fread_i64 junk fs; (xs, r') = fread_i64s junk n r in (x # xs, r'))"

text \<open>A flat float array as the list of its vectors.\<close>

fun vec_chunks :: "nat \<Rightarrow> nat \<Rightarrow> 'a list \<Rightarrow> 'a list list" where
  "vec_chunks 0 dim xs = []"
| "vec_chunks (Suc n) dim xs = take dim xs # vec_chunks n dim (drop dim xs)"

definition fread_vecs :: "int \<Rightarrow> nat \<Rightarrow> nat \<Rightarrow> bytes \<Rightarrow> f32 list list \<times> bytes" where
  "fread_vecs junk n dim fs = (let (xs, r) = fread_floats junk (n * dim) fs in (vec_chunks n dim xs, r))"

definition serialize_invlist :: "inverted_list \<Rightarrow> bytes" where
  "serialize_invlist l = fwrite_int (int (il_count l)) @ fwrite_int (int (il_cap l))
     @ fwrite_i64s (il_rowids l) @ fwrite_floats (concat (il_vecs l))"

definition serialize_ivf :: "bool \<Rightarrow> ivf \<Rightarrow> sqlite_rc \<times> bytes option" where
  "serialize_ivf opens ivf =
     (if \<not> opens then (SQLITE_CANTOPEN, None)
      else (SQLITE_OK, Some (
        fwrite_int (int (nlist ivf)) @ fwrite_int (int (nprobe ivf)) @ fwrite_int (int (iv_dim ivf))
        @ fwrite_bool (trained ivf) @ fwrite_floats (concat (centroids ivf))
        @ concat (map serialize_invlist (lists ivf))
        @ fwrite_int (int (train_size ivf)) @ fwrite_int (int (train_capacity ivf))
        @ (if train_capacity ivf > 0
           then fwrite_floats (concat (train_vecs ivf)) @ fwrite_i64s (train_rowids ivf) else []))))"

definition deserialize_invlist :: "int \<Rightarrow> nat \<Rightarrow> bytes \<Rightarrow> inverted_list \<times> bytes" where
  "deserialize_invlist junk dim fs =
     (let (cnt, f1) = fread_int junk fs; (cap, f2) = fread_int junk f1;
          (rows, f3) = fread_i64s junk (nat cap) f2; (vs, f4) = fread_vecs junk (nat cap) dim f3
      in (\<lparr>il_count = nat cnt, il_cap = nat cap, il_rowids = rows, il_vecs = vs\<rparr>, f4))"

fun deserialize_lists :: "int \<Rightarrow> nat \<Rightarrow> nat \<Rightarrow> bytes \<Rightarrow> inverted_list list \<times> bytes" where
  "deserialize_lists junk 0 dim fs = ([], fs)"
| "deserialize_lists junk (Suc n) dim fs =
     (let (l, f1) = deserialize_invlist junk dim fs; (ls, f2) = deserialize_lists junk n dim f1 in (l # ls, f2))"

text \<open>
  The field \<open>deleted\<close> of the loaded structure is never assigned: \<open>junk_flags\<close> is what its uninitialised
  pointer leads to.
\<close>

definition deserialize_ivf :: "int \<Rightarrow> bool list \<Rightarrow> bytes option \<Rightarrow> ivf option" where
  "deserialize_ivf junk junk_flags file =
     (case file of None \<Rightarrow> None
      | Some fs \<Rightarrow>
          (let (n, f1) = fread_int junk fs; (p, f2) = fread_int junk f1; (dim, f3) = fread_int junk f2;
               (tr, f4) = fread_bool junk f3; (cents, f5) = fread_vecs junk (nat n) (nat dim) f4;
               (ls, f6) = deserialize_lists junk (nat n) (nat dim) f5;
               (tsize, f7) = fread_int junk f6; (tcap, f8) = fread_int junk f7;
               (tvecs, f9) = (if tcap > 0 then fread_vecs junk (nat tcap) (nat dim) f8 else ([], f8));
               (trows, f10) = (if tcap > 0 then fread_i64s junk (nat tcap) f9 else ([], f9))
           in Some \<lparr>nlist = nat n, nprobe = nat p, iv_dim = nat dim, centroids = cents, lists = ls,
                    train_vecs = tvecs, train_rowids = trows, iv_deleted = junk_flags,
                    train_size = nat tsize, train_capacity = nat tcap, trained = tr\<rparr>))"

subsection \<open>Round trip\<close>

lemma fread_fwrite_bool [simp]: "fread_bool junk (fwrite_bool b @ fs) = (b, fs)"
  by (simp add: fread_bool_def fwrite_bool_def)

lemma fread_fwrite_i64s [simp]:
  "n = length xs \<Longrightarrow> \<forall>x\<in>set xs. - (2 ^ 63) \<le> x \<and> x < 2 ^ 63 \<Longrightarrow> fread_i64s junk n (fwrite_i64s xs @ fs) = (xs, fs)"
  by (induction xs arbitrary: n) (auto simp: fwrite_i64s_def c_i64_id)

lemma vec_chunks_concat: "n = length vs \<Longrightarrow> \<forall>v\<in>set vs. length v = dim \<Longrightarrow> vec_chunks n dim (concat vs) = vs"
  by (induction vs arbitrary: n) auto

lemma fread_fwrite_vecs [simp]:
  assumes "n = length vs" and "\<forall>v\<in>set vs. length v = dim"
  shows "fread_vecs junk n dim (fwrite_floats (concat vs) @ fs) = (vs, fs)"
proof -
  have "length (concat vs) = n * dim" using assms by (simp add: length_concat sum_list_triv cong: map_cong)
  then show ?thesis using assms by (simp add: fread_vecs_def vec_chunks_concat)
qed

definition i64_range :: "i64 list \<Rightarrow> bool" where
  "i64_range xs \<longleftrightarrow> (\<forall>x\<in>set xs. - (2 ^ 63) \<le> x \<and> x < 2 ^ 63)"

definition il_fits :: "nat \<Rightarrow> inverted_list \<Rightarrow> bool" where
  "il_fits dim l \<longleftrightarrow> il_inv l \<and> il_cap l < 2 ^ 31 \<and> i64_range (il_rowids l) \<and> (\<forall>v\<in>set (il_vecs l). length v = dim)"

definition ivf_fits :: "ivf \<Rightarrow> bool" where
  "ivf_fits ivf \<longleftrightarrow> ivf_inv ivf \<and> nlist ivf < 2 ^ 31 \<and> nprobe ivf < 2 ^ 31 \<and> iv_dim ivf < 2 ^ 31
     \<and> train_capacity ivf < 2 ^ 31 \<and> i64_range (train_rowids ivf)
     \<and> (\<forall>v\<in>set (centroids ivf) \<union> set (train_vecs ivf). length v = iv_dim ivf)
     \<and> (\<forall>l\<in>set (lists ivf). il_fits (iv_dim ivf) l)"

lemma c_int_small: "n < 2 ^ 31 \<Longrightarrow> c_int (int n) = int n"
  by (rule c_int_id) auto

lemma deserialize_invlist_round:
  "il_fits dim l \<Longrightarrow> deserialize_invlist junk dim (serialize_invlist l @ fs) = (l, fs)"
  by (simp add: deserialize_invlist_def serialize_invlist_def il_fits_def il_inv_def i64_range_def c_int_small)

lemma deserialize_lists_round:
  "n = length ls \<Longrightarrow> \<forall>l\<in>set ls. il_fits dim l \<Longrightarrow>
   deserialize_lists junk n dim (concat (map serialize_invlist ls) @ fs) = (ls, fs)"
  by (induction ls arbitrary: n) (auto simp: deserialize_invlist_round)

text \<open>
  C23. Loading a saved inverted file gives back every field except the tombstones of the training
  buffer, whose pointer the loader leaves uninitialised; a file that cannot be opened is reported.
\<close>

theorem ivf_file_round_trip:
  assumes "ivf_fits ivf"
  shows "fst (serialize_ivf True ivf) = SQLITE_OK
    \<and> deserialize_ivf junk junk_flags (snd (serialize_ivf True ivf)) = Some (ivf\<lparr>iv_deleted := junk_flags\<rparr>)
    \<and> serialize_ivf False ivf = (SQLITE_CANTOPEN, None) \<and> deserialize_ivf junk junk_flags None = None"
proof -
  have w: "c_int (int (nlist ivf)) = int (nlist ivf)" "c_int (int (nprobe ivf)) = int (nprobe ivf)"
    "c_int (int (iv_dim ivf)) = int (iv_dim ivf)" "c_int (int (train_size ivf)) = int (train_size ivf)"
    "c_int (int (train_capacity ivf)) = int (train_capacity ivf)"
    using assms by (auto simp: ivf_fits_def ivf_inv_def intro!: c_int_small)
  have tv: "fread_vecs junk (train_capacity ivf) (iv_dim ivf) (fwrite_floats (concat (train_vecs ivf)) @ fs) = (train_vecs ivf, fs)"
    for fs using assms by (simp add: ivf_fits_def ivf_inv_def)
  have tr: "fread_i64s junk (train_capacity ivf) (fwrite_i64s (train_rowids ivf)) = (train_rowids ivf, [])"
    using assms fread_fwrite_i64s [of "train_capacity ivf" "train_rowids ivf" junk "[]"]
    by (simp add: ivf_fits_def ivf_inv_def i64_range_def)
  have ls: "deserialize_lists junk (nlist ivf) (iv_dim ivf) (concat (map serialize_invlist (lists ivf)) @ fs) = (lists ivf, fs)"
    for fs using assms by (intro deserialize_lists_round) (auto simp: ivf_fits_def ivf_inv_def)
  have ce: "fread_vecs junk (nlist ivf) (iv_dim ivf) (fwrite_floats (concat (centroids ivf)) @ fs) = (centroids ivf, fs)"
    for fs using assms by (simp add: ivf_fits_def ivf_inv_def)
  have e: "train_capacity ivf = 0 \<Longrightarrow> train_vecs ivf = [] \<and> train_rowids ivf = []"
    using assms by (simp add: ivf_fits_def ivf_inv_def)
  have "fread_int junk (fwrite_int (int (train_capacity ivf))) = (int (train_capacity ivf), [])"
    using fread_fwrite_int [of junk "int (train_capacity ivf)" "[]"] w(5) by simp
  then show ?thesis
    using e by (auto simp: serialize_ivf_def deserialize_ivf_def w ls ce tv tr Let_def)
qed

theorem ivf_file_round_trip_witness:
  "deserialize_ivf 7 [] (snd (serialize_ivf True two_rows)) = Some (two_rows\<lparr>iv_deleted := []\<rparr>)"
proof -
  have "ivf_fits two_rows"
    by (simp add: ivf_fits_def ivf_inv_def two_rows_def il_fits_def il_inv_def i64_range_def of_ints_def)
  from ivf_file_round_trip [OF this, of 7 "[]"] show ?thesis by blast
qed

end
