(* ===== verification/ExchangeSort.thy ===== *)
theory ExchangeSort
  imports IEEE_Float
begin

text \<open>
  The exchange sort that \<^verbatim>\<open>sqlite-vec.c\<close> writes out wherever it orders candidates by distance: compare position
  \<open>i\<close> with every later \<open>j\<close> and swap when \<open>j\<close> is nearer. \<open>tmp\<close> is the conversion a swapped-out element
  undergoes on its way through the temporary variable.
\<close>

definition exchange_pass :: "('a \<Rightarrow> f32) \<Rightarrow> ('a \<Rightarrow> 'a) \<Rightarrow> nat \<Rightarrow> 'a list \<Rightarrow> nat \<Rightarrow> 'a list" where
  "exchange_pass dist tmp n xs i =
     foldl (\<lambda>ys j. if flt (dist (ys ! j)) (dist (ys ! i)) then ys[i := ys ! j, j := tmp (ys ! i)] else ys)
       xs [i + 1..<n]"

definition exchange_sort :: "('a \<Rightarrow> f32) \<Rightarrow> ('a \<Rightarrow> 'a) \<Rightarrow> 'a list \<Rightarrow> 'a list" where
  "exchange_sort dist tmp xs = foldl (exchange_pass dist tmp (length xs)) xs [0..<length xs]"

text \<open>The first \<open>i\<close> positions are sorted and no later element is nearer.\<close>

definition prefix_sorted :: "('a \<Rightarrow> f32) \<Rightarrow> 'a list \<Rightarrow> nat \<Rightarrow> bool" where
  "prefix_sorted dist xs i \<longleftrightarrow>
     (\<forall>a b. a < i \<and> a < b \<and> b < length xs \<longrightarrow> fkey (dist (xs ! a)) \<le> fkey (dist (xs ! b)))"

lemma exchange_pass_props:
  assumes "prefix_sorted dist xs i" and "i < length xs" and "\<forall>x\<in>set xs. \<not> fisnan (dist x) \<and> tmp x = x"
  shows "mset (exchange_pass dist tmp (length xs) xs i) = mset xs
    \<and> prefix_sorted dist (exchange_pass dist tmp (length xs) xs i) (Suc i)"
proof -
  let ?f = "\<lambda>ys j. if flt (dist (ys ! j)) (dist (ys ! i)) then ys[i := ys ! j, j := tmp (ys ! i)] else ys"
  define P where "P ys m \<longleftrightarrow> mset ys = mset xs \<and> prefix_sorted dist ys i
      \<and> (\<forall>b. i < b \<and> b < m \<longrightarrow> fkey (dist (ys ! i)) \<le> fkey (dist (ys ! b)))" for ys m
  have step: "P (?f ys m) (Suc m)" if P: "P ys m" and m: "i < m" "m < length xs" for ys m
  proof -
    have ms: "mset ys = mset xs" using P by (simp add: P_def)
    then have len: "length ys = length xs" and st: "set ys = set xs" by (metis size_mset, metis set_mset_mset)
    have ok: "\<not> fisnan (dist (ys ! a)) \<and> tmp (ys ! a) = ys ! a" if "a < length xs" for a
      using assms(3) that len st nth_mem [of a ys] by auto
    have cmp: "flt (dist (ys ! m)) (dist (ys ! i)) \<longleftrightarrow> fkey (dist (ys ! m)) < fkey (dist (ys ! i))"
      using ok m assms(2) by (intro flt_iff_key) auto
    show ?thesis
    proof (cases "flt (dist (ys ! m)) (dist (ys ! i))")
      case False
      then show ?thesis using P cmp by (auto simp: P_def less_Suc_eq)
    next
      case True
      let ?zs = "ys[i := ys ! m, m := ys ! i]"
      have zs: "?f ys m = ?zs" using True ok assms(2) by simp
      have nth: "?zs ! a = (if a = m then ys ! i else if a = i then ys ! m else ys ! a)" if "a < length xs" for a
        using that m len by (simp add: nth_list_update)
      have sorted: "fkey (dist (?zs ! a)) \<le> fkey (dist (?zs ! b))" if "a < i" "a < b" "b < length xs" for a b
        using P that m nth [of a] nth [of b] len assms(2) by (auto simp: P_def prefix_sorted_def)
      have "fkey (dist (?zs ! i)) \<le> fkey (dist (?zs ! b))" if "i < b" "b < Suc m" for b
        using P that m nth [of i] nth [of b] assms(2) True cmp by (force simp: P_def less_Suc_eq)
      moreover have "mset ?zs = mset xs" using ms m len by (simp add: mset_swap)
      ultimately show ?thesis
        unfolding zs P_def prefix_sorted_def using sorted len by auto
    qed
  qed
  have "P (foldl ?f xs [i + 1..<m]) m" if "i < m" "m \<le> length xs" for m
    using that
  proof (induction m)
    case (Suc m)
    show ?case
    proof (cases "i = m")
      case True
      then show ?thesis using assms(1) by (auto simp: P_def)
    next
      case False
      then have im: "i < m" "m < length xs" using Suc.prems by auto
      then have "[i + 1..<Suc m] = [i + 1..<m] @ [m]" by simp
      then have e: "foldl ?f xs [i + 1..<Suc m] = ?f (foldl ?f xs [i + 1..<m]) m" by (simp only: foldl_append foldl.simps)
      show ?thesis unfolding e using im Suc.IH by (intro step) auto
    qed
  qed simp
  from this [OF assms(2) order_refl]
  have r: "P (exchange_pass dist tmp (length xs) xs i) (length xs)" by (simp add: exchange_pass_def)
  then have "length (exchange_pass dist tmp (length xs) xs i) = length xs" by (auto simp: P_def dest: mset_eq_length)
  with r show ?thesis unfolding P_def prefix_sorted_def by (auto simp: less_Suc_eq)
qed

lemma exchange_sort_props:
  assumes "\<forall>x\<in>set xs. \<not> fisnan (dist x) \<and> tmp x = x"
  shows "mset (exchange_sort dist tmp xs) = mset xs \<and> sorted (map (\<lambda>x. fkey (dist x)) (exchange_sort dist tmp xs))"
proof -
  have "mset (foldl (exchange_pass dist tmp (length xs)) xs [0..<m]) = mset xs
      \<and> prefix_sorted dist (foldl (exchange_pass dist tmp (length xs)) xs [0..<m]) m" if "m \<le> length xs" for m
    using that
  proof (induction m)
    case 0
    then show ?case by (simp add: prefix_sorted_def)
  next
    case (Suc m)
    define ys where "ys = foldl (exchange_pass dist tmp (length xs)) xs [0..<m]"
    have ys: "mset ys = mset xs" "prefix_sorted dist ys m" using Suc by (auto simp: ys_def)
    then have "length ys = length xs" "set ys = set xs" by (metis size_mset, metis set_mset_mset)
    then show ?case
      using exchange_pass_props [of dist ys m tmp] ys assms Suc.prems by (simp add: ys_def)
  qed
  from this [OF order_refl] show ?thesis
    by (auto simp: exchange_sort_def prefix_sorted_def sorted_iff_nth_mono_less dest: mset_eq_length)
qed

end
