(* ===== verification/HNSW.thy ===== *)
theory HNSW
  imports Hits VecIndex ExchangeSort
begin

text \<open>
  The layered graph index of \<^verbatim>\<open>sqlite-vec.c\<close> (\<open>HNSWNode\<close>, \<open>HNSW\<close>). The node array is the list of its first
  \<open>num_nodes\<close> entries; \<open>nbors[l]\<close> with \<open>nbor_count[l]\<close> is the list of the level's neighbours. The row id
  of a node is an \<open>int\<close>. Reads outside the node array, which the C code does not guard against, make an
  operation's result \<open>None\<close>. \<open>raw_level\<close> is the value \<open>(int)(-log(r) * prob)\<close> of the random draw.
\<close>

definition MAX_NEIGHBORS :: nat where "MAX_NEIGHBORS = 16"
definition MAX_LEVELS :: nat where "MAX_LEVELS = 8"

record hnsw_node =
  hn_id :: nat
  hn_rowid :: int
  hn_level :: nat
  hn_vec :: "f32 list"
  hn_nbors :: "nat list list"
  hn_deleted :: bool

record hnsw =
  hn_dim :: nat
  max_nodes :: nat
  hn_nodes :: "hnsw_node list"
  entry_id :: int
  max_level :: nat

abbreviation num_nodes :: "hnsw \<Rightarrow> nat" where
  "num_nodes h \<equiv> length (hn_nodes h)"

definition hnsw_create :: "nat \<Rightarrow> nat \<Rightarrow> hnsw" where
  "hnsw_create max_n dim = \<lparr>hn_dim = dim, max_nodes = max_n, hn_nodes = [], entry_id = -1, max_level = 0\<rparr>"

definition random_level :: "nat \<Rightarrow> nat" where
  "random_level raw_level = (if raw_level \<ge> MAX_LEVELS then MAX_LEVELS - 1 else raw_level)"

definition node_create :: "nat \<Rightarrow> nat \<Rightarrow> i64 \<Rightarrow> f32 list \<Rightarrow> nat \<Rightarrow> hnsw_node" where
  "node_create raw_level nid rowid vec dim =
     \<lparr>hn_id = nid, hn_rowid = c_int rowid, hn_level = random_level raw_level, hn_vec = take dim vec,
      hn_nbors = replicate MAX_LEVELS [], hn_deleted = False\<rparr>"

definition connect_nodes :: "hnsw_node \<Rightarrow> nat \<Rightarrow> nat \<Rightarrow> hnsw_node" where
  "connect_nodes a b_id level =
     (if length (hn_nbors a ! level) < MAX_NEIGHBORS
      then a\<lparr>hn_nbors := (hn_nbors a)[level := hn_nbors a ! level @ [b_id]]\<rparr> else a)"

subsection \<open>Greedy descent\<close>

text \<open>
  One run of the loop over the neighbours of the current node. The current node changes inside the
  loop, and the loop then goes on with the new node's neighbours at the same index. No node has more
  than \<open>MAX_NEIGHBORS\<close> neighbours, so the index ranges over that bound.
\<close>

definition greedy_pass ::
  "hnsw \<Rightarrow> distance_func \<Rightarrow> f32 list \<Rightarrow> nat \<Rightarrow> nat \<times> f32 \<times> bool \<Rightarrow> nat \<times> f32 \<times> bool" where
  "greedy_pass h distfunc target l st =
     foldl (\<lambda>(cur, cur_dist, changed) i.
         let ns = hn_nbors (hn_nodes h ! cur) ! l in
         if i < length ns
         then (let n2 = hn_nodes h ! (ns ! i) in
               if hn_deleted n2 then (cur, cur_dist, changed)
               else (let d = distfunc (hn_vec n2) target (hn_dim h) in
                     if flt d cur_dist then (ns ! i, d, True) else (cur, cur_dist, changed)))
         else (cur, cur_dist, changed))
       st [0..<MAX_NEIGHBORS]"

text \<open>
  The loop repeats while a run changed the node. Every repetition is strictly nearer, so as many
  repetitions as there are nodes are enough (\<open>greedy_level_stable\<close>).
\<close>

fun greedy_loop :: "nat \<Rightarrow> hnsw \<Rightarrow> distance_func \<Rightarrow> f32 list \<Rightarrow> nat \<Rightarrow> nat \<times> f32 \<Rightarrow> nat \<times> f32" where
  "greedy_loop 0 h distfunc target l st = st"
| "greedy_loop (Suc fuel) h distfunc target l (cur, cur_dist) =
     (case greedy_pass h distfunc target l (cur, cur_dist, False) of
        (cur', d', changed) \<Rightarrow> if changed then greedy_loop fuel h distfunc target l (cur', d') else (cur', d'))"

definition greedy_level :: "hnsw \<Rightarrow> distance_func \<Rightarrow> f32 list \<Rightarrow> nat \<times> f32 \<Rightarrow> nat \<Rightarrow> nat \<times> f32" where
  "greedy_level h distfunc target st l = greedy_loop (Suc (num_nodes h)) h distfunc target l st"

text \<open>Levels \<open>hi\<close> down to \<open>lo + 1\<close>.\<close>

definition levels_down :: "nat \<Rightarrow> nat \<Rightarrow> nat list" where
  "levels_down hi lo = rev [lo + 1..<hi + 1]"

subsection \<open>Insertion\<close>

text \<open>The descent of \<open>hnsw_add\<close>: a deleted entry point skips the level.\<close>

definition add_descend :: "hnsw \<Rightarrow> distance_func \<Rightarrow> f32 list \<Rightarrow> nat \<Rightarrow> nat \<Rightarrow> nat" where
  "add_descend h distfunc vec level cur_entry =
     foldl (\<lambda>ep l. if hn_deleted (hn_nodes h ! ep) then ep
                   else fst (greedy_level h distfunc vec (ep, distfunc (hn_vec (hn_nodes h ! ep)) vec (hn_dim h)) l))
       cur_entry (levels_down (max_level h) level)"

definition level_candidates :: "hnsw \<Rightarrow> distance_func \<Rightarrow> hnsw_node \<Rightarrow> nat \<Rightarrow> (nat \<times> f32) list" where
  "level_candidates h distfunc n l =
     map (\<lambda>cand. (hn_id cand, distfunc (hn_vec n) (hn_vec cand) (hn_dim h)))
       (filter (\<lambda>cand. \<not> (hn_deleted cand \<or> hn_level cand < l \<or> hn_id cand = hn_id n)) (hn_nodes h))"

definition connect_both :: "nat \<Rightarrow> nat \<Rightarrow> hnsw_node list \<Rightarrow> nat \<Rightarrow> hnsw_node list" where
  "connect_both nid l ns c =
     (let ns1 = ns[nid := connect_nodes (ns ! nid) c l] in ns1[c := connect_nodes (ns1 ! c) nid l])"

definition connect_level :: "distance_func \<Rightarrow> nat \<Rightarrow> hnsw \<Rightarrow> nat \<Rightarrow> hnsw" where
  "connect_level distfunc nid h l =
     (let cands = exchange_sort snd id (level_candidates h distfunc (hn_nodes h ! nid) l)
      in h\<lparr>hn_nodes := foldl (connect_both nid l) (hn_nodes h) (map fst (take MAX_NEIGHBORS cands))\<rparr>)"

text \<open>
  The result of the descent is not used by the rest of the function: the candidates of every level are
  all the nodes.
\<close>

definition hnsw_add :: "nat \<Rightarrow> hnsw \<Rightarrow> f32 list \<Rightarrow> i64 \<Rightarrow> distance_func \<Rightarrow> sqlite_rc \<times> hnsw" where
  "hnsw_add raw_level h vec rowid distfunc =
     (if num_nodes h \<ge> max_nodes h then (SQLITE_NOMEM, h)
      else (let nid = num_nodes h;
                n = node_create raw_level nid rowid vec (hn_dim h);
                h1 = h\<lparr>hn_nodes := hn_nodes h @ [n]\<rparr>
            in if entry_id h = -1 then (SQLITE_OK, h1\<lparr>entry_id := 0, max_level := hn_level n\<rparr>)
               else (let cur_entry = add_descend h1 distfunc (hn_vec n) (hn_level n) (nat (entry_id h));
                         h2 = foldl (connect_level distfunc nid) h1 (rev [0..<hn_level n + 1])
                     in (SQLITE_OK, if hn_level n > max_level h
                                    then h2\<lparr>max_level := hn_level n, entry_id := int nid\<rparr> else h2))))"

subsection \<open>Deletion and update\<close>

definition find_row :: "hnsw \<Rightarrow> int \<Rightarrow> nat option" where
  "find_row h rowid =
     List.find (\<lambda>i. hn_rowid (hn_nodes h ! i) = rowid \<and> \<not> hn_deleted (hn_nodes h ! i)) [0..<num_nodes h]"

definition mark_deleted :: "hnsw \<Rightarrow> nat \<Rightarrow> hnsw" where
  "mark_deleted h i = h\<lparr>hn_nodes := (hn_nodes h)[i := (hn_nodes h ! i)\<lparr>hn_deleted := True\<rparr>]\<rparr>"

definition hnsw_delete :: "hnsw \<Rightarrow> i64 \<Rightarrow> sqlite_rc \<times> hnsw" where
  "hnsw_delete h rowid =
     (case find_row h (c_int rowid) of None \<Rightarrow> (SQLITE_OK, h) | Some i \<Rightarrow> (SQLITE_OK, mark_deleted h i))"

definition hnsw_update ::
  "nat \<Rightarrow> hnsw \<Rightarrow> i64 \<Rightarrow> f32 list \<Rightarrow> bool \<Rightarrow> distance_func \<Rightarrow> sqlite_rc \<times> hnsw" where
  "hnsw_update raw_level h rowid vec reinsert distfunc =
     (case find_row h (c_int rowid) of
        None \<Rightarrow> (SQLITE_OK, h)
      | Some i \<Rightarrow>
          if \<not> reinsert
          then (SQLITE_OK, h\<lparr>hn_nodes := (hn_nodes h)[i := (hn_nodes h ! i)\<lparr>hn_vec := take (hn_dim h) vec\<rparr>]\<rparr>)
          else hnsw_add raw_level (mark_deleted h i) vec (c_int rowid) distfunc)"

subsection \<open>Search\<close>

text \<open>The entry point, and from a deleted entry point the next nodes by id.\<close>

function skip_deleted :: "hnsw_node list \<Rightarrow> nat \<Rightarrow> nat option" where
  "skip_deleted ns ep =
     (if ep < length ns then (if hn_deleted (ns ! ep) then skip_deleted ns (ep + 1) else Some ep) else None)"
  by pat_completeness auto
termination
  by (relation "measure (\<lambda>(ns, ep). length ns - ep)") auto

declare skip_deleted.simps [simp del]

text \<open>
  The filter probes the sorted row ids with \<open>bsearch(&n->rowid, ..., sizeof(i64), cmp_i64)\<close>: the eight
  bytes at the \<open>int\<close> row id hold the row id and the \<open>int level\<close> that follows it in the structure.
\<close>

definition rowid_key :: "hnsw_node \<Rightarrow> i64" where
  "rowid_key n = hn_rowid n mod 2 ^ 32 + int (hn_level n) * 2 ^ 32"

definition bfs_push :: "hnsw \<Rightarrow> nat list \<times> bool list \<Rightarrow> nat \<Rightarrow> nat list \<times> bool list" where
  "bfs_push h st nid =
     (if nid < length (snd st) \<and> \<not> snd st ! nid \<and> \<not> hn_deleted (hn_nodes h ! nid)
      then (fst st @ [nid], (snd st)[nid := True]) else st)"

text \<open>The queue starts at the read position \<open>qh\<close>; the results are collected in order.\<close>

lemma bfs_push_measure:
  "length (fst (foldl (bfs_push h) st ns)) + length (filter Not (snd (foldl (bfs_push h) st ns)))
   = length (fst st) + length (filter Not (snd st))"
proof (induction ns arbitrary: st)
  case (Cons nid ns)
  have "length (fst (bfs_push h st nid)) + length (filter Not (snd (bfs_push h st nid)))
      = length (fst st) + length (filter Not (snd st))"
  proof (cases "nid < length (snd st) \<and> \<not> snd st ! nid \<and> \<not> hn_deleted (hn_nodes h ! nid)")
    case True
    have "snd st = take nid (snd st) @ False # drop (Suc nid) (snd st)"
      using True id_take_nth_drop [of nid "snd st"] by simp
    moreover have "(snd st)[nid := True] = take nid (snd st) @ True # drop (Suc nid) (snd st)"
      using True by (simp add: upd_conv_take_nth_drop)
    ultimately have "length (filter Not (snd st)) = Suc (length (filter Not ((snd st)[nid := True])))"
      by (metis (no_types, lifting) append_Cons filter.simps(2) filter_append length_Cons length_append
          add_Suc_right)
    then show ?thesis using True by (simp add: bfs_push_def)
  qed (auto simp: bfs_push_def)
  then show ?case using Cons by simp
qed simp

function hnsw_bfs ::
  "hnsw \<Rightarrow> distance_func \<Rightarrow> f32 list \<Rightarrow> rowid_map \<Rightarrow> nat \<Rightarrow> nat list \<Rightarrow> bool list \<Rightarrow> hits \<Rightarrow> hits" where
  "hnsw_bfs h distfunc query m ef [] visited res = res"
| "hnsw_bfs h distfunc query m ef (c # q) visited res =
     (if length res < ef
      then (let n = hn_nodes h ! c;
                valid = map_has m (rowid_key n);
                res' = (if \<not> hn_deleted n \<and> (valid \<or> \<not> pre_filter m)
                        then res @ [(hn_rowid n, distfunc (hn_vec n) query (hn_dim h))] else res);
                st = foldl (bfs_push h) (q, visited) (hn_nbors n ! 0)
            in hnsw_bfs h distfunc query m ef (fst st) (snd st) res')
      else res)"
  by pat_completeness auto
termination
proof (relation "measure (\<lambda>(h, f, q, m, ef, queue, visited, res). length queue + length (filter Not visited))")
  show "wf (measure (\<lambda>(h, f, q, m, ef, queue, visited, res). length queue + length (filter Not visited)))" by simp
qed (simp add: bfs_push_measure)

definition hnsw_search ::
  "hnsw \<Rightarrow> f32 list \<Rightarrow> nat \<Rightarrow> nat \<Rightarrow> rowid_map \<Rightarrow> distance_func \<Rightarrow> hits option" where
  "hnsw_search h query ef topk m distfunc =
     (if entry_id h < 0 then None
      else (case skip_deleted (hn_nodes h) (nat (entry_id h)) of
              None \<Rightarrow> None
            | Some ep \<Rightarrow>
                (let cur = fst (foldl (greedy_level h distfunc query)
                              (ep, distfunc (hn_vec (hn_nodes h ! ep)) query (hn_dim h)) (levels_down (max_level h) 0));
                     res = hnsw_bfs h distfunc query m ef [cur] ((replicate (num_nodes h) False)[cur := True]) []
                 in Some (take topk (exchange_sort snd (\<lambda>(r, d). (c_int r, d)) res)))))"

end
