(* ===== verification/HNSW_Correct.thy ===== *)
theory HNSW_Correct
  imports HNSW Distance_Exact
begin

text \<open>
  The layered graph against its contracts: every operation keeps the graph well formed, the live rows are
  the added ones less the deleted ones, the greedy descent ends in a local minimum, and a search returns
  distinct live rows with their distances in order.
\<close>

subsection \<open>Well-formed graphs\<close>

definition node_wf :: "hnsw \<Rightarrow> nat \<Rightarrow> hnsw_node \<Rightarrow> bool" where
  "node_wf h i n \<longleftrightarrow> hn_id n = i \<and> hn_level n < MAX_LEVELS \<and> length (hn_nbors n) = MAX_LEVELS
     \<and> length (hn_vec n) = hn_dim h \<and> c_int (hn_rowid n) = hn_rowid n
     \<and> (\<forall>l<MAX_LEVELS. length (hn_nbors n ! l) \<le> MAX_NEIGHBORS
          \<and> (\<forall>x\<in>set (hn_nbors n ! l). x < num_nodes h))"

definition hnsw_inv :: "hnsw \<Rightarrow> bool" where
  "hnsw_inv h \<longleftrightarrow> num_nodes h \<le> max_nodes h \<and> (\<forall>i<num_nodes h. node_wf h i (hn_nodes h ! i))
     \<and> max_level h < MAX_LEVELS \<and> (\<forall>n\<in>set (hn_nodes h). hn_level n \<le> max_level h)
     \<and> (if hn_nodes h = [] then entry_id h = -1
        else 0 \<le> entry_id h \<and> entry_id h < int (num_nodes h) \<and> hn_level (hn_nodes h ! nat (entry_id h)) = max_level h)"

definition hnsw_live :: "hnsw \<Rightarrow> (f32 list \<times> i64) multiset" where
  "hnsw_live h = mset (map (\<lambda>n. (hn_vec n, hn_rowid n)) (filter (\<lambda>n. \<not> hn_deleted n) (hn_nodes h)))"

text \<open>What connecting nodes leaves alone: everything but the neighbour lists.\<close>

definition core :: "hnsw_node \<Rightarrow> nat \<times> int \<times> nat \<times> f32 list \<times> bool" where
  "core n = (hn_id n, hn_rowid n, hn_level n, hn_vec n, hn_deleted n)"

lemma core_connect_nodes [simp]: "core (connect_nodes a b l) = core a"
  by (simp add: connect_nodes_def core_def)

lemma core_connect_both: "nid < length ns \<Longrightarrow> c < length ns \<Longrightarrow> map core (connect_both nid l ns c) = map core ns"
  by (rule nth_equalityI) (auto simp: connect_both_def Let_def nth_list_update)

lemma live_core:
  assumes "map core ns = map core ns'"
  shows "map (\<lambda>n. (hn_vec n, hn_rowid n)) (filter (\<lambda>n. \<not> hn_deleted n) ns)
    = map (\<lambda>n. (hn_vec n, hn_rowid n)) (filter (\<lambda>n. \<not> hn_deleted n) ns')"
proof -
  have e: "map (\<lambda>n. (hn_vec n, hn_rowid n)) (filter (\<lambda>n. \<not> hn_deleted n) xs)
      = map (\<lambda>(i, r, l, v, d). (v, r)) (filter (\<lambda>(i, r, l, v, d). \<not> d) (map core xs))" for xs
    by (induction xs) (auto simp: core_def)
  show ?thesis unfolding e assms by (rule refl)
qed

lemma level_core: "map core ns = map core ns' \<Longrightarrow> map hn_level ns = map hn_level ns'"
proof -
  assume a: "map core ns = map core ns'"
  have "map hn_level xs = map (\<lambda>(i, r, l, v, d). l) (map core xs)" for xs
    by (induction xs) (auto simp: core_def)
  with a show ?thesis by metis
qed

subsection \<open>Connecting\<close>

definition nodes_wf :: "hnsw \<Rightarrow> hnsw_node list \<Rightarrow> bool" where
  "nodes_wf h ns \<longleftrightarrow> length ns = num_nodes h \<and> (\<forall>i<length ns. node_wf h i (ns ! i))"

lemma node_wf_connect:
  "node_wf h i n \<Longrightarrow> b < num_nodes h \<Longrightarrow> l < MAX_LEVELS \<Longrightarrow> node_wf h i (connect_nodes n b l)"
  by (auto simp: node_wf_def connect_nodes_def nth_list_update)

lemma nodes_wf_update:
  assumes "nodes_wf h ns" and "node_wf h i n"
  shows "nodes_wf h (ns[i := n])"
  unfolding nodes_wf_def
proof (intro conjI allI impI)
  show "length (ns[i := n]) = num_nodes h" using assms(1) by (simp add: nodes_wf_def)
  fix j assume "j < length (ns[i := n])"
  then show "node_wf h j (ns[i := n] ! j)" using assms by (cases "j = i") (auto simp: nodes_wf_def)
qed

lemma connect_both_wf:
  assumes "nodes_wf h ns" and "nid < num_nodes h" and "c < num_nodes h" and "l < MAX_LEVELS"
  shows "nodes_wf h (connect_both nid l ns c)"
proof -
  have len: "length ns = num_nodes h" using assms(1) by (simp add: nodes_wf_def)
  have 0: "node_wf h nid (ns ! nid)" using assms(1,2) by (simp add: nodes_wf_def)
  have 1: "nodes_wf h (ns[nid := connect_nodes (ns ! nid) c l])"
    using assms 0 by (intro nodes_wf_update node_wf_connect)
  then have "node_wf h c (ns[nid := connect_nodes (ns ! nid) c l] ! c)" using assms(3) len by (simp add: nodes_wf_def)
  then show ?thesis unfolding connect_both_def Let_def
    using assms by (intro nodes_wf_update [OF 1] node_wf_connect)
qed

lemma fold_connect_both:
  assumes "nodes_wf h ns" and "nid < num_nodes h" and "\<forall>c\<in>set cs. c < num_nodes h" and "l < MAX_LEVELS"
  shows "nodes_wf h (foldl (connect_both nid l) ns cs) \<and> map core (foldl (connect_both nid l) ns cs) = map core ns"
  using assms(1,3)
proof (induction cs arbitrary: ns)
  case (Cons c cs)
  then have "nodes_wf h (connect_both nid l ns c)" using assms connect_both_wf by simp
  with Cons show ?case using core_connect_both [of nid ns c l] assms(2) by (simp add: nodes_wf_def)
qed simp

lemma exchange_sort_set: "set (exchange_sort dist id xs) \<subseteq> set xs"
proof -
  have pass: "set (exchange_pass dist id (length xs) ys i) \<subseteq> set xs \<and> length (exchange_pass dist id (length xs) ys i) = length xs"
    if ys: "set ys \<subseteq> set xs" "length ys = length xs" and i: "i < length xs" for ys i
  proof -
    have "set (foldl (\<lambda>ys j. if flt (dist (ys ! j)) (dist (ys ! i)) then ys[i := ys ! j, j := id (ys ! i)] else ys) ys js) \<subseteq> set xs
      \<and> length (foldl (\<lambda>ys j. if flt (dist (ys ! j)) (dist (ys ! i)) then ys[i := ys ! j, j := id (ys ! i)] else ys) ys js) = length xs"
      if "\<forall>j\<in>set js. j < length xs" for js
      using that ys
    proof (induction js arbitrary: ys)
      case (Cons j js)
      let ?z = "ys[i := ys ! j, j := ys ! i]"
      have "set ?z \<subseteq> set ys" using Cons.prems i
        by (intro order_trans [OF set_update_subset_insert] insert_subsetI order_trans [OF set_update_subset_insert]) auto
      then show ?case using Cons by auto
    qed simp
    then show ?thesis unfolding exchange_pass_def by simp
  qed
  have "set (foldl (exchange_pass dist id (length xs)) ys ks) \<subseteq> set xs"
    if "\<forall>i\<in>set ks. i < length xs" "set ys \<subseteq> set xs" "length ys = length xs" for ks ys
    using that pass by (induction ks arbitrary: ys) auto
  then show ?thesis unfolding exchange_sort_def by simp
qed

lemma connect_level_props:
  assumes "nodes_wf h (hn_nodes h)" and "nid < num_nodes h" and "l < MAX_LEVELS"
  shows "nodes_wf h (hn_nodes (connect_level f nid h l)) \<and> map core (hn_nodes (connect_level f nid h l)) = map core (hn_nodes h)
    \<and> hn_dim (connect_level f nid h l) = hn_dim h \<and> max_nodes (connect_level f nid h l) = max_nodes h
    \<and> entry_id (connect_level f nid h l) = entry_id h \<and> max_level (connect_level f nid h l) = max_level h"
proof -
  let ?cs = "map fst (take MAX_NEIGHBORS (exchange_sort snd id (level_candidates h f (hn_nodes h ! nid) l)))"
  have "hn_id n < num_nodes h" if "n \<in> set (hn_nodes h)" for n
    using that assms(1) by (auto simp: in_set_conv_nth nodes_wf_def node_wf_def)
  then have "\<forall>c\<in>set ?cs. c < num_nodes h"
    using exchange_sort_set [of snd "level_candidates h f (hn_nodes h ! nid) l"]
    by (auto simp: level_candidates_def dest!: in_set_takeD)
  then show ?thesis using fold_connect_both [OF assms(1,2) _ assms(3)] by (simp add: connect_level_def Let_def)
qed


lemma node_wf_mono: "node_wf h i n \<Longrightarrow> hn_dim h' = hn_dim h \<Longrightarrow> num_nodes h \<le> num_nodes h' \<Longrightarrow> node_wf h' i n"
  by (fastforce simp: node_wf_def)

lemma nodes_wf_cong:
  "nodes_wf h ns \<Longrightarrow> hn_dim h' = hn_dim h \<Longrightarrow> num_nodes h' = num_nodes h \<Longrightarrow> nodes_wf h' ns"
  unfolding nodes_wf_def by (auto intro: node_wf_mono [of h])

lemma fold_connect_level:
  assumes "nodes_wf h (hn_nodes h)" and "nid < num_nodes h" and "\<forall>l\<in>set ls. l < MAX_LEVELS"
    and "h' = foldl (connect_level f nid) h ls"
  shows "nodes_wf h' (hn_nodes h') \<and> map core (hn_nodes h') = map core (hn_nodes h) \<and> hn_dim h' = hn_dim h
    \<and> max_nodes h' = max_nodes h \<and> entry_id h' = entry_id h \<and> max_level h' = max_level h"
  using assms(1-3) unfolding assms(4)
proof (induction ls arbitrary: h)
  case (Cons l ls)
  let ?h = "connect_level f nid h l"
  have l: "l < MAX_LEVELS" using Cons.prems by simp
  note c = connect_level_props [OF Cons.prems(1,2) l, of f]
  then have num: "num_nodes ?h = num_nodes h" by (metis length_map)
  then have "nodes_wf ?h (hn_nodes ?h)" using c nodes_wf_cong by blast
  with Cons.IH [of ?h] Cons.prems c num show ?case by simp
qed simp

lemma nodes_wf_inv: "hnsw_inv h \<Longrightarrow> nodes_wf h (hn_nodes h)"
  by (simp add: hnsw_inv_def nodes_wf_def)

lemma random_level_less: "random_level raw < MAX_LEVELS"
  by (simp add: random_level_def MAX_LEVELS_def)

lemma nodes_wf_append:
  assumes "hnsw_inv h" and "length v = hn_dim h" and "h' = h\<lparr>hn_nodes := hn_nodes h @ [node_create raw (num_nodes h) r v (hn_dim h)]\<rparr>"
  shows "nodes_wf h' (hn_nodes h')"
  unfolding nodes_wf_def
proof (intro conjI allI impI)
  fix i assume i: "i < length (hn_nodes h')"
  show "node_wf h' i (hn_nodes h' ! i)"
  proof (cases "i < num_nodes h")
    case True
    then have "node_wf h i (hn_nodes h ! i)" using assms(1) by (simp add: hnsw_inv_def)
    then show ?thesis using True assms(3) node_wf_mono [of h i _ h'] by (simp add: nth_append)
  next
    case False
    then have "i = num_nodes h" using i assms(3) by simp
    then show ?thesis using assms(2,3) random_level_less [of raw] by (simp add: node_wf_def node_create_def)
  qed
qed simp

lemma hnsw_inv_core:
  assumes "nodes_wf h (hn_nodes h)" and "map core (hn_nodes h) = map core ns"
    and "num_nodes h \<le> max_nodes h" and "max_level h < MAX_LEVELS" and "\<forall>n\<in>set ns. hn_level n \<le> max_level h"
    and "ns \<noteq> []" and "0 \<le> entry_id h" and "entry_id h < int (length ns)" and "hn_level (ns ! nat (entry_id h)) = max_level h"
  shows "hnsw_inv h"
proof -
  have lv: "map hn_level (hn_nodes h) = map hn_level ns" using assms(2) by (rule level_core)
  have len: "length (hn_nodes h) = length ns" using assms(2) by (metis length_map)
  have "hn_level n \<le> max_level h" if "n \<in> set (hn_nodes h)" for n
  proof -
    have "hn_level n \<in> set (map hn_level (hn_nodes h))" using that by simp
    then show ?thesis unfolding lv using assms(5) by auto
  qed
  moreover have "hn_level (hn_nodes h ! nat (entry_id h)) = max_level h"
    using lv assms(7-9) len by (metis nat_less_iff nth_map)
  ultimately show ?thesis using assms len by (auto simp: hnsw_inv_def nodes_wf_def)
qed

lemma hnsw_add_ok:
  assumes "hnsw_inv h" and "num_nodes h < max_nodes h" and "length v = hn_dim h"
    and "h' = snd (hnsw_add raw h v r f)"
  shows "fst (hnsw_add raw h v r f) = SQLITE_OK \<and> hnsw_inv h' \<and> hnsw_live h' = add_mset (v, c_int r) (hnsw_live h)
    \<and> num_nodes h' = Suc (num_nodes h) \<and> max_nodes h' = max_nodes h \<and> hn_dim h' = hn_dim h"
proof -
  define n where "n = node_create raw (num_nodes h) r v (hn_dim h)"
  define h1 where "h1 = h\<lparr>hn_nodes := hn_nodes h @ [n]\<rparr>"
  have n: "hn_level n < MAX_LEVELS" "\<not> hn_deleted n" "hn_vec n = v" "hn_rowid n = c_int r"
    using random_level_less assms(3) by (simp_all add: n_def node_create_def)
  have wf1: "nodes_wf h1 (hn_nodes h1)" using nodes_wf_append [OF assms(1,3)] by (simp add: h1_def n_def)
  have live1: "mset (map (\<lambda>n. (hn_vec n, hn_rowid n)) (filter (\<lambda>n. \<not> hn_deleted n) (hn_nodes h1)))
      = add_mset (v, c_int r) (hnsw_live h)"
    using n by (simp add: h1_def hnsw_live_def)
  show ?thesis
  proof (cases "entry_id h = -1")
    case True
    then have "hn_nodes h = []" using assms(1) by (auto simp: hnsw_inv_def split: if_splits)
    moreover have "hnsw_add raw h v r f = (SQLITE_OK, h1\<lparr>entry_id := 0, max_level := hn_level n\<rparr>)"
      using True assms(2) by (simp add: hnsw_add_def Let_def h1_def n_def)
    moreover have "node_wf (h1\<lparr>entry_id := 0, max_level := hn_level n\<rparr>) 0 n"
      using wf1 \<open>hn_nodes h = []\<close> by (auto simp: nodes_wf_def h1_def intro: node_wf_mono)
    ultimately show ?thesis using assms(2) live1 n
      by (simp add: assms(4) hnsw_inv_def h1_def hnsw_live_def)
  next
    case False
    then have ne: "hn_nodes h \<noteq> []" using assms(1) by (auto simp: hnsw_inv_def)
    define h2 where "h2 = foldl (connect_level f (num_nodes h)) h1 (rev [0..<hn_level n + 1])"
    have "\<forall>l\<in>set (rev [0..<hn_level n + 1]). l < MAX_LEVELS" using n(1) by auto
    from fold_connect_level [OF wf1 _ this refl, of "num_nodes h" f]
    have h2: "nodes_wf h2 (hn_nodes h2)" "map core (hn_nodes h2) = map core (hn_nodes h1)" "hn_dim h2 = hn_dim h1"
      "max_nodes h2 = max_nodes h1" "entry_id h2 = entry_id h1" "max_level h2 = max_level h1"
      by (simp_all add: h2_def h1_def)
    have num: "num_nodes h2 = Suc (num_nodes h)" using h2(2) by (metis h1_def length_append_singleton length_map hnsw.select_convs(3) hnsw.update_convs(3) hnsw.surjective)
    define h3 where "h3 = (if hn_level n > max_level h then h2\<lparr>max_level := hn_level n, entry_id := int (num_nodes h)\<rparr> else h2)"
    have add: "hnsw_add raw h v r f = (SQLITE_OK, h3)"
      using False assms(2) by (simp add: hnsw_add_def Let_def h3_def h2_def h1_def n_def)
    have h3: "hn_nodes h3 = hn_nodes h2" "hn_dim h3 = hn_dim h2" "max_nodes h3 = max_nodes h2" by (simp_all add: h3_def)
    have old: "\<forall>m\<in>set (hn_nodes h). hn_level m \<le> max_level h" "max_level h < MAX_LEVELS"
      "0 \<le> entry_id h" "entry_id h < int (num_nodes h)" "hn_level (hn_nodes h ! nat (entry_id h)) = max_level h"
      using assms(1) ne by (auto simp: hnsw_inv_def)
    have "hnsw_inv h3"
    proof (rule hnsw_inv_core [where ns = "hn_nodes h1"])
      show "nodes_wf h3 (hn_nodes h3)" using h2(1) h3 nodes_wf_cong [of h2 "hn_nodes h2" h3] by simp
      show "map core (hn_nodes h3) = map core (hn_nodes h1)" using h2(2) h3 by simp
      show "num_nodes h3 \<le> max_nodes h3" using h3 h2(4) num assms(2) by (simp add: h1_def)
      show "max_level h3 < MAX_LEVELS" using old n(1) h2(6) by (simp add: h3_def h1_def)
      show "\<forall>m\<in>set (hn_nodes h1). hn_level m \<le> max_level h3" using old h2(6) by (auto simp: h3_def h1_def)
      show "hn_nodes h1 \<noteq> []" by (simp add: h1_def)
      show "0 \<le> entry_id h3" using old h2(5) by (simp add: h3_def h1_def)
      show "entry_id h3 < int (length (hn_nodes h1))" using old h2(5) by (simp add: h3_def h1_def)
      show "hn_level (hn_nodes h1 ! nat (entry_id h3)) = max_level h3"
        using old h2(5,6) by (auto simp: h3_def h1_def nth_append nat_less_iff)
    qed
    moreover have "hnsw_live h3 = add_mset (v, c_int r) (hnsw_live h)"
      using live_core [OF h2(2)] live1 h3 by (simp add: hnsw_live_def)
    ultimately show ?thesis using add h3 h2 num by (simp add: assms(4) h1_def)
  qed
qed


subsection \<open>Deletion and the index contract\<close>

lemma find_row_Some:
  "find_row h r = Some i \<Longrightarrow> i < num_nodes h \<and> hn_rowid (hn_nodes h ! i) = r \<and> \<not> hn_deleted (hn_nodes h ! i)"
  by (auto simp: find_row_def find_Some_iff)

lemma find_row_None: "find_row h r = None \<Longrightarrow> x \<in># hnsw_live h \<Longrightarrow> snd x \<noteq> r"
  by (auto simp: find_row_def find_None_iff hnsw_live_def in_set_conv_nth)

lemma mark_deleted_live:
  assumes "i < num_nodes h" and "\<not> hn_deleted (hn_nodes h ! i)"
  shows "hnsw_live h = add_mset (hn_vec (hn_nodes h ! i), hn_rowid (hn_nodes h ! i)) (hnsw_live (mark_deleted h i))"
proof -
  obtain xs n ys where ns: "hn_nodes h = xs @ n # ys" "length xs = i" "hn_nodes h ! i = n"
    using assms(1) id_take_nth_drop [of i "hn_nodes h"] by (metis length_take min.absorb4)
  then have "hn_nodes (mark_deleted h i) = xs @ n\<lparr>hn_deleted := True\<rparr> # ys" by (auto simp: mark_deleted_def)
  then show ?thesis using ns assms(2) by (simp add: hnsw_live_def)
qed

lemma mark_deleted_inv:
  assumes "hnsw_inv h" and "i < num_nodes h"
  shows "hnsw_inv (mark_deleted h i)"
proof -
  have wf: "node_wf (mark_deleted h i) j (hn_nodes (mark_deleted h i) ! j)" if "j < num_nodes h" for j
    using assms that by (cases "j = i") (auto simp: hnsw_inv_def mark_deleted_def node_wf_def)
  have lv: "map hn_level (hn_nodes (mark_deleted h i)) = map hn_level (hn_nodes h)"
    by (simp add: mark_deleted_def map_update list_update_same_conv assms(2))
  have "\<forall>n\<in>set (hn_nodes (mark_deleted h i)). hn_level n \<le> max_level h"
  proof
    fix n assume "n \<in> set (hn_nodes (mark_deleted h i))"
    then have "hn_level n \<in> set (map hn_level (hn_nodes (mark_deleted h i)))" by simp
    then show "hn_level n \<le> max_level h" unfolding lv using assms(1) by (auto simp: hnsw_inv_def)
  qed
  moreover have "hn_level (hn_nodes (mark_deleted h i) ! j) = hn_level (hn_nodes h ! j)" if "j < num_nodes h" for j
    using lv that by (metis length_map nth_map)
  ultimately show ?thesis
    using assms wf by (auto simp: hnsw_inv_def mark_deleted_def nat_less_iff split: if_splits)
qed

definition hnsw_ok :: "nat \<Rightarrow> hnsw \<Rightarrow> bool" where
  "hnsw_ok dim h \<longleftrightarrow> hnsw_inv h \<and> hn_dim h = dim"

lemma hnsw_delete_ok:
  assumes "hnsw_ok dim h" and "c_int r = r" and "count (image_mset snd (hnsw_live h)) r \<le> 1"
  shows "hnsw_ok dim (snd (hnsw_delete h r)) \<and> hnsw_live (snd (hnsw_delete h r)) = drop_row r (hnsw_live h)"
proof (cases "find_row h r")
  case None
  then have "drop_row r (hnsw_live h) = hnsw_live h" using find_row_None by (metis drop_row_absent)
  then show ?thesis using None assms(1,2) by (simp add: hnsw_delete_def)
next
  case (Some i)
  note f = find_row_Some [OF this]
  have live: "hnsw_live h = add_mset (hn_vec (hn_nodes h ! i), r) (hnsw_live (mark_deleted h i))"
    using mark_deleted_live [of i h] f by simp
  have "count (image_mset snd (hnsw_live (mark_deleted h i))) r = 0" using assms(3) by (simp add: live)
  then have "r \<notin># image_mset snd (hnsw_live (mark_deleted h i))" by (simp only: count_eq_zero_iff not_False_eq_True)
  then have "drop_row r (hnsw_live (mark_deleted h i)) = hnsw_live (mark_deleted h i)" by (intro drop_row_absent) auto
  then have "hnsw_live (mark_deleted h i) = drop_row r (hnsw_live h)" by (simp add: live)
  then show ?thesis using Some assms f mark_deleted_inv [of h i] by (simp add: hnsw_delete_def hnsw_ok_def mark_deleted_def)
qed

lemma hnsw_delete_room:
  "num_nodes (snd (hnsw_delete h r)) = num_nodes h" "max_nodes (snd (hnsw_delete h r)) = max_nodes h"
  by (simp_all add: hnsw_delete_def mark_deleted_def split: option.split)

interpretation hnsw_index: vec_index
  "\<lambda>v r h. snd (hnsw_add (raw r) h v r f)" "\<lambda>r h. snd (hnsw_delete h r)" hnsw_live "\<lambda>h. image_mset snd (hnsw_live h)"
  "hnsw_ok dim" "\<lambda>v r. length v = dim \<and> c_int r = r" "\<lambda>r. c_int r = r" "\<lambda>h n. num_nodes h + n \<le> max_nodes h"
  "hnsw_create max_n dim" for max_n dim raw f
proof unfold_locales
  show "hnsw_ok dim (hnsw_create max_n dim)"
    by (simp add: hnsw_ok_def hnsw_inv_def hnsw_create_def MAX_LEVELS_def)
  show "hnsw_live (hnsw_create max_n dim) = {#}" "image_mset snd (hnsw_live (hnsw_create max_n dim)) = {#}"
    by (simp_all add: hnsw_live_def hnsw_create_def)
  fix s :: hnsw and v :: "f32 list" and r n
  assume s: "hnsw_ok dim s" "length v = dim \<and> c_int r = r" "num_nodes s + Suc n \<le> max_nodes s"
  have inv: "hnsw_inv s" "num_nodes s < max_nodes s" "length v = hn_dim s" using s by (auto simp: hnsw_ok_def)
  note a = hnsw_add_ok [OF inv refl, of "raw r" r f]
  show "hnsw_ok dim (snd (hnsw_add (raw r) s v r f))" using a s by (simp add: hnsw_ok_def)
  show "num_nodes (snd (hnsw_add (raw r) s v r f)) + n \<le> max_nodes (snd (hnsw_add (raw r) s v r f))" using a s by simp
  show "hnsw_live (snd (hnsw_add (raw r) s v r f)) = add_mset (v, r) (hnsw_live s)" using a s by simp
  show "image_mset snd (hnsw_live (snd (hnsw_add (raw r) s v r f))) \<subseteq># add_mset r (image_mset snd (hnsw_live s))"
    using a s by simp
qed (auto simp: hnsw_delete_ok hnsw_delete_room drop_row_def image_mset_subseteq_mono)

text \<open>
  C14. The layered graph holds exactly the rows added to it, up to its capacity, whatever levels were
  drawn; every operation keeps neighbour lists within bounds and the entry point at the top level, and
  deleting a row removes it and no other.
\<close>

theorem hnsw_load_then_delete:
  assumes "\<forall>x\<in>set rows. length (fst x) = dim \<and> c_int (snd x) = snd x" and "length rows \<le> max_n"
    and "distinct (map snd rows)" and "c_int r = r"
    and "h = fold (\<lambda>(v, r) h. snd (hnsw_add (raw r) h v r f)) rows (hnsw_create max_n dim)"
  shows "hnsw_inv h \<and> hnsw_live h = mset rows \<and> hnsw_inv (snd (hnsw_delete h r))
    \<and> hnsw_live (snd (hnsw_delete h r)) = mset (filter (\<lambda>x. snd x \<noteq> r) rows)"
proof -
  have room: "num_nodes (hnsw_create max_n dim) + length rows \<le> max_nodes (hnsw_create max_n dim)"
    using assms(2) by (simp add: hnsw_create_def)
  have h: "h = hnsw_index.load raw f max_n dim rows" by (simp add: assms(5) hnsw_index.load_def case_prod_unfold)
  show ?thesis
    using hnsw_index.load_live [OF assms(1) room, of raw f] hnsw_index.load_del_live [OF assms(1) room assms(3,4), of raw f]
    by (simp add: h hnsw_ok_def drop_row_def)
qed


subsection \<open>Greedy descent\<close>

abbreviation node_dist :: "hnsw \<Rightarrow> distance_func \<Rightarrow> f32 list \<Rightarrow> nat \<Rightarrow> f32" where
  "node_dist h f q x \<equiv> f (hn_vec (hn_nodes h ! x)) q (hn_dim h)"

text \<open>No live neighbour of \<open>c\<close> among the given positions is nearer than \<open>d\<close>.\<close>

definition local_min :: "hnsw \<Rightarrow> distance_func \<Rightarrow> f32 list \<Rightarrow> nat \<Rightarrow> nat \<Rightarrow> f32 \<Rightarrow> nat list \<Rightarrow> bool" where
  "local_min h f q l c d js \<longleftrightarrow> (\<forall>i\<in>set js. i < length (hn_nbors (hn_nodes h ! c) ! l) \<longrightarrow>
     hn_deleted (hn_nodes h ! (hn_nbors (hn_nodes h ! c) ! l ! i)) \<or>
     \<not> flt (node_dist h f q (hn_nbors (hn_nodes h ! c) ! l ! i)) d)"

definition greedy_state :: "hnsw \<Rightarrow> distance_func \<Rightarrow> f32 list \<Rightarrow> nat \<Rightarrow> nat \<times> f32 \<Rightarrow> bool" where
  "greedy_state h f q c0 st \<longleftrightarrow> fst st < num_nodes h \<and> snd st = node_dist h f q (fst st)
     \<and> (fst st = c0 \<or> \<not> hn_deleted (hn_nodes h ! fst st))"

lemma greedy_pass_props:
  assumes "hnsw_inv h" and "l < MAX_LEVELS" and "greedy_state h f q c0 (cur, cd)"
    and "greedy_pass h f q l (cur, cd, False) = (c, d, ch)"
  shows "greedy_state h f q c0 (c, d) \<and>
    (if ch then flt d cd else c = cur \<and> d = cd \<and> local_min h f q l c d [0..<MAX_NEIGHBORS])"
proof -
  let ?g = "\<lambda>(cur, cur_dist, changed) i.
         let ns = hn_nbors (hn_nodes h ! cur) ! l in
         if i < length ns
         then (let n2 = hn_nodes h ! (ns ! i) in
               if hn_deleted n2 then (cur, cur_dist, changed)
               else (let d = f (hn_vec n2) q (hn_dim h) in
                     if flt d cur_dist then (ns ! i, d, True) else (cur, cur_dist, changed)))
         else (cur, cur_dist, changed)"
  have nb: "hn_nbors (hn_nodes h ! x) ! l ! i < num_nodes h"
    if "x < num_nodes h" "i < length (hn_nbors (hn_nodes h ! x) ! l)" for x i
    using assms(1,2) that by (auto simp: hnsw_inv_def node_wf_def)
  have run: "greedy_state h f q c0 (c, d) \<and>
      (c = x \<and> d = dx \<and> ch = b \<and> local_min h f q l c d js \<or> ch \<and> flt d dx)"
    if "greedy_state h f q c0 (x, dx)" "foldl ?g (x, dx, b) js = (c, d, ch)" for x dx b js c d ch
    using that
  proof (induction js arbitrary: x dx b)
    case Nil
    then show ?case by (simp add: local_min_def)
  next
    case (Cons i js)
    let ?ns = "hn_nbors (hn_nodes h ! x) ! l"
    show ?case
    proof (cases "i < length ?ns \<and> \<not> hn_deleted (hn_nodes h ! (?ns ! i)) \<and> flt (node_dist h f q (?ns ! i)) dx")
      case True
      then have e: "foldl ?g (?ns ! i, node_dist h f q (?ns ! i), True) js = (c, d, ch)"
        using Cons.prems(2) by (simp add: Let_def)
      have "greedy_state h f q c0 (?ns ! i, node_dist h f q (?ns ! i))"
        using True Cons.prems(1) nb by (simp add: greedy_state_def)
      from Cons.IH [OF this e] True show ?thesis using flt_trans by blast
    next
      case False
      then have "foldl ?g (x, dx, b) js = (c, d, ch)"
        using Cons.prems(2) by (simp add: Let_def split: if_splits)
      from Cons.IH [OF Cons.prems(1) this] False show ?thesis by (auto simp: local_min_def)
    qed
  qed
  from run [OF assms(3), of False "[0..<MAX_NEIGHBORS]" c d ch] assms(4) show ?thesis
    by (auto simp: greedy_pass_def split: if_splits)
qed

lemma greedy_loop_stable:
  assumes "hnsw_inv h" and "l < MAX_LEVELS"
  shows "greedy_state h f q c0 (cur, cd) \<Longrightarrow> card {x. x < num_nodes h \<and> flt (node_dist h f q x) cd} < fuel \<Longrightarrow>
    greedy_loop fuel h f q l (cur, cd) = (c, d) \<Longrightarrow>
    greedy_state h f q c0 (c, d) \<and> (c = cur \<and> d = cd \<or> flt d cd) \<and> local_min h f q l c d [0..<MAX_NEIGHBORS]"
proof (induction fuel arbitrary: cur cd)
  case (Suc fuel)
  obtain c1 d1 ch where p: "greedy_pass h f q l (cur, cd, False) = (c1, d1, ch)" by (metis prod_cases3)
  note pp = greedy_pass_props [OF assms Suc.prems(1) p]
  show ?case
  proof (cases ch)
    case False
    then show ?thesis using pp p Suc.prems(3) by auto
  next
    case True
    then have s1: "greedy_state h f q c0 (c1, d1)" "flt d1 cd" using pp by auto
    let ?A = "\<lambda>b. {x. x < num_nodes h \<and> flt (node_dist h f q x) b}"
    have "c1 \<in> ?A cd" "c1 \<notin> ?A d1" using s1 by (auto simp: greedy_state_def)
    moreover have "?A d1 \<subseteq> ?A cd" using s1(2) flt_trans by blast
    ultimately have "card (?A d1) < card (?A cd)" by (intro psubset_card_mono) auto
    then have "card (?A d1) < fuel" using Suc.prems(2) by simp
    moreover have "greedy_loop fuel h f q l (c1, d1) = (c, d)" using Suc.prems(3) p True by simp
    ultimately show ?thesis using Suc.IH [OF s1(1)] s1(2) flt_trans by blast
  qed
qed simp

lemma greedy_level_props:
  assumes "hnsw_inv h" and "l < MAX_LEVELS" and "greedy_state h f q c0 (cur, cd)"
    and "greedy_level h f q (cur, cd) l = (c, d)"
  shows "greedy_state h f q c0 (c, d) \<and> (c = cur \<and> d = cd \<or> flt d cd) \<and> local_min h f q l c d [0..<MAX_NEIGHBORS]"
proof -
  have "card {x. x < num_nodes h \<and> flt (node_dist h f q x) cd} \<le> card {..<num_nodes h}" by (intro card_mono) auto
  then have "card {x. x < num_nodes h \<and> flt (node_dist h f q x) cd} < Suc (num_nodes h)" by simp
  from greedy_loop_stable [OF assms(1-3) this] assms(4) show ?thesis by (simp add: greedy_level_def)
qed

text \<open>
  C15. The descent through one level of the graph ends: the repetitions allowed are always enough, and it
  ends at the node it started from or a strictly nearer live one, none of whose live neighbours on the
  level is nearer.
\<close>

theorem greedy_level_reaches_local_minimum:
  assumes "hnsw_inv h" and "l < MAX_LEVELS" and "cur < num_nodes h"
    and "greedy_level h f q (cur, f (hn_vec (hn_nodes h ! cur)) q (hn_dim h)) l = (c, d)"
  shows "c < num_nodes h \<and> d = f (hn_vec (hn_nodes h ! c)) q (hn_dim h)
    \<and> (c = cur \<or> flt d (f (hn_vec (hn_nodes h ! cur)) q (hn_dim h)) \<and> \<not> hn_deleted (hn_nodes h ! c))
    \<and> (\<forall>x\<in>set (hn_nbors (hn_nodes h ! c) ! l). hn_deleted (hn_nodes h ! x) \<or> \<not> flt (f (hn_vec (hn_nodes h ! x)) q (hn_dim h)) d)"
proof -
  have g: "greedy_state h f q cur (cur, node_dist h f q cur)" using assms(3) by (simp add: greedy_state_def)
  note p = greedy_level_props [OF assms(1,2) g assms(4)]
  then have c: "c < num_nodes h" by (simp add: greedy_state_def)
  then have "length (hn_nbors (hn_nodes h ! c) ! l) \<le> MAX_NEIGHBORS"
    using assms(1,2) by (simp add: hnsw_inv_def node_wf_def)
  then have "\<forall>i<length (hn_nbors (hn_nodes h ! c) ! l). hn_deleted (hn_nodes h ! (hn_nbors (hn_nodes h ! c) ! l ! i))
      \<or> \<not> flt (node_dist h f q (hn_nbors (hn_nodes h ! c) ! l ! i)) d"
    using p by (auto simp: local_min_def)
  then have "\<forall>x\<in>set (hn_nbors (hn_nodes h ! c) ! l). hn_deleted (hn_nodes h ! x) \<or> \<not> flt (node_dist h f q x) d"
    by (simp add: all_set_conv_all_nth)
  then show ?thesis using p c by (auto simp: greedy_state_def)
qed


subsection \<open>Breadth-first search\<close>

definition bfs_edge :: "hnsw \<Rightarrow> nat \<Rightarrow> nat \<Rightarrow> bool" where
  "bfs_edge h x y \<longleftrightarrow> y \<in> set (hn_nbors (hn_nodes h ! x) ! 0) \<and> \<not> hn_deleted (hn_nodes h ! y)"

definition bfs_valid :: "hnsw \<Rightarrow> rowid_map \<Rightarrow> nat \<Rightarrow> bool" where
  "bfs_valid h m x \<longleftrightarrow> \<not> hn_deleted (hn_nodes h ! x) \<and> (map_has m (rowid_key (hn_nodes h ! x)) \<or> \<not> pre_filter m)"

definition bfs_hit :: "hnsw \<Rightarrow> distance_func \<Rightarrow> f32 list \<Rightarrow> nat \<Rightarrow> hit" where
  "bfs_hit h f q x = (hn_rowid (hn_nodes h ! x), node_dist h f q x)"

text \<open>\<open>P\<close> are the nodes already taken off the queue.\<close>

definition bfs_state :: "hnsw \<Rightarrow> nat list \<Rightarrow> nat list \<Rightarrow> bool list \<Rightarrow> bool" where
  "bfs_state h P queue visited \<longleftrightarrow> length visited = num_nodes h \<and> distinct (P @ queue)
     \<and> (\<forall>x\<in>set (P @ queue). x < num_nodes h) \<and> (\<forall>x<num_nodes h. visited ! x \<longleftrightarrow> x \<in> set (P @ queue))"

lemma bfs_push_state:
  assumes "bfs_state h P (fst st) (snd st)" and "\<forall>y\<in>set ns. y < num_nodes h"
  shows "bfs_state h P (fst (foldl (bfs_push h) st ns)) (snd (foldl (bfs_push h) st ns))
    \<and> set (fst st) \<subseteq> set (fst (foldl (bfs_push h) st ns))
    \<and> (\<forall>y\<in>set ns. hn_deleted (hn_nodes h ! y) \<or> y \<in> set (P @ fst (foldl (bfs_push h) st ns)))"
  using assms
proof (induction ns arbitrary: st)
  case (Cons y ns)
  have y: "y < num_nodes h" using Cons.prems by simp
  have s: "bfs_state h P (fst (bfs_push h st y)) (snd (bfs_push h st y))"
    "set (fst st) \<subseteq> set (fst (bfs_push h st y))"
    "hn_deleted (hn_nodes h ! y) \<or> y \<in> set (P @ fst (bfs_push h st y))"
    using Cons.prems(1) y by (auto simp: bfs_state_def bfs_push_def nth_list_update)
  from Cons.IH [OF s(1)] Cons.prems(2) s(2,3) show ?case by auto
qed simp

lemma hnsw_bfs_props:
  "hnsw_inv h \<Longrightarrow> bfs_state h P queue visited \<Longrightarrow> res = map (bfs_hit h f q) (filter (bfs_valid h m) P) \<Longrightarrow> length res \<le> ef \<Longrightarrow>
    (\<forall>x\<in>set P. \<forall>y. bfs_edge h x y \<longrightarrow> y \<in> set (P @ queue)) \<Longrightarrow>
    \<exists>P'. distinct P' \<and> (\<forall>x\<in>set P'. x < num_nodes h) \<and> set P \<subseteq> set P'
      \<and> hnsw_bfs h f q m ef queue visited res = map (bfs_hit h f q) (filter (bfs_valid h m) P')
      \<and> length (filter (bfs_valid h m) P') \<le> ef
      \<and> (length (filter (bfs_valid h m) P') < ef \<longrightarrow>
          set queue \<subseteq> set P' \<and> (\<forall>x\<in>set P'. \<forall>y. bfs_edge h x y \<longrightarrow> y \<in> set P'))"
proof (induction h f q m ef queue visited res arbitrary: P rule: hnsw_bfs.induct)
  case (1 h f q m ef visited res)
  then show ?case by (intro exI [of _ P]) (auto simp: bfs_state_def)
next
  case (2 h f q m ef c queue visited res)
  show ?case
  proof (cases "length res < ef")
    case False
    then show ?thesis using "2.prems" by (intro exI [of _ P]) (auto simp: bfs_state_def)
  next
    case True
    define n where "n = hn_nodes h ! c"
    define valid where "valid = map_has m (rowid_key n)"
    define res' where "res' = (if \<not> hn_deleted n \<and> (valid \<or> \<not> pre_filter m)
        then res @ [(hn_rowid n, f (hn_vec n) q (hn_dim h))] else res)"
    define st where "st = foldl (bfs_push h) (queue, visited) (hn_nbors n ! 0)"
    note IH = "2.IH" [OF True n_def valid_def res'_def st_def]
    have step: "hnsw_bfs h f q m ef (c # queue) visited res = hnsw_bfs h f q m ef (fst st) (snd st) res'"
      using True by (simp add: Let_def st_def res'_def n_def valid_def)
    have c: "c < num_nodes h" using "2.prems"(2) by (simp add: bfs_state_def)
    then have "node_wf h c n" using "2.prems"(1) by (simp add: hnsw_inv_def n_def)
    moreover have "0 < MAX_LEVELS" by (simp add: MAX_LEVELS_def)
    ultimately have nb: "\<forall>y\<in>set (hn_nbors n ! 0). y < num_nodes h" unfolding node_wf_def by blast
    have "bfs_state h (P @ [c]) queue visited" using "2.prems"(2) by (simp add: bfs_state_def)
    then have s: "bfs_state h (P @ [c]) (fst st) (snd st)" "set queue \<subseteq> set (fst st)"
      "\<forall>y\<in>set (hn_nbors n ! 0). hn_deleted (hn_nodes h ! y) \<or> y \<in> set ((P @ [c]) @ fst st)"
      using bfs_push_state [of h "P @ [c]" "(queue, visited)" "hn_nbors n ! 0"] nb unfolding st_def by simp_all
    have r: "res' = map (bfs_hit h f q) (filter (bfs_valid h m) (P @ [c]))"
    proof -
      have "bfs_valid h m c \<longleftrightarrow> \<not> hn_deleted n \<and> (valid \<or> \<not> pre_filter m)"
        "bfs_hit h f q c = (hn_rowid n, f (hn_vec n) q (hn_dim h))"
        by (simp_all add: bfs_valid_def bfs_hit_def n_def valid_def)
      then show ?thesis using "2.prems"(3) by (simp add: res'_def)
    qed
    have "length res' \<le> ef" using True by (simp add: res'_def)
    moreover have "\<forall>x\<in>set (P @ [c]). \<forall>y. bfs_edge h x y \<longrightarrow> y \<in> set ((P @ [c]) @ fst st)"
      using "2.prems"(5) s(2,3) by (fastforce simp: bfs_edge_def n_def)
    ultimately obtain P' where P': "distinct P'" "\<forall>x\<in>set P'. x < num_nodes h" "set (P @ [c]) \<subseteq> set P'"
      "hnsw_bfs h f q m ef (fst st) (snd st) res' = map (bfs_hit h f q) (filter (bfs_valid h m) P')"
      "length (filter (bfs_valid h m) P') \<le> ef"
      "length (filter (bfs_valid h m) P') < ef \<longrightarrow>
          set (fst st) \<subseteq> set P' \<and> (\<forall>x\<in>set P'. \<forall>y. bfs_edge h x y \<longrightarrow> y \<in> set P')"
      using IH [OF "2.prems"(1) s(1) r] by blast
    have sub: "set P \<subseteq> set P'" "c \<in> set P'" using P'(3) by auto
    have "set (c # queue) \<subseteq> set P' \<and> (\<forall>x\<in>set P'. \<forall>y. bfs_edge h x y \<longrightarrow> y \<in> set P')"
      if "length (filter (bfs_valid h m) P') < ef"
    proof
      show "set (c # queue) \<subseteq> set P'" using P'(6) [rule_format, OF that, THEN conjunct1] s(2) sub(2) by auto
      show "\<forall>x\<in>set P'. \<forall>y. bfs_edge h x y \<longrightarrow> y \<in> set P'" using P'(6) that by blast
    qed
    with P'(1,2,4,5) sub(1) show ?thesis unfolding step by blast
  qed
qed


lemma skip_deleted_Some:
  "skip_deleted ns ep = Some x \<Longrightarrow> ep \<le> x \<and> x < length ns \<and> \<not> hn_deleted (ns ! x)"
proof (induction ns ep rule: skip_deleted.induct)
  case (1 ns ep)
  then show ?case by (subst (asm) (2) skip_deleted.simps) (fastforce split: if_splits)
qed

lemma descend_state:
  assumes "hnsw_inv h" and "\<forall>l\<in>set ls. l < MAX_LEVELS"
  shows "greedy_state h f q c0 st \<Longrightarrow> greedy_state h f q c0 (foldl (greedy_level h f q) st ls)"
  using assms(2)
proof (induction ls arbitrary: st)
  case (Cons l ls)
  obtain c d where "greedy_level h f q st l = (c, d)" by force
  moreover from this have "greedy_state h f q c0 (c, d)"
    using greedy_level_props [of h l f q c0 "fst st" "snd st" c d] assms(1) Cons.prems by simp
  ultimately show ?case using Cons by simp
qed simp

text \<open>A search that gets past the deleted entry points.\<close>

lemma hnsw_search_from:
  assumes "hnsw_inv h" and "0 \<le> entry_id h" and "skip_deleted (hn_nodes h) (nat (entry_id h)) = Some ep"
    and "\<forall>n\<in>set (hn_nodes h). \<not> fisnan (f (hn_vec n) q (hn_dim h))"
  shows "\<exists>start P hs. hnsw_search h q ef topk m f = Some (take topk hs) \<and> distinct P
    \<and> (\<forall>x\<in>set P. x < num_nodes h \<and> bfs_valid h m x)
    \<and> mset hs = mset (map (bfs_hit h f q) P) \<and> sorted (map (\<lambda>x. fkey (snd x)) hs) \<and> length P \<le> ef
    \<and> (length P < ef \<longrightarrow> (\<forall>y. (bfs_edge h)\<^sup>*\<^sup>* start y \<and> bfs_valid h m y \<longrightarrow> y \<in> set P))"
proof -
  have en: "ep < num_nodes h" using skip_deleted_Some [OF assms(3)] by simp
  define st where "st = foldl (greedy_level h f q) (ep, node_dist h f q ep) (levels_down (max_level h) 0)"
  have "\<forall>l\<in>set (levels_down (max_level h) 0). l < MAX_LEVELS" using assms(1) by (auto simp: levels_down_def hnsw_inv_def)
  then have "greedy_state h f q ep st"
    unfolding st_def using assms(1) en by (intro descend_state) (auto simp: greedy_state_def)
  then have cur: "fst st < num_nodes h" by (simp add: greedy_state_def)
  let ?vis = "(replicate (num_nodes h) False)[fst st := True]"
  define res where "res = hnsw_bfs h f q m ef [fst st] ?vis []"
  have "bfs_state h [] [fst st] ?vis" using cur by (auto simp: bfs_state_def nth_list_update)
  from hnsw_bfs_props [OF assms(1) this, of "[]" f q m ef] obtain P where
    P: "distinct P" "\<forall>x\<in>set P. x < num_nodes h" "res = map (bfs_hit h f q) (filter (bfs_valid h m) P)"
      "length (filter (bfs_valid h m) P) \<le> ef"
      "length (filter (bfs_valid h m) P) < ef \<longrightarrow> fst st \<in> set P \<and> (\<forall>x\<in>set P. \<forall>y. bfs_edge h x y \<longrightarrow> y \<in> set P)"
    by (auto simp: res_def)
  define hs where "hs = exchange_sort snd (\<lambda>(r, d). (c_int r, d)) res"
  have "\<not> fisnan (snd x) \<and> (case x of (r, d) \<Rightarrow> (c_int r, d)) = x" if "x \<in> set res" for x
  proof -
    have "x \<in> bfs_hit h f q ` set P" using that P(3) by auto
    then obtain i where "i < num_nodes h" "x = bfs_hit h f q i" using P(2) by blast
    then show ?thesis using assms(1,4) by (simp add: bfs_hit_def hnsw_inv_def node_wf_def)
  qed
  then have hs: "mset hs = mset res" "sorted (map (\<lambda>x. fkey (snd x)) hs)"
    unfolding hs_def using exchange_sort_props [of res snd "\<lambda>(r, d). (c_int r, d)"] by auto
  have "hnsw_search h q ef topk m f = Some (take topk hs)"
    using assms(2,3) by (simp add: hnsw_search_def Let_def hs_def res_def st_def)
  moreover have reach: "y \<in> set (filter (bfs_valid h m) P)"
    if "length (filter (bfs_valid h m) P) < ef" "(bfs_edge h)\<^sup>*\<^sup>* (fst st) y" "bfs_valid h m y" for y
  proof -
    have cl: "fst st \<in> set P" "\<forall>x\<in>set P. \<forall>y. bfs_edge h x y \<longrightarrow> y \<in> set P" using P(5) that(1) by blast+
    from that(2) have "y \<in> set P"
    proof (induction rule: rtranclp_induct)
      case base
      show ?case by (rule cl(1))
    next
      case (step y z)
      then show ?case using cl(2) by blast
    qed
    then show ?thesis using that(3) by simp
  qed
  moreover have "distinct (filter (bfs_valid h m) P)" "\<forall>x\<in>set (filter (bfs_valid h m) P). x < num_nodes h \<and> bfs_valid h m x"
    using P(1,2) by auto
  moreover have "mset hs = mset (map (bfs_hit h f q) (filter (bfs_valid h m) P))" using hs(1) P(3) by simp
  ultimately show ?thesis using hs(2) P(4) by blast
qed

lemma hnsw_search_hits:
  assumes "hnsw_inv h" and "\<forall>n\<in>set (hn_nodes h). \<not> fisnan (f (hn_vec n) q (hn_dim h))"
    and "hnsw_search h q ef topk m f = Some hs"
  shows "length hs \<le> topk \<and> (\<forall>x\<in>set hs. \<exists>i<num_nodes h. bfs_valid h m i \<and> x = bfs_hit h f q i)"
proof -
  obtain ep where "0 \<le> entry_id h" "skip_deleted (hn_nodes h) (nat (entry_id h)) = Some ep"
    using assms(3) by (auto simp: hnsw_search_def split: if_splits option.splits)
  from hnsw_search_from [of h ep f q ef topk m, OF assms(1) this assms(2)] obtain P hs' where
    P: "hs = take topk hs'" "\<forall>x\<in>set P. x < num_nodes h \<and> bfs_valid h m x" "mset hs' = mset (map (bfs_hit h f q) P)"
    using assms(3) by auto
  have "set hs \<subseteq> bfs_hit h f q ` set P" using P(1) mset_eq_setD [OF P(3)] set_take_subset [of topk hs'] by auto
  then show ?thesis using P(1,2) by fastforce
qed


subsection \<open>Instances\<close>

definition one_node :: hnsw where
  "one_node = snd (hnsw_add 0 (hnsw_create 4 2) (of_ints [0, 0]) 5 distance_l2_sqr_float)"

lemma one_node_eq: "one_node = \<lparr>hn_dim = 2, max_nodes = 4, hn_nodes = [\<lparr>hn_id = 0, hn_rowid = 5, hn_level = 0,
    hn_vec = of_ints [0, 0], hn_nbors = replicate MAX_LEVELS [], hn_deleted = False\<rparr>], entry_id = 0, max_level = 0\<rparr>"
  by (simp add: one_node_def hnsw_add_def hnsw_create_def node_create_def random_level_def MAX_LEVELS_def c_int_def of_ints_def)

lemma l2_zero: "distance_l2_sqr_float (of_ints [0, 0]) (of_ints [0, 0]) 2 = f32_of_int 0"
  by (rule l2_int2; simp)

lemma take_of_ints: "take 2 (of_ints [a, b]) = of_ints [a, b]"
  by (simp add: of_ints_def)

lemma one_node_inv: "hnsw_inv one_node"
  by (simp add: one_node_eq hnsw_inv_def node_wf_def c_int_def of_ints_def MAX_LEVELS_def)


theorem greedy_level_reaches_local_minimum_witness:
  "fst (greedy_level one_node distance_l2_sqr_float (of_ints [0, 0]) (0, distance_l2_sqr_float (of_ints [0, 0]) (of_ints [0, 0]) 2) 0) < 1"
  using greedy_level_reaches_local_minimum [OF one_node_inv, of 0 0 distance_l2_sqr_float "of_ints [0, 0]"]
  by (cases "greedy_level one_node distance_l2_sqr_float (of_ints [0, 0]) (0, distance_l2_sqr_float (of_ints [0, 0]) (of_ints [0, 0]) 2) 0")
    (simp add: one_node_eq MAX_LEVELS_def)

theorem hnsw_load_then_delete_witness:
  "hnsw_live (snd (hnsw_delete (fold (\<lambda>(v, r) h. snd (hnsw_add (nat r) h v r distance_l2_sqr_float))
      [(of_ints [0, 0], 1), (of_ints [3, 4], 2)] (hnsw_create 4096 2)) 1)) = mset [(of_ints [3, 4], 2)]"
  using hnsw_load_then_delete [of "[(of_ints [0, 0], 1), (of_ints [3, 4], 2)]" 2 4096 1 _ nat distance_l2_sqr_float, OF _ _ _ _ refl]
  by (simp add: of_ints_def c_int_def)


text \<open>
  The filter probe reads eight bytes at the four-byte row id of a node, so it sees the level in the
  upper half: a row on a level above 0 is dropped although its row id passes the filter.
\<close>

theorem hnsw_filter_drops_upper_levels:
  "hnsw_search (snd (hnsw_add 1 (hnsw_create 4 2) (of_ints [0, 0]) 5 distance_l2_sqr_float)) (of_ints [0, 0]) 4 2
     \<lparr>rowids = [5], capacity = 1, pre_filter = True\<rparr> distance_l2_sqr_float = Some []
   \<and> hnsw_search one_node (of_ints [0, 0]) 4 2 \<lparr>rowids = [5], capacity = 1, pre_filter = True\<rparr> distance_l2_sqr_float
     = Some [(5, f32_of_int 0)]"
proof -
  have g: "greedy_level h f q st l = st" if "hn_nbors (hn_nodes h ! fst st) ! l = []" for h f q st l
  proof -
    have "foldl (\<lambda>(cur, cd, ch) i. let ns = hn_nbors (hn_nodes h ! cur) ! l in
         if i < length ns then g ns i cur cd ch else (cur, cd, ch)) (fst st, snd st, False) js = (fst st, snd st, False)"
      for g :: "nat list \<Rightarrow> nat \<Rightarrow> nat \<Rightarrow> f32 \<Rightarrow> bool \<Rightarrow> nat \<times> f32 \<times> bool" and js
      using that by (induction js) auto
    then show ?thesis by (cases st) (simp add: greedy_level_def greedy_pass_def)
  qed
  show ?thesis
    by (simp add: hnsw_add_def hnsw_create_def node_create_def random_level_def MAX_LEVELS_def c_int_def one_node_eq
        hnsw_search_def skip_deleted.simps g levels_down_def rowid_key_def exchange_sort_def exchange_pass_def map_has_sorted
        l2_zero take_of_ints)
qed

text \<open>
  A search whose entry point is deleted tries only nodes with larger ids: when the entry point is the
  last node, it runs off the node array although another row is live. Searching an empty graph reads
  \<open>nodes[-1]\<close>.
\<close>

theorem hnsw_search_runs_off:
  "hnsw_search (hnsw_create n dim) q ef topk m f = None
   \<and> (hnsw_inv h \<and> hn_nodes h \<noteq> [] \<and> nat (entry_id h) = num_nodes h - 1 \<and> hn_deleted (hn_nodes h ! nat (entry_id h))
      \<longrightarrow> hnsw_search h q ef topk m f = None)"
proof -
  have "skip_deleted ns (Suc (length ns - 1)) = None" if "ns \<noteq> []" for ns using that by (simp add: skip_deleted.simps)
  then show ?thesis by (auto simp: hnsw_search_def hnsw_create_def skip_deleted.simps)
qed

definition deleted_last :: hnsw where
  "deleted_last = \<lparr>hn_dim = 2, max_nodes = 4, hn_nodes =
     [\<lparr>hn_id = 0, hn_rowid = 5, hn_level = 0, hn_vec = of_ints [0, 0], hn_nbors = [1] # replicate 7 [], hn_deleted = False\<rparr>,
      \<lparr>hn_id = 1, hn_rowid = 6, hn_level = 1, hn_vec = of_ints [3, 4], hn_nbors = [0] # replicate 7 [], hn_deleted = True\<rparr>],
     entry_id = 1, max_level = 1\<rparr>"

theorem hnsw_search_runs_off_witness:
  "hnsw_search deleted_last (of_ints [0, 0]) 64 2 no_filter distance_l2_sqr_float = None
   \<and> hnsw_live deleted_last = {#(of_ints [0, 0], 5)#}"
proof -
  have "node_wf deleted_last 0 (hn_nodes deleted_last ! 0)" "node_wf deleted_last 1 (hn_nodes deleted_last ! 1)"
    by (auto simp: deleted_last_def node_wf_def MAX_LEVELS_def MAX_NEIGHBORS_def c_int_def of_ints_def less_Suc_eq
        eval_nat_numeral nth_Cons split: nat.splits)
  then have "hnsw_inv deleted_last"
    by (auto simp: hnsw_inv_def deleted_last_def MAX_LEVELS_def less_Suc_eq)
  moreover have "hn_nodes deleted_last \<noteq> []" "nat (entry_id deleted_last) = num_nodes deleted_last - 1"
    "hn_deleted (hn_nodes deleted_last ! nat (entry_id deleted_last))" by (simp_all add: deleted_last_def)
  ultimately show ?thesis
    using hnsw_search_runs_off [of 0 0 "of_ints [0, 0]" 64 2 no_filter distance_l2_sqr_float deleted_last]
    by (simp add: hnsw_live_def deleted_last_def)
qed

text \<open>
  Tombstones are never reclaimed: on a full graph an update marks the old node deleted, fails to add
  the new one with \<open>SQLITE_NOMEM\<close>, and the row is gone.
\<close>

theorem hnsw_update_full_loses_row:
  assumes "hnsw_inv h" and "num_nodes h = max_nodes h" and "c_int r = r"
    and "count (image_mset snd (hnsw_live h)) r = 1"
  shows "fst (hnsw_update raw h r v True f) = SQLITE_NOMEM
    \<and> hnsw_live (snd (hnsw_update raw h r v True f)) = drop_row r (hnsw_live h)"
proof -
  have "find_row h r \<noteq> None"
  proof
    assume "find_row h r = None"
    from find_row_None [OF this] have "r \<notin># image_mset snd (hnsw_live h)" by (auto simp only: in_image_mset image_iff)
    then have "count (image_mset snd (hnsw_live h)) r = 0" by (simp only: count_eq_zero_iff not_False_eq_True)
    then show False using assms(4) by linarith
  qed
  then obtain i where i: "find_row h r = Some i" by blast
  have "hnsw_ok (hn_dim h) h" using assms(1) by (simp add: hnsw_ok_def)
  from hnsw_delete_ok [OF this assms(3)] i assms(3,4)
  have "hnsw_live (mark_deleted h i) = drop_row r (hnsw_live h)" by (simp add: hnsw_delete_def)
  moreover have "hnsw_add raw (mark_deleted h i) v r f = (SQLITE_NOMEM, mark_deleted h i)"
    using assms(2) by (simp add: hnsw_add_def mark_deleted_def)
  ultimately show ?thesis using i assms(3) by (simp add: hnsw_update_def)
qed

theorem hnsw_update_full_loses_row_witness:
  "hnsw_live (snd (hnsw_update 0 (one_node\<lparr>max_nodes := 1\<rparr>) 5 (of_ints [3, 4]) True distance_l2_sqr_float)) = {#}"
proof -
  have "hnsw_inv (one_node\<lparr>max_nodes := 1\<rparr>)"
    by (simp add: one_node_eq hnsw_inv_def node_wf_def c_int_def of_ints_def MAX_LEVELS_def)
  moreover have "hnsw_live (one_node\<lparr>max_nodes := 1\<rparr>) = {#(of_ints [0, 0], 5)#}" by (simp add: hnsw_live_def one_node_eq)
  ultimately show ?thesis
    using hnsw_update_full_loses_row [of "one_node\<lparr>max_nodes := 1\<rparr>" 5 0 "of_ints [3, 4]" distance_l2_sqr_float]
    by (simp add: one_node_eq c_int_def)
qed

end
