(* ===== verification/HNSW_File.thy ===== *)
theory HNSW_File
  imports HNSW_Correct ByteIO
begin

text \<open>
  The file format of the layered graph index. The tombstone, a \<open>bool\<close> at the end of the structure, is
  written and read as an \<open>int\<close>: its byte is followed by three bytes of padding (\<open>pad\<close>). Only the neighbour
  lists up to the node's own level are stored; what the other counters and lists hold after loading is
  fresh memory (\<open>junk_nbors\<close>).
\<close>

definition fwrite_ints :: "nat list \<Rightarrow> bytes" where
  "fwrite_ints xs = concat (map (\<lambda>x. fwrite_int (int x)) xs)"

fun fread_ints :: "int \<Rightarrow> nat \<Rightarrow> bytes \<Rightarrow> nat list \<times> bytes" where
  "fread_ints junk 0 fs = ([], fs)"
| "fread_ints junk (Suc n) fs = (let (x, r) = fread_int junk fs; (xs, r') = fread_ints junk n r in (nat x # xs, r'))"

definition fwrite_flag :: "bytes \<Rightarrow> bool \<Rightarrow> bytes" where
  "fwrite_flag pad b = (if b then 1 else 0) # take 3 pad"

definition fread_flag :: "int \<Rightarrow> bytes \<Rightarrow> bool \<times> bytes" where
  "fread_flag junk fs = (case fread 4 fs of (Some bs, r) \<Rightarrow> (hd bs \<noteq> 0, r) | (None, r) \<Rightarrow> (junk \<noteq> 0, r))"

definition serialize_level :: "nat list \<Rightarrow> bytes" where
  "serialize_level ns = fwrite_int (int (length ns)) @ fwrite_ints ns"

definition serialize_hnsw_node :: "bytes \<Rightarrow> nat \<Rightarrow> hnsw_node \<Rightarrow> bytes" where
  "serialize_hnsw_node pad dim n =
     fwrite_int (int (hn_id n)) @ fwrite_int (hn_rowid n) @ fwrite_int (int (hn_level n)) @ fwrite_flag pad (hn_deleted n)
     @ fwrite_floats (take dim (hn_vec n)) @ concat (map (\<lambda>l. serialize_level (hn_nbors n ! l)) [0..<hn_level n + 1])"

definition serialize_hnsw :: "bool \<Rightarrow> bytes \<Rightarrow> hnsw \<Rightarrow> sqlite_rc \<times> bytes option" where
  "serialize_hnsw opens pad h =
     (if \<not> opens then (SQLITE_CANTOPEN, None)
      else (SQLITE_OK, Some (
        fwrite_int (int (hn_dim h)) @ fwrite_int (int (max_nodes h)) @ fwrite_int (int (num_nodes h))
        @ fwrite_int (entry_id h) @ fwrite_int (int (max_level h))
        @ concat (map (serialize_hnsw_node pad (hn_dim h)) (hn_nodes h)))))"

fun deserialize_levels :: "int \<Rightarrow> nat \<Rightarrow> bytes \<Rightarrow> nat list list \<times> bytes" where
  "deserialize_levels junk 0 fs = ([], fs)"
| "deserialize_levels junk (Suc n) fs =
     (let (cnt, f1) = fread_int junk fs; (ns, f2) = fread_ints junk (nat cnt) f1; (ls, f3) = deserialize_levels junk n f2
      in (ns # ls, f3))"

definition deserialize_hnsw_node :: "int \<Rightarrow> nat list \<Rightarrow> nat \<Rightarrow> bytes \<Rightarrow> hnsw_node \<times> bytes" where
  "deserialize_hnsw_node junk junk_nbors dim fs =
     (let (i, f1) = fread_int junk fs; (r, f2) = fread_int junk f1; (lv, f3) = fread_int junk f2;
          (del, f4) = fread_flag junk f3; (v, f5) = fread_floats junk dim f4;
          (ls, f6) = deserialize_levels junk (nat (lv + 1)) f5
      in (\<lparr>hn_id = nat i, hn_rowid = r, hn_level = nat lv, hn_vec = v,
           hn_nbors = ls @ replicate (MAX_LEVELS - length ls) junk_nbors, hn_deleted = del\<rparr>, f6))"

fun deserialize_nodes :: "int \<Rightarrow> nat list \<Rightarrow> nat \<Rightarrow> nat \<Rightarrow> bytes \<Rightarrow> hnsw_node list \<times> bytes" where
  "deserialize_nodes junk junk_nbors 0 dim fs = ([], fs)"
| "deserialize_nodes junk junk_nbors (Suc n) dim fs =
     (let (x, f1) = deserialize_hnsw_node junk junk_nbors dim fs;
          (xs, f2) = deserialize_nodes junk junk_nbors n dim f1 in (x # xs, f2))"

text \<open>The three sizes are read as unsigned 32-bit numbers.\<close>

definition u32_of :: "int \<Rightarrow> nat" where
  "u32_of x = nat (x mod 2 ^ 32)"

definition deserialize_hnsw :: "int \<Rightarrow> nat list \<Rightarrow> bytes option \<Rightarrow> hnsw option" where
  "deserialize_hnsw junk junk_nbors file =
     (case file of None \<Rightarrow> None
      | Some fs \<Rightarrow>
          (let (dim, f1) = fread_int junk fs; (maxn, f2) = fread_int junk f1; (num, f3) = fread_int junk f2;
               (entry, f4) = fread_int junk f3; (maxl, f5) = fread_int junk f4;
               (ns, f6) = deserialize_nodes junk junk_nbors (u32_of num) (u32_of dim) f5
           in Some \<lparr>hn_dim = u32_of dim, max_nodes = u32_of maxn, hn_nodes = ns, entry_id = entry, max_level = nat maxl\<rparr>))"

subsection \<open>Round trip\<close>

lemma c_int_nat_id: "n < 2 ^ 31 \<Longrightarrow> c_int (int n) = int n"
  by (rule c_int_id) auto

lemma u32_of_nat: "n < 2 ^ 31 \<Longrightarrow> u32_of (int n) = n"
  by (simp add: u32_of_def)

lemma fread_fwrite_ints [simp]:
  "n = length xs \<Longrightarrow> \<forall>x\<in>set xs. x < 2 ^ 31 \<Longrightarrow> fread_ints junk n (fwrite_ints xs @ fs) = (xs, fs)"
  by (induction xs arbitrary: n) (auto simp: fwrite_ints_def c_int_nat_id)

lemma fread_fwrite_flag [simp]: "3 \<le> length pad \<Longrightarrow> fread_flag junk (fwrite_flag pad b @ fs) = (b, fs)"
  by (simp add: fread_flag_def fread_def fwrite_flag_def min_absorb2)

lemma deserialize_levels_round:
  "n = length ls \<Longrightarrow> \<forall>ns\<in>set ls. length ns < 2 ^ 31 \<and> (\<forall>x\<in>set ns. x < 2 ^ 31) \<Longrightarrow>
   deserialize_levels junk n (concat (map serialize_level ls) @ fs) = (ls, fs)"
  by (induction ls arbitrary: n) (auto simp: serialize_level_def c_int_nat_id)

definition forget_upper :: "nat list \<Rightarrow> hnsw_node \<Rightarrow> hnsw_node" where
  "forget_upper junk_nbors n = n\<lparr>hn_nbors := take (hn_level n + 1) (hn_nbors n)
     @ replicate (MAX_LEVELS - (hn_level n + 1)) junk_nbors\<rparr>"

lemma deserialize_node_round:
  assumes "node_wf h i n" and "num_nodes h < 2 ^ 31" and "i < num_nodes h" and "3 \<le> length pad"
  shows "deserialize_hnsw_node junk junk_nbors (hn_dim h) (serialize_hnsw_node pad (hn_dim h) n @ fs) = (forget_upper junk_nbors n, fs)"
proof -
  have lv: "hn_level n < MAX_LEVELS" "length (hn_nbors n) = MAX_LEVELS" using assms(1) by (auto simp: node_wf_def)
  have i: "hn_id n < 2 ^ 31" using assms by (auto simp: node_wf_def)
  have l31: "hn_level n < 2 ^ 31" using lv(1) by (simp add: MAX_LEVELS_def)
  let ?ls = "take (hn_level n + 1) (hn_nbors n)"
  have ls: "map (\<lambda>l. serialize_level (hn_nbors n ! l)) [0..<hn_level n + 1] = map serialize_level ?ls"
    by (rule nth_equalityI) (use lv in \<open>simp_all del: upt_Suc\<close>)
  have "\<forall>ns\<in>set ?ls. length ns < 2 ^ 31 \<and> (\<forall>x\<in>set ns. x < 2 ^ 31)"
  proof
    fix ns assume "ns \<in> set ?ls"
    then have "ns \<in> set (hn_nbors n)" by (rule in_set_takeD)
    then obtain l where "l < MAX_LEVELS" "ns = hn_nbors n ! l" using lv(2) by (auto simp: in_set_conv_nth)
    then have "length ns \<le> MAX_NEIGHBORS" "\<forall>x\<in>set ns. x < num_nodes h" using assms(1) by (auto simp: node_wf_def)
    then show "length ns < 2 ^ 31 \<and> (\<forall>x\<in>set ns. x < 2 ^ 31)" using assms(2) by (fastforce simp: MAX_NEIGHBORS_def)
  qed
  moreover have len: "length ?ls = Suc (hn_level n)" using lv by simp
  ultimately have dl: "deserialize_levels junk (Suc (hn_level n)) (concat (map serialize_level ?ls) @ fs) = (?ls, fs)" for fs
    by (intro deserialize_levels_round) auto
  have "c_int (hn_rowid n) = hn_rowid n" "length (hn_vec n) = hn_dim h" using assms(1) by (auto simp: node_wf_def)
  moreover have "nat (int (hn_level n) + 1) = Suc (hn_level n)" by simp
  ultimately show ?thesis
    using assms(4) dl len unfolding deserialize_hnsw_node_def serialize_hnsw_node_def ls
    by (simp add: c_int_nat_id [OF i] c_int_nat_id [OF l31] forget_upper_def)
qed

lemma deserialize_nodes_round:
  assumes "num_nodes h < 2 ^ 31" and "3 \<le> length pad"
  shows "k + length ns = num_nodes h \<Longrightarrow> \<forall>i<length ns. node_wf h (k + i) (ns ! i) \<Longrightarrow>
   deserialize_nodes junk junk_nbors (length ns) (hn_dim h) (concat (map (serialize_hnsw_node pad (hn_dim h)) ns) @ fs)
   = (map (forget_upper junk_nbors) ns, fs)"
proof (induction ns arbitrary: k)
  case (Cons n ns)
  have "node_wf h k n" using Cons.prems(2) by (metis add.right_neutral length_greater_0_conv list.distinct(1) nth_Cons_0)
  note d = deserialize_node_round [OF this assms(1) _ assms(2)]
  have "\<forall>i<length ns. node_wf h (Suc k + i) (ns ! i)" using Cons.prems(2) by fastforce
  from Cons.IH [of "Suc k", OF _ this] Cons.prems(1) d show ?case by simp
qed simp

text \<open>
  C24. Loading a saved graph gives back every field, except the neighbour lists of levels above a node's
  own, which the loader leaves uninitialised.
\<close>

theorem hnsw_file_round_trip:
  assumes "hnsw_inv h" and "max_nodes h < 2 ^ 31" and "hn_dim h < 2 ^ 31" and "3 \<le> length pad"
  shows "fst (serialize_hnsw True pad h) = SQLITE_OK
    \<and> deserialize_hnsw junk junk_nbors (snd (serialize_hnsw True pad h))
      = Some (h\<lparr>hn_nodes := map (forget_upper junk_nbors) (hn_nodes h)\<rparr>)
    \<and> serialize_hnsw False pad h = (SQLITE_CANTOPEN, None) \<and> deserialize_hnsw junk junk_nbors None = None"
proof -
  have num: "num_nodes h < 2 ^ 31" using assms(1,2) by (simp add: hnsw_inv_def)
  have "\<forall>i<num_nodes h. node_wf h (0 + i) (hn_nodes h ! i)" using assms(1) by (simp add: hnsw_inv_def)
  from deserialize_nodes_round [OF num assms(4) _ this, of junk junk_nbors "[]"]
  have ns: "deserialize_nodes junk junk_nbors (num_nodes h) (hn_dim h) (concat (map (serialize_hnsw_node pad (hn_dim h)) (hn_nodes h)))
      = (map (forget_upper junk_nbors) (hn_nodes h), [])" by simp
  have e: "c_int (entry_id h) = entry_id h" using assms(1) num by (intro c_int_id) (auto simp: hnsw_inv_def split: if_splits)
  have "max_level h < 2 ^ 31" using assms(1) by (simp add: hnsw_inv_def MAX_LEVELS_def)
  then show ?thesis
    using num assms(2,3) ns e
    by (simp add: serialize_hnsw_def deserialize_hnsw_def c_int_nat_id u32_of_nat)
qed

theorem hnsw_file_round_trip_witness:
  "deserialize_hnsw 0 [] (snd (serialize_hnsw True [0, 0, 0] one_node)) = Some one_node"
proof -
  have "take (Suc 0) (replicate MAX_LEVELS []) @ replicate (MAX_LEVELS - Suc 0) [] = replicate MAX_LEVELS ([] :: nat list)"
    by (simp add: MAX_LEVELS_def eval_nat_numeral)
  then have "one_node\<lparr>hn_nodes := map (forget_upper []) (hn_nodes one_node)\<rparr> = one_node"
    by (simp add: one_node_eq forget_upper_def)
  moreover have "max_nodes one_node < 2 ^ 31" "hn_dim one_node < 2 ^ 31" by (simp_all add: one_node_eq)
  moreover have "3 \<le> length [0, 0, 0 :: 8 word]" by simp
  ultimately show ?thesis using hnsw_file_round_trip [OF one_node_inv, of "[0, 0, 0]" 0 "[]"] by simp
qed

end
