(* ===== verification/Bitmap.thy ===== *)
theory Bitmap
  imports Prelude
begin

text \<open>
  The bitmaps of \<^verbatim>\<open>sqlite-vec.c\<close> (\<open>bitmap_new\<close> to \<open>bitmap_fill\<close>): one bit per row of a chunk, in an array of
  bytes. \<open>n\<close> is the number of bits, a multiple of eight; an array is the list of its bytes.
\<close>

unbundle bit_operations_syntax

type_synonym bitmap = "8 word list"

named_theorems bitmap_simps \<open>what a bit of a bitmap is after an operation\<close>

text \<open>The allocating functions return \<open>None\<close> for a null pointer; \<open>ok\<close> is the outcome of the allocation.\<close>

definition bitmap_new :: "bool \<Rightarrow> nat \<Rightarrow> bitmap option" where
  "bitmap_new ok n = (if ok then Some (replicate (n div 8) 0) else None)"

definition bitmap_new_from :: "bool \<Rightarrow> nat \<Rightarrow> bitmap \<Rightarrow> bitmap option" where
  "bitmap_new_from ok n from = (if ok then Some (take (n div 8) from) else None)"

definition bitmap_copy :: "bitmap \<Rightarrow> bitmap \<Rightarrow> nat \<Rightarrow> bitmap" where
  "bitmap_copy base from n = take (n div 8) from @ drop (n div 8) base"

definition bitmap_and_inplace :: "bitmap \<Rightarrow> bitmap \<Rightarrow> nat \<Rightarrow> bitmap" where
  "bitmap_and_inplace base other n = foldl (\<lambda>b i. b[i := b ! i AND other ! i]) base [0..<n div 8]"

definition bitmap_set :: "bitmap \<Rightarrow> nat \<Rightarrow> bool \<Rightarrow> bitmap" where
  "bitmap_set bm position v =
     (if v then bm[position div 8 := bm ! (position div 8) OR push_bit (position mod 8) 1]
      else bm[position div 8 := bm ! (position div 8) AND NOT (push_bit (position mod 8) 1)])"

definition bitmap_get :: "bitmap \<Rightarrow> nat \<Rightarrow> bool" where
  "bitmap_get bm position \<longleftrightarrow> drop_bit (position mod 8) (bm ! (position div 8)) AND 1 \<noteq> 0"

definition bitmap_clear :: "bitmap \<Rightarrow> nat \<Rightarrow> bitmap" where
  "bitmap_clear bm n = replicate (n div 8) 0 @ drop (n div 8) bm"

definition bitmap_fill :: "bitmap \<Rightarrow> nat \<Rightarrow> bitmap" where
  "bitmap_fill bm n = replicate (n div 8) 0xFF @ drop (n div 8) bm"

text \<open>The loop \<open>for (i = 0; i < size; i++) bitmap_set(b, i, f(i))\<close>, which every filter runs.\<close>

definition bitmap_set_all :: "(nat \<Rightarrow> bool) \<Rightarrow> nat \<Rightarrow> bitmap \<Rightarrow> bitmap" where
  "bitmap_set_all f n b = foldl (\<lambda>b i. bitmap_set b i (f i)) b [0..<n]"

subsection \<open>Bits\<close>

abbreviation bitmap_ok :: "bitmap \<Rightarrow> nat \<Rightarrow> bool" where
  "bitmap_ok bm n \<equiv> n mod 8 = 0 \<and> length bm = n div 8"

lemma div_lt_bitmap: "i < n \<Longrightarrow> n mod 8 = 0 \<Longrightarrow> i div 8 < n div (8::nat)"
  by (metis div_less_iff_less_mult mod_0_imp_dvd dvd_div_mult_self zero_less_numeral)

lemma bitmap_get_bit: "bitmap_get bm i \<longleftrightarrow> bit (bm ! (i div 8)) (i mod 8)"
  by (simp add: bitmap_get_def and_one_eq bit_iff_odd_drop_bit mod_2_eq_odd)

lemma same_bit: "i div 8 = j div 8 \<Longrightarrow> i mod 8 = j mod 8 \<longleftrightarrow> i = (j::nat)"
  by (metis div_mult_mod_eq)

lemma length_bitmap_set [simp]: "length (bitmap_set bm i v) = length bm"
  by (simp add: bitmap_set_def)

lemma bitmap_get_set [bitmap_simps]:
  assumes "i div 8 < length bm"
  shows "bitmap_get (bitmap_set bm i v) j = (if j = i then v else bitmap_get bm j)"
proof (cases "j div 8 = i div 8")
  case True
  have "j mod 8 < 8" by simp
  then show ?thesis
    using assms True same_bit [OF True]
    by (auto simp: bitmap_get_bit bitmap_set_def bit_or_iff bit_and_iff bit_not_iff bit_push_bit_iff
        bit_exp_iff possible_bit_word)
next
  case False
  then have "j \<noteq> i" by auto
  then show ?thesis using False by (auto simp: bitmap_get_bit bitmap_set_def)
qed

lemma length_bitmap_set_all [simp]: "length (bitmap_set_all f n b) = length b"
  unfolding bitmap_set_all_def by (induction n) auto

lemma bitmap_get_set_all [bitmap_simps]:
  assumes "bitmap_ok b n" and "i < n"
  shows "bitmap_get (bitmap_set_all f n b) i = f i"
proof -
  have "m \<le> n \<Longrightarrow> bitmap_get (bitmap_set_all f m b) i = (if i < m then f i else bitmap_get b i)" for m
  proof (induction m)
    case 0
    then show ?case by (simp add: bitmap_set_all_def)
  next
    case (Suc m)
    have "bitmap_set_all f (Suc m) b = bitmap_set (bitmap_set_all f m b) m (f m)"
      by (simp add: bitmap_set_all_def)
    moreover have "m div 8 < length (bitmap_set_all f m b)"
      using Suc.prems assms(1) div_lt_bitmap [of m n] by simp
    ultimately show ?case using Suc by (auto simp: bitmap_get_set)
  qed
  from this [of n] assms(2) show ?thesis by simp
qed

lemma and_inplace_nth:
  "k \<le> length base \<Longrightarrow> length (foldl (\<lambda>b i. b[i := b ! i AND other ! i]) base [0..<k]) = length base
   \<and> (\<forall>j. foldl (\<lambda>b i. b[i := b ! i AND other ! i]) base [0..<k] ! j =
       (if j < k then base ! j AND other ! j else base ! j))"
  by (induction k) (auto simp: nth_list_update less_Suc_eq)

lemma length_bitmap_and [simp]:
  "length base = n div 8 \<Longrightarrow> length (bitmap_and_inplace base other n) = n div 8"
  using and_inplace_nth [of "n div 8" base other] by (simp add: bitmap_and_inplace_def)

lemma bitmap_get_and [bitmap_simps]:
  "bitmap_ok base n \<Longrightarrow> i < n \<Longrightarrow>
   bitmap_get (bitmap_and_inplace base other n) i = (bitmap_get base i \<and> bitmap_get other i)"
  using and_inplace_nth [of "n div 8" base other] div_lt_bitmap [of i n]
  by (simp add: bitmap_and_inplace_def bitmap_get_bit bit_and_iff)

lemma length_bitmap_copy [simp]:
  "length base = n div 8 \<Longrightarrow> length from = n div 8 \<Longrightarrow> bitmap_copy base from n = from"
  by (simp add: bitmap_copy_def)

lemma bitmap_clear_ok [simp]:
  "length bm = n div 8 \<Longrightarrow> bitmap_clear bm n = replicate (n div 8) 0"
  by (simp add: bitmap_clear_def)

lemma bitmap_get_zero [bitmap_simps]: "i < n \<Longrightarrow> n mod 8 = 0 \<Longrightarrow> \<not> bitmap_get (replicate (n div 8) 0) i"
  using div_lt_bitmap [of i n] by (simp add: bitmap_get_bit)

lemma bitmap_get_fill [bitmap_simps]:
  "bitmap_ok bm n \<Longrightarrow> i < n \<Longrightarrow> bitmap_get (bitmap_fill bm n) i"
proof -
  assume "bitmap_ok bm n" "i < n"
  then have "bitmap_fill bm n ! (i div 8) = 0xFF"
    using div_lt_bitmap [of i n] by (simp add: bitmap_fill_def nth_append)
  moreover have "(0xFF :: 8 word) = - 1" by simp
  moreover have "bit (- 1 :: 8 word) (i mod 8)" by simp
  ultimately show ?thesis unfolding bitmap_get_bit by (simp only:)
qed

end
