(* ===== verification/Selection.thy ===== *)
theory Selection
  imports Bitmap Hits
begin

text \<open>
  The selection routines of the flat scan (\<open>min_idx\<close> and \<open>merge_sorted_lists\<close> in \<^verbatim>\<open>sqlite-vec.c\<close>): the
  \<open>k\<close> nearest candidates of a chunk, and the merge of those with the nearest rows of the chunks before.
\<close>

subsection \<open>The nearest candidates of a chunk\<close>

text \<open>The inner \<open>while\<close> loop: the first candidate that is not taken, or \<open>n\<close>.\<close>

function min_idx_start :: "nat \<Rightarrow> bitmap \<Rightarrow> bitmap \<Rightarrow> nat \<Rightarrow> nat" where
  "min_idx_start n candidates bTaken i =
     (if i < n \<and> (bitmap_get bTaken i \<or> \<not> bitmap_get candidates i)
      then min_idx_start n candidates bTaken (Suc i) else i)"
  by pat_completeness auto
termination
  by (relation "measure (\<lambda>(n, c, t, i). n - i)") auto

declare min_idx_start.simps [simp del]

text \<open>The inner \<open>for\<close> loop.\<close>

definition min_idx_scan :: "f32 list \<Rightarrow> nat \<Rightarrow> bitmap \<Rightarrow> bitmap \<Rightarrow> nat \<Rightarrow> nat" where
  "min_idx_scan distances n candidates bTaken m0 =
     foldl (\<lambda>m i. if fle (distances ! i) (distances ! m) \<and> \<not> bitmap_get bTaken i \<and> bitmap_get candidates i
                  then i else m) m0 [0..<n]"

text \<open>The outer loop; \<open>k\<close> is the number of rounds left. The result is the used part of \<open>out\<close>.\<close>

fun min_idx_loop :: "f32 list \<Rightarrow> nat \<Rightarrow> bitmap \<Rightarrow> bitmap \<Rightarrow> nat \<Rightarrow> nat list" where
  "min_idx_loop distances n candidates bTaken 0 = []"
| "min_idx_loop distances n candidates bTaken (Suc k) =
     (let m0 = min_idx_start n candidates bTaken 0 in
      if m0 \<ge> n then []
      else (let m = min_idx_scan distances n candidates bTaken m0 in
            m # min_idx_loop distances n candidates (bitmap_set bTaken m True) k))"

definition min_idx :: "f32 list \<Rightarrow> nat \<Rightarrow> bitmap \<Rightarrow> nat \<Rightarrow> bitmap \<Rightarrow> nat list" where
  "min_idx distances n candidates k bTaken =
     min_idx_loop distances n candidates (bitmap_clear bTaken n) k"

subsection \<open>The merge of two sorted selections\<close>

text \<open>
  \<open>a\<close> and \<open>a_rowids\<close> are the selection so far, \<open>b_top_idxs\<close> the selected positions of the chunk arrays \<open>b\<close>
  and \<open>b_rowids\<close>; \<open>rest\<close> is \<open>out_length - i\<close>. The result is the used part of \<open>out_rowids\<close> and \<open>out\<close>.
\<close>

fun merge_loop ::
  "f32 list \<Rightarrow> i64 list \<Rightarrow> nat \<Rightarrow> f32 list \<Rightarrow> i64 list \<Rightarrow> nat list \<Rightarrow> nat \<Rightarrow> nat \<Rightarrow> nat \<Rightarrow> nat \<Rightarrow> hits" where
  "merge_loop a a_rowids a_length b b_rowids b_top_idxs b_length ptrA ptrB 0 = []"
| "merge_loop a a_rowids a_length b b_rowids b_top_idxs b_length ptrA ptrB (Suc rest) =
     (let takeA = (a_rowids ! ptrA, a ! ptrA) #
            merge_loop a a_rowids a_length b b_rowids b_top_idxs b_length (Suc ptrA) ptrB rest;
          takeB = (b_rowids ! (b_top_idxs ! ptrB), b ! (b_top_idxs ! ptrB)) #
            merge_loop a a_rowids a_length b b_rowids b_top_idxs b_length ptrA (Suc ptrB) rest
      in if ptrA \<ge> a_length \<and> ptrB \<ge> b_length then []
         else if ptrA \<ge> a_length then takeB
         else if ptrB \<ge> b_length then takeA
         else if fle (a ! ptrA) (b ! (b_top_idxs ! ptrB)) then takeA else takeB)"

definition merge_sorted_lists ::
  "f32 list \<Rightarrow> i64 list \<Rightarrow> nat \<Rightarrow> f32 list \<Rightarrow> i64 list \<Rightarrow> nat list \<Rightarrow> nat \<Rightarrow> nat \<Rightarrow> hits" where
  "merge_sorted_lists a a_rowids a_length b b_rowids b_top_idxs b_length out_length =
     merge_loop a a_rowids a_length b b_rowids b_top_idxs b_length 0 0 out_length"

subsection \<open>The selection is best\<close>

definition free_idx :: "nat \<Rightarrow> bitmap \<Rightarrow> bitmap \<Rightarrow> nat set" where
  "free_idx n candidates bTaken = {i. i < n \<and> bitmap_get candidates i \<and> \<not> bitmap_get bTaken i}"

lemma finite_free_idx [simp]: "finite (free_idx n c t)"
  by (simp add: free_idx_def)

lemma min_idx_start_spec:
  "(let m = min_idx_start n c t i in
     (m < n \<longrightarrow> m \<in> free_idx n c t \<and> i \<le> m) \<and> (m \<ge> n \<longrightarrow> (\<forall>j. i \<le> j \<longrightarrow> j \<notin> free_idx n c t)))"
proof (induction n c t i rule: min_idx_start.induct)
  case (1 n c t i)
  show ?case
  proof (cases "i < n \<and> (bitmap_get t i \<or> \<not> bitmap_get c i)")
    case True
    then have "min_idx_start n c t i = min_idx_start n c t (Suc i)"
      by (simp add: min_idx_start.simps [of n c t i])
    moreover have "i \<notin> free_idx n c t" using True by (auto simp: free_idx_def)
    ultimately show ?thesis using 1 [OF True]
      by (auto simp: Let_def) (metis le_antisym not_less_eq_eq)
  next
    case False
    then have "min_idx_start n c t i = i" by (subst min_idx_start.simps) (simp only: if_False)
    with False show ?thesis by (auto simp: free_idx_def Let_def)
  qed
qed

lemma min_idx_start_empty: "min_idx_start n c t 0 \<ge> n \<Longrightarrow> free_idx n c t = {}"
  using min_idx_start_spec [of n c t 0] by (auto simp: Let_def)

lemma min_idx_start_in: "min_idx_start n c t 0 < n \<Longrightarrow> min_idx_start n c t 0 \<in> free_idx n c t"
  using min_idx_start_spec [of n c t 0] by (simp add: Let_def)

lemma min_idx_scan_spec:
  assumes num: "\<forall>i<n. bitmap_get c i \<longrightarrow> \<not> fisnan (d ! i)" and m0: "m0 \<in> free_idx n c t"
  shows "min_idx_scan d n c t m0 \<in> free_idx n c t
    \<and> (\<forall>j\<in>free_idx n c t. fkey (d ! min_idx_scan d n c t m0) \<le> fkey (d ! j))"
proof -
  let ?f = "\<lambda>m i. if fle (d ! i) (d ! m) \<and> \<not> bitmap_get t i \<and> bitmap_get c i then i else m"
  have "j \<le> n \<Longrightarrow> foldl ?f m0 [0..<j] \<in> free_idx n c t
     \<and> (\<forall>i\<in>free_idx n c t. i < j \<longrightarrow> fkey (d ! foldl ?f m0 [0..<j]) \<le> fkey (d ! i))" for j
  proof (induction j)
    case 0
    then show ?case using m0 by simp
  next
    case (Suc j)
    let ?m = "foldl ?f m0 [0..<j]"
    have m: "?m \<in> free_idx n c t" "\<forall>i\<in>free_idx n c t. i < j \<longrightarrow> fkey (d ! ?m) \<le> fkey (d ! i)"
      using Suc by auto
    have "fle (d ! j) (d ! ?m) \<longleftrightarrow> fkey (d ! j) \<le> fkey (d ! ?m)" if "bitmap_get c j"
      using num m(1) that Suc.prems by (auto simp: free_idx_def fle_def)
    then show ?case using m Suc.prems by (auto simp: free_idx_def less_Suc_eq)
  qed
  from this [of n] show ?thesis by (auto simp: min_idx_scan_def free_idx_def)
qed

lemma free_idx_taken:
  assumes "bitmap_ok t n" and "m < n"
  shows "free_idx n c (bitmap_set t m True) = free_idx n c t - {m}"
  using div_lt_bitmap [of m n] assms by (auto simp: free_idx_def bitmap_get_set)

lemma min_idx_loop_best:
  assumes "bitmap_ok t n" and "\<forall>i<n. bitmap_get c i \<longrightarrow> \<not> fisnan (d ! i)"
  shows "best_k (\<lambda>i. fkey (d ! i)) k (mset_set (free_idx n c t)) (mset (min_idx_loop d n c t k))
    \<and> sorted (map (\<lambda>i. fkey (d ! i)) (min_idx_loop d n c t k))"
  using assms
proof (induction k arbitrary: t)
  case 0
  then show ?case by (simp add: best_k_def)
next
  case (Suc k)
  show ?case
  proof (cases "min_idx_start n c t 0 \<ge> n")
    case True
    then show ?thesis using min_idx_start_empty [OF True] by simp
  next
    case False
    let ?m = "min_idx_scan d n c t (min_idx_start n c t 0)"
    let ?R = "free_idx n c t - {?m}" and ?out = "min_idx_loop d n c (bitmap_set t ?m True) k"
    have m: "?m \<in> free_idx n c t" "\<forall>j\<in>free_idx n c t. fkey (d ! ?m) \<le> fkey (d ! j)"
      using min_idx_scan_spec [OF Suc.prems(2) min_idx_start_in] False by auto
    then have "?m < n" by (simp add: free_idx_def)
    have IH: "best_k (\<lambda>i. fkey (d ! i)) k (mset_set ?R) (mset ?out)"
      "sorted (map (\<lambda>i. fkey (d ! i)) ?out)"
      using Suc.IH [of "bitmap_set t ?m True"] Suc.prems free_idx_taken [of n t ?m c] \<open>?m < n\<close> by simp_all
    have "set ?out \<subseteq> ?R"
      using best_k_sub [OF IH(1)] by (metis finite_set_mset_mset_set finite_Diff finite_free_idx
          set_mset_mono set_mset_mset)
    then have s: "sorted (map (\<lambda>i. fkey (d ! i)) (?m # ?out))" using IH(2) m(2) by auto
    have R: "mset_set (free_idx n c t) = add_mset ?m (mset_set ?R)"
      using m(1) by (simp add: mset_set.remove)
    have "best_k (\<lambda>i. fkey (d ! i)) (Suc k) (add_mset ?m (mset_set ?R)) (mset (?m # ?out))"
    proof (rule best_kI)
      show "mset (?m # ?out) \<subseteq># add_mset ?m (mset_set ?R)" using best_k_sub [OF IH(1)] by simp
      show "size (mset (?m # ?out)) = min (Suc k) (size (add_mset ?m (mset_set ?R)))"
        using best_k_size [OF IH(1)] by (simp del: size_mset_set)
      fix x y assume "x \<in># mset (?m # ?out)" "y \<in># add_mset ?m (mset_set ?R) - mset (?m # ?out)"
      then have "x = ?m \<or> x \<in># mset ?out" "y \<in># mset_set ?R - mset ?out" by auto
      moreover from this(2) have "y \<in> free_idx n c t" by (auto dest: in_diffD)
      ultimately show "fkey (d ! x) \<le> fkey (d ! y)" using m(2) best_k_le [OF IH(1)] by blast
    qed
    then show ?thesis using False R s by (simp add: Let_def)
  qed
qed

text \<open>The chunk selection is sorted and is a best-\<open>k\<close> selection of the candidates.\<close>

lemma min_idx_best:
  assumes "bitmap_ok bTaken n" and "\<forall>i<n. bitmap_get c i \<longrightarrow> \<not> fisnan (d ! i)"
  shows "best_k (\<lambda>i. fkey (d ! i)) k (mset (filter (bitmap_get c) [0..<n])) (mset (min_idx d n c k bTaken))"
    and "sorted (map (\<lambda>i. fkey (d ! i)) (min_idx d n c k bTaken))"
proof -
  have "free_idx n c (replicate (n div 8) 0) = set (filter (bitmap_get c) [0..<n])"
    using assms by (auto simp: free_idx_def bitmap_get_zero)
  then have "mset_set (free_idx n c (replicate (n div 8) 0)) = mset (filter (bitmap_get c) [0..<n])"
    by (metis distinct_filter distinct_upt mset_set_set)
  then show "best_k (\<lambda>i. fkey (d ! i)) k (mset (filter (bitmap_get c) [0..<n])) (mset (min_idx d n c k bTaken))"
    and "sorted (map (\<lambda>i. fkey (d ! i)) (min_idx d n c k bTaken))"
    using min_idx_loop_best [of n "replicate (n div 8) 0" c d k] assms by (simp_all add: min_idx_def)
qed

subsection \<open>The merge is the merge\<close>

definition hit_cmp :: "hit \<Rightarrow> hit \<Rightarrow> int" where
  "hit_cmp x y = (if fle (snd x) (snd y) then 0 else 1)"

definition row_hits :: "i64 list \<Rightarrow> f32 list \<Rightarrow> nat list \<Rightarrow> hits" where
  "row_hits rows ds idxs = map (\<lambda>i. (rows ! i, ds ! i)) idxs"

lemma row_hits_simps [simp]:
  "row_hits rows ds [] = []" "row_hits rows ds (i # is') = (rows ! i, ds ! i) # row_hits rows ds is'"
  by (simp_all add: row_hits_def)

lemma cmp_merge_Nil2 [simp]: "cmp_merge cmp xs [] = xs"
  by (cases xs) auto

lemma merge_loop_take:
  "merge_loop a ar n b br idxs m pa pb k =
     take k (cmp_merge hit_cmp (row_hits ar a [pa..<n]) (row_hits br b (map (nth idxs) [pb..<m])))"
proof (induction k arbitrary: pa pb)
  case 0
  then show ?case by simp
next
  case (Suc k)
  have a: "pa < n \<Longrightarrow> row_hits ar a [pa..<n] = (ar ! pa, a ! pa) # row_hits ar a [Suc pa..<n]"
    by (simp add: upt_conv_Cons)
  have b: "pb < m \<Longrightarrow> row_hits br b (map (nth idxs) [pb..<m]) =
      (br ! (idxs ! pb), b ! (idxs ! pb)) # row_hits br b (map (nth idxs) [Suc pb..<m])"
    by (simp add: upt_conv_Cons)
  show ?case
    by (cases "pa < n"; cases "pb < m") (simp_all add: Suc.IH a b Let_def hit_cmp_def)
qed

text \<open>The merge of the first \<open>a_length\<close> rows of one list with selected rows of a chunk.\<close>

lemma merge_sorted_lists_take:
  "merge_sorted_lists a ar n b br idxs (length idxs) k =
     take k (cmp_merge hit_cmp (row_hits ar a [0..<n]) (row_hits br b idxs))"
  by (simp add: merge_sorted_lists_def merge_loop_take map_nth)

lemma hit_cmp_by: "\<forall>h\<in>S. \<not> fisnan (snd h) \<Longrightarrow> cmp_by hit_cmp hit_key S"
  by (auto simp: cmp_by_def hit_cmp_def fle_def)

lemma row_hits_all: "length hs = n \<Longrightarrow> row_hits (map fst hs) (map snd hs) [0..<n] = hs"
  by (auto simp: row_hits_def intro: nth_equalityI)

lemma merge_best:
  assumes top: "best_k hit_key k M (mset hs)" "sorted (map hit_key hs)"
    and chunk: "best_k hit_key k N (mset (row_hits br b idxs))" "sorted (map hit_key (row_hits br b idxs))"
    and num: "\<forall>h\<in>#M + N. \<not> fisnan (snd h)"
  shows "best_k hit_key k (M + N)
      (mset (merge_sorted_lists (map snd hs) (map fst hs) (length hs) b br idxs (length idxs) k))"
    and "sorted (map hit_key
      (merge_sorted_lists (map snd hs) (map fst hs) (length hs) b br idxs (length idxs) k))"
proof -
  let ?m = "cmp_merge hit_cmp hs (row_hits br b idxs)"
  have "set hs \<union> set (row_hits br b idxs) \<subseteq> set_mset (M + N)"
    using top(1) chunk(1) by (metis Un_mono best_k_sub set_mset_mono set_mset_mset set_mset_union)
  then have "cmp_by hit_cmp hit_key (set hs \<union> set (row_hits br b idxs))"
    using num by (intro hit_cmp_by) blast
  then have s: "sorted (map hit_key ?m)" using top chunk by (intro sorted_cmp_merge)
  have "best_k hit_key k (mset hs + mset (row_hits br b idxs)) (mset (take k ?m))"
    using best_k_take [OF s, of k] by simp
  from best_k_union [OF top(1) chunk(1) this]
  show "best_k hit_key k (M + N)
      (mset (merge_sorted_lists (map snd hs) (map fst hs) (length hs) b br idxs (length idxs) k))"
    by (simp add: merge_sorted_lists_take row_hits_all)
  show "sorted (map hit_key
      (merge_sorted_lists (map snd hs) (map fst hs) (length hs) b br idxs (length idxs) k))"
    using s by (simp add: merge_sorted_lists_take row_hits_all take_map [symmetric])
qed

end
