(* ===== verification/Storage.thy ===== *)
theory Storage
  imports ByteIO Bitmap
begin

text \<open>
  What the virtual table uses of SQLite and of the C library to keep its rows: incremental blob I/O,
  the accessors of a dynamically typed value, and \<open>strncmp\<close>. A blob is the list of its bytes; reading or
  writing outside it is an error, and a blob that does not exist cannot be opened. Disk errors and
  failing closes are not modelled.
\<close>

named_theorems storage_simps \<open>reading a blob after a write\<close>

type_synonym 'a result = "sqlite_rc + 'a"

definition blob_open :: "(i64 \<Rightarrow> bytes option) \<Rightarrow> i64 \<Rightarrow> bytes result" where
  "blob_open table row = (case table row of Some b \<Rightarrow> Inr b | None \<Rightarrow> Inl SQLITE_ERROR)"

definition blob_read :: "bytes \<Rightarrow> nat \<Rightarrow> nat \<Rightarrow> bytes result" where
  "blob_read blob n offset =
     (if offset + n \<le> length blob then Inr (take n (drop offset blob)) else Inl SQLITE_ERROR)"

definition blob_write :: "bytes \<Rightarrow> bytes \<Rightarrow> nat \<Rightarrow> bytes result" where
  "blob_write blob new offset =
     (if offset + length new \<le> length blob
      then Inr (take offset blob @ new @ drop (offset + length new) blob) else Inl SQLITE_ERROR)"

text \<open>
  A value is what its accessors return. \<open>sqlite3_value_int\<close> is the low half of \<open>sqlite3_value_int64\<close>, and
  \<open>sqlite3_value_bytes\<close> the length of the text or blob.
\<close>

datatype sqlite_type = SQLITE_INTEGER | SQLITE_FLOAT | SQLITE_TEXT | SQLITE_BLOB | SQLITE_NULL

record sqlite3_value =
  value_type :: sqlite_type
  value_int64 :: i64
  value_double :: f64
  value_text :: bytes

definition sqlite3_value_int :: "sqlite3_value \<Rightarrow> int" where
  "sqlite3_value_int v = c_int (value_int64 v)"

definition sqlite3_value_bytes :: "sqlite3_value \<Rightarrow> int" where
  "sqlite3_value_bytes v = int (length (value_text v))"

text \<open>Strings are followed by a terminating zero byte; a comparison length is converted to \<open>size_t\<close>.\<close>

definition c_size :: "int \<Rightarrow> nat" where
  "c_size n = nat (n mod 2 ^ 64)"

fun c_char :: "bytes \<Rightarrow> 8 word" where
  "c_char [] = 0"
| "c_char (c # _) = c"

fun strncmp :: "bytes \<Rightarrow> bytes \<Rightarrow> nat \<Rightarrow> int" where
  "strncmp s t 0 = 0"
| "strncmp s t (Suc n) =
     (if c_char s \<noteq> c_char t then uint (c_char s) - uint (c_char t)
      else if c_char s = 0 then 0 else strncmp (tl s) (tl t) n)"

subsection \<open>Blobs\<close>

lemma length_blob_write: "blob_write blob new off = Inr b \<Longrightarrow> length b = length blob"
  by (auto simp: blob_write_def split: if_splits)

lemma blob_read_write_same [storage_simps]:
  "blob_write blob new off = Inr b \<Longrightarrow> n = length new \<Longrightarrow> blob_read b n off = Inr new"
  by (auto simp: blob_write_def blob_read_def split: if_splits)

lemma blob_write_nth:
  assumes "blob_write blob new off = Inr b"
  shows "b ! i = (if off \<le> i \<and> i < off + length new then new ! (i - off) else blob ! i)"
proof -
  have le: "off + length new \<le> length blob" and b: "b = take off blob @ new @ drop (off + length new) blob"
    using assms by (auto simp: blob_write_def split: if_splits)
  consider "i < off" | "off \<le> i" "i < off + length new" | "off + length new \<le> i" by linarith
  then show ?thesis
  proof cases
    case 2
    then have "i - off < length new" by linarith
    then show ?thesis using le b 2 by (simp add: nth_append)
  next
    case 3
    then have "\<not> i - off < length new" "off + length new + (i - off - length new) = i" by linarith+
    then show ?thesis using le b 3 by (simp add: nth_append)
  qed (use le b in \<open>simp_all add: nth_append\<close>)
qed

lemma take_drop_eqI:
  assumes "length a = length b" and "off + n \<le> length a" and "\<And>i. off \<le> i \<Longrightarrow> i < off + n \<Longrightarrow> a ! i = b ! i"
  shows "take n (drop off a) = take n (drop off b)"
  using assms by (intro nth_equalityI) auto

lemma blob_read_write_other [storage_simps]:
  assumes w: "blob_write blob new off = Inr b" and d: "off' + n \<le> off \<or> off + length new \<le> off'"
  shows "blob_read b n off' = blob_read blob n off'"
proof -
  have "take n (drop off' b) = take n (drop off' blob)" if "off' + n \<le> length blob"
    using that d length_blob_write [OF w] blob_write_nth [OF w] by (intro take_drop_eqI) auto
  then show ?thesis using length_blob_write [OF w] by (simp add: blob_read_def)
qed

lemma blob_write_ok: "off + length new \<le> length blob \<Longrightarrow> \<exists>b. blob_write blob new off = Inr b"
  by (simp add: blob_write_def)

text \<open>Slots of equal width do not overlap.\<close>

lemma slots_apart: "i \<noteq> j \<Longrightarrow> w * i + w \<le> w * j \<or> w * j + w \<le> w * (i::nat)"
proof -
  assume "i \<noteq> j"
  then consider "Suc i \<le> j" | "Suc j \<le> i" by linarith
  then show ?thesis
    by cases (metis mult_Suc_right add.commute mult_le_mono2)+
qed

lemma slot_inside: "i < n \<Longrightarrow> w * i + w \<le> w * (n::nat)"
  by (metis Suc_leI add.commute mult_Suc_right mult_le_mono2)

subsection \<open>Strings\<close>

text \<open>The order of byte strings that \<open>memcmp\<close> and the \<open>BINARY\<close> collation of SQLite use.\<close>

fun bytes_less :: "bytes \<Rightarrow> bytes \<Rightarrow> bool" where
  "bytes_less s [] = False"
| "bytes_less [] (t # ts) = True"
| "bytes_less (s # ss) (t # ts) = (s < t \<or> s = t \<and> bytes_less ss ts)"

abbreviation no_nul :: "bytes \<Rightarrow> bool" where
  "no_nul s \<equiv> 0 \<notin> set s"

lemma bytes_less_irrefl [simp]: "\<not> bytes_less s s"
  by (induction s) auto

lemma bytes_less_linear: "bytes_less s t \<or> s = t \<or> bytes_less t s"
  by (induction s t rule: bytes_less.induct) (auto split: if_splits, (case_tac s; simp)+)

lemma bytes_less_asym: "bytes_less s t \<Longrightarrow> \<not> bytes_less t s"
  by (induction s t rule: bytes_less.induct) auto

lemma strncmp_take: "n \<le> m \<Longrightarrow> strncmp (take m s) t n = strncmp s t n"
proof (induction n arbitrary: s t m)
  case (Suc n)
  then show ?case by (cases m; cases s) auto
qed simp

text \<open>Comparing as many bytes as the strings have is comparing the strings.\<close>

lemma strncmp_eq_iff:
  assumes "no_nul s" and "no_nul t" and "length s = n" and "length t = n"
  shows "strncmp s t n = 0 \<longleftrightarrow> s = t"
  using assms
proof (induction n arbitrary: s t)
  case (Suc n)
  then obtain a s' b t' where "s = a # s'" "t = b # t'" by (metis length_Suc_conv)
  then show ?case using Suc by (auto simp: word_uint_eq_iff [symmetric])
qed simp

text \<open>Comparing up to the length of the shorter string orders the strings, and then their lengths.\<close>

lemma strncmp_min_less:
  assumes "no_nul s" and "no_nul t" and "n = min (length s) (length t)"
  shows "(strncmp s t n < 0 \<or> strncmp s t n = 0 \<and> length s < length t) \<longleftrightarrow> bytes_less s t"
  using assms
proof (induction s t arbitrary: n rule: bytes_less.induct)
  case (3 s ss t ts)
  then obtain m where m: "n = Suc m" "m = min (length ss) (length ts)" by simp
  have "uint s - uint t < 0 \<longleftrightarrow> s < t" by (simp add: word_less_def)
  moreover have "uint s - uint t = 0 \<longleftrightarrow> s = t" by (simp add: word_uint_eq_iff)
  ultimately show ?case using 3 m by auto
qed auto

lemma strncmp_min_greater:
  assumes "no_nul s" and "no_nul t" and "n = min (length s) (length t)"
  shows "(strncmp s t n > 0 \<or> strncmp s t n = 0 \<and> length s > length t) \<longleftrightarrow> bytes_less t s"
  using strncmp_min_less [OF assms] strncmp_eq_iff [of s t n] bytes_less_linear [of s t]
    bytes_less_asym [of s t] assms
  by (metis bytes_less_irrefl less_irrefl linorder_less_linear min.idem order_less_asym)

lemma strncmp_append: "n \<le> length s \<Longrightarrow> strncmp (s @ z) t n = strncmp s t n"
  using strncmp_take [of n "length s" "s @ z" t] by simp

lemma strncmp_refl [simp]: "strncmp s s n = 0"
  by (induction n arbitrary: s) auto

text \<open>
  Comparing as many bytes as the left string has: a smaller right string is recognised, one that the
  left string is a prefix of counts as equal.
\<close>

lemma strncmp_full:
  assumes "no_nul s" and "no_nul t"
  shows "strncmp s t (length s) > 0 \<longleftrightarrow> bytes_less t s"
    and "strncmp s t (length s) = 0 \<longleftrightarrow> take (length s) t = s"
  using assms
proof (induction s arbitrary: t)
  case (Cons a s)
  {
    case 1
    then show ?case using Cons.IH(1) [of "tl t"]
      by (cases t) (auto simp: word_less_def word_uint_eq_iff unsigned_greater_eq order_less_le)
  next
    case 2
    then show ?case using Cons.IH(2) [of "tl t"]
      by (cases t) (auto simp: word_uint_eq_iff [symmetric] uint_0_iff)
  }
qed simp_all

lemma strncmp_full_ge:
  assumes "no_nul s" and "no_nul t"
  shows "strncmp s t (length s) \<ge> 0 \<longleftrightarrow> \<not> bytes_less s t \<or> take (length s) t = s"
    and "strncmp s t (length s) < 0 \<longleftrightarrow> bytes_less s t \<and> take (length s) t \<noteq> s"
proof -
  let ?c = "strncmp s t (length s)"
  have "\<not> bytes_less s t \<longleftrightarrow> bytes_less t s \<or> s = t"
    using bytes_less_linear [of s t] bytes_less_asym [of s t] by auto
  moreover have "?c \<ge> 0 \<longleftrightarrow> ?c > 0 \<or> ?c = 0" "?c < 0 \<longleftrightarrow> \<not> (?c > 0 \<or> ?c = 0)" by linarith+
  moreover note strncmp_full [OF assms]
  ultimately show "?c \<ge> 0 \<longleftrightarrow> \<not> bytes_less s t \<or> take (length s) t = s"
    and "?c < 0 \<longleftrightarrow> bytes_less s t \<and> take (length s) t \<noteq> s" by auto
qed

lemma prefix_not_greater: "take (length s) t = s \<Longrightarrow> \<not> bytes_less t s"
  by (induction s t rule: bytes_less.induct) auto

lemma c_size_of_nat: "n < 2 ^ 64 \<Longrightarrow> c_size (int n) = n"
  by (simp add: c_size_def nat_mod_distrib)

end
