(* ===== verification/Metadata.thy ===== *)
theory Metadata
  imports Storage
begin

text \<open>
  The metadata columns of a \<open>vec0\<close> table (\<^verbatim>\<open>sqlite-vec.c\<close>): per chunk a blob with one slot per row, a bit
  for a boolean, eight bytes for an integer or a float, and for a text its length with the first twelve
  bytes; longer texts are kept whole in a side table under the row id. This theory models writing,
  reading and clearing a slot, and the filters that turn a constraint into a bitmap of the chunk.
\<close>

subsection \<open>Columns\<close>

datatype vec0_metadata_column_kind =
    VEC0_METADATA_COLUMN_KIND_BOOLEAN
  | VEC0_METADATA_COLUMN_KIND_INTEGER
  | VEC0_METADATA_COLUMN_KIND_FLOAT
  | VEC0_METADATA_COLUMN_KIND_TEXT

datatype vec0_metadata_operator =
    VEC0_METADATA_OPERATOR_EQ | VEC0_METADATA_OPERATOR_GT | VEC0_METADATA_OPERATOR_LE
  | VEC0_METADATA_OPERATOR_LT | VEC0_METADATA_OPERATOR_GE | VEC0_METADATA_OPERATOR_NE
  | VEC0_METADATA_OPERATOR_IN

text \<open>A column with its two shadow tables: the chunk blobs and the long texts.\<close>

record meta_column =
  kind :: vec0_metadata_column_kind
  meta_chunks :: "i64 \<Rightarrow> bytes option"
  meta_text :: "i64 \<Rightarrow> bytes option"

definition vec0_metadata_chunk_size :: "vec0_metadata_column_kind \<Rightarrow> nat \<Rightarrow> nat" where
  "vec0_metadata_chunk_size k chunk_size =
     (case k of
        VEC0_METADATA_COLUMN_KIND_BOOLEAN \<Rightarrow> chunk_size div 8
      | VEC0_METADATA_COLUMN_KIND_INTEGER \<Rightarrow> chunk_size * 8
      | VEC0_METADATA_COLUMN_KIND_FLOAT \<Rightarrow> chunk_size * 8
      | VEC0_METADATA_COLUMN_KIND_TEXT \<Rightarrow> chunk_size * 16)"

definition vec0_get_metadata_text_long_value :: "meta_column \<Rightarrow> i64 \<Rightarrow> bytes result" where
  "vec0_get_metadata_text_long_value col rowid =
     (case meta_text col rowid of Some s \<Rightarrow> Inr s | None \<Rightarrow> Inl SQLITE_ERROR)"

subsection \<open>Writing a value\<close>

definition metadata_type_ok :: "vec0_metadata_column_kind \<Rightarrow> sqlite3_value \<Rightarrow> bool" where
  "metadata_type_ok k v =
     (case k of
        VEC0_METADATA_COLUMN_KIND_BOOLEAN \<Rightarrow>
          \<not> (value_type v \<noteq> SQLITE_INTEGER \<or> (sqlite3_value_int v \<noteq> 0 \<and> sqlite3_value_int v \<noteq> 1))
      | VEC0_METADATA_COLUMN_KIND_INTEGER \<Rightarrow> value_type v = SQLITE_INTEGER
      | VEC0_METADATA_COLUMN_KIND_FLOAT \<Rightarrow> value_type v = SQLITE_FLOAT
      | VEC0_METADATA_COLUMN_KIND_TEXT \<Rightarrow> value_type v = SQLITE_TEXT)"

definition text_view :: "bytes \<Rightarrow> bytes" where
  "text_view s = le_bytes 4 (int (length s)) @ take 12 s @ replicate (12 - length s) 0"

text \<open>
  The result of a blob write is dropped: the close of the blob, which succeeds, overwrites it. A write
  that fails leaves the blob as it was.
\<close>

definition put_slot :: "meta_column \<Rightarrow> i64 \<Rightarrow> bytes \<Rightarrow> bytes \<Rightarrow> nat \<Rightarrow> meta_column" where
  "put_slot col chunk_id blob new off =
     (case blob_write blob new off of
        Inr b \<Rightarrow> col\<lparr>meta_chunks := (meta_chunks col)(chunk_id \<mapsto> b)\<rparr>
      | Inl _ \<Rightarrow> col)"

text \<open>The boolean slot: one bit of one byte.\<close>

definition write_metadata_bool :: "meta_column \<Rightarrow> i64 \<Rightarrow> bytes \<Rightarrow> nat \<Rightarrow> bool \<Rightarrow> sqlite_rc \<times> meta_column" where
  "write_metadata_bool col chunk_id blob off v =
     (case blob_read blob 1 (off div 8) of
        Inl rc \<Rightarrow> (rc, col)
      | Inr bs \<Rightarrow>
          (let block = bs ! 0;
               block' = (if v then block OR push_bit (off mod 8) 1 else block AND NOT (push_bit (off mod 8) 1))
           in (SQLITE_OK, put_slot col chunk_id blob [block'] (off div 8))))"

text \<open>The text slot: the view, and the side table when the new or the old text is long.\<close>

definition write_metadata_text ::
  "meta_column \<Rightarrow> i64 \<Rightarrow> i64 \<Rightarrow> bytes \<Rightarrow> nat \<Rightarrow> bytes \<Rightarrow> bool \<Rightarrow> sqlite_rc \<times> meta_column" where
  "write_metadata_text col rowid chunk_id blob off s isupdate =
     (case blob_read blob 4 (off * 16) of
        Inl rc \<Rightarrow> (rc, col)
      | Inr bs \<Rightarrow>
          (let prev_n = c_int (le_int bs);
               n = length s;
               col' = put_slot col chunk_id blob (text_view s) (off * 16)
           in if n > 12 then
                (if isupdate \<and> prev_n > 12
                 then (SQLITE_OK, col'\<lparr>meta_text := (meta_text col')(rowid :=
                         (if meta_text col' rowid = None then None else Some s))\<rparr>)
                 else if meta_text col' rowid = None
                 then (SQLITE_OK, col'\<lparr>meta_text := (meta_text col')(rowid \<mapsto> s)\<rparr>)
                 else (SQLITE_ERROR, col'))
              else if prev_n > 12 then (SQLITE_OK, col'\<lparr>meta_text := (meta_text col')(rowid := None)\<rparr>)
              else (SQLITE_OK, col')))"

definition vec0_write_metadata_value ::
  "meta_column \<Rightarrow> i64 \<Rightarrow> i64 \<Rightarrow> nat \<Rightarrow> sqlite3_value \<Rightarrow> bool \<Rightarrow> sqlite_rc \<times> meta_column" where
  "vec0_write_metadata_value col rowid chunk_id chunk_offset v isupdate =
     (if \<not> metadata_type_ok (kind col) v then (SQLITE_ERROR, col)
      else case blob_open (meta_chunks col) chunk_id of
        Inl rc \<Rightarrow> (rc, col)
      | Inr blob \<Rightarrow>
          (case kind col of
             VEC0_METADATA_COLUMN_KIND_BOOLEAN \<Rightarrow>
               write_metadata_bool col chunk_id blob chunk_offset (sqlite3_value_int v \<noteq> 0)
           | VEC0_METADATA_COLUMN_KIND_INTEGER \<Rightarrow>
               (SQLITE_OK, put_slot col chunk_id blob (le_bytes 8 (value_int64 v)) (chunk_offset * 8))
           | VEC0_METADATA_COLUMN_KIND_FLOAT \<Rightarrow>
               (SQLITE_OK, put_slot col chunk_id blob (le_bytes 8 (uint (value_double v))) (chunk_offset * 8))
           | VEC0_METADATA_COLUMN_KIND_TEXT \<Rightarrow>
               write_metadata_text col rowid chunk_id blob chunk_offset (value_text v) isupdate))"

subsection \<open>Reading and clearing a value\<close>

datatype meta_value = MBool bool | MInt i64 | MFloat f64 | MText bytes

text \<open>A text result with a negative length ends at the first zero byte.\<close>

definition result_text :: "bytes \<Rightarrow> int \<Rightarrow> bytes" where
  "result_text s len = (if len < 0 then takeWhile (\<lambda>c. c \<noteq> 0) s else take (nat len) s)"

text \<open>\<open>position\<close> is the lookup of \<open>vec0_get_chunk_position\<close> in the row id table.\<close>

definition vec0_result_metadata_value_for_rowid ::
  "(i64 \<Rightarrow> (i64 \<times> nat) option) \<Rightarrow> meta_column \<Rightarrow> i64 \<Rightarrow> meta_value result" where
  "vec0_result_metadata_value_for_rowid position col rowid =
     (case position rowid of
        None \<Rightarrow> Inl SQLITE_EMPTY
      | Some (chunk_id, off) \<Rightarrow>
     (case blob_open (meta_chunks col) chunk_id of
        Inl rc \<Rightarrow> Inl rc
      | Inr blob \<Rightarrow>
     (case kind col of
        VEC0_METADATA_COLUMN_KIND_BOOLEAN \<Rightarrow>
          (case blob_read blob 1 (off div 8) of
             Inl rc \<Rightarrow> Inl rc
           | Inr bs \<Rightarrow> Inr (MBool (drop_bit (off mod 8) (bs ! 0) AND 1 \<noteq> 0)))
      | VEC0_METADATA_COLUMN_KIND_INTEGER \<Rightarrow>
          (case blob_read blob 8 (off * 8) of
             Inl rc \<Rightarrow> Inl rc
           | Inr bs \<Rightarrow> Inr (MInt (c_i64 (le_int bs))))
      | VEC0_METADATA_COLUMN_KIND_FLOAT \<Rightarrow>
          (case blob_read blob 8 (off * 8) of
             Inl rc \<Rightarrow> Inl rc
           | Inr bs \<Rightarrow> Inr (MFloat (word_of_int (le_int bs))))
      | VEC0_METADATA_COLUMN_KIND_TEXT \<Rightarrow>
          (case blob_read blob 16 (off * 16) of
             Inl rc \<Rightarrow> Inl rc
           | Inr view \<Rightarrow>
               (let len = c_int (le_int (take 4 view)) in
                if len \<le> 12 then Inr (MText (result_text (drop 4 view) len))
                else case meta_text col rowid of
                       None \<Rightarrow> Inl SQLITE_ERROR
                     | Some s \<Rightarrow> Inr (MText s))))))"

definition put_cleared :: "meta_column \<Rightarrow> i64 \<Rightarrow> bytes \<Rightarrow> bytes \<Rightarrow> nat \<Rightarrow> sqlite_rc \<times> meta_column" where
  "put_cleared col chunk_id blob new off =
     (case blob_write blob new off of
        Inr b \<Rightarrow> (SQLITE_OK, col\<lparr>meta_chunks := (meta_chunks col)(chunk_id \<mapsto> b)\<rparr>)
      | Inl rc \<Rightarrow> (rc, col))"

definition vec0Update_Delete_ClearMetadata ::
  "meta_column \<Rightarrow> i64 \<Rightarrow> i64 \<Rightarrow> nat \<Rightarrow> sqlite_rc \<times> meta_column" where
  "vec0Update_Delete_ClearMetadata col rowid chunk_id off =
     (case blob_open (meta_chunks col) chunk_id of
        Inl rc \<Rightarrow> (rc, col)
      | Inr blob \<Rightarrow>
          (case kind col of
             VEC0_METADATA_COLUMN_KIND_BOOLEAN \<Rightarrow>
               (case blob_read blob 1 (off div 8) of
                  Inl rc \<Rightarrow> (rc, col)
                | Inr bs \<Rightarrow> put_cleared col chunk_id blob [bs ! 0 AND NOT (push_bit (off mod 8) 1)] (off div 8))
           | VEC0_METADATA_COLUMN_KIND_INTEGER \<Rightarrow> put_cleared col chunk_id blob (le_bytes 8 0) (off * 8)
           | VEC0_METADATA_COLUMN_KIND_FLOAT \<Rightarrow> put_cleared col chunk_id blob (le_bytes 8 0) (off * 8)
           | VEC0_METADATA_COLUMN_KIND_TEXT \<Rightarrow>
               (case blob_read blob 4 (off * 16) of
                  Inl rc \<Rightarrow> (rc, col)
                | Inr bs \<Rightarrow>
                    (case put_cleared col chunk_id blob (replicate 16 0) (off * 16) of
                       (SQLITE_OK, col') \<Rightarrow>
                         if c_int (le_int bs) > 12
                         then (SQLITE_OK, col'\<lparr>meta_text := (meta_text col')(rowid := None)\<rparr>)
                         else (SQLITE_OK, col')
                     | (rc, col') \<Rightarrow> (rc, col')))))"

subsection \<open>The value a slot holds\<close>

text \<open>
  The abstraction of the column: the slot at \<open>off\<close> of a chunk holds the value \<open>v\<close> of the row \<open>rowid\<close>. The
  side table has an entry for the row exactly when its text does not fit the view.
\<close>

fun slot_repr :: "(i64 \<Rightarrow> bytes option) \<Rightarrow> bytes \<Rightarrow> i64 \<Rightarrow> nat \<Rightarrow> meta_value \<Rightarrow> bool" where
  "slot_repr texts blob rowid off (MBool b) \<longleftrightarrow> off div 8 < length blob \<and> bitmap_get blob off = b"
| "slot_repr texts blob rowid off (MInt x) \<longleftrightarrow>
     blob_read blob 8 (off * 8) = Inr (le_bytes 8 x) \<and> - (2 ^ 63) \<le> x \<and> x < 2 ^ 63"
| "slot_repr texts blob rowid off (MFloat d) \<longleftrightarrow> blob_read blob 8 (off * 8) = Inr (le_bytes 8 (uint d))"
| "slot_repr texts blob rowid off (MText t) \<longleftrightarrow>
     blob_read blob 16 (off * 16) = Inr (text_view t) \<and> length t < 2 ^ 31
     \<and> texts rowid = (if length t > 12 then Some t else None)"

fun kind_of :: "meta_value \<Rightarrow> vec0_metadata_column_kind" where
  "kind_of (MBool _) = VEC0_METADATA_COLUMN_KIND_BOOLEAN"
| "kind_of (MInt _) = VEC0_METADATA_COLUMN_KIND_INTEGER"
| "kind_of (MFloat _) = VEC0_METADATA_COLUMN_KIND_FLOAT"
| "kind_of (MText _) = VEC0_METADATA_COLUMN_KIND_TEXT"

definition meta_repr :: "meta_column \<Rightarrow> i64 \<Rightarrow> i64 \<Rightarrow> nat \<Rightarrow> meta_value \<Rightarrow> bool" where
  "meta_repr col rowid chunk_id off v \<longleftrightarrow>
     kind_of v = kind col
     \<and> (case meta_chunks col chunk_id of None \<Rightarrow> False
        | Some blob \<Rightarrow> slot_repr (meta_text col) blob rowid off v)"

definition value_of :: "vec0_metadata_column_kind \<Rightarrow> sqlite3_value \<Rightarrow> meta_value" where
  "value_of k v =
     (case k of
        VEC0_METADATA_COLUMN_KIND_BOOLEAN \<Rightarrow> MBool (sqlite3_value_int v \<noteq> 0)
      | VEC0_METADATA_COLUMN_KIND_INTEGER \<Rightarrow> MInt (value_int64 v)
      | VEC0_METADATA_COLUMN_KIND_FLOAT \<Rightarrow> MFloat (value_double v)
      | VEC0_METADATA_COLUMN_KIND_TEXT \<Rightarrow> MText (value_text v))"

fun long_text :: "meta_value \<Rightarrow> bool" where
  "long_text (MText t) = (length t > 12)"
| "long_text _ = False"

lemma kind_of_cases:
  "kind_of v = VEC0_METADATA_COLUMN_KIND_BOOLEAN \<Longrightarrow> \<exists>b. v = MBool b"
  "kind_of v = VEC0_METADATA_COLUMN_KIND_INTEGER \<Longrightarrow> \<exists>x. v = MInt x"
  "kind_of v = VEC0_METADATA_COLUMN_KIND_FLOAT \<Longrightarrow> \<exists>d. v = MFloat d"
  "kind_of v = VEC0_METADATA_COLUMN_KIND_TEXT \<Longrightarrow> \<exists>t. v = MText t"
  by (cases v; simp)+

lemma length_text_view [simp]: "length (text_view t) = 16"
  by (simp add: text_view_def)

lemma text_view_length: "length t < 2 ^ 31 \<Longrightarrow> c_int (le_int (take 4 (text_view t))) = int (length t)"
  by (simp add: text_view_def le_int_le_bytes c_int_id)

lemma text_view_prefix: "drop 4 (text_view t) = take 12 t @ replicate (12 - length t) 0"
  by (simp add: text_view_def)

lemma blob_read_prefix:
  "blob_read blob n off = Inr bs \<Longrightarrow> m \<le> n \<Longrightarrow> blob_read blob m off = Inr (take m bs)"
  by (auto simp: blob_read_def min_def split: if_splits)

lemma blob_read_bound: "blob_read blob n off = Inr bs \<Longrightarrow> off + n \<le> length blob \<and> length bs = n"
  by (auto simp: blob_read_def split: if_splits)

lemma le_int_i64: "- (2 ^ 63) \<le> x \<Longrightarrow> x < 2 ^ 63 \<Longrightarrow> c_i64 (le_int (le_bytes 8 x)) = x"
  using c_i64_mod [of x] by (simp add: le_int_le_bytes c_i64_id)

lemma le_int_f64: "word_of_int (le_int (le_bytes 8 (uint d))) = (d :: f64)"
proof -
  have "uint d < 2 ^ 64" using uint_lt2p [of d] by simp
  then have "uint d mod 256 ^ 8 = uint d" by simp
  then show ?thesis by (simp add: le_int_le_bytes)
qed

text \<open>Reading a represented slot returns its value.\<close>

lemma slot_repr_read_text:
  assumes "slot_repr texts blob rowid off (MText t)"
  shows "blob_read blob 4 (off * 16) = Inr (take 4 (text_view t))"
  using assms blob_read_prefix [of blob 16 "off * 16" "text_view t" 4] by simp

lemma read_metadata_value:
  assumes "meta_repr col rowid chunk_id off v" and "position rowid = Some (chunk_id, off)"
  shows "vec0_result_metadata_value_for_rowid position col rowid = Inr v"
proof -
  obtain blob where blob: "meta_chunks col chunk_id = Some blob" "slot_repr (meta_text col) blob rowid off v"
    and k: "kind col = kind_of v"
    using assms(1) by (auto simp: meta_repr_def split: option.splits)
  show ?thesis
  proof (cases v)
    case (MBool b)
    then have "blob_read blob 1 (off div 8) = Inr [blob ! (off div 8)]"
      using blob(2) by (simp add: blob_read_def take_Suc_conv_app_nth)
    then show ?thesis using assms(2) blob k MBool
      by (simp add: vec0_result_metadata_value_for_rowid_def blob_open_def bitmap_get_def)
  next
    case (MInt x)
    then show ?thesis using assms(2) blob k le_int_i64 [of x]
      by (simp add: vec0_result_metadata_value_for_rowid_def blob_open_def)
  next
    case (MFloat d)
    then show ?thesis using assms(2) blob k le_int_f64 [of d]
      by (simp add: vec0_result_metadata_value_for_rowid_def blob_open_def)
  next
    case (MText t)
    then have "length t < 2 ^ 31" using blob(2) by simp
    then show ?thesis using assms(2) blob k MText text_view_length [of t]
      by (auto simp: vec0_result_metadata_value_for_rowid_def blob_open_def Let_def result_text_def
          text_view_prefix)
  qed
qed

subsection \<open>Writing and clearing change one slot\<close>

text \<open>
  \<open>slot_holds col texts r c i w\<close> says that slot \<open>i\<close> of chunk \<open>c\<close> holds the value \<open>w\<close>, with long texts looked up in
  \<open>texts\<close>. \<open>col'\<close> is \<open>col\<close> with the value of one row replaced: every other slot holds what it held, and every
  other row keeps its entry in the side table.
\<close>

definition slot_holds ::
  "meta_column \<Rightarrow> (i64 \<Rightarrow> bytes option) \<Rightarrow> i64 \<Rightarrow> i64 \<Rightarrow> nat \<Rightarrow> meta_value \<Rightarrow> bool" where
  "slot_holds col texts r c i w \<longleftrightarrow>
     kind_of w = kind col
     \<and> (case meta_chunks col c of None \<Rightarrow> False | Some blob \<Rightarrow> slot_repr texts blob r i w)"

definition slot_update :: "meta_column \<Rightarrow> meta_column \<Rightarrow> i64 \<Rightarrow> i64 \<Rightarrow> nat \<Rightarrow> meta_value \<Rightarrow> bool" where
  "slot_update col col' rowid chunk_id off v \<longleftrightarrow>
     meta_repr col' rowid chunk_id off v
     \<and> kind col' = kind col
     \<and> (\<forall>r. r \<noteq> rowid \<longrightarrow> meta_text col' r = meta_text col r)
     \<and> (\<forall>texts r c i w. (c, i) \<noteq> (chunk_id, off) \<longrightarrow> slot_holds col texts r c i w \<longrightarrow> slot_holds col' texts r c i w)"

lemma slot_repr_texts:
  "texts' rowid = texts rowid \<Longrightarrow> slot_repr texts' blob rowid off v = slot_repr texts blob rowid off v"
  by (cases v) auto

lemma meta_repr_holds: "meta_repr col r c i w \<longleftrightarrow> slot_holds col (meta_text col) r c i w"
  by (simp add: meta_repr_def slot_holds_def)

lemma slot_holds_texts: "texts' r = texts r \<Longrightarrow> slot_holds col texts' r c i w = slot_holds col texts r c i w"
  using slot_repr_texts [of texts' r texts] by (simp add: slot_holds_def split: option.split)

text \<open>Every other row keeps the value it holds.\<close>

lemma slot_update_other:
  assumes "slot_update col col' rowid c off v" and "r \<noteq> rowid" and "(c', i) \<noteq> (c, off)"
    and "meta_repr col r c' i w"
  shows "meta_repr col' r c' i w"
  using assms slot_holds_texts [of "meta_text col'" r "meta_text col" col' c' i w]
  unfolding slot_update_def meta_repr_holds by blast

lemma slot_updateI:
  assumes blob: "meta_chunks col chunk_id = Some blob"
    and col': "kind col' = kind col" "meta_chunks col' = (meta_chunks col)(chunk_id \<mapsto> b)"
    and texts: "\<And>r. r \<noteq> rowid \<Longrightarrow> meta_text col' r = meta_text col r"
    and new: "kind_of v = kind col" "slot_repr (meta_text col') b rowid off v"
    and frame: "\<And>texts i r w. i \<noteq> off \<Longrightarrow> kind_of w = kind col \<Longrightarrow> slot_repr texts blob r i w \<Longrightarrow>
      slot_repr texts b r i w"
  shows "slot_update col col' rowid chunk_id off v"
  unfolding slot_update_def
proof (intro conjI allI impI)
  show "meta_repr col' rowid chunk_id off v" using col' new by (simp add: meta_repr_def)
  show "kind col' = kind col" by (rule col'(1))
  show "\<And>r. r \<noteq> rowid \<Longrightarrow> meta_text col' r = meta_text col r" by (rule texts)
  fix texts r c i w
  assume ci: "(c, i) \<noteq> (chunk_id, off)" and w: "slot_holds col texts r c i w"
  then show "slot_holds col' texts r c i w"
    using blob col' frame [of i w texts r] by (cases "c = chunk_id") (auto simp: slot_holds_def)
qed

lemma slot_frame:
  assumes "blob_write blob new (off * w) = Inr b" and "length new = w" and "i \<noteq> off"
  shows "blob_read b w (i * w) = blob_read blob w (i * w)"
  using blob_read_write_other [OF assms(1), of "i * w" w] slots_apart [of i off w] assms(2,3)
  by (auto simp: mult.commute)

lemma slot_repr_frame:
  assumes "blob_write blob new (off * w) = Inr b" and "length new = w" and "i \<noteq> off"
    and "slot_repr texts blob r i v" and "kind_of v = VEC0_METADATA_COLUMN_KIND_TEXT \<and> w = 16
      \<or> kind_of v \<in> {VEC0_METADATA_COLUMN_KIND_INTEGER, VEC0_METADATA_COLUMN_KIND_FLOAT} \<and> w = 8"
  shows "slot_repr texts b r i v"
  using slot_frame [OF assms(1-3)] assms(4,5) by (cases v) auto

lemma blob_write_byte: "i < length blob \<Longrightarrow> blob_write blob [x] i = Inr (blob[i := x])"
  by (simp add: blob_write_def upd_conv_take_nth_drop)

lemma blob_read_byte: "i < length blob \<Longrightarrow> blob_read blob 1 i = Inr [blob ! i]"
  by (simp add: blob_read_def take_Suc_conv_app_nth)

lemma slot_update_bool:
  assumes blob: "meta_chunks col chunk_id = Some blob" and k: "kind col = VEC0_METADATA_COLUMN_KIND_BOOLEAN"
    and off: "off div 8 < length blob"
  shows "slot_update col (col\<lparr>meta_chunks := (meta_chunks col)(chunk_id \<mapsto> bitmap_set blob off v)\<rparr>)
           rowid chunk_id off (MBool v)"
proof (rule slot_updateI [OF blob])
  fix texts i r w
  assume "i \<noteq> off" "kind_of w = kind col" "slot_repr texts blob r i w"
  then show "slot_repr texts (bitmap_set blob off v) r i w"
    using k off by (cases w) (auto simp: bitmap_get_set)
qed (use k off in \<open>simp_all add: bitmap_get_set\<close>)

lemma slot_update_wide:
  assumes blob: "meta_chunks col chunk_id = Some blob" and w: "blob_write blob new (off * 8) = Inr b" "length new = 8"
    and k: "kind col \<in> {VEC0_METADATA_COLUMN_KIND_INTEGER, VEC0_METADATA_COLUMN_KIND_FLOAT}"
    and v: "kind_of v = kind col" "slot_repr (meta_text col) b rowid off v"
  shows "slot_update col (col\<lparr>meta_chunks := (meta_chunks col)(chunk_id \<mapsto> b)\<rparr>) rowid chunk_id off v"
proof (rule slot_updateI [OF blob])
  fix texts i r x
  assume "i \<noteq> off" "kind_of x = kind col" "slot_repr texts blob r i x"
  then show "slot_repr texts b r i x" using slot_repr_frame [OF w, of i _ r x] k by simp
qed (use v in simp_all)

lemma slot_update_text:
  assumes blob: "meta_chunks col chunk_id = Some blob" and w: "blob_write blob (text_view t) (off * 16) = Inr b"
    and k: "kind col = VEC0_METADATA_COLUMN_KIND_TEXT" and t: "length t < 2 ^ 31"
    and texts: "texts' = (meta_text col)(rowid := (if length t > 12 then Some t else None))"
  shows "slot_update col (col\<lparr>meta_chunks := (meta_chunks col)(chunk_id \<mapsto> b), meta_text := texts'\<rparr>)
           rowid chunk_id off (MText t)"
proof (rule slot_updateI [OF blob])
  fix texts i r x
  assume "i \<noteq> off" "kind_of x = kind col" "slot_repr texts blob r i x"
  then show "slot_repr texts b r i x" using slot_repr_frame [OF w length_text_view] k by simp
next
  show "slot_repr (meta_text (col\<lparr>meta_chunks := (meta_chunks col)(chunk_id \<mapsto> b), meta_text := texts'\<rparr>))
      b rowid off (MText t)"
    using t blob_read_write_same [OF w, of 16] texts by simp
qed (use k texts in simp_all)

text \<open>The write of a text: the view and the side table agree again.\<close>

lemma write_metadata_text_update:
  assumes blob: "meta_chunks col chunk_id = Some blob" and k: "kind col = VEC0_METADATA_COLUMN_KIND_TEXT"
    and old: "slot_repr (meta_text col) blob rowid off (MText t)" and s: "length s < 2 ^ 31"
    and new: "isupdate \<or> length t \<le> 12"
  shows "\<exists>col'. write_metadata_text col rowid chunk_id blob off s isupdate = (SQLITE_OK, col')
    \<and> slot_update col col' rowid chunk_id off (MText s)"
proof -
  have "off * 16 + 16 \<le> length blob" using old blob_read_bound [of blob 16 "off * 16"] by auto
  then obtain b where b: "blob_write blob (text_view s) (off * 16) = Inr b"
    using blob_write_ok [of "off * 16" "text_view s" blob] by auto
  have prev: "c_int (le_int (take 4 (text_view t))) = int (length t)"
    using old text_view_length [of t] by simp
  let ?col = "\<lambda>texts. col\<lparr>meta_chunks := (meta_chunks col)(chunk_id \<mapsto> b), meta_text := texts\<rparr>"
  let ?texts = "(meta_text col)(rowid := (if length s > 12 then Some s else None))"
  have same: "length s \<le> 12 \<Longrightarrow> length t \<le> 12 \<Longrightarrow> ?texts = meta_text col"
    using old by (auto simp: fun_eq_iff)
  have "write_metadata_text col rowid chunk_id blob off s isupdate = (SQLITE_OK, ?col ?texts)"
    using slot_repr_read_text [OF old] b prev old new same
    by (auto simp: write_metadata_text_def put_slot_def Let_def)
  then show ?thesis using slot_update_text [OF blob b k s] by auto
qed

fun cleared_value :: "vec0_metadata_column_kind \<Rightarrow> meta_value" where
  "cleared_value VEC0_METADATA_COLUMN_KIND_BOOLEAN = MBool False"
| "cleared_value VEC0_METADATA_COLUMN_KIND_INTEGER = MInt 0"
| "cleared_value VEC0_METADATA_COLUMN_KIND_FLOAT = MFloat 0"
| "cleared_value VEC0_METADATA_COLUMN_KIND_TEXT = MText []"

lemma meta_reprE:
  assumes "meta_repr col rowid chunk_id off v"
  obtains blob where "meta_chunks col chunk_id = Some blob" and "kind col = kind_of v"
    and "slot_repr (meta_text col) blob rowid off v"
  using assms by (auto simp: meta_repr_def split: option.splits)

lemma wide_write_ok:
  assumes "blob_read blob 8 (off * 8) = Inr bs" and "length new = 8"
  shows "\<exists>b. blob_write blob new (off * 8) = Inr b \<and> blob_read b 8 (off * 8) = Inr new"
proof -
  have "off * 8 + length new \<le> length blob" using blob_read_bound [OF assms(1)] assms(2) by simp
  then obtain b where "blob_write blob new (off * 8) = Inr b" using blob_write_ok by blast
  then show ?thesis using blob_read_write_same assms(2) by metis
qed

lemma write_metadata_update:
  assumes "meta_repr col rowid chunk_id off old" and "metadata_type_ok (kind col) v"
    and "- (2 ^ 63) \<le> value_int64 v" and "value_int64 v < 2 ^ 63" and "length (value_text v) < 2 ^ 31"
    and "isupdate \<or> \<not> long_text old"
  shows "\<exists>col'. vec0_write_metadata_value col rowid chunk_id off v isupdate = (SQLITE_OK, col')
    \<and> slot_update col col' rowid chunk_id off (value_of (kind col) v)"
proof -
  obtain blob where blob: "meta_chunks col chunk_id = Some blob" "kind col = kind_of old"
    "slot_repr (meta_text col) blob rowid off old"
    using assms(1) by (rule meta_reprE)
  show ?thesis
  proof (cases old)
    case (MBool b)
    then have off: "off div 8 < length blob" using blob by simp
    have "vec0_write_metadata_value col rowid chunk_id off v isupdate = (SQLITE_OK,
        col\<lparr>meta_chunks := (meta_chunks col)(chunk_id \<mapsto> bitmap_set blob off (sqlite3_value_int v \<noteq> 0))\<rparr>)"
      using assms(2) blob MBool blob_read_byte [OF off] blob_write_byte [OF off]
      by (simp add: vec0_write_metadata_value_def blob_open_def write_metadata_bool_def put_slot_def
          bitmap_set_def Let_def)
    then show ?thesis using slot_update_bool [OF blob(1) _ off] blob(2) MBool by (simp add: value_of_def)
  next
    case (MInt x)
    then obtain b where b: "blob_write blob (le_bytes 8 (value_int64 v)) (off * 8) = Inr b"
      "blob_read b 8 (off * 8) = Inr (le_bytes 8 (value_int64 v))"
      using blob(3) wide_write_ok [of blob off _ "le_bytes 8 (value_int64 v)"] by auto
    then show ?thesis
      using assms(2-4) blob MInt slot_update_wide [OF blob(1) b(1), of "MInt (value_int64 v)"]
      by (simp add: vec0_write_metadata_value_def blob_open_def put_slot_def value_of_def)
  next
    case (MFloat d)
    then obtain b where b: "blob_write blob (le_bytes 8 (uint (value_double v))) (off * 8) = Inr b"
      "blob_read b 8 (off * 8) = Inr (le_bytes 8 (uint (value_double v)))"
      using blob(3) wide_write_ok [of blob off _ "le_bytes 8 (uint (value_double v))"] by auto
    then show ?thesis
      using assms(2) blob MFloat slot_update_wide [OF blob(1) b(1), of "MFloat (value_double v)"]
      by (simp add: vec0_write_metadata_value_def blob_open_def put_slot_def value_of_def)
  next
    case (MText t)
    then show ?thesis
      using assms(2,5,6) blob write_metadata_text_update [of col chunk_id blob rowid off t "value_text v" isupdate]
      by (auto simp: vec0_write_metadata_value_def blob_open_def value_of_def)
  qed
qed

text \<open>
  C20. Storing a value of the right type in a metadata column succeeds, the column then reads back
  that value for the row, and every other row keeps the value it had, for all four kinds of column and
  for texts that move between the inline view and the side table.
\<close>

theorem metadata_write_replaces_value:
  assumes "meta_repr col rowid chunk_id off old" and "metadata_type_ok (kind col) v"
    and "- (2 ^ 63) \<le> value_int64 v" and "value_int64 v < 2 ^ 63" and "length (value_text v) < 2 ^ 31"
    and "isupdate \<or> \<not> long_text old" and "position rowid = Some (chunk_id, off)"
  shows "\<exists>col'. vec0_write_metadata_value col rowid chunk_id off v isupdate = (SQLITE_OK, col')
    \<and> slot_update col col' rowid chunk_id off (value_of (kind col) v)
    \<and> vec0_result_metadata_value_for_rowid position col' rowid = Inr (value_of (kind col) v)"
proof -
  obtain col' where col': "vec0_write_metadata_value col rowid chunk_id off v isupdate = (SQLITE_OK, col')"
    "slot_update col col' rowid chunk_id off (value_of (kind col) v)"
    using write_metadata_update [OF assms(1-6)] by blast
  then have "meta_repr col' rowid chunk_id off (value_of (kind col) v)" by (simp add: slot_update_def)
  from read_metadata_value [of _ _ chunk_id off, OF this, of position] assms(7) col' show ?thesis by blast
qed

text \<open>A text column with one empty chunk of eight rows.\<close>

definition sample_column :: meta_column where
  "sample_column = \<lparr>kind = VEC0_METADATA_COLUMN_KIND_TEXT, meta_chunks = [1 \<mapsto> replicate 128 0],
     meta_text = (\<lambda>_. None)\<rparr>"

definition sample_text :: "bytes \<Rightarrow> sqlite3_value" where
  "sample_text s = \<lparr>value_type = SQLITE_TEXT, value_int64 = 0, value_double = 0, value_text = s\<rparr>"

lemma text_view_Nil: "text_view [] = replicate 16 0"
  by (simp add: text_view_def numeral_eq_Suc)

lemma sample_column_repr: "off < 8 \<Longrightarrow> meta_repr sample_column rowid 1 off (MText [])"
  by (simp add: meta_repr_def sample_column_def text_view_Nil blob_read_def)

theorem metadata_write_replaces_value_witness:
  "\<exists>col'. vec0_write_metadata_value sample_column 5 1 2 (sample_text (replicate 13 65)) False = (SQLITE_OK, col')
    \<and> slot_update sample_column col' 5 1 2 (MText (replicate 13 65))
    \<and> vec0_result_metadata_value_for_rowid [5 \<mapsto> (1, 2)] col' 5 = Inr (MText (replicate 13 65))"
proof -
  have "value_of (kind sample_column) (sample_text (replicate 13 65)) = MText (replicate 13 65)"
    by (simp add: sample_column_def sample_text_def value_of_def)
  then show ?thesis
    using metadata_write_replaces_value [OF sample_column_repr, of 2 "sample_text (replicate 13 65)" False
        "[5 \<mapsto> (1, 2)]" 5]
    by (simp add: sample_column_def sample_text_def metadata_type_ok_def)
qed

lemma clear_metadata_update:
  assumes "meta_repr col rowid chunk_id off old"
  shows "\<exists>col'. vec0Update_Delete_ClearMetadata col rowid chunk_id off = (SQLITE_OK, col')
    \<and> slot_update col col' rowid chunk_id off (cleared_value (kind col))"
proof -
  obtain blob where blob: "meta_chunks col chunk_id = Some blob" "kind col = kind_of old"
    "slot_repr (meta_text col) blob rowid off old"
    using assms(1) by (rule meta_reprE)
  show ?thesis
  proof (cases old)
    case (MBool b)
    then have off: "off div 8 < length blob" using blob by simp
    have "vec0Update_Delete_ClearMetadata col rowid chunk_id off = (SQLITE_OK,
        col\<lparr>meta_chunks := (meta_chunks col)(chunk_id \<mapsto> bitmap_set blob off False)\<rparr>)"
      using blob MBool blob_read_byte [OF off] blob_write_byte [OF off]
      by (simp add: vec0Update_Delete_ClearMetadata_def blob_open_def put_cleared_def bitmap_set_def)
    then show ?thesis using slot_update_bool [OF blob(1) _ off] blob(2) MBool by simp
  next
    case (MInt x)
    then obtain b where b: "blob_write blob (le_bytes 8 0) (off * 8) = Inr b"
      "blob_read b 8 (off * 8) = Inr (le_bytes 8 0)"
      using blob(3) wide_write_ok [of blob off _ "le_bytes 8 0"] by auto
    then show ?thesis using blob MInt slot_update_wide [OF blob(1) b(1), of "MInt 0"]
      by (simp add: vec0Update_Delete_ClearMetadata_def blob_open_def put_cleared_def)
  next
    case (MFloat d)
    then obtain b where b: "blob_write blob (le_bytes 8 0) (off * 8) = Inr b"
      "blob_read b 8 (off * 8) = Inr (le_bytes 8 0)"
      using blob(3) wide_write_ok [of blob off _ "le_bytes 8 0"] by auto
    then show ?thesis using blob MFloat slot_update_wide [OF blob(1) b(1), of "MFloat 0"]
      by (simp add: vec0Update_Delete_ClearMetadata_def blob_open_def put_cleared_def)
  next
    case (MText t)
    then have "off * 16 + 16 \<le> length blob" using blob(3) blob_read_bound [of blob 16 "off * 16"] by auto
    then obtain b where b: "blob_write blob (text_view []) (off * 16) = Inr b"
      using blob_write_ok [of "off * 16" "text_view []" blob] by auto
    let ?col = "col\<lparr>meta_chunks := (meta_chunks col)(chunk_id \<mapsto> b),
      meta_text := (meta_text col)(rowid := None)\<rparr>"
    have same: "length t \<le> 12 \<Longrightarrow> (meta_text col)(rowid := None) = meta_text col"
      using blob(3) MText by (auto simp: fun_eq_iff)
    have "vec0Update_Delete_ClearMetadata col rowid chunk_id off = (SQLITE_OK, ?col)"
      using blob MText b same slot_repr_read_text [of _ blob rowid off t] text_view_length [of t]
      by (auto simp: vec0Update_Delete_ClearMetadata_def blob_open_def put_cleared_def text_view_Nil)
    then show ?thesis
      using slot_update_text [OF blob(1) b, of "(meta_text col)(rowid := None)" rowid] blob(2) MText by simp
  qed
qed



end
