(* ===== verification/MetadataFilter.thy ===== *)
theory MetadataFilter
  imports Metadata
begin

text \<open>
  The filters on metadata columns (\<open>vec0_metadata_filter_text\<close> and \<open>vec0_set_metadata_filter_bitmap\<close> in
  \<^verbatim>\<open>sqlite-vec.c\<close>): a constraint on one column sets the bit of every row of a chunk that satisfies it.
\<close>

subsection \<open>Constraints\<close>

text \<open>The copied values of an \<open>x in (...)\<close> constraint.\<close>

record vec0_metadata_in =
  argv_idx :: nat
  in_ints :: "i64 list"
  in_texts :: "bytes list"

text \<open>
  The entry of the constraint that argument \<open>i\<close> belongs to. In the text filter the index is unsigned, so
  the test for a missing entry never fires and the memory before the array is read: \<open>junk\<close>.
\<close>

definition find_metadata_in :: "vec0_metadata_in list \<Rightarrow> nat \<Rightarrow> vec0_metadata_in option" where
  "find_metadata_in aMetadataIn i = find (\<lambda>m. argv_idx m = i) aMetadataIn"

subsection \<open>Texts\<close>

text \<open>
  One step of the loop over the rows of a chunk: the length and the prefix in the view of the row, and
  its row id. The result is an error, or the bit.
\<close>

type_synonym text_step = "int \<Rightarrow> bytes \<Rightarrow> i64 \<Rightarrow> bool result"

definition full_text :: "meta_column \<Rightarrow> int \<Rightarrow> i64 \<Rightarrow> (bytes \<Rightarrow> bool) \<Rightarrow> bool result" where
  "full_text col nPrefix rowid test =
     (case vec0_get_metadata_text_long_value col rowid of
        Inl rc \<Rightarrow> Inl rc
      | Inr sFull \<Rightarrow> if nPrefix \<noteq> int (length sFull) then Inl SQLITE_ERROR else Inr (test sFull))"

definition text_filter_eq :: "meta_column \<Rightarrow> bytes \<Rightarrow> text_step" where
  "text_filter_eq col sTarget nPrefix sPrefix rowid =
     (if nPrefix \<noteq> int (length sTarget) then Inr False
      else (let cmpPrefix = strncmp sPrefix sTarget (c_size (min nPrefix 12)) in
        if nPrefix \<le> 12 then Inr (cmpPrefix = 0)
        else if cmpPrefix \<noteq> 0 then Inr False
        else full_text col nPrefix rowid (\<lambda>sFull. strncmp sFull sTarget (length sFull) = 0)))"

definition text_filter_ne :: "meta_column \<Rightarrow> bytes \<Rightarrow> text_step" where
  "text_filter_ne col sTarget nPrefix sPrefix rowid =
     (if nPrefix \<noteq> int (length sTarget) then Inr True
      else (let cmpPrefix = strncmp sPrefix sTarget (c_size (min nPrefix 12)) in
        if nPrefix \<le> 12 then Inr (cmpPrefix \<noteq> 0)
        else if cmpPrefix \<noteq> 0 then Inr True
        else full_text col nPrefix rowid (\<lambda>sFull. strncmp sFull sTarget (length sFull) \<noteq> 0)))"

text \<open>The four order operators run the same steps with their own comparison.\<close>

definition text_filter_order :: "(int \<Rightarrow> int \<Rightarrow> bool) \<Rightarrow> meta_column \<Rightarrow> bytes \<Rightarrow> text_step" where
  "text_filter_order rel col sTarget nPrefix sPrefix rowid =
     (let nTarget = int (length sTarget);
          cmpPrefix = strncmp sPrefix sTarget (c_size (min (min nPrefix 12) nTarget))
      in if nPrefix < 12
         then (if cmpPrefix = 0 then Inr (rel nPrefix nTarget) else Inr (rel cmpPrefix 0))
         else full_text col nPrefix rowid (\<lambda>sFull. rel (strncmp sFull sTarget (length sFull)) 0))"

definition text_filter_gt :: "meta_column \<Rightarrow> bytes \<Rightarrow> text_step" where
  "text_filter_gt = text_filter_order (\<lambda>x y. x > y)"

definition text_filter_ge :: "meta_column \<Rightarrow> bytes \<Rightarrow> text_step" where
  "text_filter_ge = text_filter_order (\<lambda>x y. x \<ge> y)"

definition text_filter_le :: "meta_column \<Rightarrow> bytes \<Rightarrow> text_step" where
  "text_filter_le = text_filter_order (\<lambda>x y. x \<le> y)"

definition text_filter_lt :: "meta_column \<Rightarrow> bytes \<Rightarrow> text_step" where
  "text_filter_lt = text_filter_order (\<lambda>x y. x < y)"

text \<open>The inner loop over the values of an \<open>in\<close> constraint.\<close>

fun text_filter_in :: "meta_column \<Rightarrow> bytes list \<Rightarrow> text_step" where
  "text_filter_in col [] nPrefix sPrefix rowid = Inr False"
| "text_filter_in col (entry # entries) nPrefix sPrefix rowid =
     (if int (length entry) \<noteq> nPrefix then text_filter_in col entries nPrefix sPrefix rowid
      else (let cmpPrefix = strncmp sPrefix entry (c_size (min nPrefix 12)) in
        if nPrefix \<le> 12
        then (if cmpPrefix = 0 then Inr True else text_filter_in col entries nPrefix sPrefix rowid)
        else if cmpPrefix \<noteq> 0 then text_filter_in col entries nPrefix sPrefix rowid
        else case full_text col nPrefix rowid (\<lambda>sFull. strncmp sFull entry (length sFull) = 0) of
               Inl rc \<Rightarrow> Inl rc
             | Inr found \<Rightarrow> if found then Inr True else text_filter_in col entries nPrefix sPrefix rowid))"

text \<open>
  The loop over the rows. An \<open>in\<close> constraint only sets the bits of matching rows (\<open>only_set\<close>), the other
  operators write every bit.
\<close>

fun text_filter_loop :: "bool \<Rightarrow> (nat \<Rightarrow> bool result) \<Rightarrow> nat list \<Rightarrow> bitmap \<Rightarrow> sqlite_rc \<times> bitmap" where
  "text_filter_loop only_set step [] b = (SQLITE_OK, b)"
| "text_filter_loop only_set step (i # is') b =
     (case step i of
        Inl rc \<Rightarrow> (rc, b)
      | Inr v \<Rightarrow> text_filter_loop only_set step is'
                  (if only_set \<and> \<not> v then b else bitmap_set b i v))"

definition view_step :: "bytes \<Rightarrow> i64 list \<Rightarrow> text_step \<Rightarrow> nat \<Rightarrow> bool result" where
  "view_step buffer rowids step i =
     (let view = take 16 (drop (i * 16) buffer) in
      step (c_int (le_int (take 4 view))) (drop 4 view) (rowids ! i))"

text \<open>
  \<open>chunk_rowids\<close> is the \<open>rowids\<close> column of the chunk table; the chunk id is passed as an \<open>int\<close>. \<open>ok\<close> is the
  outcome of the allocation.
\<close>

definition vec0_metadata_filter_text ::
  "bool \<Rightarrow> vec0_metadata_in \<Rightarrow> (i64 \<Rightarrow> i64 list option) \<Rightarrow> meta_column \<Rightarrow> bytes \<Rightarrow> bytes \<Rightarrow> nat \<Rightarrow>
   vec0_metadata_operator \<Rightarrow> bitmap \<Rightarrow> i64 \<Rightarrow> vec0_metadata_in list \<Rightarrow> nat \<Rightarrow> sqlite_rc \<times> bitmap" where
  "vec0_metadata_filter_text ok junk chunk_rowids col sTarget buffer n op b chunk_rowid aMetadataIn i =
     (case chunk_rowids (c_int chunk_rowid) of
        None \<Rightarrow> (SQLITE_ERROR, b)
      | Some rowids \<Rightarrow>
          if \<not> ok then (SQLITE_NOMEM, b)
          else (let run = (\<lambda>only_set step.
                  text_filter_loop only_set (view_step buffer rowids step) [0..<n] b)
                in case op of
                  VEC0_METADATA_OPERATOR_EQ \<Rightarrow> run False (text_filter_eq col sTarget)
                | VEC0_METADATA_OPERATOR_NE \<Rightarrow> run False (text_filter_ne col sTarget)
                | VEC0_METADATA_OPERATOR_GT \<Rightarrow> run False (text_filter_gt col sTarget)
                | VEC0_METADATA_OPERATOR_GE \<Rightarrow> run False (text_filter_ge col sTarget)
                | VEC0_METADATA_OPERATOR_LE \<Rightarrow> run False (text_filter_le col sTarget)
                | VEC0_METADATA_OPERATOR_LT \<Rightarrow> run False (text_filter_lt col sTarget)
                | VEC0_METADATA_OPERATOR_IN \<Rightarrow>
                    run True (text_filter_in col
                      (in_texts (case find_metadata_in aMetadataIn i of None \<Rightarrow> junk | Some m \<Rightarrow> m)))))"

subsection \<open>Booleans, integers and floats\<close>

definition metadata_filter_bool :: "bytes \<Rightarrow> bool \<Rightarrow> vec0_metadata_operator \<Rightarrow> nat \<Rightarrow> bitmap \<Rightarrow> bitmap" where
  "metadata_filter_bool buffer target op n b =
     (if (target \<and> op = VEC0_METADATA_OPERATOR_EQ) \<or> (\<not> target \<and> op = VEC0_METADATA_OPERATOR_NE)
      then bitmap_set_all (bitmap_get buffer) n b
      else bitmap_set_all (\<lambda>i. \<not> bitmap_get buffer i) n b)"

definition i64_at :: "bytes \<Rightarrow> nat \<Rightarrow> i64" where
  "i64_at buffer i = c_i64 (le_int (take 8 (drop (i * 8) buffer)))"

definition f64_at :: "bytes \<Rightarrow> nat \<Rightarrow> f64" where
  "f64_at buffer i = word_of_int (le_int (take 8 (drop (i * 8) buffer)))"

definition metadata_filter_int ::
  "bytes \<Rightarrow> i64 \<Rightarrow> vec0_metadata_operator \<Rightarrow> nat \<Rightarrow> vec0_metadata_in list \<Rightarrow> nat \<Rightarrow> bitmap \<Rightarrow> sqlite_rc \<times> bitmap" where
  "metadata_filter_int buffer target op n aMetadataIn i b =
     (case op of
        VEC0_METADATA_OPERATOR_EQ \<Rightarrow> (SQLITE_OK, bitmap_set_all (\<lambda>j. i64_at buffer j = target) n b)
      | VEC0_METADATA_OPERATOR_GT \<Rightarrow> (SQLITE_OK, bitmap_set_all (\<lambda>j. i64_at buffer j > target) n b)
      | VEC0_METADATA_OPERATOR_LE \<Rightarrow> (SQLITE_OK, bitmap_set_all (\<lambda>j. i64_at buffer j \<le> target) n b)
      | VEC0_METADATA_OPERATOR_LT \<Rightarrow> (SQLITE_OK, bitmap_set_all (\<lambda>j. i64_at buffer j < target) n b)
      | VEC0_METADATA_OPERATOR_GE \<Rightarrow> (SQLITE_OK, bitmap_set_all (\<lambda>j. i64_at buffer j \<ge> target) n b)
      | VEC0_METADATA_OPERATOR_NE \<Rightarrow> (SQLITE_OK, bitmap_set_all (\<lambda>j. i64_at buffer j \<noteq> target) n b)
      | VEC0_METADATA_OPERATOR_IN \<Rightarrow>
          (case find_metadata_in aMetadataIn i of
             None \<Rightarrow> (SQLITE_ERROR, b)
           | Some m \<Rightarrow>
               (SQLITE_OK, foldl (\<lambda>b j. if i64_at buffer j \<in> set (in_ints m) then bitmap_set b j True else b)
                             b [0..<n])))"

definition metadata_filter_float :: "bytes \<Rightarrow> f64 \<Rightarrow> vec0_metadata_operator \<Rightarrow> nat \<Rightarrow> bitmap \<Rightarrow> bitmap" where
  "metadata_filter_float buffer target op n b =
     (case op of
        VEC0_METADATA_OPERATOR_EQ \<Rightarrow> bitmap_set_all (\<lambda>j. deq (f64_at buffer j) target) n b
      | VEC0_METADATA_OPERATOR_GT \<Rightarrow> bitmap_set_all (\<lambda>j. dlt target (f64_at buffer j)) n b
      | VEC0_METADATA_OPERATOR_LE \<Rightarrow> bitmap_set_all (\<lambda>j. dle (f64_at buffer j) target) n b
      | VEC0_METADATA_OPERATOR_LT \<Rightarrow> bitmap_set_all (\<lambda>j. dlt (f64_at buffer j) target) n b
      | VEC0_METADATA_OPERATOR_GE \<Rightarrow> bitmap_set_all (\<lambda>j. dle target (f64_at buffer j)) n b
      | VEC0_METADATA_OPERATOR_NE \<Rightarrow> bitmap_set_all (\<lambda>j. \<not> deq (f64_at buffer j) target) n b
      | VEC0_METADATA_OPERATOR_IN \<Rightarrow> b)"

text \<open>\<open>n\<close> is the size of the chunk; the blob of the chunk must have the size its kind asks for.\<close>

definition vec0_set_metadata_filter_bitmap ::
  "bool \<Rightarrow> vec0_metadata_in \<Rightarrow> (i64 \<Rightarrow> i64 list option) \<Rightarrow> meta_column \<Rightarrow> vec0_metadata_operator \<Rightarrow>
   sqlite3_value \<Rightarrow> i64 \<Rightarrow> bitmap \<Rightarrow> nat \<Rightarrow> vec0_metadata_in list \<Rightarrow> nat \<Rightarrow> sqlite_rc \<times> bitmap" where
  "vec0_set_metadata_filter_bitmap ok junk chunk_rowids col op v chunk_rowid b n aMetadataIn i =
     (case blob_open (meta_chunks col) chunk_rowid of
        Inl rc \<Rightarrow> (rc, b)
      | Inr buffer \<Rightarrow>
          if length buffer \<noteq> (case kind col of
               VEC0_METADATA_COLUMN_KIND_BOOLEAN \<Rightarrow> n div 8
             | VEC0_METADATA_COLUMN_KIND_INTEGER \<Rightarrow> n * 8
             | VEC0_METADATA_COLUMN_KIND_FLOAT \<Rightarrow> n * 8
             | VEC0_METADATA_COLUMN_KIND_TEXT \<Rightarrow> n * 16)
          then (SQLITE_ERROR, b)
          else if \<not> ok then (SQLITE_NOMEM, b)
          else (case kind col of
               VEC0_METADATA_COLUMN_KIND_BOOLEAN \<Rightarrow>
                 (SQLITE_OK, metadata_filter_bool buffer (sqlite3_value_int v \<noteq> 0) op n b)
             | VEC0_METADATA_COLUMN_KIND_INTEGER \<Rightarrow>
                 metadata_filter_int buffer (value_int64 v) op n aMetadataIn i b
             | VEC0_METADATA_COLUMN_KIND_FLOAT \<Rightarrow>
                 (SQLITE_OK, metadata_filter_float buffer (value_double v) op n b)
             | VEC0_METADATA_COLUMN_KIND_TEXT \<Rightarrow>
                 vec0_metadata_filter_text ok junk chunk_rowids col (value_text v) buffer n op b
                   chunk_rowid aMetadataIn i))"

subsection \<open>What a constraint asks\<close>

text \<open>The meaning of a constraint on a value; \<open>m\<close> holds the values of an \<open>in\<close> constraint.\<close>

fun meta_sat :: "vec0_metadata_operator \<Rightarrow> sqlite3_value \<Rightarrow> vec0_metadata_in \<Rightarrow> meta_value \<Rightarrow> bool" where
  "meta_sat op v m (MBool x) = ((x = (sqlite3_value_int v \<noteq> 0)) = (op = VEC0_METADATA_OPERATOR_EQ))"
| "meta_sat op v m (MInt x) =
     (case op of
        VEC0_METADATA_OPERATOR_EQ \<Rightarrow> x = value_int64 v | VEC0_METADATA_OPERATOR_NE \<Rightarrow> x \<noteq> value_int64 v
      | VEC0_METADATA_OPERATOR_GT \<Rightarrow> x > value_int64 v | VEC0_METADATA_OPERATOR_GE \<Rightarrow> x \<ge> value_int64 v
      | VEC0_METADATA_OPERATOR_LE \<Rightarrow> x \<le> value_int64 v | VEC0_METADATA_OPERATOR_LT \<Rightarrow> x < value_int64 v
      | VEC0_METADATA_OPERATOR_IN \<Rightarrow> x \<in> set (in_ints m))"
| "meta_sat op v m (MFloat d) =
     (case op of
        VEC0_METADATA_OPERATOR_EQ \<Rightarrow> deq d (value_double v) | VEC0_METADATA_OPERATOR_NE \<Rightarrow> \<not> deq d (value_double v)
      | VEC0_METADATA_OPERATOR_GT \<Rightarrow> dlt (value_double v) d | VEC0_METADATA_OPERATOR_GE \<Rightarrow> dle (value_double v) d
      | VEC0_METADATA_OPERATOR_LE \<Rightarrow> dle d (value_double v) | VEC0_METADATA_OPERATOR_LT \<Rightarrow> dlt d (value_double v)
      | VEC0_METADATA_OPERATOR_IN \<Rightarrow> False)"
| "meta_sat op v m (MText t) =
     (case op of
        VEC0_METADATA_OPERATOR_EQ \<Rightarrow> t = value_text v | VEC0_METADATA_OPERATOR_NE \<Rightarrow> t \<noteq> value_text v
      | VEC0_METADATA_OPERATOR_GT \<Rightarrow> bytes_less (value_text v) t
      | VEC0_METADATA_OPERATOR_GE \<Rightarrow> \<not> bytes_less t (value_text v)
      | VEC0_METADATA_OPERATOR_LE \<Rightarrow> \<not> bytes_less (value_text v) t
      | VEC0_METADATA_OPERATOR_LT \<Rightarrow> bytes_less t (value_text v)
      | VEC0_METADATA_OPERATOR_IN \<Rightarrow> t \<in> set (in_texts m))"

text \<open>
  The constraints the filters decide: equality on booleans, no \<open>in\<close> on floats, texts without zero bytes.
  For the order operators a text must not have exactly twelve bytes, and for \<open>>=\<close> and \<open><\<close> a long text must
  not be a proper prefix of the target.
\<close>

abbreviation order_op :: "vec0_metadata_operator \<Rightarrow> bool" where
  "order_op op \<equiv> op \<in> {VEC0_METADATA_OPERATOR_GT, VEC0_METADATA_OPERATOR_GE,
     VEC0_METADATA_OPERATOR_LE, VEC0_METADATA_OPERATOR_LT}"

fun decided :: "vec0_metadata_operator \<Rightarrow> sqlite3_value \<Rightarrow> vec0_metadata_in \<Rightarrow> meta_value \<Rightarrow> bool" where
  "decided op v m (MBool x) = (op \<in> {VEC0_METADATA_OPERATOR_EQ, VEC0_METADATA_OPERATOR_NE})"
| "decided op v m (MInt x) = True"
| "decided op v m (MFloat d) = (op \<noteq> VEC0_METADATA_OPERATOR_IN)"
| "decided op v m (MText t) =
     (no_nul t \<and> no_nul (value_text v) \<and> list_all no_nul (in_texts m)
      \<and> (order_op op \<longrightarrow> length t \<noteq> 12)
      \<and> (op \<in> {VEC0_METADATA_OPERATOR_GE, VEC0_METADATA_OPERATOR_LT} \<longrightarrow> length t > 12 \<longrightarrow>
           take (length t) (value_text v) = t \<longrightarrow> t = value_text v))"

text \<open>A slot shows a value also when its row id is stale, as long as the value is not a long text.\<close>

definition slot_shows :: "(i64 \<Rightarrow> bytes option) \<Rightarrow> bytes \<Rightarrow> i64 \<Rightarrow> nat \<Rightarrow> meta_value \<Rightarrow> bool" where
  "slot_shows texts blob rowid off v \<longleftrightarrow> slot_repr (\<lambda>r. if long_text v then texts r else None) blob rowid off v"

lemma slot_repr_shows: "slot_repr texts blob rowid off v \<Longrightarrow> slot_shows texts blob rowid off v"
  by (cases v) (auto simp: slot_shows_def)

subsection \<open>The steps of the text filters\<close>

abbreviation text_prefix :: "bytes \<Rightarrow> bytes" where
  "text_prefix t \<equiv> take 12 t @ replicate (12 - length t) 0"

lemma full_text_value:
  "meta_text col rowid = Some t \<Longrightarrow> full_text col (int (length t)) rowid test = Inr (test t)"
  by (simp add: full_text_def vec0_get_metadata_text_long_value_def)

lemma prefix_compare:
  assumes "n \<le> length t" and "n \<le> 12"
  shows "strncmp (text_prefix t) s n = strncmp t s n"
proof -
  have "strncmp (text_prefix t) s n = strncmp (take 12 t) s n" using assms by (intro strncmp_append) simp
  then show ?thesis using assms strncmp_take by simp
qed

lemma eq_prefix_compare:
  assumes "no_nul t" and "no_nul s" and "length s = length t" and "length t < 2 ^ 31"
  shows "length t \<le> 12 \<Longrightarrow> strncmp (text_prefix t) s (c_size (min (int (length t)) 12)) = 0 \<longleftrightarrow> t = s"
    and "strncmp (text_prefix t) s (c_size (min (int (length t)) 12)) \<noteq> 0 \<Longrightarrow> t \<noteq> s"
proof -
  have "c_size (min (int (length t)) 12) = min (length t) 12"
    using c_size_of_nat [of "min (length t) 12"] assms(4) by (simp add: of_nat_min)
  then have *: "strncmp (text_prefix t) s (c_size (min (int (length t)) 12)) = strncmp t s (min (length t) 12)"
    using prefix_compare [of "min (length t) 12" t s] by simp
  show "length t \<le> 12 \<Longrightarrow> strncmp (text_prefix t) s (c_size (min (int (length t)) 12)) = 0 \<longleftrightarrow> t = s"
    unfolding * using strncmp_eq_iff [of t s "length t"] assms by (simp add: min_def)
  show "strncmp (text_prefix t) s (c_size (min (int (length t)) 12)) \<noteq> 0 \<Longrightarrow> t \<noteq> s"
    unfolding * by auto
qed

text \<open>\<open>t\<close> is what the view and the side table hold for the row.\<close>

definition text_row :: "meta_column \<Rightarrow> i64 \<Rightarrow> bytes \<Rightarrow> bool" where
  "text_row col rowid t \<longleftrightarrow> length t < 2 ^ 31 \<and> (length t > 12 \<longrightarrow> meta_text col rowid = Some t)"

lemma full_compare: "no_nul t \<Longrightarrow> no_nul s \<Longrightarrow> length s = length t \<Longrightarrow> strncmp t s (length t) = 0 \<longleftrightarrow> t = s"
  using strncmp_eq_iff [of t s "length t"] by simp

lemma text_filter_eq_row:
  assumes "text_row col rowid t" and "no_nul t" and "no_nul s"
  shows "text_filter_eq col s (int (length t)) (text_prefix t) rowid = Inr (t = s)"
    and "text_filter_ne col s (int (length t)) (text_prefix t) rowid = Inr (t \<noteq> s)"
proof -
  show "text_filter_eq col s (int (length t)) (text_prefix t) rowid = Inr (t = s)"
  proof (cases "length t = length s")
    case True
    then show ?thesis
      using assms eq_prefix_compare [of t s] full_compare [of t s] full_text_value [of col rowid t]
      by (auto simp: text_filter_eq_def text_row_def Let_def)
  qed (auto simp: text_filter_eq_def)
  show "text_filter_ne col s (int (length t)) (text_prefix t) rowid = Inr (t \<noteq> s)"
  proof (cases "length t = length s")
    case True
    then show ?thesis
      using assms eq_prefix_compare [of t s] full_compare [of t s] full_text_value [of col rowid t]
      by (auto simp: text_filter_ne_def text_row_def Let_def)
  qed (auto simp: text_filter_ne_def)
qed

text \<open>One round of the inner loop is the equality filter.\<close>

lemma text_filter_in_step:
  "text_filter_in col (s # ss) n p r =
     (case text_filter_eq col s n p r of
        Inl rc \<Rightarrow> Inl rc
      | Inr found \<Rightarrow> if found then Inr True else text_filter_in col ss n p r)"
  by (simp add: text_filter_eq_def Let_def split: sum.splits)

lemma text_filter_in_row:
  assumes "text_row col rowid t" and "no_nul t" and "list_all no_nul ss"
  shows "text_filter_in col ss (int (length t)) (text_prefix t) rowid = Inr (t \<in> set ss)"
  using assms(3)
proof (induction ss)
  case (Cons s ss)
  then have "text_filter_eq col s (int (length t)) (text_prefix t) rowid = Inr (t = s)"
    using assms(1,2) by (simp add: text_filter_eq_row)
  then show ?case using Cons by (simp add: text_filter_in_step del: text_filter_in.simps(2))
qed simp

lemma text_filter_order_short:
  assumes "length t < 12"
  shows "text_filter_order rel col s (int (length t)) (text_prefix t) rowid =
    (let c = strncmp t s (min (length t) (length s)) in
     Inr (if c = 0 then rel (int (length t)) (int (length s)) else rel c 0))"
proof -
  have "c_size (min (min (int (length t)) 12) (int (length s))) = min (length t) (length s)"
    using c_size_of_nat [of "length t"] c_size_of_nat [of "length s"] assms by (auto simp: min_def)
  moreover have "strncmp (text_prefix t) s (min (length t) (length s)) = strncmp t s (min (length t) (length s))"
    using assms by (intro prefix_compare) auto
  ultimately show ?thesis using assms by (simp add: text_filter_order_def Let_def)
qed

lemma text_filter_order_long:
  assumes "text_row col rowid t" and "length t > 12"
  shows "text_filter_order rel col s (int (length t)) (text_prefix t) rowid =
    Inr (rel (strncmp t s (length t)) 0)"
  using assms full_text_value [of col rowid t] by (simp add: text_filter_order_def text_row_def Let_def)

lemma text_filter_gt_row:
  assumes "text_row col rowid t" and "no_nul t" and "no_nul s" and "length t \<noteq> 12"
  shows "text_filter_gt col s (int (length t)) (text_prefix t) rowid = Inr (bytes_less s t)
    \<and> text_filter_le col s (int (length t)) (text_prefix t) rowid = Inr (\<not> bytes_less s t)"
proof (cases "length t < 12")
  case True
  note * = text_filter_order_short [OF True] strncmp_min_greater [OF assms(2,3) refl]
  show ?thesis
    unfolding text_filter_gt_def text_filter_le_def *(1) by (auto simp: Let_def *(2) [symmetric])
next
  case False
  then have "length t > 12" using assms(4) by simp
  note * = text_filter_order_long [OF assms(1) this] strncmp_full(1) [OF assms(2,3)]
  show ?thesis
    unfolding text_filter_gt_def text_filter_le_def *(1) by (auto simp: *(2) [symmetric])
qed

lemma text_filter_lt_row:
  assumes "text_row col rowid t" and "no_nul t" and "no_nul s" and "length t \<noteq> 12"
    and "length t > 12 \<longrightarrow> take (length t) s = t \<longrightarrow> t = s"
  shows "text_filter_lt col s (int (length t)) (text_prefix t) rowid = Inr (bytes_less t s)
    \<and> text_filter_ge col s (int (length t)) (text_prefix t) rowid = Inr (\<not> bytes_less t s)"
proof (cases "length t < 12")
  case True
  note * = text_filter_order_short [OF True] strncmp_min_less [OF assms(2,3) refl]
  show ?thesis
    unfolding text_filter_lt_def text_filter_ge_def *(1) by (auto simp: Let_def *(2) [symmetric])
next
  case False
  then have long: "length t > 12" using assms(4) by simp
  note * = text_filter_order_long [OF assms(1) long] strncmp_full_ge [OF assms(2,3)]
  have "bytes_less t s \<longrightarrow> take (length t) s \<noteq> t" using assms(5) long by auto
  then show ?thesis
    unfolding text_filter_lt_def text_filter_ge_def *(1) using *(2,3) by auto
qed

lemmas text_filter_rows =
  text_filter_eq_row text_filter_in_row text_filter_gt_row text_filter_lt_row

subsection \<open>The loops\<close>

lemma text_filter_loop_ok:
  "\<forall>i\<in>set is'. step i = Inr (f i) \<Longrightarrow>
   text_filter_loop only_set step is' b =
     (SQLITE_OK, foldl (\<lambda>b i. if only_set \<and> \<not> f i then b else bitmap_set b i (f i)) b is')"
  by (induction is' arbitrary: b) auto

lemma set_only_bits:
  assumes "bitmap_ok b n" and "\<forall>i<n. \<not> bitmap_get b i"
  shows "length (foldl (\<lambda>b i. if f i then bitmap_set b i True else b) b [0..<n]) = n div 8"
    and "i < n \<Longrightarrow> bitmap_get (foldl (\<lambda>b i. if f i then bitmap_set b i True else b) b [0..<n]) i = f i"
proof -
  let ?B = "\<lambda>k. foldl (\<lambda>b i. if f i then bitmap_set b i True else b) b [0..<k]"
  have *: "k \<le> n \<Longrightarrow> length (?B k) = n div 8 \<and> (\<forall>i<n. bitmap_get (?B k) i = (i < k \<and> f i))" for k
  proof (induction k)
    case (Suc k)
    then show ?case using assms div_lt_bitmap [of k n] by (auto simp: bitmap_get_set less_Suc_eq)
  qed (use assms in auto)
  show "length (?B n) = n div 8" using * [of n] by simp
  show "i < n \<Longrightarrow> bitmap_get (?B n) i = f i" using * [of n] by simp
qed

lemma filter_int_in_bits:
  "foldl (\<lambda>b i. if True \<and> \<not> f i then b else bitmap_set b i (f i)) b xs =
   foldl (\<lambda>b i. if f i then bitmap_set b i True else b) b xs"
  by (induction xs arbitrary: b) auto

lemma view_step_text:
  assumes "slot_shows (meta_text col) buffer (rowids ! i) i (MText t)"
  shows "view_step buffer rowids step i = step (int (length t)) (text_prefix t) (rowids ! i)"
    and "text_row col (rowids ! i) t"
proof -
  have *: "blob_read buffer 16 (i * 16) = Inr (text_view t)" "length t < 2 ^ 31"
    using assms by (auto simp: slot_shows_def)
  then have "take 16 (drop (i * 16) buffer) = text_view t" by (simp add: blob_read_def split: if_splits)
  then show "view_step buffer rowids step i = step (int (length t)) (text_prefix t) (rowids ! i)"
    using text_view_length [OF *(2)] by (simp add: view_step_def Let_def text_view_prefix)
  show "text_row col (rowids ! i) t" using assms by (auto simp: slot_shows_def text_row_def split: if_splits)
qed

lemma i64_at_slot: "slot_shows texts buffer r i (MInt x) \<Longrightarrow> i64_at buffer i = x"
  using le_int_i64 [of x] by (auto simp: slot_shows_def i64_at_def blob_read_def split: if_splits)

lemma f64_at_slot: "slot_shows texts buffer r i (MFloat d) \<Longrightarrow> f64_at buffer i = d"
  using le_int_f64 [of d] by (auto simp: slot_shows_def f64_at_def blob_read_def split: if_splits)

subsection \<open>The filters are exact\<close>

definition step_for :: "meta_column \<Rightarrow> vec0_metadata_operator \<Rightarrow> sqlite3_value \<Rightarrow> vec0_metadata_in \<Rightarrow> text_step" where
  "step_for col op v m =
     (case op of
        VEC0_METADATA_OPERATOR_EQ \<Rightarrow> text_filter_eq col (value_text v)
      | VEC0_METADATA_OPERATOR_NE \<Rightarrow> text_filter_ne col (value_text v)
      | VEC0_METADATA_OPERATOR_GT \<Rightarrow> text_filter_gt col (value_text v)
      | VEC0_METADATA_OPERATOR_GE \<Rightarrow> text_filter_ge col (value_text v)
      | VEC0_METADATA_OPERATOR_LE \<Rightarrow> text_filter_le col (value_text v)
      | VEC0_METADATA_OPERATOR_LT \<Rightarrow> text_filter_lt col (value_text v)
      | VEC0_METADATA_OPERATOR_IN \<Rightarrow> text_filter_in col (in_texts m))"

lemma step_for_row:
  assumes "text_row col rowid t" and "decided op v m (MText t)"
  shows "step_for col op v m (int (length t)) (text_prefix t) rowid = Inr (meta_sat op v m (MText t))"
proof -
  have t: "no_nul t" "no_nul (value_text v)" "list_all no_nul (in_texts m)"
    "order_op op \<longrightarrow> length t \<noteq> 12" using assms(2) by simp_all
  have l: "op \<in> {VEC0_METADATA_OPERATOR_GE, VEC0_METADATA_OPERATOR_LT} \<longrightarrow> length t > 12 \<longrightarrow>
      take (length t) (value_text v) = t \<longrightarrow> t = value_text v" using assms(2) by simp
  show ?thesis
    using t l text_filter_rows(1,2) [OF assms(1) t(1,2)] text_filter_in_row [OF assms(1) t(1,3)]
      text_filter_gt_row [OF assms(1) t(1,2)] text_filter_lt_row [OF assms(1) t(1,2)]
    by (cases op) (simp_all add: step_for_def)
qed

lemma vec0_metadata_filter_text_run:
  assumes "chunk_rowids (c_int chunk_rowid) = Some rowids"
    and "op = VEC0_METADATA_OPERATOR_IN \<longrightarrow> find_metadata_in aMetadataIn j = Some m"
  shows "vec0_metadata_filter_text True junk chunk_rowids col (value_text v) buffer n op b chunk_rowid aMetadataIn j =
    text_filter_loop (op = VEC0_METADATA_OPERATOR_IN) (view_step buffer rowids (step_for col op v m)) [0..<n] b"
  using assms by (cases op) (simp_all add: vec0_metadata_filter_text_def step_for_def)

definition has_bits :: "sqlite_rc \<times> bitmap \<Rightarrow> nat \<Rightarrow> (nat \<Rightarrow> bool) \<Rightarrow> bool" where
  "has_bits r n f \<longleftrightarrow> fst r = SQLITE_OK \<and> length (snd r) = n div 8 \<and> (\<forall>i<n. bitmap_get (snd r) i = f i)"

lemma has_bits_set_all:
  "bitmap_ok b n \<Longrightarrow> (\<And>i. i < n \<Longrightarrow> g i = f i) \<Longrightarrow> has_bits (SQLITE_OK, bitmap_set_all g n b) n f"
  by (simp add: has_bits_def bitmap_get_set_all)

lemma has_bits_set_only:
  "bitmap_ok b n \<Longrightarrow> \<forall>i<n. \<not> bitmap_get b i \<Longrightarrow> (\<And>i. i < n \<Longrightarrow> g i = f i) \<Longrightarrow>
   has_bits (SQLITE_OK, foldl (\<lambda>b i. if g i then bitmap_set b i True else b) b [0..<n]) n f"
  using set_only_bits [where f = g] by (simp add: has_bits_def)

lemma has_bits_text_loop:
  assumes "bitmap_ok b n" and "\<forall>i<n. step i = Inr (f i)" and "only_set \<longrightarrow> (\<forall>i<n. \<not> bitmap_get b i)"
  shows "has_bits (text_filter_loop only_set step [0..<n] b) n f"
proof (cases only_set)
  case True
  then show ?thesis using assms text_filter_loop_ok [of "[0..<n]" step f only_set b]
    by (simp only: filter_int_in_bits) (simp add: has_bits_set_only)
next
  case False
  then show ?thesis using assms text_filter_loop_ok [of "[0..<n]" step f only_set b]
    by (simp add: has_bits_set_all bitmap_set_all_def [symmetric])
qed

lemma filter_bitmap_has_bits:
  assumes b: "n mod 8 = 0" "length b = n div 8"
    and col: "meta_chunks col chunk_rowid = Some buffer" "length buffer = vec0_metadata_chunk_size (kind col) n"
    and rows: "chunk_rowids (c_int chunk_rowid) = Some rowids"
    and vals: "\<forall>i<n. kind_of (val i) = kind col \<and> slot_shows (meta_text col) buffer (rowids ! i) i (val i)
      \<and> decided op v m (val i)"
    and in_entry: "op = VEC0_METADATA_OPERATOR_IN \<longrightarrow>
      find_metadata_in aMetadataIn j = Some m \<and> (\<forall>i<n. \<not> bitmap_get b i)"
  shows "has_bits (vec0_set_metadata_filter_bitmap True junk chunk_rowids col op v chunk_rowid b n aMetadataIn j)
    n (\<lambda>i. meta_sat op v m (val i))"
proof (cases "kind col")
  case VEC0_METADATA_COLUMN_KIND_BOOLEAN
  have "\<exists>x. val i = MBool x \<and> bitmap_get buffer i = x \<and> op \<in> {VEC0_METADATA_OPERATOR_EQ, VEC0_METADATA_OPERATOR_NE}"
    if "i < n" for i
    using vals that VEC0_METADATA_COLUMN_KIND_BOOLEAN kind_of_cases(1) [of "val i"] by (auto simp: slot_shows_def)
  then have "has_bits (SQLITE_OK, metadata_filter_bool buffer (sqlite3_value_int v \<noteq> 0) op n b)
      n (\<lambda>i. meta_sat op v m (val i))"
    unfolding metadata_filter_bool_def if_distrib [of "Pair SQLITE_OK"]
    using b by (auto intro!: has_bits_set_all)
  then show ?thesis using col VEC0_METADATA_COLUMN_KIND_BOOLEAN
    by (simp add: vec0_set_metadata_filter_bitmap_def blob_open_def vec0_metadata_chunk_size_def)
next
  case VEC0_METADATA_COLUMN_KIND_INTEGER
  have "val i = MInt (i64_at buffer i)" if "i < n" for i
    using vals that VEC0_METADATA_COLUMN_KIND_INTEGER kind_of_cases(2) [of "val i"] i64_at_slot by metis
  then have "has_bits (metadata_filter_int buffer (value_int64 v) op n aMetadataIn j b)
      n (\<lambda>i. meta_sat op v m (val i))"
    using b in_entry by (cases op) (auto simp: metadata_filter_int_def intro!: has_bits_set_all has_bits_set_only)
  then show ?thesis using col VEC0_METADATA_COLUMN_KIND_INTEGER
    by (simp add: vec0_set_metadata_filter_bitmap_def blob_open_def vec0_metadata_chunk_size_def)
next
  case VEC0_METADATA_COLUMN_KIND_FLOAT
  have "val i = MFloat (f64_at buffer i) \<and> op \<noteq> VEC0_METADATA_OPERATOR_IN" if "i < n" for i
    using vals that VEC0_METADATA_COLUMN_KIND_FLOAT kind_of_cases(3) [of "val i"] f64_at_slot
    by (metis decided.simps(3))
  then have "has_bits (SQLITE_OK, metadata_filter_float buffer (value_double v) op n b)
      n (\<lambda>i. meta_sat op v m (val i))"
    using b by (cases op) (auto simp: metadata_filter_float_def has_bits_def bitmap_get_set_all)
  then show ?thesis using col VEC0_METADATA_COLUMN_KIND_FLOAT
    by (simp add: vec0_set_metadata_filter_bitmap_def blob_open_def vec0_metadata_chunk_size_def)
next
  case VEC0_METADATA_COLUMN_KIND_TEXT
  have "view_step buffer rowids (step_for col op v m) i = Inr (meta_sat op v m (val i))" if i: "i < n" for i
  proof -
    obtain t where t: "val i = MText t"
      using vals i VEC0_METADATA_COLUMN_KIND_TEXT kind_of_cases(4) [of "val i"] by auto
    then have "slot_shows (meta_text col) buffer (rowids ! i) i (MText t)" "decided op v m (MText t)"
      using vals i by auto
    then show ?thesis using view_step_text [of col buffer rowids i t] step_for_row t by simp
  qed
  then show ?thesis
    using VEC0_METADATA_COLUMN_KIND_TEXT col b in_entry has_bits_text_loop
      vec0_metadata_filter_text_run [where chunk_rowids = chunk_rowids, OF rows, of op aMetadataIn j m]
    by (simp add: vec0_set_metadata_filter_bitmap_def blob_open_def vec0_metadata_chunk_size_def)
qed

text \<open>
  C19. A filter on a metadata column sets exactly the bits of the rows whose value satisfies the
  constraint, for every kind of column and every operator, inline and long texts included, as long as
  no text compared by order has exactly twelve bytes and no long text compared by \<open>>=\<close> or \<open><\<close> is a proper
  prefix of the target.
\<close>

theorem metadata_filter_exact:
  assumes b: "n mod 8 = 0" "length b = n div 8"
    and col: "meta_chunks col chunk_rowid = Some buffer" "length buffer = vec0_metadata_chunk_size (kind col) n"
    and rows: "chunk_rowids (c_int chunk_rowid) = Some rowids"
    and vals: "\<forall>i<n. kind_of (val i) = kind col \<and> slot_shows (meta_text col) buffer (rowids ! i) i (val i)
      \<and> decided op v m (val i)"
    and in_entry: "op = VEC0_METADATA_OPERATOR_IN \<longrightarrow>
      find_metadata_in aMetadataIn j = Some m \<and> (\<forall>i<n. \<not> bitmap_get b i)"
  shows "has_bits (vec0_set_metadata_filter_bitmap True junk chunk_rowids col op v chunk_rowid b n aMetadataIn j)
    n (\<lambda>i. meta_sat op v m (val i))"
  using assms by (rule filter_bitmap_has_bits)

text \<open>An integer column with one chunk of eight rows, and a constraint value.\<close>

definition sample_ints :: "i64 list" where
  "sample_ints = [3, 1, 4, 1, 5, 9, 2, -6]"

definition sample_int_column :: meta_column where
  "sample_int_column = \<lparr>kind = VEC0_METADATA_COLUMN_KIND_INTEGER,
     meta_chunks = [1 \<mapsto> concat (map (le_bytes 8) sample_ints)], meta_text = (\<lambda>_. None)\<rparr>"

definition sample_int :: "i64 \<Rightarrow> sqlite3_value" where
  "sample_int x = \<lparr>value_type = SQLITE_INTEGER, value_int64 = x, value_double = 0, value_text = []\<rparr>"

definition sample_in :: vec0_metadata_in where
  "sample_in = \<lparr>argv_idx = 0, in_ints = [], in_texts = []\<rparr>"

lemma sample_ints_shown:
  "list_all (\<lambda>i. slot_shows (meta_text sample_int_column) (concat (map (le_bytes 8) sample_ints)) r i
     (MInt (sample_ints ! i))) [0..<8]"
  unfolding slot_shows_def sample_int_column_def sample_ints_def by code_simp

theorem metadata_filter_exact_witness:
  "has_bits (vec0_set_metadata_filter_bitmap True sample_in [1 \<mapsto> [10, 11, 12, 13, 14, 15, 16, 17]]
      sample_int_column VEC0_METADATA_OPERATOR_GT (sample_int 2) 1 [0] 8 [] 0)
    8 (\<lambda>i. sample_ints ! i > 2)"
proof -
  have "length (concat (map (le_bytes 8) sample_ints)) = 64" by (simp add: sample_ints_def)
  moreover have "\<forall>i<8. slot_shows (meta_text sample_int_column) (concat (map (le_bytes 8) sample_ints))
      ([10, 11, 12, 13, 14, 15, 16, 17] ! i) i (MInt (sample_ints ! i))"
    using sample_ints_shown by (simp add: list_all_iff)
  ultimately show ?thesis
    using metadata_filter_exact [of 8 "[0]" sample_int_column 1 "concat (map (le_bytes 8) sample_ints)"
        "[1 \<mapsto> [10, 11, 12, 13, 14, 15, 16, 17]]" "[10, 11, 12, 13, 14, 15, 16, 17]"
        "\<lambda>i. MInt (sample_ints ! i)" VEC0_METADATA_OPERATOR_GT "sample_int 2" sample_in "[]" 0 sample_in]
    by (simp add: sample_int_column_def vec0_metadata_chunk_size_def sample_int_def c_int_def)
qed

subsection \<open>Where the text filters go wrong\<close>

lemma text_filter_loop_fails:
  assumes "\<forall>i\<in>set is'. step i \<in> range Inr \<union> {Inl SQLITE_ERROR}" and "\<exists>i\<in>set is'. step i = Inl SQLITE_ERROR"
  shows "fst (text_filter_loop only_set step is' b) = SQLITE_ERROR"
  using assms
proof (induction is' arbitrary: b)
  case (Cons i is')
  then consider v where "step i = Inr v" | "step i = Inl SQLITE_ERROR" by auto
  then show ?case
  proof cases
    case 1
    then have "\<exists>i\<in>set is'. step i = Inl SQLITE_ERROR" using Cons.prems(2) by auto
    then show ?thesis using Cons.IH Cons.prems(1) 1 by simp
  qed simp
qed simp

lemma text_filter_order_range:
  "text_filter_order rel col s n p r \<in> range Inr \<union> {Inl SQLITE_ERROR}"
  by (auto simp: text_filter_order_def full_text_def vec0_get_metadata_text_long_value_def Let_def
      split: option.splits)

lemmas text_order_defs = text_filter_gt_def text_filter_ge_def text_filter_le_def text_filter_lt_def

text \<open>
  A comparison by order fails with an error as soon as a row of the chunk holds a text of exactly
  twelve bytes: such a text fits the view and has no entry in the side table, but the order filters
  look it up there.
\<close>

theorem metadata_order_filter_fails_on_twelve:
  assumes "order_op op" and "kind col = VEC0_METADATA_COLUMN_KIND_TEXT"
    and "meta_chunks col chunk_rowid = Some buffer" and "length buffer = n * 16"
    and "chunk_rowids (c_int chunk_rowid) = Some rowids"
    and "k < n" and "slot_repr (meta_text col) buffer (rowids ! k) k (MText t)" and "length t = 12"
  shows "fst (vec0_set_metadata_filter_bitmap True junk chunk_rowids col op v chunk_rowid b n aMetadataIn j)
    = SQLITE_ERROR"
proof -
  obtain rel where rel: "step_for col op v junk = text_filter_order rel col (value_text v)"
    using assms(1) by (auto simp: step_for_def text_order_defs)
  have "meta_text col (rowids ! k) = None" using assms(7,8) by simp
  then have "text_filter_order rel col (value_text v) (int (length t)) (text_prefix t) (rowids ! k)
      = Inl SQLITE_ERROR"
    using assms(8) by (simp add: text_filter_order_def full_text_def vec0_get_metadata_text_long_value_def Let_def)
  then have "view_step buffer rowids (text_filter_order rel col (value_text v)) k = Inl SQLITE_ERROR"
    using view_step_text(1) [OF slot_repr_shows [OF assms(7)]] by simp
  moreover have "view_step buffer rowids (text_filter_order rel col (value_text v)) i \<in> range Inr \<union> {Inl SQLITE_ERROR}"
    for i unfolding view_step_def Let_def by (rule text_filter_order_range)
  ultimately have "fst (text_filter_loop False
      (view_step buffer rowids (text_filter_order rel col (value_text v))) [0..<n] b) = SQLITE_ERROR"
    using assms(6) by (intro text_filter_loop_fails) auto
  moreover have "vec0_metadata_filter_text True junk chunk_rowids col (value_text v) buffer n op b chunk_rowid
      aMetadataIn j = text_filter_loop False (view_step buffer rowids (text_filter_order rel col (value_text v))) [0..<n] b"
    using vec0_metadata_filter_text_run [where chunk_rowids = chunk_rowids and m = junk, OF assms(5)] assms(1) rel
    by auto
  ultimately show ?thesis
    using assms(2-4) by (simp add: vec0_set_metadata_filter_bitmap_def blob_open_def)
qed

definition sample_twelve_column :: meta_column where
  "sample_twelve_column = \<lparr>kind = VEC0_METADATA_COLUMN_KIND_TEXT,
     meta_chunks = [1 \<mapsto> text_view (replicate 12 65) @ replicate 112 0], meta_text = (\<lambda>_. None)\<rparr>"

theorem metadata_order_filter_fails_on_twelve_witness:
  "fst (vec0_set_metadata_filter_bitmap True sample_in [1 \<mapsto> [10, 11, 12, 13, 14, 15, 16, 17]]
     sample_twelve_column VEC0_METADATA_OPERATOR_GT (sample_text [66]) 1 [0] 8 [] 0) = SQLITE_ERROR"
  by (rule metadata_order_filter_fails_on_twelve [where k = 0 and t = "replicate 12 65"
        and buffer = "text_view (replicate 12 65) @ replicate 112 0" and rowids = "[10, 11, 12, 13, 14, 15, 16, 17]"])
    (simp_all add: sample_twelve_column_def blob_read_def c_int_def)

text \<open>
  A text of more than twelve bytes that is a proper prefix of the target is smaller than the
  target, but \<open>>=\<close> accepts its row and \<open><\<close> rejects it: only as many bytes as the row has are compared.
\<close>

theorem metadata_order_filter_wrong_on_prefix:
  assumes "text_row col rowid t" and "length t > 12" and "no_nul t" and "no_nul u" and "u \<noteq> []"
  shows "bytes_less t (t @ u)
    \<and> text_filter_ge col (t @ u) (int (length t)) (text_prefix t) rowid = Inr True
    \<and> text_filter_lt col (t @ u) (int (length t)) (text_prefix t) rowid = Inr False"
proof -
  have "bytes_less t (t @ u)" for t using assms(5) by (induction t) (cases u; simp)+
  moreover have "strncmp t (t @ u) (length t) = 0" using strncmp_full(2) [of t "t @ u"] assms(3,4) by simp
  ultimately show ?thesis
    using text_filter_order_long [OF assms(1,2)] by (simp add: text_filter_ge_def text_filter_lt_def)
qed

theorem metadata_order_filter_wrong_on_prefix_witness:
  "bytes_less (replicate 13 65) (replicate 13 65 @ [66])
   \<and> text_filter_ge (sample_column\<lparr>meta_text := [5 \<mapsto> replicate 13 65]\<rparr>) (replicate 13 65 @ [66]) 13
       (replicate 12 65) 5 = Inr True"
  using metadata_order_filter_wrong_on_prefix [of "sample_column\<lparr>meta_text := [5 \<mapsto> replicate 13 65]\<rparr>" 5
      "replicate 13 65" "[66]"]
  by (simp add: text_row_def)

end
