(* ===== verification/FlatScan.thy ===== *)
theory FlatScan
  imports Selection MetadataFilter Distance_Exact
begin

text \<open>
  The flat scan of a nearest-neighbour query (\<open>vec0Filter_knn_chunks_iter\<close> in \<^verbatim>\<open>sqlite-vec.c\<close>) and the scan
  that collects the row ids that pass the filters for an index search (\<open>vec0Filter_chunks_to_rowid_map\<close>).
  Both step over the chunks of the table, and select the rows of a chunk by its validity bitmap, the
  \<open>rowid in (...)\<close> constraint and the metadata constraints.
\<close>

subsection \<open>Vector columns\<close>

datatype element_type =
    SQLITE_VEC_ELEMENT_TYPE_FLOAT32 | SQLITE_VEC_ELEMENT_TYPE_BIT | SQLITE_VEC_ELEMENT_TYPE_INT8

datatype distance_metrics = VEC0_DISTANCE_METRIC_L2 | VEC0_DISTANCE_METRIC_COSINE | VEC0_DISTANCE_METRIC_L1

record vector_column_definition =
  dimensions :: nat
  element_type :: element_type
  distance_metric :: distance_metrics

definition vector_byte_size :: "element_type \<Rightarrow> nat \<Rightarrow> nat" where
  "vector_byte_size t dims =
     (case t of
        SQLITE_VEC_ELEMENT_TYPE_FLOAT32 \<Rightarrow> dims * 4
      | SQLITE_VEC_ELEMENT_TYPE_INT8 \<Rightarrow> dims
      | SQLITE_VEC_ELEMENT_TYPE_BIT \<Rightarrow> dims div 8)"

definition vector_column_byte_size :: "vector_column_definition \<Rightarrow> nat" where
  "vector_column_byte_size column = vector_byte_size (element_type column) (dimensions column)"

text \<open>The elements of a vector in memory.\<close>

definition f32s_at :: "bytes \<Rightarrow> nat \<Rightarrow> nat \<Rightarrow> f32 list" where
  "f32s_at bs off n = map (\<lambda>j. word_of_int (le_int (take 4 (drop (4 * (off + j)) bs)))) [0..<n]"

definition i8s_at :: "bytes \<Rightarrow> nat \<Rightarrow> nat \<Rightarrow> int list" where
  "i8s_at bs off n = map (\<lambda>j. sint (bs ! (off + j))) [0..<n]"

text \<open>The distance of row \<open>i\<close> of a chunk to the query vector, by element type and metric.\<close>

definition row_distance :: "vector_column_definition \<Rightarrow> bytes \<Rightarrow> bytes \<Rightarrow> nat \<Rightarrow> f32" where
  "row_distance vc baseVectors queryVector i =
     (let d = dimensions vc in
      case element_type vc of
        SQLITE_VEC_ELEMENT_TYPE_FLOAT32 \<Rightarrow>
          (let base_i = f32s_at baseVectors (i * d) d; q = f32s_at queryVector 0 d in
           case distance_metric vc of
             VEC0_DISTANCE_METRIC_L2 \<Rightarrow> distance_l2_sqr_float base_i q d
           | VEC0_DISTANCE_METRIC_L1 \<Rightarrow> f32_of_f64 (distance_l1_f32 base_i q d)
           | VEC0_DISTANCE_METRIC_COSINE \<Rightarrow> distance_cosine_float base_i q d)
      | SQLITE_VEC_ELEMENT_TYPE_INT8 \<Rightarrow>
          (let base_i = i8s_at baseVectors (i * d) d; q = i8s_at queryVector 0 d in
           case distance_metric vc of
             VEC0_DISTANCE_METRIC_L2 \<Rightarrow> distance_l2_sqr_int8 base_i q d
           | VEC0_DISTANCE_METRIC_L1 \<Rightarrow> f32_of_int (distance_l1_int8 base_i q d)
           | VEC0_DISTANCE_METRIC_COSINE \<Rightarrow> distance_cosine_int8 base_i q d)
      | SQLITE_VEC_ELEMENT_TYPE_BIT \<Rightarrow>
          distance_hamming (drop (i * (d div 8)) baseVectors) queryVector d)"

subsection \<open>The table and its chunks\<close>

text \<open>
  What the scans read of the table: the chunk size, the vector chunks per column, the metadata columns
  and the \<open>rowids\<close> column of the chunk table. A row of the chunk statement carries the chunk id and the
  validity and row id columns; a step of the statement may also fail.
\<close>

record vec0_vtab =
  chunk_size :: nat
  vector_columns :: "vector_column_definition list"
  vector_chunks :: "nat \<Rightarrow> i64 \<Rightarrow> bytes option"
  metadata_columns :: "meta_column list"
  chunks_rowids :: "i64 \<Rightarrow> i64 list option"

record chunk =
  chunk_id :: i64
  chunk_validity :: bytes
  chunk_rowids :: "i64 list"

datatype chunk_step = Chunk_Row chunk | Chunk_Error

text \<open>
  The arguments of \<open>xFilter\<close>: \<open>idxStr\<close> has one entry per argument that says what it is for; the characters
  of a metadata entry give the column and the operator.
\<close>

datatype idx_entry =
    VEC0_IDXSTR_KIND_KNN_MATCH | VEC0_IDXSTR_KIND_KNN_K | VEC0_IDXSTR_KIND_KNN_ROWID_IN
  | VEC0_IDXSTR_KIND_KNN_PARTITON_CONSTRAINT | VEC0_IDXSTR_KIND_POINT_ID
  | VEC0_IDXSTR_KIND_METADATA_CONSTRAINT nat vec0_metadata_operator

subsection \<open>Selecting the rows of a chunk\<close>

definition rowids_in_bitmap :: "nat \<Rightarrow> bytes \<Rightarrow> i64 list \<Rightarrow> i64 list \<Rightarrow> bitmap \<Rightarrow> bitmap" where
  "rowids_in_bitmap n validity rows arrayRowidsIn bmRowids =
     foldl (\<lambda>bm i. if \<not> bitmap_get validity i then bm
                   else bitmap_set bm i (c_bsearch cmp_i64 (rows ! i) arrayRowidsIn \<noteq> None))
       (bitmap_clear bmRowids n) [0..<n]"

text \<open>The loop over the arguments; \<open>i\<close> is the position of the argument.\<close>

fun metadata_filters ::
  "bool \<Rightarrow> vec0_metadata_in \<Rightarrow> vec0_vtab \<Rightarrow> vec0_metadata_in list \<Rightarrow> i64 \<Rightarrow>
   (idx_entry \<times> sqlite3_value) list \<Rightarrow> nat \<Rightarrow> bitmap \<Rightarrow> bitmap \<Rightarrow> sqlite_rc \<times> bitmap" where
  "metadata_filters ok junk p aMetadataIn cid [] i bmMetadata b = (SQLITE_OK, b)"
| "metadata_filters ok junk p aMetadataIn cid ((entry, arg) # args) i bmMetadata b =
     (case entry of
        VEC0_IDXSTR_KIND_METADATA_CONSTRAINT metadata_idx op \<Rightarrow>
          (case vec0_set_metadata_filter_bitmap ok junk (chunks_rowids p) (metadata_columns p ! metadata_idx)
                  op arg cid (bitmap_clear bmMetadata (chunk_size p)) (chunk_size p) aMetadataIn i of
             (SQLITE_OK, bm) \<Rightarrow> metadata_filters ok junk p aMetadataIn cid args (Suc i) bm
                                 (bitmap_and_inplace b bm (chunk_size p))
           | (rc, bm) \<Rightarrow> (rc, b))
      | _ \<Rightarrow> metadata_filters ok junk p aMetadataIn cid args (Suc i) bmMetadata b)"

text \<open>
  The bitmap of the rows of a chunk that pass; \<open>arrayRowidsIn\<close> is \<open>None\<close> without a \<open>rowid in\<close> constraint. The
  size checks of the validity and row id columns come first.
\<close>

definition chunk_bitmap ::
  "bool \<Rightarrow> vec0_metadata_in \<Rightarrow> vec0_vtab \<Rightarrow> i64 list option \<Rightarrow> vec0_metadata_in list \<Rightarrow>
   (idx_entry \<times> sqlite3_value) list \<Rightarrow> chunk \<Rightarrow> sqlite_rc \<times> bitmap" where
  "chunk_bitmap ok junk p arrayRowidsIn aMetadataIn args c =
     (let n = chunk_size p; zero = replicate (n div 8) 0;
          b = bitmap_copy zero (chunk_validity c) n;
          b1 = (case arrayRowidsIn of None \<Rightarrow> b
                | Some rs \<Rightarrow> bitmap_and_inplace b (rowids_in_bitmap n (chunk_validity c) (chunk_rowids c) rs zero) n)
      in metadata_filters ok junk p aMetadataIn (chunk_id c) args 0 zero b1)"

definition chunk_sizes_ok :: "vec0_vtab \<Rightarrow> chunk \<Rightarrow> bool" where
  "chunk_sizes_ok p c \<longleftrightarrow>
     \<not> length (chunk_validity c) \<noteq> chunk_size p div 8 \<and> \<not> length (chunk_rowids c) * 8 \<noteq> chunk_size p * 8"

subsection \<open>The flat scan\<close>

definition chunk_distances :: "vec0_vtab \<Rightarrow> vector_column_definition \<Rightarrow> bytes \<Rightarrow> bytes \<Rightarrow> bitmap \<Rightarrow> f32 list" where
  "chunk_distances p vc baseVectors queryVector b =
     map (\<lambda>i. if bitmap_get b i then row_distance vc baseVectors queryVector i else 0) [0..<chunk_size p]"

definition scan_chunk ::
  "bool \<Rightarrow> vec0_metadata_in \<Rightarrow> vec0_vtab \<Rightarrow> vector_column_definition \<Rightarrow> nat \<Rightarrow> i64 list option \<Rightarrow>
   vec0_metadata_in list \<Rightarrow> (idx_entry \<times> sqlite3_value) list \<Rightarrow> bytes \<Rightarrow> nat \<Rightarrow> chunk \<Rightarrow> hits \<Rightarrow> hits result" where
  "scan_chunk ok junk p vc vectorColumnIdx arrayRowidsIn aMetadataIn args queryVector k c topk =
     (if \<not> chunk_sizes_ok p c then Inl SQLITE_ERROR
      else case vector_chunks p vectorColumnIdx (chunk_id c) of
        None \<Rightarrow> Inl SQLITE_ERROR
      | Some baseVectors \<Rightarrow>
          if length baseVectors \<noteq> chunk_size p * vector_column_byte_size vc then Inl SQLITE_ERROR
          else (case chunk_bitmap ok junk p arrayRowidsIn aMetadataIn args c of
            (SQLITE_OK, b) \<Rightarrow>
              (let n = chunk_size p;
                   ds = chunk_distances p vc baseVectors queryVector b;
                   idxs = min_idx ds n b (min k n) (replicate (n div 8) 0);
                   used1 = length idxs
               in Inr (merge_sorted_lists (map snd topk) (map fst topk) (length topk) ds (chunk_rowids c)
                         idxs (min (min k n) used1) k))
          | (rc, _) \<Rightarrow> Inl rc))"

fun scan_chunks ::
  "bool \<Rightarrow> vec0_metadata_in \<Rightarrow> vec0_vtab \<Rightarrow> vector_column_definition \<Rightarrow> nat \<Rightarrow> i64 list option \<Rightarrow>
   vec0_metadata_in list \<Rightarrow> (idx_entry \<times> sqlite3_value) list \<Rightarrow> bytes \<Rightarrow> nat \<Rightarrow> chunk_step list \<Rightarrow> hits \<Rightarrow> hits result" where
  "scan_chunks ok junk p vc vi rin min' args q k [] topk = Inr topk"
| "scan_chunks ok junk p vc vi rin min' args q k (Chunk_Error # cs) topk = Inl SQLITE_ERROR"
| "scan_chunks ok junk p vc vi rin min' args q k (Chunk_Row c # cs) topk =
     (case scan_chunk ok junk p vc vi rin min' args q k c topk of
        Inl rc \<Rightarrow> Inl rc
      | Inr topk' \<Rightarrow> scan_chunks ok junk p vc vi rin min' args q k cs topk')"

text \<open>\<open>ok\<close> is the outcome of the allocations at the start.\<close>

definition vec0Filter_knn_chunks_iter ::
  "bool \<Rightarrow> vec0_metadata_in \<Rightarrow> vec0_vtab \<Rightarrow> chunk_step list \<Rightarrow> nat \<Rightarrow> i64 list option \<Rightarrow>
   vec0_metadata_in list \<Rightarrow> (idx_entry \<times> sqlite3_value) list \<Rightarrow> bytes \<Rightarrow> nat \<Rightarrow> hits result" where
  "vec0Filter_knn_chunks_iter ok junk p stmtChunks vectorColumnIdx arrayRowidsIn aMetadataIn args queryVector k =
     (if \<not> ok then Inl SQLITE_NOMEM
      else scan_chunks ok junk p (vector_columns p ! vectorColumnIdx) vectorColumnIdx arrayRowidsIn aMetadataIn
             args queryVector k stmtChunks [])"

subsection \<open>The row ids that pass the filters\<close>

definition add_rows :: "bool \<Rightarrow> rowid_map \<Rightarrow> i64 list \<Rightarrow> bitmap \<Rightarrow> nat \<Rightarrow> sqlite_rc \<times> rowid_map" where
  "add_rows ok m rows b n = rowid_map_add_all ok m (map (nth rows) (filter (bitmap_get b) [0..<n]))"

fun map_chunks ::
  "bool \<Rightarrow> vec0_metadata_in \<Rightarrow> vec0_vtab \<Rightarrow> i64 list option \<Rightarrow> vec0_metadata_in list \<Rightarrow>
   (idx_entry \<times> sqlite3_value) list \<Rightarrow> chunk_step list \<Rightarrow> rowid_map \<Rightarrow> sqlite_rc \<times> rowid_map" where
  "map_chunks ok junk p rin min' args [] m = (SQLITE_OK, m)"
| "map_chunks ok junk p rin min' args (Chunk_Error # cs) m = (SQLITE_ERROR, m)"
| "map_chunks ok junk p rin min' args (Chunk_Row c # cs) m =
     (if \<not> chunk_sizes_ok p c then (SQLITE_ERROR, m)
      else case chunk_bitmap ok junk p rin min' args c of
        (SQLITE_OK, b) \<Rightarrow>
          (case add_rows ok m (chunk_rowids c) b (chunk_size p) of
             (SQLITE_OK, m') \<Rightarrow> map_chunks ok junk p rin min' args cs m'
           | (rc, m') \<Rightarrow> (rc, m'))
      | (rc, _) \<Rightarrow> (rc, m))"

text \<open>The result code of a complete scan is that of the last step of the statement, \<open>SQLITE_DONE\<close>; it is \<open>SQLITE_OK\<close> here.\<close>

definition vec0Filter_chunks_to_rowid_map ::
  "bool \<Rightarrow> vec0_metadata_in \<Rightarrow> vec0_vtab \<Rightarrow> chunk_step list \<Rightarrow> i64 list option \<Rightarrow> vec0_metadata_in list \<Rightarrow>
   (idx_entry \<times> sqlite3_value) list \<Rightarrow> rowid_map \<Rightarrow> sqlite_rc \<times> rowid_map" where
  "vec0Filter_chunks_to_rowid_map ok junk p stmtChunks arrayRowidsIn aMetadataIn args out_map =
     (if \<not> ok then (SQLITE_NOMEM, out_map)
      else case map_chunks ok junk p arrayRowidsIn aMetadataIn args stmtChunks out_map of
        (SQLITE_OK, m) \<Rightarrow> (SQLITE_OK, map_sort m)
      | (rc, m) \<Rightarrow> (rc, m))"

subsection \<open>Which rows pass\<close>

text \<open>
  The specification: \<open>val idx i\<close> is the value that metadata column \<open>idx\<close> holds for row \<open>i\<close> of the chunk, and
  a row passes when it is valid, its row id is in the list if there is one, and its values satisfy the
  metadata constraints.
\<close>

definition in_entry :: "vec0_metadata_in \<Rightarrow> vec0_metadata_in list \<Rightarrow> nat \<Rightarrow> vec0_metadata_in" where
  "in_entry junk aMetadataIn j = (case find_metadata_in aMetadataIn j of None \<Rightarrow> junk | Some m \<Rightarrow> m)"

fun args_sat ::
  "vec0_metadata_in \<Rightarrow> vec0_metadata_in list \<Rightarrow> (nat \<Rightarrow> meta_value) \<Rightarrow> (idx_entry \<times> sqlite3_value) list \<Rightarrow> nat \<Rightarrow> bool" where
  "args_sat junk mins vals [] j = True"
| "args_sat junk mins vals ((entry, arg) # args) j =
     ((case entry of
         VEC0_IDXSTR_KIND_METADATA_CONSTRAINT idx op \<Rightarrow> meta_sat op arg (in_entry junk mins j) (vals idx)
       | _ \<Rightarrow> True) \<and> args_sat junk mins vals args (Suc j))"

text \<open>A constraint the filter decides on the values of a chunk.\<close>

definition constraint_ok ::
  "vec0_metadata_in \<Rightarrow> vec0_metadata_in list \<Rightarrow> vec0_vtab \<Rightarrow> i64 \<Rightarrow> (nat \<Rightarrow> nat \<Rightarrow> meta_value) \<Rightarrow>
   nat \<Rightarrow> vec0_metadata_operator \<Rightarrow> sqlite3_value \<Rightarrow> nat \<Rightarrow> bool" where
  "constraint_ok junk mins p cid val idx op arg j \<longleftrightarrow>
     (let col = metadata_columns p ! idx in
      case (meta_chunks col cid, chunks_rowids p (c_int cid)) of
        (Some buffer, Some rows) \<Rightarrow>
          length buffer = vec0_metadata_chunk_size (kind col) (chunk_size p)
          \<and> (\<forall>i<chunk_size p. kind_of (val idx i) = kind col
               \<and> slot_shows (meta_text col) buffer (rows ! i) i (val idx i)
               \<and> decided op arg (in_entry junk mins j) (val idx i))
          \<and> (op = VEC0_METADATA_OPERATOR_IN \<longrightarrow> find_metadata_in mins j \<noteq> None)
      | _ \<Rightarrow> False)"

fun args_ok ::
  "vec0_metadata_in \<Rightarrow> vec0_metadata_in list \<Rightarrow> vec0_vtab \<Rightarrow> i64 \<Rightarrow> (nat \<Rightarrow> nat \<Rightarrow> meta_value) \<Rightarrow>
   (idx_entry \<times> sqlite3_value) list \<Rightarrow> nat \<Rightarrow> bool" where
  "args_ok junk mins p cid val [] j = True"
| "args_ok junk mins p cid val ((entry, arg) # args) j =
     ((case entry of
         VEC0_IDXSTR_KIND_METADATA_CONSTRAINT idx op \<Rightarrow> constraint_ok junk mins p cid val idx op arg j
       | _ \<Rightarrow> True) \<and> args_ok junk mins p cid val args (Suc j))"

definition row_passes ::
  "vec0_metadata_in \<Rightarrow> vec0_metadata_in list \<Rightarrow> i64 list option \<Rightarrow> (idx_entry \<times> sqlite3_value) list \<Rightarrow>
   (i64 \<Rightarrow> nat \<Rightarrow> nat \<Rightarrow> meta_value) \<Rightarrow> chunk \<Rightarrow> nat \<Rightarrow> bool" where
  "row_passes junk mins rin args val c i \<longleftrightarrow>
     bitmap_get (chunk_validity c) i
     \<and> (case rin of None \<Rightarrow> True | Some rs \<Rightarrow> chunk_rowids c ! i \<in> set rs)
     \<and> args_sat junk mins (\<lambda>idx. val (chunk_id c) idx i) args 0"

definition chunk_ok ::
  "vec0_metadata_in \<Rightarrow> vec0_metadata_in list \<Rightarrow> vec0_vtab \<Rightarrow> (idx_entry \<times> sqlite3_value) list \<Rightarrow>
   (i64 \<Rightarrow> nat \<Rightarrow> nat \<Rightarrow> meta_value) \<Rightarrow> chunk \<Rightarrow> bool" where
  "chunk_ok junk mins p args val c \<longleftrightarrow>
     length (chunk_validity c) = chunk_size p div 8 \<and> length (chunk_rowids c) = chunk_size p
     \<and> args_ok junk mins p (chunk_id c) (val (chunk_id c)) args 0"

subsection \<open>The bitmap of a chunk\<close>

lemma constraint_bits:
  assumes "chunk_size p mod 8 = 0" and "constraint_ok junk mins p cid val idx op arg j"
    and "length b = chunk_size p div 8"
  shows "has_bits (vec0_set_metadata_filter_bitmap True junk (chunks_rowids p) (metadata_columns p ! idx) op arg cid
      (bitmap_clear b (chunk_size p)) (chunk_size p) mins j) (chunk_size p)
      (\<lambda>i. meta_sat op arg (in_entry junk mins j) (val idx i))"
proof -
  obtain buffer rows where
    *: "meta_chunks (metadata_columns p ! idx) cid = Some buffer" "chunks_rowids p (c_int cid) = Some rows"
    using assms(2) by (auto simp: constraint_ok_def Let_def split: option.splits)
  have "op = VEC0_METADATA_OPERATOR_IN \<longrightarrow> find_metadata_in mins j = Some (in_entry junk mins j)"
    using assms(2) * by (auto simp: constraint_ok_def Let_def in_entry_def split: option.splits)
  then show ?thesis
    using * assms by (intro filter_bitmap_has_bits) (auto simp: constraint_ok_def Let_def bitmap_get_zero)
qed

lemma metadata_filters_bits:
  assumes "chunk_size p mod 8 = 0" and "args_ok junk mins p cid val args j"
    and "length bm = chunk_size p div 8" and "length b = chunk_size p div 8"
  shows "has_bits (metadata_filters True junk p mins cid args j bm b) (chunk_size p)
    (\<lambda>i. bitmap_get b i \<and> args_sat junk mins (\<lambda>idx. val idx i) args j)"
  using assms(2-4)
proof (induction args arbitrary: j bm b)
  case Nil
  then show ?case by (simp add: has_bits_def)
next
  case (Cons a args)
  obtain entry arg where a: "a = (entry, arg)" by force
  show ?case
  proof (cases "\<exists>idx op. entry = VEC0_IDXSTR_KIND_METADATA_CONSTRAINT idx op")
    case True
    then obtain idx op where e: "entry = VEC0_IDXSTR_KIND_METADATA_CONSTRAINT idx op" by blast
    have c: "constraint_ok junk mins p cid val idx op arg j" "args_ok junk mins p cid val args (Suc j)"
      using Cons.prems(1) a e by simp_all
    obtain bm' where bm': "vec0_set_metadata_filter_bitmap True junk (chunks_rowids p) (metadata_columns p ! idx)
        op arg cid (bitmap_clear bm (chunk_size p)) (chunk_size p) mins j = (SQLITE_OK, bm')"
      "length bm' = chunk_size p div 8"
      "\<forall>i<chunk_size p. bitmap_get bm' i = meta_sat op arg (in_entry junk mins j) (val idx i)"
      using constraint_bits [OF assms(1) c(1) Cons.prems(2)] unfolding has_bits_def by (metis prod.collapse)
    have "length (bitmap_and_inplace b bm' (chunk_size p)) = chunk_size p div 8" using Cons.prems(3) by simp
    from Cons.IH [OF c(2) bm'(2) this] show ?thesis
      using a e bm' assms(1) Cons.prems(3) by (auto simp: has_bits_def bitmap_get_and simp del: bitmap_clear_ok)
  next
    case False
    then show ?thesis using Cons a by (cases entry) auto
  qed
qed

lemma rowids_in_bits:
  assumes "n mod 8 = 0" and "sorted rs" and "i < n"
  shows "bitmap_get (rowids_in_bitmap n validity rows rs (replicate (n div 8) 0)) i =
    (bitmap_get validity i \<and> rows ! i \<in> set rs)"
proof -
  let ?B = "\<lambda>k. foldl (\<lambda>bm i. if \<not> bitmap_get validity i then bm
      else bitmap_set bm i (c_bsearch cmp_i64 (rows ! i) rs \<noteq> None)) (replicate (n div 8) 0) [0..<k]"
  have "k \<le> n \<Longrightarrow> length (?B k) = n div 8
      \<and> (\<forall>i<n. bitmap_get (?B k) i = (i < k \<and> bitmap_get validity i \<and> rows ! i \<in> set rs))" for k
  proof (induction k)
    case 0
    then show ?case using assms(1) by (simp add: bitmap_get_zero)
  next
    case (Suc k)
    then show ?case using assms(1) div_lt_bitmap [of k n] c_bsearch_iff [OF assms(2)]
      by (auto simp: bitmap_get_set less_Suc_eq)
  qed
  from this [of n] assms(3) show ?thesis by (simp add: rowids_in_bitmap_def)
qed

lemma chunk_bitmap_bits:
  assumes "chunk_size p mod 8 = 0" and "chunk_ok junk mins p args val c"
    and "\<forall>rs. rin = Some rs \<longrightarrow> sorted rs"
  shows "has_bits (chunk_bitmap True junk p rin mins args c) (chunk_size p) (row_passes junk mins rin args val c)"
proof -
  let ?n = "chunk_size p"
  let ?b = "case rin of None \<Rightarrow> chunk_validity c
     | Some rs \<Rightarrow> bitmap_and_inplace (chunk_validity c)
         (rowids_in_bitmap ?n (chunk_validity c) (chunk_rowids c) rs (replicate (?n div 8) 0)) ?n"
  have v: "length (chunk_validity c) = ?n div 8" using assms(2) by (simp add: chunk_ok_def)
  have b: "length ?b = ?n div 8" using v by (cases rin) simp_all
  have bits: "bitmap_get ?b i = (bitmap_get (chunk_validity c) i
      \<and> (case rin of None \<Rightarrow> True | Some rs \<Rightarrow> chunk_rowids c ! i \<in> set rs))" if "i < ?n" for i
    using that v assms(1,3) rowids_in_bits [OF assms(1) _ that]
    by (cases rin) (auto simp: bitmap_get_and)
  have "has_bits (metadata_filters True junk p mins (chunk_id c) args 0 (replicate (?n div 8) 0) ?b) ?n
      (\<lambda>i. bitmap_get ?b i \<and> args_sat junk mins (\<lambda>idx. val (chunk_id c) idx i) args 0)"
    using assms(1,2) b by (intro metadata_filters_bits) (simp_all add: chunk_ok_def)
  moreover have "chunk_bitmap True junk p rin mins args c =
      metadata_filters True junk p mins (chunk_id c) args 0 (replicate (?n div 8) 0) ?b"
    using v by (cases rin) (simp_all add: chunk_bitmap_def Let_def)
  ultimately show ?thesis using bits by (simp add: has_bits_def row_passes_def)
qed

subsection \<open>The flat scan finds the nearest rows\<close>

text \<open>The hits of a chunk: the rows that pass, each with its distance.\<close>

definition chunk_hits ::
  "vec0_metadata_in \<Rightarrow> vec0_metadata_in list \<Rightarrow> i64 list option \<Rightarrow> (idx_entry \<times> sqlite3_value) list \<Rightarrow>
   (i64 \<Rightarrow> nat \<Rightarrow> nat \<Rightarrow> meta_value) \<Rightarrow> vec0_vtab \<Rightarrow> nat \<Rightarrow> bytes \<Rightarrow> chunk \<Rightarrow> hits" where
  "chunk_hits junk mins rin args val p vi q c =
     (case vector_chunks p vi (chunk_id c) of
        None \<Rightarrow> []
      | Some base \<Rightarrow> map (\<lambda>i. (chunk_rowids c ! i, row_distance (vector_columns p ! vi) base q i))
                     (filter (row_passes junk mins rin args val c) [0..<chunk_size p]))"

definition vectors_ok :: "vec0_vtab \<Rightarrow> nat \<Rightarrow> chunk \<Rightarrow> bool" where
  "vectors_ok p vi c \<longleftrightarrow>
     (case vector_chunks p vi (chunk_id c) of
        None \<Rightarrow> False
      | Some base \<Rightarrow> length base = chunk_size p * vector_column_byte_size (vector_columns p ! vi))"

lemma best_k_min: "size M \<le> n \<Longrightarrow> best_k key (min k n) M S \<Longrightarrow> best_k key k M S"
  by (auto simp: best_k_def)

lemma chunk_selection_best:
  assumes "n mod 8 = 0" and "length b = n div 8" and "\<forall>i<n. bitmap_get b i = f i"
    and "\<forall>i<n. f i \<longrightarrow> ds ! i = d i \<and> \<not> fisnan (d i)"
  shows "best_k hit_key k (mset (map (\<lambda>i. (rows ! i, d i)) (filter f [0..<n])))
      (mset (row_hits rows ds (min_idx ds n b (min k n) (replicate (n div 8) 0))))"
    and "sorted (map hit_key (row_hits rows ds (min_idx ds n b (min k n) (replicate (n div 8) 0))))"
    and "length (min_idx ds n b (min k n) (replicate (n div 8) 0)) \<le> min k n"
proof -
  let ?idxs = "min_idx ds n b (min k n) (replicate (n div 8) 0)"
  have flt: "filter (bitmap_get b) [0..<n] = filter f [0..<n]"
    using assms(3) by (intro filter_cong) auto
  have hits: "map (\<lambda>i. (rows ! i, ds ! i)) (filter f [0..<n]) = map (\<lambda>i. (rows ! i, d i)) (filter f [0..<n])"
    using assms(4) by auto
  have min: "best_k (\<lambda>i. fkey (ds ! i)) (min k n) (mset (filter f [0..<n])) (mset ?idxs)"
    "sorted (map (\<lambda>i. fkey (ds ! i)) ?idxs)"
    using min_idx_best [of n "replicate (n div 8) 0" b ds "min k n"] assms flt by simp_all
  show "length ?idxs \<le> min k n" using best_k_size [OF min(1)] by (metis min.cobounded1 size_mset)
  have "size (mset (filter f [0..<n])) \<le> n"
    using length_filter_le [of f "[0..<n]"] by (metis length_upt minus_nat.diff_0 size_mset)
  then have "best_k (\<lambda>i. hit_key (rows ! i, ds ! i)) k (mset (filter f [0..<n])) (mset ?idxs)"
    using best_k_min [OF _ min(1)] by simp
  from best_k_image [of hit_key "\<lambda>i. (rows ! i, ds ! i)", OF this] hits show "best_k hit_key k (mset (map (\<lambda>i. (rows ! i, d i)) (filter f [0..<n])))
      (mset (row_hits rows ds ?idxs))"
    unfolding row_hits_def mset_map [symmetric] by (simp only:)
  show "sorted (map hit_key (row_hits rows ds ?idxs))" using min(2) by (simp add: row_hits_def comp_def)
qed

lemma scan_chunk_best:
  assumes n: "chunk_size p mod 8 = 0" and c: "chunk_ok junk mins p args val c" "vectors_ok p vi c"
    and rin: "\<forall>rs. rin = Some rs \<longrightarrow> sorted rs"
    and num: "\<forall>h\<in>#M + mset (chunk_hits junk mins rin args val p vi q c). \<not> fisnan (snd h)"
    and topk: "best_k hit_key k M (mset topk)" "sorted (map hit_key topk)"
  shows "\<exists>topk'. scan_chunk True junk p (vector_columns p ! vi) vi rin mins args q k c topk = Inr topk'
    \<and> best_k hit_key k (M + mset (chunk_hits junk mins rin args val p vi q c)) (mset topk')
    \<and> sorted (map hit_key topk')"
proof -
  let ?n = "chunk_size p" and ?vc = "vector_columns p ! vi" and ?f = "row_passes junk mins rin args val c"
  obtain base where base: "vector_chunks p vi (chunk_id c) = Some base"
    "length base = ?n * vector_column_byte_size ?vc"
    using c(2) by (auto simp: vectors_ok_def split: option.splits)
  obtain b where b: "chunk_bitmap True junk p rin mins args c = (SQLITE_OK, b)" "length b = ?n div 8"
    "\<forall>i<?n. bitmap_get b i = ?f i"
    using chunk_bitmap_bits [OF n c(1) rin] unfolding has_bits_def by (metis prod.collapse)
  let ?ds = "chunk_distances p ?vc base q b" and ?d = "row_distance ?vc base q"
  let ?idxs = "min_idx ?ds ?n b (min k ?n) (replicate (?n div 8) 0)"
  have hits: "chunk_hits junk mins rin args val p vi q c =
      map (\<lambda>i. (chunk_rowids c ! i, ?d i)) (filter ?f [0..<?n])" using base by (simp add: chunk_hits_def)
  have d: "\<forall>i<?n. ?f i \<longrightarrow> ?ds ! i = ?d i \<and> \<not> fisnan (?d i)"
  proof (intro allI impI)
    fix i assume i: "i < ?n" "?f i"
    then have "(chunk_rowids c ! i, ?d i) \<in> set (chunk_hits junk mins rin args val p vi q c)"
      by (auto simp: hits)
    then have "\<not> fisnan (?d i)" using num by (metis UnCI set_mset_mset set_mset_union snd_conv)
    then show "?ds ! i = ?d i \<and> \<not> fisnan (?d i)" using i b(3) by (simp add: chunk_distances_def)
  qed
  note sel = chunk_selection_best [OF n b(2,3) d]
  have "min (min k ?n) (length ?idxs) = length ?idxs" using sel(3) [of k] by simp
  then have "scan_chunk True junk p ?vc vi rin mins args q k c topk = Inr (merge_sorted_lists (map snd topk)
      (map fst topk) (length topk) ?ds (chunk_rowids c) ?idxs (length ?idxs) k)"
    using base b(1) c(1) by (simp add: scan_chunk_def chunk_sizes_ok_def chunk_ok_def Let_def)
  then show ?thesis using merge_best [OF topk sel(1) [of k "chunk_rowids c"] sel(2) [of "chunk_rowids c" k]] num by (simp add: hits)
qed

lemma scan_chunks_best:
  assumes "chunk_size p mod 8 = 0" and "\<forall>rs. rin = Some rs \<longrightarrow> sorted rs"
    and "\<forall>c\<in>set cs. chunk_ok junk mins p args val c \<and> vectors_ok p vi c
      \<and> (\<forall>h\<in>set (chunk_hits junk mins rin args val p vi q c). \<not> fisnan (snd h))"
    and "\<forall>h\<in>#M. \<not> fisnan (snd h)" and "best_k hit_key k M (mset topk)" and "sorted (map hit_key topk)"
  shows "\<exists>hs. scan_chunks True junk p (vector_columns p ! vi) vi rin mins args q k (map Chunk_Row cs) topk = Inr hs
    \<and> best_k hit_key k (M + mset (concat (map (chunk_hits junk mins rin args val p vi q) cs))) (mset hs)
    \<and> sorted (map hit_key hs)"
  using assms(3-6)
proof (induction cs arbitrary: M topk)
  case Nil
  then show ?case by simp
next
  case (Cons c cs)
  let ?M = "M + mset (chunk_hits junk mins rin args val p vi q c)"
  have num: "\<forall>h\<in>#?M. \<not> fisnan (snd h)" using Cons.prems(1,2) by auto
  obtain topk' where t: "scan_chunk True junk p (vector_columns p ! vi) vi rin mins args q k c topk = Inr topk'"
    "best_k hit_key k ?M (mset topk')" "sorted (map hit_key topk')"
    using scan_chunk_best [OF assms(1) _ _ assms(2) num Cons.prems(3,4)] Cons.prems(1) by auto
  from Cons.IH [OF _ num t(2,3)] Cons.prems(1) t(1) show ?case by (auto simp: ac_simps)
qed

text \<open>A table with one chunk of eight rows, a bit column of eight dimensions and the integer column above.\<close>

definition sample_table :: vec0_vtab where
  "sample_table = \<lparr>chunk_size = 8,
     vector_columns = [\<lparr>dimensions = 8, element_type = SQLITE_VEC_ELEMENT_TYPE_BIT,
                        distance_metric = VEC0_DISTANCE_METRIC_L2\<rparr>],
     vector_chunks = (\<lambda>_. [1 \<mapsto> [0, 1, 2, 3, 4, 5, 6, 7]]), metadata_columns = [sample_int_column],
     chunks_rowids = [1 \<mapsto> [10, 11, 12, 13, 14, 15, 16, 17]]\<rparr>"

definition sample_chunk :: chunk where
  "sample_chunk = \<lparr>chunk_id = 1, chunk_validity = [0x7F], chunk_rowids = [10, 11, 12, 13, 14, 15, 16, 17]\<rparr>"

definition sample_args :: "(idx_entry \<times> sqlite3_value) list" where
  "sample_args = [(VEC0_IDXSTR_KIND_METADATA_CONSTRAINT 0 VEC0_METADATA_OPERATOR_GT, sample_int 2)]"

definition sample_val :: "i64 \<Rightarrow> nat \<Rightarrow> nat \<Rightarrow> meta_value" where
  "sample_val c idx i = MInt (sample_ints ! i)"

lemma sample_chunk_ok: "chunk_ok sample_in [] sample_table sample_args sample_val sample_chunk"
proof -
  have "length (concat (map (le_bytes 8) sample_ints)) = 64" by (simp add: sample_ints_def)
  moreover have "\<forall>i<8. slot_shows (meta_text sample_int_column) (concat (map (le_bytes 8) sample_ints))
      ([10, 11, 12, 13, 14, 15, 16, 17] ! i) i (MInt (sample_ints ! i))"
    using sample_ints_shown by (simp add: list_all_iff)
  ultimately show ?thesis
    by (simp add: chunk_ok_def sample_table_def sample_chunk_def sample_args_def constraint_ok_def sample_val_def
        sample_int_column_def vec0_metadata_chunk_size_def c_int_def)
qed

lemma sample_hits:
  "chunk_hits sample_in [] None sample_args sample_val sample_table 0 [0] sample_chunk =
     [(10, f32_of_int 0), (12, f32_of_int 1), (14, f32_of_int 1), (15, f32_of_int 2)]"
  unfolding sample_table_def sample_chunk_def sample_args_def sample_val_def sample_int_def sample_in_def
    sample_int_column_def sample_ints_def
  by code_simp

text \<open>
  C1. Over any chunks whose blobs have the sizes the table asks for, the flat scan succeeds and
  returns, in order of distance, \<open>k\<close> nearest rows among all rows that are valid, are in the \<open>rowid in\<close>
  list if there is one, and satisfy every metadata constraint.
\<close>

theorem flat_scan_returns_nearest:
  assumes "chunk_size p mod 8 = 0" and "\<forall>rs. rin = Some rs \<longrightarrow> sorted rs"
    and "\<forall>c\<in>set cs. chunk_ok junk mins p args val c \<and> vectors_ok p vi c
      \<and> (\<forall>h\<in>set (chunk_hits junk mins rin args val p vi q c). \<not> fisnan (snd h))"
  shows "\<exists>hs. vec0Filter_knn_chunks_iter True junk p (map Chunk_Row cs) vi rin mins args q k = Inr hs
    \<and> best_k hit_key k (mset (concat (map (chunk_hits junk mins rin args val p vi q) cs))) (mset hs)
    \<and> sorted (map hit_key hs)"
  using scan_chunks_best [OF assms, of "{#}" k "[]"] by (simp add: vec0Filter_knn_chunks_iter_def)

theorem flat_scan_returns_nearest_witness:
  "\<exists>hs. vec0Filter_knn_chunks_iter True sample_in sample_table [Chunk_Row sample_chunk] 0 None [] sample_args [0] 2
      = Inr hs
    \<and> best_k hit_key 2 (mset [(10, f32_of_int 0), (12, f32_of_int 1), (14, f32_of_int 1), (15, f32_of_int 2)]) (mset hs)
    \<and> sorted (map hit_key hs)"
proof -
  have "vectors_ok sample_table 0 sample_chunk"
    by (simp add: vectors_ok_def sample_table_def sample_chunk_def vector_column_byte_size_def vector_byte_size_def)
  moreover have "\<forall>h\<in>set (chunk_hits sample_in [] None sample_args sample_val sample_table 0 [0] sample_chunk).
      \<not> fisnan (snd h)"
    unfolding sample_hits using int_not_nan [of 0] int_not_nan [of 1] int_not_nan [of 2] by simp
  ultimately show ?thesis
    using flat_scan_returns_nearest [of sample_table None "[sample_chunk]" sample_in "[]" sample_args sample_val 0 "[0]" 2]
      sample_chunk_ok sample_hits
    by (simp add: sample_table_def)
qed

lemma rowid_map_rows:
  assumes "chunk_size p mod 8 = 0" and "\<forall>rs. rin = Some rs \<longrightarrow> sorted rs"
    and "\<forall>c\<in>set cs. chunk_ok junk mins p args val c" and "map_wf m" and "rowids m = []"
  shows "\<exists>m'. vec0Filter_chunks_to_rowid_map True junk p (map Chunk_Row cs) rin mins args m = (SQLITE_OK, m')
    \<and> pre_filter m' = pre_filter m
    \<and> (\<forall>r. map_has m' r \<longleftrightarrow>
          (\<exists>c\<in>set cs. \<exists>i<chunk_size p. row_passes junk mins rin args val c i \<and> chunk_rowids c ! i = r))"
proof -
  let ?rows = "\<lambda>c. map (nth (chunk_rowids c)) (filter (row_passes junk mins rin args val c) [0..<chunk_size p])"
  have "\<exists>m'. map_chunks True junk p rin mins args (map Chunk_Row cs) m = (SQLITE_OK, m')
      \<and> pre_filter m' = pre_filter m \<and> rowids m' = rowids m @ concat (map ?rows cs)"
    using assms(3,4)
  proof (induction cs arbitrary: m)
    case (Cons c cs)
    obtain b where b: "chunk_bitmap True junk p rin mins args c = (SQLITE_OK, b)"
      "\<forall>i<chunk_size p. bitmap_get b i = row_passes junk mins rin args val c i"
      using chunk_bitmap_bits [OF assms(1) _ assms(2)] Cons.prems(1) unfolding has_bits_def
      by (metis list.set_intros(1) prod.collapse)
    then have "filter (bitmap_get b) [0..<chunk_size p] = filter (row_passes junk mins rin args val c) [0..<chunk_size p]"
      by (intro filter_cong) auto
    then obtain m1 where m1: "add_rows True m (chunk_rowids c) b (chunk_size p) = (SQLITE_OK, m1)"
      "map_wf m1" "rowids m1 = rowids m @ ?rows c" "pre_filter m1 = pre_filter m"
      using rowid_map_add_all_ok [OF Cons.prems(2)] by (auto simp: add_rows_def)
    have "chunk_sizes_ok p c" using Cons.prems(1) by (simp add: chunk_ok_def chunk_sizes_ok_def)
    then show ?case using Cons.IH [OF _ m1(2)] Cons.prems(1) b(1) m1 by auto
  qed simp
  then obtain m' where m': "map_chunks True junk p rin mins args (map Chunk_Row cs) m = (SQLITE_OK, m')"
    "pre_filter m' = pre_filter m" "rowids m' = concat (map ?rows cs)" using assms(5) by auto
  then have "vec0Filter_chunks_to_rowid_map True junk p (map Chunk_Row cs) rin mins args m = (SQLITE_OK, map_sort m')"
    by (simp add: vec0Filter_chunks_to_rowid_map_def)
  moreover have "pre_filter (map_sort m') = pre_filter m" using m'(2) by (simp add: map_sort_def)
  ultimately show ?thesis using map_sort_has [of m'] m'(3) by auto
qed

text \<open>
  C18. The scan for an index search succeeds and collects exactly the row ids of the valid rows that
  are in the \<open>rowid in\<close> list and satisfy every metadata constraint: the \<open>bsearch\<close> of the index searches
  finds a row id in the map if and only if such a row has it.
\<close>

theorem rowid_map_holds_passing_rows:
  assumes "chunk_size p mod 8 = 0" and "\<forall>rs. rin = Some rs \<longrightarrow> sorted rs"
    and "\<forall>c\<in>set cs. chunk_ok junk mins p args val c" and "map_wf m" and "rowids m = []"
  shows "\<exists>m'. vec0Filter_chunks_to_rowid_map True junk p (map Chunk_Row cs) rin mins args m = (SQLITE_OK, m')
    \<and> pre_filter m' = pre_filter m
    \<and> (\<forall>r. map_has m' r \<longleftrightarrow>
          (\<exists>c\<in>set cs. \<exists>i<chunk_size p. row_passes junk mins rin args val c i \<and> chunk_rowids c ! i = r))"
  using assms by (rule rowid_map_rows)

theorem rowid_map_holds_passing_rows_witness:
  "\<exists>m'. vec0Filter_chunks_to_rowid_map True sample_in sample_table [Chunk_Row sample_chunk] None [] sample_args
      \<lparr>rowids = [], capacity = 16, pre_filter = True\<rparr> = (SQLITE_OK, m')
    \<and> pre_filter m' \<and> map_has m' 12 \<and> \<not> map_has m' 11"
proof -
  have "row_passes sample_in [] None sample_args sample_val sample_chunk 2"
    unfolding sample_chunk_def sample_args_def sample_val_def sample_int_def sample_in_def sample_ints_def
    by code_simp
  moreover have "\<not> row_passes sample_in [] None sample_args sample_val sample_chunk 1"
    unfolding sample_chunk_def sample_args_def sample_val_def sample_int_def sample_in_def sample_ints_def
    by code_simp
  moreover have "i < 8 \<Longrightarrow> chunk_rowids sample_chunk ! i = 11 \<longleftrightarrow> i = 1" for i
    by (simp add: sample_chunk_def nth_Cons split: nat.splits)
  moreover have "chunk_rowids sample_chunk ! 2 = 12" by (simp add: sample_chunk_def)
  ultimately show ?thesis
    using rowid_map_holds_passing_rows [of sample_table None "[sample_chunk]" sample_in "[]" sample_args sample_val
        "\<lparr>rowids = [], capacity = 16, pre_filter = True\<rparr>"] sample_chunk_ok
    by (force simp: sample_table_def map_wf_def map_count_def)
qed

end
