(* ===== verification/TableStore.thy ===== *)
theory TableStore
  imports FlatScan
begin

text \<open>
  The rows of a \<open>vec0\<close> table in its shadow tables (\<^verbatim>\<open>sqlite-vec.c\<close>): the chunk table with a validity bitmap and
  the row ids of each chunk, a table of vector chunks per vector column, the metadata columns, and the
  table that maps a row id to its chunk and offset. This theory models finding a free slot, inserting,
  reading, updating and deleting a row, for tables with an integer primary key and without partition
  and auxiliary columns.
\<close>

record vec0_table = vec0_vtab +
  chunk_ids :: "i64 list"
  chunks_validity :: "i64 \<Rightarrow> bytes option"
  rowids_table :: "i64 \<Rightarrow> (i64 \<times> nat) option"

subsection \<open>The row id table\<close>

definition vec0_get_chunk_position :: "vec0_table \<Rightarrow> i64 \<Rightarrow> (i64 \<times> nat) result" where
  "vec0_get_chunk_position p rowid =
     (case rowids_table p rowid of None \<Rightarrow> Inl SQLITE_EMPTY | Some pos \<Rightarrow> Inr pos)"

text \<open>A new row has no position yet; the null columns read as zero.\<close>

definition vec0_rowids_insert_rowid :: "vec0_table \<Rightarrow> i64 \<Rightarrow> sqlite_rc \<times> vec0_table" where
  "vec0_rowids_insert_rowid p rowid =
     (case rowids_table p rowid of
        Some _ \<Rightarrow> (SQLITE_ERROR, p)
      | None \<Rightarrow> (SQLITE_OK, p\<lparr>rowids_table := (rowids_table p)(rowid \<mapsto> (0, 0))\<rparr>))"

definition vec0_rowids_update_position :: "vec0_table \<Rightarrow> i64 \<Rightarrow> i64 \<Rightarrow> nat \<Rightarrow> sqlite_rc \<times> vec0_table" where
  "vec0_rowids_update_position p rowid chunk_rowid chunk_offset =
     (SQLITE_OK, p\<lparr>rowids_table := (rowids_table p)(rowid :=
        (if rowids_table p rowid = None then None else Some (chunk_rowid, chunk_offset)))\<rparr>)"

definition vec0Update_Delete_DeleteRowids :: "vec0_table \<Rightarrow> i64 \<Rightarrow> sqlite_rc \<times> vec0_table" where
  "vec0Update_Delete_DeleteRowids p rowid =
     (SQLITE_OK, p\<lparr>rowids_table := (rowids_table p)(rowid := None)\<rparr>)"

text \<open>
  The id of an inserted row; \<open>next\<close> is the row id SQLITE picks for a null primary key, an unused one. The
  branch for \<open>TEXT\<close> primary keys is left out.
\<close>

definition vec0Update_InsertRowidStep :: "i64 \<Rightarrow> vec0_table \<Rightarrow> sqlite3_value \<Rightarrow> (sqlite_rc \<times> i64) \<times> vec0_table" where
  "vec0Update_InsertRowidStep next p idValue =
     (if value_type idValue = SQLITE_INTEGER then
        (case vec0_rowids_insert_rowid p (value_int64 idValue) of (rc, p') \<Rightarrow> ((rc, value_int64 idValue), p'))
      else if value_type idValue \<noteq> SQLITE_NULL then ((SQLITE_ERROR, 0), p)
      else (case vec0_rowids_insert_rowid p next of (rc, p') \<Rightarrow> ((rc, next), p')))"

subsection \<open>Chunks\<close>

definition vec0_get_latest_chunk_rowid :: "vec0_table \<Rightarrow> i64 result" where
  "vec0_get_latest_chunk_rowid p =
     (if chunk_ids p = [] then Inl SQLITE_EMPTY else Inr (foldl max (hd (chunk_ids p)) (tl (chunk_ids p))))"

text \<open>A new chunk gets the row id after the largest one, and zeroed blobs in every shadow table.\<close>

definition vec0_new_chunk :: "vec0_table \<Rightarrow> i64 \<times> vec0_table" where
  "vec0_new_chunk p =
     (let rowid = (case vec0_get_latest_chunk_rowid p of Inl _ \<Rightarrow> 1 | Inr r \<Rightarrow> r + 1);
          n = chunk_size p
      in (rowid, p\<lparr>chunk_ids := chunk_ids p @ [rowid],
                   chunks_validity := (chunks_validity p)(rowid \<mapsto> replicate (n div 8) 0),
                   chunks_rowids := (chunks_rowids p)(rowid \<mapsto> replicate n 0),
                   vector_chunks := (\<lambda>i. if i < length (vector_columns p)
                     then (vector_chunks p i)(rowid \<mapsto>
                            replicate (n * vector_column_byte_size (vector_columns p ! i)) 0)
                     else vector_chunks p i),
                   metadata_columns := map (\<lambda>col. col\<lparr>meta_chunks :=
                     (meta_chunks col)(rowid \<mapsto> replicate (vec0_metadata_chunk_size (kind col) n) 0)\<rparr>)
                     (metadata_columns p)\<rparr>))"

text \<open>The search for the first clear bit, byte by byte.\<close>

fun next_offset :: "bytes \<Rightarrow> nat \<Rightarrow> nat option" where
  "next_offset [] i = None"
| "next_offset (b # bs) i =
     (if b = 0xFF then next_offset bs (Suc i)
      else case find (\<lambda>j. drop_bit j b AND 1 = 0) [0..<8] of
             Some j \<Rightarrow> Some (i * 8 + j)
           | None \<Rightarrow> next_offset bs (Suc i))"

text \<open>
  The result is the chunk, the offset and the snapshot of the validity bitmap; \<open>ok\<close> is the outcome of
  the allocation of the snapshot. A size mismatch of the bitmap of a new chunk, which cannot happen,
  leaves the result code at \<open>SQLITE_OK\<close>.
\<close>

definition fresh_position :: "vec0_table \<Rightarrow> (i64 \<times> nat \<times> bytes) result \<times> vec0_table" where
  "fresh_position p =
     (case vec0_new_chunk p of (c, p') \<Rightarrow>
        (case chunks_validity p' c of
           None \<Rightarrow> (Inl SQLITE_ERROR, p')
         | Some v \<Rightarrow> if length v \<noteq> chunk_size p' div 8 then (Inl SQLITE_OK, p') else (Inr (c, 0, v), p')))"

definition vec0Update_InsertNextAvailableStep ::
  "bool \<Rightarrow> vec0_table \<Rightarrow> (i64 \<times> nat \<times> bytes) result \<times> vec0_table" where
  "vec0Update_InsertNextAvailableStep ok p =
     (case vec0_get_latest_chunk_rowid p of
        Inl SQLITE_EMPTY \<Rightarrow> fresh_position p
      | Inl rc \<Rightarrow> (Inl rc, p)
      | Inr c \<Rightarrow>
          (case chunks_validity p c of
             None \<Rightarrow> (Inl SQLITE_ERROR, p)
           | Some v \<Rightarrow>
               if length v \<noteq> chunk_size p div 8 then (Inl SQLITE_ERROR, p)
               else if \<not> ok then (Inl SQLITE_NOMEM, p)
               else (case next_offset v 0 of
                       Some off \<Rightarrow> (Inr (c, off, v), p)
                     | None \<Rightarrow> fresh_position p)))"

subsection \<open>Writing a row\<close>

definition vec0_write_vector_to_vector_blob :: "bytes \<Rightarrow> nat \<Rightarrow> bytes \<Rightarrow> nat \<Rightarrow> element_type \<Rightarrow> bytes result" where
  "vec0_write_vector_to_vector_blob blobVectors chunk_offset bVector dims t =
     (case t of
        SQLITE_VEC_ELEMENT_TYPE_FLOAT32 \<Rightarrow>
          blob_write blobVectors (take (dims * 4) bVector) (chunk_offset * dims * 4)
      | SQLITE_VEC_ELEMENT_TYPE_INT8 \<Rightarrow>
          blob_write blobVectors (take dims bVector) (chunk_offset * dims)
      | SQLITE_VEC_ELEMENT_TYPE_BIT \<Rightarrow>
          blob_write blobVectors (take (dims div 8) bVector) (chunk_offset * dims div 8))"

text \<open>The loop over the vector columns from column \<open>i\<close> on.\<close>

fun write_vectors :: "vec0_table \<Rightarrow> i64 \<Rightarrow> nat \<Rightarrow> nat \<Rightarrow> bytes list \<Rightarrow> sqlite_rc \<times> vec0_table" where
  "write_vectors p chunk_rowid chunk_offset i [] = (SQLITE_OK, p)"
| "write_vectors p chunk_rowid chunk_offset i (vec # vecs) =
     (case vector_chunks p i chunk_rowid of
        None \<Rightarrow> (SQLITE_ERROR, p)
      | Some blob \<Rightarrow>
          (let vc = vector_columns p ! i in
           if length blob \<noteq> chunk_size p * vector_column_byte_size vc then (SQLITE_ERROR, p)
           else (case vec0_write_vector_to_vector_blob blob chunk_offset vec (dimensions vc) (element_type vc) of
                   Inl _ \<Rightarrow> (SQLITE_ERROR, p)
                 | Inr b \<Rightarrow> write_vectors (p\<lparr>vector_chunks := (vector_chunks p)(i := (vector_chunks p i)(chunk_rowid \<mapsto> b))\<rparr>)
                             chunk_rowid chunk_offset (Suc i) vecs)))"

definition vec0Update_InsertWriteFinalStep ::
  "vec0_table \<Rightarrow> i64 \<Rightarrow> nat \<Rightarrow> i64 \<Rightarrow> bytes list \<Rightarrow> bytes \<Rightarrow> sqlite_rc \<times> vec0_table" where
  "vec0Update_InsertWriteFinalStep p chunk_rowid chunk_offset rowid vectorDatas bufferChunksValidity =
     (case chunks_validity p chunk_rowid of
        None \<Rightarrow> (SQLITE_ERROR, p)
      | Some blobValidity \<Rightarrow>
     (let bx = bufferChunksValidity ! (chunk_offset div 8) OR push_bit (chunk_offset mod 8) 1 in
      case blob_write blobValidity [bx] (chunk_offset div 8) of
        Inl rc \<Rightarrow> (rc, p)
      | Inr v \<Rightarrow>
     (case write_vectors (p\<lparr>chunks_validity := (chunks_validity p)(chunk_rowid \<mapsto> v)\<rparr>)
             chunk_rowid chunk_offset 0 vectorDatas of
        (SQLITE_OK, p1) \<Rightarrow>
          (case chunks_rowids p1 chunk_rowid of
             None \<Rightarrow> (SQLITE_ERROR, p1)
           | Some rows \<Rightarrow>
               if chunk_size p1 * 8 \<noteq> length rows * 8 then (SQLITE_ERROR, p1)
               else if \<not> chunk_offset < length rows then (SQLITE_ERROR, p1)
               else vec0_rowids_update_position
                      (p1\<lparr>chunks_rowids := (chunks_rowids p1)(chunk_rowid \<mapsto> rows[chunk_offset := rowid])\<rparr>)
                      rowid chunk_rowid chunk_offset)
      | (rc, p1) \<Rightarrow> (rc, p1))))"

fun write_metadata_values :: "vec0_table \<Rightarrow> i64 \<Rightarrow> i64 \<Rightarrow> nat \<Rightarrow> nat \<Rightarrow> sqlite3_value list \<Rightarrow> sqlite_rc \<times> vec0_table" where
  "write_metadata_values p rowid chunk_rowid chunk_offset i [] = (SQLITE_OK, p)"
| "write_metadata_values p rowid chunk_rowid chunk_offset i (v # vs) =
     (case vec0_write_metadata_value (metadata_columns p ! i) rowid chunk_rowid chunk_offset v False of
        (rc, col) \<Rightarrow>
          (let p' = p\<lparr>metadata_columns := (metadata_columns p)[i := col]\<rparr> in
           if rc \<noteq> SQLITE_OK then (rc, p')
           else write_metadata_values p' rowid chunk_rowid chunk_offset (Suc i) vs))"

text \<open>
  A vector argument as \<open>vector_from_value\<close> parses it: its element type, dimensions and bytes, or \<open>None\<close> for
  an error.
\<close>

type_synonym parsed_vector = "(element_type \<times> nat \<times> bytes) option"

definition vector_fits :: "vector_column_definition \<Rightarrow> parsed_vector \<Rightarrow> bool" where
  "vector_fits vc v =
     (case v of
        None \<Rightarrow> False
      | Some (t, dims, _) \<Rightarrow> \<not> t \<noteq> element_type vc \<and> \<not> dims \<noteq> dimensions vc)"

definition vector_data :: "parsed_vector \<Rightarrow> bytes" where
  "vector_data v = (case v of None \<Rightarrow> [] | Some (_, _, bs) \<Rightarrow> bs)"

text \<open>
  The insert of a row; \<open>hidden\<close> says that a value was given for one of the hidden columns \<open>distance\<close> and \<open>k\<close>.
  The maintenance of the index is modelled with the indexes.
\<close>

definition insert_row ::
  "bool \<Rightarrow> i64 \<Rightarrow> vec0_table \<Rightarrow> sqlite3_value \<Rightarrow> parsed_vector list \<Rightarrow> bool \<Rightarrow> sqlite3_value list \<Rightarrow>
   (sqlite_rc \<times> i64) \<times> vec0_table" where
  "insert_row ok next p idValue vectors hidden metas =
     (if \<not> list_all2 vector_fits (vector_columns p) vectors then ((SQLITE_ERROR, 0), p)
      else if hidden then ((SQLITE_ERROR, 0), p)
      else (case vec0Update_InsertRowidStep next p idValue of
        ((SQLITE_OK, rowid), p1) \<Rightarrow>
          (case vec0Update_InsertNextAvailableStep ok p1 of
             (Inl rc, p2) \<Rightarrow> ((rc, 0), p2)
           | (Inr (c, off, v), p2) \<Rightarrow>
               (case vec0Update_InsertWriteFinalStep p2 c off rowid (map vector_data vectors) v of
                  (SQLITE_OK, p3) \<Rightarrow>
                    (case write_metadata_values p3 rowid c off 0 metas of
                       (SQLITE_OK, p4) \<Rightarrow> ((SQLITE_OK, rowid), p4)
                     | (rc, p4) \<Rightarrow> ((rc, 0), p4))
                | (rc, p3) \<Rightarrow> ((rc, 0), p3)))
      | ((rc, _), p1) \<Rightarrow> ((rc, 0), p1)))"

subsection \<open>Reading and updating a vector\<close>

definition vec0_get_vector_data :: "bool \<Rightarrow> vec0_table \<Rightarrow> i64 \<Rightarrow> nat \<Rightarrow> bytes result" where
  "vec0_get_vector_data ok p rowid vector_column_idx =
     (case vec0_get_chunk_position p rowid of
        Inl rc \<Rightarrow> Inl rc
      | Inr (c, off) \<Rightarrow>
          (case vector_chunks p vector_column_idx c of
             None \<Rightarrow> Inl SQLITE_ERROR
           | Some blob \<Rightarrow>
               (let size = vector_column_byte_size (vector_columns p ! vector_column_idx) in
                if \<not> ok then Inl SQLITE_NOMEM
                else case blob_read blob size (off * size) of
                       Inl _ \<Rightarrow> Inl SQLITE_ERROR
                     | Inr buf \<Rightarrow> Inr buf)))"

definition vec0Update_UpdateVectorColumn ::
  "vec0_table \<Rightarrow> i64 \<Rightarrow> nat \<Rightarrow> nat \<Rightarrow> parsed_vector \<Rightarrow> sqlite_rc \<times> vec0_table" where
  "vec0Update_UpdateVectorColumn p c off i v =
     (if \<not> vector_fits (vector_columns p ! i) v then (SQLITE_ERROR, p)
      else case vector_chunks p i c of
        None \<Rightarrow> (SQLITE_ERROR, p)
      | Some blob \<Rightarrow>
          (case vec0_write_vector_to_vector_blob blob off (vector_data v)
                  (dimensions (vector_columns p ! i)) (element_type (vector_columns p ! i)) of
             Inl rc \<Rightarrow> (rc, p)
           | Inr b \<Rightarrow> (SQLITE_OK, p\<lparr>vector_chunks := (vector_chunks p)(i := (vector_chunks p i)(c \<mapsto> b))\<rparr>)))"

text \<open>
  The vector step of \<open>vec0Update_Update\<close> for the user column \<open>i\<close> that is vector column \<open>vec_idx\<close>: the vector is
  parsed into the dimensions of column \<open>i\<close> of the table definition before it is checked against them.
\<close>

definition parse_into_column :: "vec0_table \<Rightarrow> nat \<Rightarrow> parsed_vector \<Rightarrow> vec0_table" where
  "parse_into_column p i v =
     (case v of
        None \<Rightarrow> p
      | Some (t, dims, bs) \<Rightarrow>
          p\<lparr>vector_columns := (vector_columns p)[i := (vector_columns p ! i)\<lparr>dimensions := dims\<rparr>]\<rparr>)"

definition update_vector_step ::
  "vec0_table \<Rightarrow> i64 \<Rightarrow> nat \<Rightarrow> nat \<Rightarrow> nat \<Rightarrow> parsed_vector \<Rightarrow> sqlite_rc \<times> vec0_table" where
  "update_vector_step p c off i vec_idx v =
     (if v = None then (SQLITE_ERROR, p)
      else vec0Update_UpdateVectorColumn (parse_into_column p i v) c off vec_idx v)"

subsection \<open>Deleting a row\<close>

text \<open>The test of the validity bit shifts the byte but does not mask the lowest bit.\<close>

definition vec0Update_Delete_ClearValidity :: "vec0_table \<Rightarrow> i64 \<Rightarrow> nat \<Rightarrow> sqlite_rc \<times> vec0_table" where
  "vec0Update_Delete_ClearValidity p c off =
     (case chunks_validity p c of
        None \<Rightarrow> (SQLITE_ERROR, p)
      | Some v \<Rightarrow>
          (case blob_read v 1 (off div 8) of
             Inl rc \<Rightarrow> (rc, p)
           | Inr bs \<Rightarrow>
               if drop_bit (off mod 8) (bs ! 0) = 0 then (SQLITE_ERROR, p)
               else (case blob_write v [bs ! 0 AND NOT (push_bit (off mod 8) 1)] (off div 8) of
                       Inl rc \<Rightarrow> (rc, p)
                     | Inr v' \<Rightarrow> (SQLITE_OK, p\<lparr>chunks_validity := (chunks_validity p)(c \<mapsto> v')\<rparr>))))"

text \<open>The result of clearing a metadata slot is overwritten by that of the next column and then dropped.\<close>

definition clear_metadata_values :: "vec0_table \<Rightarrow> i64 \<Rightarrow> i64 \<Rightarrow> nat \<Rightarrow> vec0_table" where
  "clear_metadata_values p rowid c off =
     p\<lparr>metadata_columns := map (\<lambda>col. snd (vec0Update_Delete_ClearMetadata col rowid c off)) (metadata_columns p)\<rparr>"

definition delete_row :: "vec0_table \<Rightarrow> sqlite3_value \<Rightarrow> sqlite_rc \<times> vec0_table" where
  "delete_row p idValue =
     (let rowid = value_int64 idValue in
      case vec0_get_chunk_position p rowid of
        Inl rc \<Rightarrow> (rc, p)
      | Inr (c, off) \<Rightarrow>
          (case vec0Update_Delete_ClearValidity p c off of
             (SQLITE_OK, p1) \<Rightarrow>
               (case vec0Update_Delete_DeleteRowids p1 rowid of
                  (SQLITE_OK, p2) \<Rightarrow> (SQLITE_OK, clear_metadata_values p2 rowid c off)
                | (rc, p2) \<Rightarrow> (rc, p2))
           | (rc, p1) \<Rightarrow> (rc, p1)))"

end
