(* ===== verification/TableStore_Correct.thy ===== *)
theory TableStore_Correct
  imports TableStore
begin

text \<open>
  The shadow tables of a \<open>vec0\<close> table implement a finite map from row ids to rows: the invariant that
  ties the row id table to the validity bitmaps, and the effect of an insert and of a delete on the map.
\<close>

subsection \<open>The first free slot\<close>

lemma byte_has_clear_bit: "b \<noteq> 0xFF \<Longrightarrow> \<exists>j<8. \<not> bit (b :: 8 word) j"
proof (rule ccontr)
  assume b: "b \<noteq> 0xFF" and "\<not> (\<exists>j<8. \<not> bit b j)"
  then have "bit b j = bit (- 1 :: 8 word) j" if "j < 8" for j using that by simp
  then have "b = - 1" by (intro bit_word_eqI) simp
  with b show False by simp
qed

lemma next_offset_spec:
  "(case next_offset v i of
      Some off \<Rightarrow> i * 8 \<le> off \<and> off < (i + length v) * 8 \<and> \<not> bit (v ! (off div 8 - i)) (off mod 8)
    | None \<Rightarrow> \<forall>b\<in>set v. b = 0xFF)"
proof (induction v i rule: next_offset.induct)
  case (2 b bs i)
  show ?case
  proof (cases "b = 0xFF")
    case True
    have "off div 8 - i = Suc (off div 8 - Suc i)" if "Suc i * 8 \<le> off" for off
      using that div_le_mono [of "Suc i * 8" off 8] by simp
    then show ?thesis using 2(1) [OF True] True by (auto split: option.splits)
  next
    case False
    have clear: "drop_bit j b AND 1 = 0 \<longleftrightarrow> \<not> bit b j" for j
      by (simp add: and_one_eq bit_iff_odd_drop_bit mod_2_eq_odd)
    obtain j0 where "j0 < 8" "\<not> bit b j0" using byte_has_clear_bit [OF False] by blast
    then have "find (\<lambda>j. drop_bit j b AND 1 = 0) [0..<8] \<noteq> None"
      unfolding clear find_None_iff by auto
    then obtain j where j: "find (\<lambda>j. drop_bit j b AND 1 = 0) [0..<8] = Some j" by blast
    then have "j < 8" "\<not> bit b j" unfolding clear find_Some_iff by auto
    then show ?thesis using False j by simp
  qed
qed simp

lemma next_offset_free:
  assumes "length v = n div 8" and "n mod 8 = 0" and "next_offset v 0 = Some off"
  shows "off < n \<and> \<not> bitmap_get v off"
  using next_offset_spec [of v 0] assms by (auto simp: bitmap_get_bit)

subsection \<open>The invariant\<close>

text \<open>Slot \<open>off\<close> of chunk \<open>c\<close> is in use, by row \<open>r\<close>.\<close>

definition valid_at :: "vec0_table \<Rightarrow> i64 \<Rightarrow> nat \<Rightarrow> i64 \<Rightarrow> bool" where
  "valid_at t c off r \<longleftrightarrow> off < chunk_size t \<and>
     (case (chunks_validity t c, chunks_rowids t c) of
        (Some v, Some rows) \<Rightarrow> bitmap_get v off \<and> rows ! off = r
      | _ \<Rightarrow> False)"

definition chunk_wf :: "vec0_table \<Rightarrow> i64 \<Rightarrow> bool" where
  "chunk_wf t c \<longleftrightarrow>
     (\<exists>v. chunks_validity t c = Some v \<and> length v = chunk_size t div 8)
     \<and> (\<exists>rows. chunks_rowids t c = Some rows \<and> length rows = chunk_size t)
     \<and> (\<forall>i<length (vector_columns t). \<exists>b. vector_chunks t i c = Some b
          \<and> length b = chunk_size t * vector_column_byte_size (vector_columns t ! i))"

text \<open>
  Every used slot of a metadata column holds a value, every free slot holds the cleared value, and only
  rows of the table have long texts.
\<close>

definition meta_wf :: "vec0_table \<Rightarrow> meta_column \<Rightarrow> bool" where
  "meta_wf t col \<longleftrightarrow>
     (\<forall>r. rowids_table t r = None \<longrightarrow> kind col = VEC0_METADATA_COLUMN_KIND_TEXT \<longrightarrow> meta_text col r = None)
     \<and> (\<forall>r c off. rowids_table t r = Some (c, off) \<longrightarrow> (\<exists>v. meta_repr col r c off v))
     \<and> (\<forall>c off. c \<in> set (chunk_ids t) \<longrightarrow> off < chunk_size t \<longrightarrow> (\<forall>r. \<not> valid_at t c off r) \<longrightarrow>
          slot_holds col (\<lambda>_. None) 0 c off (cleared_value (kind col)))"

definition table_wf :: "vec0_table \<Rightarrow> bool" where
  "table_wf t \<longleftrightarrow>
     chunk_size t mod 8 = 0 \<and> 0 < chunk_size t \<and> distinct (chunk_ids t)
     \<and> (\<forall>vc\<in>set (vector_columns t). element_type vc = SQLITE_VEC_ELEMENT_TYPE_BIT \<longrightarrow> dimensions vc mod 8 = 0)
     \<and> (\<forall>c. c \<in> set (chunk_ids t) \<longrightarrow> chunk_wf t c)
     \<and> (\<forall>c. c \<notin> set (chunk_ids t) \<longrightarrow> chunks_validity t c = None)
     \<and> (\<forall>r c off. rowids_table t r = Some (c, off) \<longleftrightarrow> valid_at t c off r)
     \<and> (\<forall>col\<in>set (metadata_columns t). meta_wf t col)"

text \<open>The row under a row id, as the read operations of the table return it.\<close>

definition table_row :: "vec0_table \<Rightarrow> i64 \<Rightarrow> (bytes result list \<times> meta_value result list) option" where
  "table_row t r =
     (case rowids_table t r of
        None \<Rightarrow> None
      | Some _ \<Rightarrow> Some (map (vec0_get_vector_data True t r) [0..<length (vector_columns t)],
                       map (\<lambda>col. vec0_result_metadata_value_for_rowid (rowids_table t) col r) (metadata_columns t)))"

subsection \<open>A new chunk\<close>

lemma latest_chunk_max:
  assumes "vec0_get_latest_chunk_rowid p = Inr m"
  shows "m \<in> set (chunk_ids p) \<and> (\<forall>c\<in>set (chunk_ids p). c \<le> m)"
proof -
  have f: "foldl max (x::int) xs \<in> insert x (set xs) \<and> (\<forall>y\<in>insert x (set xs). y \<le> foldl max x xs)" for x xs
  proof (induction xs arbitrary: x)
    case (Cons y ys)
    from Cons [of "max x y"] show ?case by (auto simp: max_def split: if_splits)
  qed simp
  show ?thesis
    using assms f [of "hd (chunk_ids p)" "tl (chunk_ids p)"]
    by (cases "chunk_ids p") (auto simp: vec0_get_latest_chunk_rowid_def)
qed

lemma new_chunk_fresh: "fst (vec0_new_chunk p) \<notin> set (chunk_ids p)"
proof (cases "vec0_get_latest_chunk_rowid p")
  case (Inl rc)
  then show ?thesis by (auto simp: vec0_new_chunk_def vec0_get_latest_chunk_rowid_def split: if_splits)
next
  case (Inr m)
  then show ?thesis using latest_chunk_max [OF Inr] by (auto simp: vec0_new_chunk_def Let_def)
qed

lemma new_chunk_unfold:
  assumes "vec0_new_chunk p = (c, q)"
  shows "c \<notin> set (chunk_ids p)"
    and "q = p\<lparr>chunk_ids := chunk_ids p @ [c],
           chunks_validity := (chunks_validity p)(c \<mapsto> replicate (chunk_size p div 8) 0),
           chunks_rowids := (chunks_rowids p)(c \<mapsto> replicate (chunk_size p) 0),
           vector_chunks := (\<lambda>i. if i < length (vector_columns p)
             then (vector_chunks p i)(c \<mapsto> replicate (chunk_size p * vector_column_byte_size (vector_columns p ! i)) 0)
             else vector_chunks p i),
           metadata_columns := map (\<lambda>col. col\<lparr>meta_chunks :=
             (meta_chunks col)(c \<mapsto> replicate (vec0_metadata_chunk_size (kind col) (chunk_size p)) 0)\<rparr>)
             (metadata_columns p)\<rparr>"
  using new_chunk_fresh [of p] assms by (auto simp: vec0_new_chunk_def Let_def)

text \<open>A zeroed metadata chunk holds the cleared value in every slot.\<close>

lemma zero_slot:
  assumes "off < n" and "n mod 8 = 0"
  shows "slot_repr (\<lambda>_. None) (replicate (vec0_metadata_chunk_size k n) 0) 0 off (cleared_value k)"
proof -
  have w: "off * w + w \<le> n * w" for w using slot_inside [OF assms(1), of w] by (simp add: mult.commute)
  have zero: "le_bytes 8 0 = replicate 8 0" by (simp add: numeral_eq_Suc)
  show ?thesis
    using w [of 8] w [of 16] assms div_lt_bitmap [OF assms] bitmap_get_zero [OF assms] zero
    by (cases k) (auto simp: vec0_metadata_chunk_size_def blob_read_def text_view_Nil)
qed

lemma new_chunk_wf:
  assumes wf: "table_wf p" and q: "vec0_new_chunk p = (c, q)"
  shows "table_wf q" and "\<forall>off r. \<not> valid_at q c off r"
proof -
  let ?n = "chunk_size p"
  have c: "c \<notin> set (chunk_ids p)" and q': "q = snd (vec0_new_chunk p)" using new_chunk_unfold [OF q] q by simp_all
  note qd = new_chunk_unfold(2) [OF q]
  have n: "?n mod 8 = 0" using wf by (simp add: table_wf_def)
  have c0: "chunks_validity p c = None" using wf c by (simp add: table_wf_def)
  show nv: "\<forall>off r. \<not> valid_at q c off r" using n by (auto simp: qd valid_at_def bitmap_get_zero)
  have va: "valid_at q c' off r \<longleftrightarrow> valid_at p c' off r" for c' off r
  proof (cases "c' = c")
    case True
    then show ?thesis using nv c0 by (simp add: valid_at_def)
  next
    case False
    then show ?thesis by (simp add: qd valid_at_def)
  qed
  have pos: "rowids_table q r = Some (c', off) \<longleftrightarrow> valid_at q c' off r" for r c' off
    unfolding va using wf by (simp add: qd table_wf_def)
  have "chunk_wf q c'" if "c' \<in> set (chunk_ids q)" for c'
    using that wf by (auto simp: qd chunk_wf_def table_wf_def)
  moreover have "chunks_validity q c' = None" if "c' \<notin> set (chunk_ids q)" for c'
    using that wf by (simp add: qd table_wf_def)
  moreover have "meta_wf q col" if colq: "col \<in> set (metadata_columns q)" for col
  proof -
    obtain col0 where col0: "col0 \<in> set (metadata_columns p)" and col: "col = col0\<lparr>meta_chunks :=
        (meta_chunks col0)(c \<mapsto> replicate (vec0_metadata_chunk_size (kind col0) ?n) 0)\<rparr>"
      using colq by (auto simp: qd)
    have mw: "meta_wf p col0" using wf col0 by (simp add: table_wf_def)
    have old: "slot_holds col texts r c' off v = slot_holds col0 texts r c' off v" if "c' \<noteq> c" for texts r c' off v
      using that by (simp add: slot_holds_def col)
    have "meta_repr col r c' off v" if "rowids_table p r = Some (c', off)" "meta_repr col0 r c' off v" for r c' off v
    proof -
      have "c' \<noteq> c" using that(1) wf c0 by (auto simp: table_wf_def valid_at_def)
      then show ?thesis using that(2) old by (simp add: meta_repr_holds col slot_holds_def)
    qed
    moreover have "slot_holds col (\<lambda>_. None) 0 c' off (cleared_value (kind col))"
      if "c' \<in> set (chunk_ids q)" "off < ?n" "\<forall>r. \<not> valid_at q c' off r" for c' off
    proof (cases "c' = c")
      case True
      then show ?thesis using zero_slot [OF that(2) n, of "kind col0"]
        by (cases "kind col0") (simp_all add: slot_holds_def col)
    next
      case False
      then show ?thesis using that mw old va by (auto simp: meta_wf_def qd col)
    qed
    moreover have same: "rowids_table q = rowids_table p" "chunk_size q = ?n" "meta_text col = meta_text col0"
      "kind col = kind col0" by (simp_all add: qd col)
    ultimately show ?thesis using mw unfolding meta_wf_def same by blast
  qed
  moreover have "chunk_size q = ?n" "vector_columns q = vector_columns p" by (simp_all add: qd)
  moreover have "distinct (chunk_ids q)" using c wf by (simp add: qd table_wf_def)
  ultimately show "table_wf q" using wf pos unfolding table_wf_def by metis
qed

subsection \<open>What a row reads\<close>

definition vec_read :: "vec0_table \<Rightarrow> nat \<Rightarrow> i64 \<Rightarrow> nat \<Rightarrow> bytes result" where
  "vec_read t i c off =
     (case vector_chunks t i c of
        None \<Rightarrow> Inl SQLITE_ERROR
      | Some blob \<Rightarrow> (let sz = vector_column_byte_size (vector_columns t ! i) in
                     case blob_read blob sz (off * sz) of Inl _ \<Rightarrow> Inl SQLITE_ERROR | Inr buf \<Rightarrow> Inr buf))"

lemma get_vector_data_pos:
  "rowids_table t r = Some (c, off) \<Longrightarrow> vec0_get_vector_data True t r i = vec_read t i c off"
  by (simp add: vec0_get_vector_data_def vec0_get_chunk_position_def vec_read_def Let_def split: option.split)

lemma table_row_pos:
  "rowids_table t r = Some (c, off) \<Longrightarrow>
   table_row t r = Some (map (\<lambda>i. vec_read t i c off) [0..<length (vector_columns t)],
     map (\<lambda>col. vec0_result_metadata_value_for_rowid (rowids_table t) col r) (metadata_columns t))"
  by (simp add: table_row_def get_vector_data_pos)

lemma read_metadata_list:
  assumes "list_all2 (\<lambda>col v. meta_repr col r c off v) cols vs" and "position r = Some (c, off)"
  shows "map (\<lambda>col. vec0_result_metadata_value_for_rowid position col r) cols = map Inr vs"
  using assms(1)
proof (induction rule: list_all2_induct)
  case (Cons col cols v vs)
  then show ?case using read_metadata_value [of col r c off v position] assms(2) by simp
qed simp

text \<open>A row reads the same in two tables that agree on its slot.\<close>

lemma table_row_same:
  assumes "rowids_table q r = rowids_table p r" and "vector_columns q = vector_columns p"
    and "\<And>c off i. rowids_table p r = Some (c, off) \<Longrightarrow> i < length (vector_columns p) \<Longrightarrow>
      vec_read q i c off = vec_read p i c off"
    and "\<And>c off. rowids_table p r = Some (c, off) \<Longrightarrow>
      list_all2 (\<lambda>col' col. \<exists>v. meta_repr col r c off v \<and> meta_repr col' r c off v)
        (metadata_columns q) (metadata_columns p)"
  shows "table_row q r = table_row p r"
proof (cases "rowids_table p r")
  case None
  then show ?thesis using assms(1) by (simp add: table_row_def)
next
  case (Some pos)
  obtain c off where pos: "pos = (c, off)" by force
  have "vec0_result_metadata_value_for_rowid (rowids_table q) col' r =
      vec0_result_metadata_value_for_rowid (rowids_table p) col r"
    if "\<exists>v. meta_repr col r c off v \<and> meta_repr col' r c off v" for col' col
    using that read_metadata_value [of col' r c off _ "rowids_table q"]
      read_metadata_value [of col r c off _ "rowids_table p"] Some pos assms(1) by auto
  then have "map (\<lambda>col. vec0_result_metadata_value_for_rowid (rowids_table q) col r) (metadata_columns q) =
      map (\<lambda>col. vec0_result_metadata_value_for_rowid (rowids_table p) col r) (metadata_columns p)"
    using assms(4) [of c off] Some pos by (auto simp: list_all2_conv_all_nth intro!: nth_equalityI)
  moreover have "map (\<lambda>i. vec_read q i c off) [0..<length (vector_columns q)] =
      map (\<lambda>i. vec_read p i c off) [0..<length (vector_columns p)]"
    using assms(2) assms(3) [of c off] Some pos by simp
  ultimately show ?thesis using Some pos assms(1) by (simp add: table_row_pos)
qed

lemma wf_position:
  assumes "table_wf t" and "rowids_table t r = Some (c, off)"
  shows "valid_at t c off r" and "c \<in> set (chunk_ids t)" and "off < chunk_size t"
proof -
  show v: "valid_at t c off r" using assms by (simp add: table_wf_def)
  show "off < chunk_size t" using v by (simp add: valid_at_def)
  show "c \<in> set (chunk_ids t)" using v assms(1) by (auto simp: valid_at_def table_wf_def)
qed

lemma wf_meta_row:
  assumes "table_wf t" and "rowids_table t r = Some (c, off)" and "col \<in> set (metadata_columns t)"
  shows "\<exists>v. meta_repr col r c off v"
  using assms unfolding table_wf_def meta_wf_def by blast

lemma new_chunk_rows:
  assumes wf: "table_wf p" and q: "vec0_new_chunk p = (c, q)"
  shows "table_row q r = table_row p r"
proof (rule table_row_same)
  note qd = new_chunk_unfold(2) [OF q]
  show "rowids_table q r = rowids_table p r" "vector_columns q = vector_columns p" by (simp_all add: qd)
  fix c' off assume pos: "rowids_table p r = Some (c', off)"
  then have c': "c' \<noteq> c" using wf_position(2) [OF wf pos] new_chunk_unfold(1) [OF q] by auto
  show "vec_read q i c' off = vec_read p i c' off" for i
    using c' by (simp add: qd vec_read_def cong: option.case_cong)
  have "meta_repr (col\<lparr>meta_chunks := (meta_chunks col)(c \<mapsto> b)\<rparr>) r c' off v = meta_repr col r c' off v" for col b v
    using c' by (simp add: meta_repr_def cong: option.case_cong)
  then show "list_all2 (\<lambda>col' col. \<exists>v. meta_repr col r c' off v \<and> meta_repr col' r c' off v)
      (metadata_columns q) (metadata_columns p)"
    using wf_meta_row [OF wf pos] by (auto simp: qd list_all2_conv_all_nth)
qed

subsection \<open>The next available position\<close>

lemma next_available:
  assumes wf: "table_wf p"
  shows "\<exists>c off v q. vec0Update_InsertNextAvailableStep True p = (Inr (c, off, v), q)
    \<and> table_wf q \<and> c \<in> set (chunk_ids q) \<and> chunks_validity q c = Some v \<and> off < chunk_size q
    \<and> \<not> bitmap_get v off \<and> chunk_size q = chunk_size p \<and> vector_columns q = vector_columns p
    \<and> rowids_table q = rowids_table p \<and> map kind (metadata_columns q) = map kind (metadata_columns p)
    \<and> table_row q = table_row p"
proof -
  have n: "chunk_size p mod 8 = 0" "0 < chunk_size p" using wf by (simp_all add: table_wf_def)
  obtain c0 q0 where new: "vec0_new_chunk p = (c0, q0)" by force
  note qd = new_chunk_unfold(2) [OF new]
  have "fresh_position p = (Inr (c0, 0, replicate (chunk_size p div 8) 0), q0)"
    by (simp add: fresh_position_def new) (simp add: qd)
  moreover have "table_wf q0 \<and> c0 \<in> set (chunk_ids q0) \<and> chunks_validity q0 c0 = Some (replicate (chunk_size p div 8) 0)
      \<and> 0 < chunk_size q0 \<and> \<not> bitmap_get (replicate (chunk_size p div 8) 0) 0 \<and> chunk_size q0 = chunk_size p
      \<and> vector_columns q0 = vector_columns p \<and> rowids_table q0 = rowids_table p
      \<and> map kind (metadata_columns q0) = map kind (metadata_columns p) \<and> table_row q0 = table_row p"
    using new_chunk_wf(1) [OF wf new] new_chunk_rows [OF wf new] n bitmap_get_zero [OF n(2,1)]
    by (auto simp: fun_eq_iff) (auto simp: qd)
  ultimately have fresh: ?thesis if "vec0Update_InsertNextAvailableStep True p = fresh_position p"
    using that by metis
  show ?thesis
  proof (cases "vec0_get_latest_chunk_rowid p")
    case (Inl rc)
    then show ?thesis
      by (intro fresh) (auto simp: vec0Update_InsertNextAvailableStep_def vec0_get_latest_chunk_rowid_def split: if_splits)
  next
    case (Inr c)
    then have c: "c \<in> set (chunk_ids p)" using latest_chunk_max [OF Inr] by simp
    then obtain v where v: "chunks_validity p c = Some v" "length v = chunk_size p div 8"
      using wf by (auto simp: table_wf_def chunk_wf_def)
    show ?thesis
    proof (cases "next_offset v 0")
      case None
      then show ?thesis using Inr v by (intro fresh) (simp add: vec0Update_InsertNextAvailableStep_def)
    next
      case (Some off)
      then show ?thesis using Inr v c wf next_offset_free [OF v(2) n(1) Some]
        by (simp add: vec0Update_InsertNextAvailableStep_def)
    qed
  qed
qed

text \<open>The search does not look at the row id table.\<close>

lemma next_available_rowids:
  "vec0Update_InsertNextAvailableStep ok (p\<lparr>rowids_table := R\<rparr>) =
     (case vec0Update_InsertNextAvailableStep ok p of (res, q) \<Rightarrow> (res, q\<lparr>rowids_table := R\<rparr>))"
proof -
  have l: "vec0_get_latest_chunk_rowid (p\<lparr>rowids_table := R\<rparr>) = vec0_get_latest_chunk_rowid p"
    by (simp add: vec0_get_latest_chunk_rowid_def)
  have "vec0_new_chunk (p\<lparr>rowids_table := R\<rparr>) = (case vec0_new_chunk p of (c, q) \<Rightarrow> (c, q\<lparr>rowids_table := R\<rparr>))"
    by (rule prod_eqI, simp add: vec0_new_chunk_def l Let_def, rule vec0_table.equality)
      (simp_all add: vec0_new_chunk_def l Let_def cong: if_cong)
  then have "fresh_position (p\<lparr>rowids_table := R\<rparr>) = (case fresh_position p of (res, q) \<Rightarrow> (res, q\<lparr>rowids_table := R\<rparr>))"
    by (auto simp: fresh_position_def split: prod.splits option.splits)
  then show ?thesis
    by (auto simp: vec0Update_InsertNextAvailableStep_def l split: sum.splits option.splits sqlite_rc.splits)
qed

subsection \<open>Writing the vectors of a row\<close>

lemma write_vector_blob:
  assumes "length vec = vector_column_byte_size vc"
    and "element_type vc = SQLITE_VEC_ELEMENT_TYPE_BIT \<longrightarrow> dimensions vc mod 8 = 0"
  shows "vec0_write_vector_to_vector_blob blob off vec (dimensions vc) (element_type vc) =
    blob_write blob vec (off * vector_column_byte_size vc)"
proof (cases "element_type vc")
  case SQLITE_VEC_ELEMENT_TYPE_BIT
  then have "off * dimensions vc div 8 = off * (dimensions vc div 8)"
    using assms(2) by (metis div_mult_swap mod_0_imp_dvd)
  then show ?thesis using assms(1) SQLITE_VEC_ELEMENT_TYPE_BIT
    by (simp add: vec0_write_vector_to_vector_blob_def vector_column_byte_size_def vector_byte_size_def)
qed (use assms in \<open>simp_all add: vec0_write_vector_to_vector_blob_def vector_column_byte_size_def vector_byte_size_def
      mult.assoc\<close>)

lemma blob_slot_write:
  assumes "length b = n * w" and "off < n" and "length vec = w"
  shows "\<exists>b'. blob_write b vec (off * w) = Inr b'"
  using blob_write_ok [of "off * w" vec b] slot_inside [OF assms(2), of w] assms by (simp add: mult.commute)

lemma write_vectors_ok:
  assumes "off < chunk_size p"
    and "\<And>j. i \<le> j \<Longrightarrow> j < i + length vecs \<Longrightarrow>
      (\<exists>b. vector_chunks p j c = Some b \<and> length b = chunk_size p * vector_column_byte_size (vector_columns p ! j))
      \<and> length (vecs ! (j - i)) = vector_column_byte_size (vector_columns p ! j)
      \<and> (element_type (vector_columns p ! j) = SQLITE_VEC_ELEMENT_TYPE_BIT \<longrightarrow> dimensions (vector_columns p ! j) mod 8 = 0)"
  shows "\<exists>VC. write_vectors p c off i vecs = (SQLITE_OK, p\<lparr>vector_chunks := VC\<rparr>)
    \<and> (\<forall>j. if i \<le> j \<and> j < i + length vecs
        then \<exists>b b'. vector_chunks p j c = Some b
          \<and> blob_write b (vecs ! (j - i)) (off * vector_column_byte_size (vector_columns p ! j)) = Inr b'
          \<and> VC j = (vector_chunks p j)(c \<mapsto> b')
        else VC j = vector_chunks p j)"
  using assms
proof (induction vecs arbitrary: i p)
  case Nil
  then show ?case by (intro exI [of _ "vector_chunks p"]) auto
next
  case (Cons vec vecs)
  let ?sz = "\<lambda>j. vector_column_byte_size (vector_columns p ! j)"
  obtain b where b: "vector_chunks p i c = Some b" "length b = chunk_size p * ?sz i"
    and vec: "length vec = ?sz i"
    and bit: "element_type (vector_columns p ! i) = SQLITE_VEC_ELEMENT_TYPE_BIT \<longrightarrow> dimensions (vector_columns p ! i) mod 8 = 0"
    using Cons.prems(2) [of i] by auto
  obtain b' where b': "blob_write b vec (off * ?sz i) = Inr b'"
    using blob_slot_write [OF b(2) Cons.prems(1) vec] by blast
  let ?q = "p\<lparr>vector_chunks := (vector_chunks p)(i := (vector_chunks p i)(c \<mapsto> b'))\<rparr>"
  have step: "write_vectors p c off i (vec # vecs) = write_vectors ?q c off (Suc i) vecs"
    using b b' write_vector_blob [OF vec bit] by (simp add: Let_def)
  have "\<exists>VC. write_vectors ?q c off (Suc i) vecs = (SQLITE_OK, ?q\<lparr>vector_chunks := VC\<rparr>)
    \<and> (\<forall>j. if Suc i \<le> j \<and> j < Suc i + length vecs
        then \<exists>b b'. vector_chunks ?q j c = Some b
          \<and> blob_write b (vecs ! (j - Suc i)) (off * vector_column_byte_size (vector_columns ?q ! j)) = Inr b'
          \<and> VC j = (vector_chunks ?q j)(c \<mapsto> b')
        else VC j = vector_chunks ?q j)"
  proof (rule Cons.IH)
    show "off < chunk_size ?q" using Cons.prems(1) by simp
    fix j assume j: "Suc i \<le> j" "j < Suc i + length vecs"
    then have "(vec # vecs) ! (j - i) = vecs ! (j - Suc i)" by (simp add: nth_Cons')
    then show "(\<exists>b. vector_chunks ?q j c = Some b \<and> length b = chunk_size ?q * vector_column_byte_size (vector_columns ?q ! j))
      \<and> length (vecs ! (j - Suc i)) = vector_column_byte_size (vector_columns ?q ! j)
      \<and> (element_type (vector_columns ?q ! j) = SQLITE_VEC_ELEMENT_TYPE_BIT \<longrightarrow> dimensions (vector_columns ?q ! j) mod 8 = 0)"
      using Cons.prems(2) [of j] j by simp
  qed
  then obtain VC where VC: "write_vectors ?q c off (Suc i) vecs = (SQLITE_OK, ?q\<lparr>vector_chunks := VC\<rparr>)"
    "\<And>j. if Suc i \<le> j \<and> j < Suc i + length vecs
        then \<exists>b b'. vector_chunks ?q j c = Some b
          \<and> blob_write b (vecs ! (j - Suc i)) (off * vector_column_byte_size (vector_columns ?q ! j)) = Inr b'
          \<and> VC j = (vector_chunks ?q j)(c \<mapsto> b')
        else VC j = vector_chunks ?q j" by blast
  have "if i \<le> j \<and> j < i + length (vec # vecs)
      then \<exists>b b'. vector_chunks p j c = Some b
        \<and> blob_write b ((vec # vecs) ! (j - i)) (off * ?sz j) = Inr b' \<and> VC j = (vector_chunks p j)(c \<mapsto> b')
      else VC j = vector_chunks p j" for j
  proof (cases "j = i")
    case True
    then show ?thesis using VC(2) [of i] b b' by simp
  next
    case False
    then show ?thesis using VC(2) [of j] by (auto simp: nth_Cons' split: if_splits)
  qed
  moreover have "write_vectors p c off i (vec # vecs) = (SQLITE_OK, p\<lparr>vector_chunks := VC\<rparr>)"
    using step VC(1) by (simp del: write_vectors.simps)
  ultimately show ?case by blast
qed

subsection \<open>Placing a row\<close>

text \<open>\<open>t\<close> is \<open>q\<close> with the vectors of row \<open>rowid\<close> in slot \<open>off\<close> of chunk \<open>c\<close>.\<close>

definition placed :: "vec0_table \<Rightarrow> i64 \<Rightarrow> nat \<Rightarrow> i64 \<Rightarrow> bytes list \<Rightarrow> vec0_table \<Rightarrow> bool" where
  "placed q c off rowid vecs t \<longleftrightarrow>
     chunk_size t = chunk_size q \<and> vector_columns t = vector_columns q \<and> chunk_ids t = chunk_ids q
     \<and> metadata_columns t = metadata_columns q
     \<and> (\<exists>v rows. chunks_validity q c = Some v \<and> chunks_rowids q c = Some rows
          \<and> chunks_validity t = (chunks_validity q)(c \<mapsto> bitmap_set v off True)
          \<and> chunks_rowids t = (chunks_rowids q)(c \<mapsto> rows[off := rowid]))
     \<and> rowids_table t = (rowids_table q)(rowid \<mapsto> (c, off))
     \<and> (\<forall>i. if i < length (vector_columns q)
          then \<exists>b b'. vector_chunks q i c = Some b
            \<and> blob_write b (vecs ! i) (off * vector_column_byte_size (vector_columns q ! i)) = Inr b'
            \<and> vector_chunks t i = (vector_chunks q i)(c \<mapsto> b')
          else vector_chunks t i = vector_chunks q i)"

definition vecs_ok :: "vec0_table \<Rightarrow> bytes list \<Rightarrow> bool" where
  "vecs_ok q vecs \<longleftrightarrow> length vecs = length (vector_columns q)
     \<and> (\<forall>i<length vecs. length (vecs ! i) = vector_column_byte_size (vector_columns q ! i))"

lemma chunk_wfE:
  assumes "table_wf q" and "c \<in> set (chunk_ids q)"
  obtains v rows where "chunks_validity q c = Some v" and "length v = chunk_size q div 8"
    and "chunks_rowids q c = Some rows" and "length rows = chunk_size q"
    and "\<And>i. i < length (vector_columns q) \<Longrightarrow> \<exists>b. vector_chunks q i c = Some b
          \<and> length b = chunk_size q * vector_column_byte_size (vector_columns q ! i)"
  using assms unfolding table_wf_def chunk_wf_def by blast

lemma write_final_placed:
  assumes wf: "table_wf q" and c: "c \<in> set (chunk_ids q)" and off: "off < chunk_size q"
    and v: "chunks_validity q c = Some v" and vecs: "vecs_ok q vecs"
  shows "\<exists>t. vec0Update_InsertWriteFinalStep (q\<lparr>rowids_table := (rowids_table q)(rowid \<mapsto> (0, 0))\<rparr>)
      c off rowid vecs v = (SQLITE_OK, t) \<and> placed q c off rowid vecs t"
proof -
  have n: "chunk_size q mod 8 = 0" using wf by (simp add: table_wf_def)
  obtain rows where rows: "length v = chunk_size q div 8" "chunks_rowids q c = Some rows" "length rows = chunk_size q"
    and vcs: "\<And>i. i < length (vector_columns q) \<Longrightarrow> \<exists>b. vector_chunks q i c = Some b
          \<and> length b = chunk_size q * vector_column_byte_size (vector_columns q ! i)"
    using chunk_wfE [OF wf c] v by (metis option.inject)
  let ?p = "q\<lparr>rowids_table := (rowids_table q)(rowid \<mapsto> (0, 0)),
    chunks_validity := (chunks_validity q)(c \<mapsto> bitmap_set v off True)\<rparr>"
  have bx: "blob_write v [v ! (off div 8) OR push_bit (off mod 8) 1] (off div 8) = Inr (bitmap_set v off True)"
    using blob_write_byte [of "off div 8" v] div_lt_bitmap [OF off n] rows(1) by (simp add: bitmap_set_def)
  have "\<exists>VC. write_vectors ?p c off 0 vecs = (SQLITE_OK, ?p\<lparr>vector_chunks := VC\<rparr>)
    \<and> (\<forall>j. if 0 \<le> j \<and> j < 0 + length vecs
        then \<exists>b b'. vector_chunks ?p j c = Some b
          \<and> blob_write b (vecs ! (j - 0)) (off * vector_column_byte_size (vector_columns ?p ! j)) = Inr b'
          \<and> VC j = (vector_chunks ?p j)(c \<mapsto> b')
        else VC j = vector_chunks ?p j)"
  proof (rule write_vectors_ok)
    show "off < chunk_size ?p" using off by simp
    fix j assume "0 \<le> j" "j < 0 + length vecs"
    then have j: "j < length (vector_columns q)" "length (vecs ! j) = vector_column_byte_size (vector_columns q ! j)"
      using vecs by (auto simp: vecs_ok_def)
    have "vector_columns q ! j \<in> set (vector_columns q)" using j(1) by simp
    then show "(\<exists>b. vector_chunks ?p j c = Some b \<and> length b = chunk_size ?p * vector_column_byte_size (vector_columns ?p ! j))
      \<and> length (vecs ! (j - 0)) = vector_column_byte_size (vector_columns ?p ! j)
      \<and> (element_type (vector_columns ?p ! j) = SQLITE_VEC_ELEMENT_TYPE_BIT \<longrightarrow> dimensions (vector_columns ?p ! j) mod 8 = 0)"
      using vcs [OF j(1)] j(2) wf by (auto simp: table_wf_def)
  qed
  then obtain VC where VC: "write_vectors ?p c off 0 vecs = (SQLITE_OK, ?p\<lparr>vector_chunks := VC\<rparr>)"
    "\<forall>j. if j < length (vector_columns q)
        then \<exists>b b'. vector_chunks q j c = Some b
          \<and> blob_write b (vecs ! j) (off * vector_column_byte_size (vector_columns q ! j)) = Inr b'
          \<and> VC j = (vector_chunks q j)(c \<mapsto> b')
        else VC j = vector_chunks q j"
    using vecs by (auto simp: vecs_ok_def cong: if_cong)
  let ?t = "?p\<lparr>vector_chunks := VC, chunks_rowids := (chunks_rowids q)(c \<mapsto> rows[off := rowid]),
    rowids_table := (rowids_table q)(rowid \<mapsto> (c, off))\<rparr>"
  have "vec0Update_InsertWriteFinalStep (q\<lparr>rowids_table := (rowids_table q)(rowid \<mapsto> (0, 0))\<rparr>)
      c off rowid vecs v = (SQLITE_OK, ?t)"
    using v bx VC(1) rows off
    by (simp add: vec0Update_InsertWriteFinalStep_def vec0_rowids_update_position_def Let_def)
  moreover have "placed q c off rowid vecs ?t" using v rows(2) VC(2) unfolding placed_def
    by (simp cong: if_cong)
  ultimately show ?thesis by blast
qed

lemma placed_valid:
  assumes pl: "placed q c off rowid vecs t" and wf: "table_wf q" and c: "c \<in> set (chunk_ids q)"
    and off: "off < chunk_size q"
  shows "valid_at t c' off' r \<longleftrightarrow> (if (c', off') = (c, off) then r = rowid else valid_at q c' off' r)"
proof -
  obtain v rows where q: "chunks_validity q c = Some v" "length v = chunk_size q div 8"
    "chunks_rowids q c = Some rows" "length rows = chunk_size q"
    using chunk_wfE [OF wf c] by metis
  have "off div 8 < length v" using div_lt_bitmap [OF off] wf q(2) by (simp add: table_wf_def)
  then show ?thesis
    using pl q off by (auto simp: placed_def valid_at_def bitmap_get_set nth_list_update)
qed

lemma holds_cleared:
  assumes "kind col = VEC0_METADATA_COLUMN_KIND_TEXT \<longrightarrow> texts' r' = None" and "slot_holds col texts r c i (cleared_value (kind col))"
  shows "slot_holds col texts' r' c i (cleared_value (kind col))"
  using assms by (cases "kind col") (auto simp: slot_holds_def split: option.splits)

lemma placed_wf:
  assumes pl: "placed q c off rowid vecs t" and wf: "table_wf q" and c: "c \<in> set (chunk_ids q)"
    and off: "off < chunk_size q" and free: "\<forall>r. \<not> valid_at q c off r" and new: "rowids_table q rowid = None"
  shows "table_wf t"
proof -
  note va = placed_valid [OF pl wf c off]
  have pf: "chunk_size t = chunk_size q" "vector_columns t = vector_columns q" "chunk_ids t = chunk_ids q"
    "metadata_columns t = metadata_columns q" "rowids_table t = (rowids_table q)(rowid \<mapsto> (c, off))"
    using pl by (simp_all add: placed_def)
  have posq: "rowids_table q r = Some (c', off') \<longleftrightarrow> valid_at q c' off' r" for r c' off'
    using wf by (simp add: table_wf_def)
  have pos: "rowids_table t r = Some (c', off') \<longleftrightarrow> valid_at t c' off' r" for r c' off'
    unfolding va pf(5) using posq [of rowid c' off'] posq [of r c' off'] new free by auto
  have chunks: "chunk_wf t c'" if "c' \<in> set (chunk_ids t)" for c'
  proof -
    have w: "chunk_wf q c'" "chunk_wf q c" using wf that c pf(3) by (simp_all add: table_wf_def)
    obtain v rows where vr: "chunks_validity q c = Some v" "chunks_rowids q c = Some rows"
      "chunks_validity t = (chunks_validity q)(c \<mapsto> bitmap_set v off True)"
      "chunks_rowids t = (chunks_rowids q)(c \<mapsto> rows[off := rowid])"
      using pl unfolding placed_def by blast
    have "\<exists>b. vector_chunks t i c' = Some b \<and> length b = chunk_size q * vector_column_byte_size (vector_columns q ! i)"
      if i: "i < length (vector_columns q)" for i
    proof -
      obtain b b' where b: "vector_chunks q i c = Some b"
        "blob_write b (vecs ! i) (off * vector_column_byte_size (vector_columns q ! i)) = Inr b'"
        "vector_chunks t i = (vector_chunks q i)(c \<mapsto> b')"
        using pl i unfolding placed_def by meson
      then show ?thesis using w i length_blob_write [OF b(2)] unfolding chunk_wf_def by auto
    qed
    then show ?thesis using w vr pf unfolding chunk_wf_def by auto
  qed
  have none: "chunks_validity t c' = None" if "c' \<notin> set (chunk_ids t)" for c'
    using that pl wf c pf(3) unfolding placed_def table_wf_def by fastforce
  have "meta_wf t col" if "col \<in> set (metadata_columns t)" for col
  proof -
    have mw: "meta_wf q col" using wf that pf(4) by (simp add: table_wf_def)
    have cleared: "slot_holds col (\<lambda>_. None) 0 c off (cleared_value (kind col))"
      "kind col = VEC0_METADATA_COLUMN_KIND_TEXT \<longrightarrow> meta_text col rowid = None"
      using mw c off free new by (simp_all add: meta_wf_def)
    have "meta_repr col rowid c off (cleared_value (kind col))"
      unfolding meta_repr_holds using holds_cleared [of col "meta_text col" rowid "\<lambda>_. None" 0] cleared by simp
    then have "\<exists>v. meta_repr col r c' off' v" if "rowids_table t r = Some (c', off')" for r c' off'
      using that mw unfolding pf meta_wf_def by (auto split: if_splits)
    moreover have "meta_text col r = None"
      if "rowids_table t r = None" "kind col = VEC0_METADATA_COLUMN_KIND_TEXT" for r
      using that mw unfolding pf meta_wf_def by (auto split: if_splits)
    moreover have "\<not> valid_at q c' off' r" if "\<forall>r. \<not> valid_at t c' off' r" for c' off' r
      using that free unfolding va by (metis old.prod.inject)
    ultimately show ?thesis using mw pf(1,3) unfolding meta_wf_def by metis
  qed
  then show ?thesis using wf pos chunks none pf(1-3) unfolding table_wf_def by metis
qed

lemma vec_read_write:
  assumes "vector_chunks q i c = Some b" and "vector_columns t = vector_columns q"
    and "blob_write b vec (off * vector_column_byte_size (vector_columns q ! i)) = Inr b'"
    and "vector_chunks t i = (vector_chunks q i)(c \<mapsto> b')"
    and "length vec = vector_column_byte_size (vector_columns q ! i)"
  shows "vec_read t i c off = Inr vec"
    and "(c', off') \<noteq> (c, off) \<Longrightarrow> vec_read t i c' off' = vec_read q i c' off'"
proof -
  show "vec_read t i c off = Inr vec"
    using assms blob_read_write_same [OF assms(3)] by (simp add: vec_read_def Let_def)
  show "(c', off') \<noteq> (c, off) \<Longrightarrow> vec_read t i c' off' = vec_read q i c' off'"
    using assms slot_frame [OF assms(3,5), of off'] by (cases "c' = c") (auto simp: vec_read_def Let_def split: option.split)
qed

lemma placed_row:
  assumes pl: "placed q c off rowid vecs t" and vecs: "vecs_ok q vecs" and i: "i < length (vector_columns q)"
  shows "vec_read t i c off = Inr (vecs ! i)"
    and "(c', off') \<noteq> (c, off) \<Longrightarrow> vec_read t i c' off' = vec_read q i c' off'"
proof -
  obtain b b' where b: "vector_chunks q i c = Some b"
    "blob_write b (vecs ! i) (off * vector_column_byte_size (vector_columns q ! i)) = Inr b'"
    "vector_chunks t i = (vector_chunks q i)(c \<mapsto> b')"
    using pl i unfolding placed_def by meson
  have "vector_columns t = vector_columns q" "length (vecs ! i) = vector_column_byte_size (vector_columns q ! i)"
    using pl vecs i by (simp_all add: placed_def vecs_ok_def)
  then show "vec_read t i c off = Inr (vecs ! i)"
    "(c', off') \<noteq> (c, off) \<Longrightarrow> vec_read t i c' off' = vec_read q i c' off'"
    using vec_read_write [OF b(1) _ b(2,3)] by simp_all
qed

subsection \<open>Writing the metadata of a row\<close>

definition meta_arg_ok :: "vec0_metadata_column_kind \<Rightarrow> sqlite3_value \<Rightarrow> bool" where
  "meta_arg_ok k v \<longleftrightarrow> metadata_type_ok k v \<and> - (2 ^ 63) \<le> value_int64 v \<and> value_int64 v < 2 ^ 63
     \<and> length (value_text v) < 2 ^ 31"

lemma cleared_not_long [simp]: "\<not> long_text (cleared_value k)"
  by (cases k) auto

lemma write_metadata_values_ok:
  assumes "i + length vs = length (metadata_columns t)"
    and "\<And>j. i \<le> j \<Longrightarrow> j < length (metadata_columns t) \<Longrightarrow>
      meta_repr (metadata_columns t ! j) rowid c off (cleared_value (kind (metadata_columns t ! j)))
      \<and> meta_arg_ok (kind (metadata_columns t ! j)) (vs ! (j - i))"
  shows "\<exists>cols. write_metadata_values t rowid c off i vs = (SQLITE_OK, t\<lparr>metadata_columns := cols\<rparr>)
    \<and> length cols = length (metadata_columns t)
    \<and> (\<forall>j<length cols. if j < i then cols ! j = metadata_columns t ! j
        else slot_update (metadata_columns t ! j) (cols ! j) rowid c off
               (value_of (kind (metadata_columns t ! j)) (vs ! (j - i))))"
  using assms
proof (induction vs arbitrary: i t)
  case Nil
  then show ?case by (intro exI [of _ "metadata_columns t"]) simp
next
  case (Cons v vs)
  let ?M = "metadata_columns t"
  have i: "i < length ?M" using Cons.prems(1) by simp
  have old: "meta_repr (?M ! i) rowid c off (cleared_value (kind (?M ! i)))" "meta_arg_ok (kind (?M ! i)) v"
    using Cons.prems(2) [of i] i by simp_all
  obtain col where col: "vec0_write_metadata_value (?M ! i) rowid c off v False = (SQLITE_OK, col)"
    "slot_update (?M ! i) col rowid c off (value_of (kind (?M ! i)) v)"
    using write_metadata_update [OF old(1), of v False] old(2) by (auto simp: meta_arg_ok_def)
  let ?t = "t\<lparr>metadata_columns := ?M[i := col]\<rparr>"
  have "\<exists>cols. write_metadata_values ?t rowid c off (Suc i) vs = (SQLITE_OK, ?t\<lparr>metadata_columns := cols\<rparr>)
    \<and> length cols = length (metadata_columns ?t)
    \<and> (\<forall>j<length cols. if j < Suc i then cols ! j = metadata_columns ?t ! j
        else slot_update (metadata_columns ?t ! j) (cols ! j) rowid c off
               (value_of (kind (metadata_columns ?t ! j)) (vs ! (j - Suc i))))"
  proof (rule Cons.IH)
    show "Suc i + length vs = length (metadata_columns ?t)" using Cons.prems(1) by simp
    fix j assume j: "Suc i \<le> j" "j < length (metadata_columns ?t)"
    then have "(v # vs) ! (j - i) = vs ! (j - Suc i)" by (simp add: nth_Cons')
    then show "meta_repr (metadata_columns ?t ! j) rowid c off (cleared_value (kind (metadata_columns ?t ! j)))
      \<and> meta_arg_ok (kind (metadata_columns ?t ! j)) (vs ! (j - Suc i))"
      using Cons.prems(2) [of j] j by simp
  qed
  then obtain cols where cols: "write_metadata_values ?t rowid c off (Suc i) vs = (SQLITE_OK, t\<lparr>metadata_columns := cols\<rparr>)"
    "length cols = length ?M" "\<And>j. j < length cols \<Longrightarrow> if j < Suc i then cols ! j = ?M[i := col] ! j
        else slot_update (?M[i := col] ! j) (cols ! j) rowid c off (value_of (kind (?M[i := col] ! j)) (vs ! (j - Suc i)))"
    by (auto cong: if_cong)
  have "if j < i then cols ! j = ?M ! j
      else slot_update (?M ! j) (cols ! j) rowid c off (value_of (kind (?M ! j)) ((v # vs) ! (j - i)))"
    if "j < length cols" for j
  proof (cases "j = i")
    case True
    then show ?thesis using cols(3) [OF that] i col(2) by simp
  next
    case False
    then show ?thesis using cols(3) [OF that] by (auto simp: nth_Cons' split: if_splits)
  qed
  moreover have "write_metadata_values t rowid c off i (v # vs) = (SQLITE_OK, t\<lparr>metadata_columns := cols\<rparr>)"
    using col(1) cols(1) by (simp add: Let_def)
  ultimately show ?case using cols(2) by blast
qed

lemma slot_owner:
  assumes "table_wf t" and "rowids_table t r = Some (c, off)" and "rowids_table t r' = Some (c, off)"
  shows "r = r'"
  using wf_position(1) [OF assms(1,2)] wf_position(1) [OF assms(1,3)]
  by (auto simp: valid_at_def split: option.splits)

text \<open>Replacing the metadata values of one row of the table.\<close>

lemma metas_replaced:
  assumes wf: "table_wf t" and pos: "rowids_table t rowid = Some (c, off)"
    and upd: "list_all2 (\<lambda>col col'. \<exists>v. slot_update col col' rowid c off v) (metadata_columns t) cols"
  shows "table_wf (t\<lparr>metadata_columns := cols\<rparr>)"
    and "r \<noteq> rowid \<Longrightarrow> table_row (t\<lparr>metadata_columns := cols\<rparr>) r = table_row t r"
proof -
  let ?t = "t\<lparr>metadata_columns := cols\<rparr>"
  have va: "valid_at ?t = valid_at t" by (simp add: valid_at_def fun_eq_iff)
  have cw: "chunk_wf ?t = chunk_wf t" by (simp add: chunk_wf_def fun_eq_iff)
  have own: "(c', off') \<noteq> (c, off)" if "rowids_table t r = Some (c', off')" "r \<noteq> rowid" for r c' off'
    using slot_owner [OF wf _ pos, of r] that by auto
  have used: "\<exists>r. valid_at t c off r" using wf_position(1) [OF wf pos] by blast
  have "meta_wf ?t col'" if col': "col' \<in> set cols" for col'
  proof -
    obtain j where j: "j < length cols" "cols ! j = col'" using col' by (auto simp: in_set_conv_nth)
    obtain col v where col: "col \<in> set (metadata_columns t)" and u: "slot_update col col' rowid c off v"
      using list_all2_nthD2 [OF upd j(1)] j list_all2_lengthD [OF upd] by (metis nth_mem)
    have mw: "meta_wf t col" using wf col by (simp add: table_wf_def)
    have "meta_text col' r = None"
      if "rowids_table t r = None" "kind col' = VEC0_METADATA_COLUMN_KIND_TEXT" for r
      using that mw u pos unfolding meta_wf_def slot_update_def by (metis option.distinct(1))
    moreover have "\<exists>v. meta_repr col' r c' off' v" if p: "rowids_table t r = Some (c', off')" for r c' off'
    proof (cases "r = rowid")
      case True
      then show ?thesis using p pos u by (auto simp: slot_update_def)
    next
      case False
      obtain w where "meta_repr col r c' off' w" using mw p unfolding meta_wf_def by blast
      then show ?thesis using slot_update_other [OF u False own [OF p False]] by blast
    qed
    moreover have "slot_holds col' (\<lambda>_. None) 0 c' off' (cleared_value (kind col'))"
      if "c' \<in> set (chunk_ids t)" "off' < chunk_size t" "\<forall>r. \<not> valid_at t c' off' r" for c' off'
      using that mw u used unfolding meta_wf_def slot_update_def by (metis prod.inject)
    ultimately show ?thesis unfolding meta_wf_def va by simp
  qed
  then show "table_wf ?t" using wf unfolding table_wf_def va cw by simp
  show "table_row ?t r = table_row t r" if r: "r \<noteq> rowid"
  proof (rule table_row_same)
    show "rowids_table ?t r = rowids_table t r" "vector_columns ?t = vector_columns t" by simp_all
    show "\<And>c' off' i. vec_read ?t i c' off' = vec_read t i c' off'"
      by (simp add: vec_read_def cong: option.case_cong)
    fix c' off' assume p: "rowids_table t r = Some (c', off')"
    have "\<exists>w. meta_repr col r c' off' w \<and> meta_repr col' r c' off' w"
      if "col \<in> set (metadata_columns t)" "\<exists>v. slot_update col col' rowid c off v" for col col'
      using wf_meta_row [OF wf p that(1)] that(2) slot_update_other [OF _ r own [OF p r]] by blast
    then show "list_all2 (\<lambda>col' col. \<exists>v. meta_repr col r c' off' v \<and> meta_repr col' r c' off' v)
        (metadata_columns ?t) (metadata_columns t)"
      using upd by (auto simp: list_all2_conv_all_nth)
  qed
qed

subsection \<open>Inserting a row\<close>

definition row_id :: "i64 \<Rightarrow> sqlite3_value \<Rightarrow> i64" where
  "row_id next idValue = (if value_type idValue = SQLITE_INTEGER then value_int64 idValue else next)"

definition insert_ok :: "i64 \<Rightarrow> vec0_table \<Rightarrow> sqlite3_value \<Rightarrow> parsed_vector list \<Rightarrow> sqlite3_value list \<Rightarrow> bool" where
  "insert_ok next p idValue vectors metas \<longleftrightarrow>
     value_type idValue \<in> {SQLITE_INTEGER, SQLITE_NULL} \<and> rowids_table p (row_id next idValue) = None
     \<and> list_all2 vector_fits (vector_columns p) vectors \<and> vecs_ok p (map vector_data vectors)
     \<and> list_all2 (\<lambda>col v. meta_arg_ok (kind col) v) (metadata_columns p) metas"

text \<open>The row an insert stores.\<close>

definition new_row :: "vec0_table \<Rightarrow> parsed_vector list \<Rightarrow> sqlite3_value list \<Rightarrow>
    bytes result list \<times> meta_value result list" where
  "new_row p vectors metas =
     (map (\<lambda>v. Inr (vector_data v)) vectors,
      map2 (\<lambda>col v. Inr (value_of (kind col) v)) (metadata_columns p) metas)"

lemma insert_rowid_step:
  assumes "value_type idValue \<in> {SQLITE_INTEGER, SQLITE_NULL}" and "rowids_table p (row_id next idValue) = None"
  shows "vec0Update_InsertRowidStep next p idValue =
    ((SQLITE_OK, row_id next idValue), p\<lparr>rowids_table := (rowids_table p)(row_id next idValue \<mapsto> (0, 0))\<rparr>)"
  using assms by (auto simp: vec0Update_InsertRowidStep_def vec0_rowids_insert_rowid_def row_id_def)

lemma cleared_slot:
  assumes wf: "table_wf q" and c: "c \<in> set (chunk_ids q)" and off: "off < chunk_size q"
    and free: "\<forall>r. \<not> valid_at q c off r" and new: "rowids_table q rowid = None"
    and col: "col \<in> set (metadata_columns q)"
  shows "meta_repr col rowid c off (cleared_value (kind col))"
proof -
  have "meta_wf q col" using wf col by (simp add: table_wf_def)
  then have "slot_holds col (\<lambda>_. None) 0 c off (cleared_value (kind col))"
    "kind col = VEC0_METADATA_COLUMN_KIND_TEXT \<longrightarrow> meta_text col rowid = None"
    using c off free new by (simp_all add: meta_wf_def)
  then show ?thesis
    unfolding meta_repr_holds using holds_cleared [of col "meta_text col" rowid "\<lambda>_. None" 0] by simp
qed

lemma place_row:
  assumes wf: "table_wf q" and c: "c \<in> set (chunk_ids q)" and off: "off < chunk_size q"
    and v: "chunks_validity q c = Some v" "\<not> bitmap_get v off" and vecs: "vecs_ok q vecs"
    and new: "rowids_table q rowid = None"
    and metas: "list_all2 (\<lambda>col v. meta_arg_ok (kind col) v) (metadata_columns q) metas"
  shows "\<exists>t3 t. vec0Update_InsertWriteFinalStep (q\<lparr>rowids_table := (rowids_table q)(rowid \<mapsto> (0, 0))\<rparr>)
      c off rowid vecs v = (SQLITE_OK, t3)
    \<and> write_metadata_values t3 rowid c off 0 metas = (SQLITE_OK, t) \<and> table_wf t
    \<and> table_row t = (table_row q)(rowid \<mapsto> (map Inr vecs, map2 (\<lambda>col v. Inr (value_of (kind col) v)) (metadata_columns q) metas))"
proof -
  obtain t3 where t3: "vec0Update_InsertWriteFinalStep (q\<lparr>rowids_table := (rowids_table q)(rowid \<mapsto> (0, 0))\<rparr>)
      c off rowid vecs v = (SQLITE_OK, t3)" and pl: "placed q c off rowid vecs t3"
    using write_final_placed [OF wf c off v(1) vecs] by blast
  have free: "\<forall>r. \<not> valid_at q c off r" using v by (auto simp: valid_at_def split: option.splits)
  have wf3: "table_wf t3" by (rule placed_wf [OF pl wf c off free new])
  have pf: "vector_columns t3 = vector_columns q" "metadata_columns t3 = metadata_columns q"
    "rowids_table t3 = (rowids_table q)(rowid \<mapsto> (c, off))" using pl by (simp_all add: placed_def)
  have pos3: "rowids_table t3 rowid = Some (c, off)" using pf(3) by simp
  obtain cols where w: "write_metadata_values t3 rowid c off 0 metas = (SQLITE_OK, t3\<lparr>metadata_columns := cols\<rparr>)"
    and len: "length cols = length (metadata_columns q)"
    and upd: "\<And>j. j < length cols \<Longrightarrow> slot_update (metadata_columns q ! j) (cols ! j) rowid c off
        (value_of (kind (metadata_columns q ! j)) (metas ! j))"
    using write_metadata_values_ok [of 0 metas t3 rowid c off] cleared_slot [OF wf c off free new] metas pf(2)
    by (auto simp: list_all2_conv_all_nth)
  let ?t = "t3\<lparr>metadata_columns := cols\<rparr>"
  have all: "list_all2 (\<lambda>col col'. \<exists>v. slot_update col col' rowid c off v) (metadata_columns t3) cols"
    using upd len pf(2) by (auto simp: list_all2_conv_all_nth)
  note rep = metas_replaced [OF wf3 pos3 all]
  have "table_row ?t r = ((table_row q)(rowid \<mapsto> (map Inr vecs,
      map2 (\<lambda>col v. Inr (value_of (kind col) v)) (metadata_columns q) metas))) r" for r
  proof (cases "r = rowid")
    case True
    have "length metas = length cols" using metas len by (simp add: list_all2_lengthD)
    then have "list_all2 (\<lambda>col v. meta_repr col rowid c off v) cols
        (map2 (\<lambda>col v. value_of (kind col) v) (metadata_columns q) metas)"
      using upd len by (auto simp: list_all2_conv_all_nth slot_update_def)
    from read_metadata_list [of rowid c off, OF this, of "rowids_table t3"] pos3
    have "map (\<lambda>col. vec0_result_metadata_value_for_rowid (rowids_table t3) col rowid) cols =
        map2 (\<lambda>col v. Inr (value_of (kind col) v)) (metadata_columns q) metas"
      by (simp add: split_def)
    moreover have "map (\<lambda>i. vec_read ?t i c off) [0..<length (vector_columns q)] = map Inr vecs"
      using placed_row(1) [OF pl vecs] vecs by (auto simp: vecs_ok_def vec_read_def intro!: nth_equalityI cong: option.case_cong)
    ultimately show ?thesis using True pos3 pf(1) by (simp add: table_row_pos)
  next
    case False
    have "table_row t3 r = table_row q r"
    proof (rule table_row_same)
      show "rowids_table t3 r = rowids_table q r" "vector_columns t3 = vector_columns q" using pf False by simp_all
      fix c' off' assume p: "rowids_table q r = Some (c', off')"
      then have "(c', off') \<noteq> (c, off)" using wf_position(1) [OF wf p] free by auto
      then show "\<And>i. i < length (vector_columns q) \<Longrightarrow> vec_read t3 i c' off' = vec_read q i c' off'"
        using placed_row(2) [OF pl vecs] by blast
      show "list_all2 (\<lambda>col' col. \<exists>v. meta_repr col r c' off' v \<and> meta_repr col' r c' off' v)
          (metadata_columns t3) (metadata_columns q)"
        using wf_meta_row [OF wf p] pf(2) by (simp add: list_all2_same)
    qed
    then show ?thesis using rep(2) [OF False] False by simp
  qed
  then show ?thesis using t3 w rep(1) by blast
qed

lemma insert_refines:
  assumes wf: "table_wf p" and ok: "insert_ok next p idValue vectors metas"
  shows "\<exists>t. insert_row True next p idValue vectors False metas = ((SQLITE_OK, row_id next idValue), t)
    \<and> table_wf t \<and> table_row t = (table_row p)(row_id next idValue \<mapsto> new_row p vectors metas)"
proof -
  let ?r = "row_id next idValue"
  obtain c off v q where na: "vec0Update_InsertNextAvailableStep True p = (Inr (c, off, v), q)"
    and q: "table_wf q" "c \<in> set (chunk_ids q)" "chunks_validity q c = Some v" "off < chunk_size q" "\<not> bitmap_get v off"
    and same: "vector_columns q = vector_columns p" "rowids_table q = rowids_table p"
    "map kind (metadata_columns q) = map kind (metadata_columns p)" "table_row q = table_row p"
    using next_available [OF wf] by blast
  have "list_all2 (\<lambda>k v. meta_arg_ok k v) (map kind (metadata_columns q)) metas"
    using ok unfolding same(3) by (simp add: insert_ok_def list.rel_map)
  then have metas: "list_all2 (\<lambda>col v. meta_arg_ok (kind col) v) (metadata_columns q) metas"
    by (simp add: list.rel_map)
  have vecs: "vecs_ok q (map vector_data vectors)" and new: "rowids_table q ?r = None"
    using ok same by (simp_all add: insert_ok_def vecs_ok_def)
  obtain t3 t where t: "vec0Update_InsertWriteFinalStep (q\<lparr>rowids_table := (rowids_table q)(?r \<mapsto> (0, 0))\<rparr>)
      c off ?r (map vector_data vectors) v = (SQLITE_OK, t3)"
    "write_metadata_values t3 ?r c off 0 metas = (SQLITE_OK, t)" "table_wf t"
    "table_row t = (table_row q)(?r \<mapsto> (map Inr (map vector_data vectors),
       map2 (\<lambda>col v. Inr (value_of (kind col) v)) (metadata_columns q) metas))"
    using place_row [OF q(1,2,4,3,5) vecs new metas] by blast
  have "map2 (\<lambda>col v. Inr (value_of (kind col) v) :: meta_value result) (metadata_columns q) metas =
      map2 (\<lambda>k v. Inr (value_of k v)) (map kind (metadata_columns q)) metas" by (simp add: zip_map1 split_def comp_def)
  also have "\<dots> = map2 (\<lambda>col v. Inr (value_of (kind col) v)) (metadata_columns p) metas"
    unfolding same(3) by (simp add: zip_map1 split_def comp_def)
  finally have "table_row t = (table_row p)(?r \<mapsto> new_row p vectors metas)"
    using t(4) same(4) by (simp add: new_row_def comp_def)
  moreover have "insert_row True next p idValue vectors False metas = ((SQLITE_OK, ?r), t)"
    using ok insert_rowid_step [of idValue p "next"] na t(1,2) same(2)
    by (simp add: insert_row_def insert_ok_def next_available_rowids)
  ultimately show ?thesis using t(3) by blast
qed

subsection \<open>Deleting a row\<close>

lemma clear_validity_ok:
  assumes v: "chunks_validity p c = Some v" and off: "off div 8 < length v" and bit: "bitmap_get v off"
  shows "vec0Update_Delete_ClearValidity p c off =
    (SQLITE_OK, p\<lparr>chunks_validity := (chunks_validity p)(c \<mapsto> bitmap_set v off False)\<rparr>)"
proof -
  have "drop_bit (off mod 8) (v ! (off div 8)) \<noteq> 0"
    using bit by (auto simp: bitmap_get_def)
  then show ?thesis
    using v blob_read_byte [OF off] blob_write_byte [OF off]
    by (simp add: vec0Update_Delete_ClearValidity_def bitmap_set_def)
qed

text \<open>\<open>t\<close> is \<open>p\<close> with the slot of row \<open>rowid\<close> released.\<close>

lemma released_wf:
  assumes wf: "table_wf p" and pos: "rowids_table p rowid = Some (c, off)" and v: "chunks_validity p c = Some v"
    and upd: "list_all2 (\<lambda>col col'. slot_update col col' rowid c off (cleared_value (kind col))) (metadata_columns p) cols"
    and t: "t = p\<lparr>chunks_validity := (chunks_validity p)(c \<mapsto> bitmap_set v off False),
      rowids_table := (rowids_table p)(rowid := None), metadata_columns := cols\<rparr>"
  shows "table_wf t" and "table_row t = (table_row p)(rowid := None)"
proof -
  note place = wf_position [OF wf pos]
  have n: "chunk_size p mod 8 = 0" "length v = chunk_size p div 8"
    using wf place(2) v by (auto simp: table_wf_def chunk_wf_def)
  have off: "off div 8 < length v" using div_lt_bitmap [OF place(3) n(1)] n(2) by simp
  have va: "valid_at t c' off' r \<longleftrightarrow> (c', off') \<noteq> (c, off) \<and> valid_at p c' off' r" for c' off' r
    using off v by (auto simp: t valid_at_def bitmap_get_set split: option.splits)
  have own: "(c', off') \<noteq> (c, off)" if "rowids_table p r = Some (c', off')" "r \<noteq> rowid" for r c' off'
    using slot_owner [OF wf _ pos, of r] that by auto
  have posq: "rowids_table p r = Some (c', off') \<longleftrightarrow> valid_at p c' off' r" for r c' off'
    using wf by (simp add: table_wf_def)
  have pos': "rowids_table t r = Some (c', off') \<longleftrightarrow> valid_at t c' off' r" for r c' off'
    unfolding va using posq [of r c' off'] posq [of rowid c' off'] own [of r c' off'] pos by (auto simp: t)
  have chunks: "chunk_wf t c'" if "c' \<in> set (chunk_ids t)" for c'
  proof -
    have "chunk_wf p c'" using that wf by (simp add: t table_wf_def)
    then show ?thesis using n by (auto simp: t chunk_wf_def)
  qed
  have none: "chunks_validity t c' = None" if "c' \<notin> set (chunk_ids t)" for c'
    using that wf place(2) by (auto simp: t table_wf_def)
  have metas: "meta_wf t col'" if col': "col' \<in> set cols" for col'
  proof -
    obtain j where j: "j < length cols" "cols ! j = col'" using col' by (auto simp: in_set_conv_nth)
    obtain col where col: "col \<in> set (metadata_columns p)" and u: "slot_update col col' rowid c off (cleared_value (kind col))"
      using list_all2_nthD2 [OF upd j(1)] j list_all2_lengthD [OF upd] by (metis nth_mem)
    have mw: "meta_wf p col" using wf col by (simp add: table_wf_def)
    have k: "kind col' = kind col" and h: "slot_holds col' (meta_text col') rowid c off (cleared_value (kind col'))"
      using u by (simp_all add: slot_update_def meta_repr_holds)
    have h0: "slot_holds col' (\<lambda>_. None) 0 c off (cleared_value (kind col'))" by (rule holds_cleared [OF _ h]) simp
    have "meta_text col' r = None" if "rowids_table t r = None" "kind col' = VEC0_METADATA_COLUMN_KIND_TEXT" for r
    proof (cases "r = rowid")
      case True
      then show ?thesis using h that(2) by (auto simp: slot_holds_def split: option.splits)
    next
      case False
      then show ?thesis using that mw u k unfolding meta_wf_def slot_update_def by (simp add: t)
    qed
    moreover have "\<exists>w. meta_repr col' r c' off' w" if p: "rowids_table t r = Some (c', off')" for r c' off'
    proof -
      have r: "r \<noteq> rowid" "rowids_table p r = Some (c', off')" using p by (auto simp: t split: if_splits)
      obtain w where "meta_repr col r c' off' w" using mw r(2) unfolding meta_wf_def by blast
      then show ?thesis using slot_update_other [OF u r(1) own [OF r(2,1)]] by blast
    qed
    moreover have "slot_holds col' (\<lambda>_. None) 0 c' off' (cleared_value (kind col'))"
      if "c' \<in> set (chunk_ids p)" "off' < chunk_size p" "\<forall>r. \<not> valid_at t c' off' r" for c' off'
    proof (cases "(c', off') = (c, off)")
      case True
      then show ?thesis using h0 by simp
    next
      case False
      then have "\<forall>r. \<not> valid_at p c' off' r" using that(3) va by blast
      then have "slot_holds col (\<lambda>_. None) 0 c' off' (cleared_value (kind col))"
        using mw that unfolding meta_wf_def by blast
      then show ?thesis using u False k unfolding slot_update_def by metis
    qed
    ultimately show ?thesis unfolding meta_wf_def by (simp add: t)
  qed
  show "table_wf t" using wf pos' chunks none metas unfolding table_wf_def by (simp add: t)
  show "table_row t = (table_row p)(rowid := None)"
  proof
    fix r
    show "table_row t r = ((table_row p)(rowid := None)) r"
    proof (cases "r = rowid")
      case True
      then show ?thesis by (simp add: table_row_def t)
    next
      case False
      have "table_row t r = table_row p r"
      proof (rule table_row_same)
        show "rowids_table t r = rowids_table p r" "vector_columns t = vector_columns p" using False by (simp_all add: t)
        show "\<And>c' off' i. vec_read t i c' off' = vec_read p i c' off'"
          by (simp add: t vec_read_def cong: option.case_cong)
        fix c' off' assume p: "rowids_table p r = Some (c', off')"
        have "\<exists>w. meta_repr col r c' off' w \<and> meta_repr col' r c' off' w"
          if "col \<in> set (metadata_columns p)" "slot_update col col' rowid c off (cleared_value (kind col))" for col col'
          using wf_meta_row [OF wf p that(1)] slot_update_other [OF that(2) False own [OF p False]] by blast
        then show "list_all2 (\<lambda>col' col. \<exists>v. meta_repr col r c' off' v \<and> meta_repr col' r c' off' v)
            (metadata_columns t) (metadata_columns p)"
          using upd by (auto simp: t list_all2_conv_all_nth)
      qed
      then show ?thesis using False by simp
    qed
  qed
qed

lemma delete_refines:
  assumes wf: "table_wf p"
  shows "fst (delete_row p idValue) =
      (if rowids_table p (value_int64 idValue) = None then SQLITE_EMPTY else SQLITE_OK)"
    and "table_wf (snd (delete_row p idValue))"
    and "table_row (snd (delete_row p idValue)) = (table_row p)(value_int64 idValue := None)"
proof -
  let ?r = "value_int64 idValue"
  have "fst (delete_row p idValue) = (if rowids_table p ?r = None then SQLITE_EMPTY else SQLITE_OK)
    \<and> table_wf (snd (delete_row p idValue))
    \<and> table_row (snd (delete_row p idValue)) = (table_row p)(?r := None)"
  proof (cases "rowids_table p ?r")
    case None
    then have "(table_row p)(?r := None) = table_row p" by (auto simp: table_row_def)
    then show ?thesis using None wf by (simp add: delete_row_def vec0_get_chunk_position_def)
  next
    case (Some pos)
    obtain c off where pos: "rowids_table p ?r = Some (c, off)" using Some by (cases pos) simp
    note place = wf_position [OF wf pos]
    obtain v where v: "chunks_validity p c = Some v" "bitmap_get v off"
      using place(1) by (auto simp: valid_at_def split: option.splits)
    have "off div 8 < length v"
      using wf place(2) v(1) div_lt_bitmap [OF place(3)] by (auto simp: table_wf_def chunk_wf_def)
    from clear_validity_ok [OF v(1) this v(2)]
    have del: "delete_row p idValue = (SQLITE_OK, p\<lparr>chunks_validity := (chunks_validity p)(c \<mapsto> bitmap_set v off False),
        rowids_table := (rowids_table p)(?r := None),
        metadata_columns := map (\<lambda>col. snd (vec0Update_Delete_ClearMetadata col ?r c off)) (metadata_columns p)\<rparr>)"
      using pos by (simp add: delete_row_def vec0_get_chunk_position_def vec0Update_Delete_DeleteRowids_def
          clear_metadata_values_def Let_def)
    have "slot_update col (snd (vec0Update_Delete_ClearMetadata col ?r c off)) ?r c off (cleared_value (kind col))"
      if "col \<in> set (metadata_columns p)" for col
      using wf_meta_row [OF wf pos that] clear_metadata_update [of col ?r c off] by (metis snd_conv)
    then have "list_all2 (\<lambda>col col'. slot_update col col' ?r c off (cleared_value (kind col))) (metadata_columns p)
        (map (\<lambda>col. snd (vec0Update_Delete_ClearMetadata col ?r c off)) (metadata_columns p))"
      by (simp add: list_all2_conv_all_nth)
    from released_wf [OF wf pos v(1) this refl] del pos show ?thesis by simp
  qed
  then show "fst (delete_row p idValue) =
      (if rowids_table p (value_int64 idValue) = None then SQLITE_EMPTY else SQLITE_OK)"
    "table_wf (snd (delete_row p idValue))"
    "table_row (snd (delete_row p idValue)) = (table_row p)(value_int64 idValue := None)"
    by blast+
qed

subsection \<open>Any sequence of inserts and deletes\<close>

text \<open>
  The interface of a store of rows: an insert adds a row under a fresh key, a delete removes the row of
  a key, and both keep the store well formed. Then a sequence of operations has the effect of the same
  operations on a finite map.
\<close>

datatype ('i, 'k) store_op = Store_Insert 'i | Store_Delete 'k

locale row_store =
  fixes inv :: "'s \<Rightarrow> bool"
    and rows :: "'s \<Rightarrow> 'k \<Rightarrow> 'r option"
    and ins :: "'i \<Rightarrow> 's \<Rightarrow> 's"
    and del :: "'k \<Rightarrow> 's \<Rightarrow> 's"
    and ins_ok :: "'s \<Rightarrow> 'i \<Rightarrow> bool"
    and key_of :: "'i \<Rightarrow> 'k"
    and row_of :: "'s \<Rightarrow> 'i \<Rightarrow> 'r"
  assumes ins_inv: "inv s \<Longrightarrow> ins_ok s i \<Longrightarrow> inv (ins i s)"
    and ins_rows: "inv s \<Longrightarrow> ins_ok s i \<Longrightarrow> rows (ins i s) = (rows s)(key_of i \<mapsto> row_of s i)"
    and ins_fresh: "inv s \<Longrightarrow> ins_ok s i \<Longrightarrow> rows s (key_of i) = None"
    and del_inv: "inv s \<Longrightarrow> inv (del k s)"
    and del_rows: "inv s \<Longrightarrow> rows (del k s) = (rows s)(k := None)"
begin

fun run_op :: "('i, 'k) store_op \<Rightarrow> 's \<Rightarrow> 's" where
  "run_op (Store_Insert i) s = ins i s"
| "run_op (Store_Delete k) s = del k s"

fun ops_ok :: "('i, 'k) store_op list \<Rightarrow> 's \<Rightarrow> bool" where
  "ops_ok [] s = True"
| "ops_ok (op # ops) s = ((case op of Store_Insert i \<Rightarrow> ins_ok s i | Store_Delete k \<Rightarrow> True) \<and> ops_ok ops (run_op op s))"

definition last_ins :: "('i, 'k) store_op list \<Rightarrow> 'k set" where
  "last_ins ops = fold (\<lambda>op K. case op of Store_Insert i \<Rightarrow> insert (key_of i) K | Store_Delete k \<Rightarrow> K - {k}) ops {}"

lemma run_inv: "inv s \<Longrightarrow> ops_ok ops s \<Longrightarrow> inv (fold run_op ops s)"
  by (induction ops arbitrary: s) (auto split: store_op.splits intro: ins_inv del_inv)

lemma run_dom_from:
  "inv s \<Longrightarrow> ops_ok ops s \<Longrightarrow> dom (rows (fold run_op ops s)) =
   fold (\<lambda>op K. case op of Store_Insert i \<Rightarrow> insert (key_of i) K | Store_Delete k \<Rightarrow> K - {k}) ops (dom (rows s))"
proof (induction ops arbitrary: s)
  case (Cons op ops)
  show ?case
  proof (cases op)
    case (Store_Insert i)
    then have "inv (ins i s)" "dom (rows (ins i s)) = insert (key_of i) (dom (rows s))"
      using Cons.prems by (auto simp: ins_inv ins_rows)
    then show ?thesis using Cons.IH Cons.prems Store_Insert by simp
  next
    case (Store_Delete k)
    then have "inv (del k s)" "dom (rows (del k s)) = dom (rows s) - {k}"
      using Cons.prems by (auto simp: del_inv del_rows)
    then show ?thesis using Cons.IH Cons.prems Store_Delete by simp
  qed
qed simp

lemma run_dom: "inv s \<Longrightarrow> ops_ok ops s \<Longrightarrow> dom (rows s) = {} \<Longrightarrow> dom (rows (fold run_op ops s)) = last_ins ops"
  using run_dom_from by (simp add: last_ins_def)

end

type_synonym insert_args = "i64 \<times> sqlite3_value \<times> parsed_vector list \<times> sqlite3_value list"

definition table_insert :: "insert_args \<Rightarrow> vec0_table \<Rightarrow> vec0_table" where
  "table_insert a p = (case a of (next, idValue, vectors, metas) \<Rightarrow>
     snd (insert_row True next p idValue vectors False metas))"

definition insert_key :: "insert_args \<Rightarrow> i64" where
  "insert_key a = (case a of (next, idValue, vectors, metas) \<Rightarrow> row_id next idValue)"

definition args_fit :: "vec0_table \<Rightarrow> insert_args \<Rightarrow> bool" where
  "args_fit t a = (case a of (next, idValue, vectors, metas) \<Rightarrow> insert_ok next t idValue vectors metas)"

definition args_row :: "vec0_table \<Rightarrow> insert_args \<Rightarrow> bytes result list \<times> meta_value result list" where
  "args_row t a = (case a of (next, idValue, vectors, metas) \<Rightarrow> new_row t vectors metas)"

definition int_value :: "i64 \<Rightarrow> sqlite3_value" where
  "int_value r = \<lparr>value_type = SQLITE_INTEGER, value_int64 = r, value_double = 0, value_text = []\<rparr>"

definition table_delete :: "i64 \<Rightarrow> vec0_table \<Rightarrow> vec0_table" where
  "table_delete r p = snd (delete_row p (int_value r))"

interpretation table: row_store table_wf table_row table_insert table_delete args_fit insert_key args_row
proof
  fix s :: vec0_table and i :: insert_args
  obtain nx idv vs ms where i: "i = (nx, idv, vs, ms)" by (metis prod_cases4)
  assume wf: "table_wf s" and ok: "args_fit s i"
  then have "insert_ok nx s idv vs ms" using i by (simp add: args_fit_def)
  from insert_refines [OF wf this] show "table_wf (table_insert i s)"
    "table_row (table_insert i s) = (table_row s)(insert_key i \<mapsto> args_row s i)"
    using i by (auto simp: table_insert_def insert_key_def args_row_def)
  show "table_row s (insert_key i) = None"
    using ok i by (simp add: insert_ok_def table_row_def args_fit_def insert_key_def)
next
  fix s k assume "table_wf s"
  then show "table_wf (table_delete k s)" "table_row (table_delete k s) = (table_row s)(k := None)"
    using delete_refines(2,3) [of s "int_value k"] by (simp_all add: table_delete_def int_value_def)
qed

text \<open>An empty table with a bit column of eight dimensions and an integer column.\<close>

definition empty_table :: vec0_table where
  "empty_table = \<lparr>chunk_size = 8,
     vector_columns = [\<lparr>dimensions = 8, element_type = SQLITE_VEC_ELEMENT_TYPE_BIT,
                        distance_metric = VEC0_DISTANCE_METRIC_L2\<rparr>],
     vector_chunks = (\<lambda>_ _. None),
     metadata_columns = [\<lparr>kind = VEC0_METADATA_COLUMN_KIND_INTEGER, meta_chunks = (\<lambda>_. None), meta_text = (\<lambda>_. None)\<rparr>],
     chunks_rowids = (\<lambda>_. None), chunk_ids = [], chunks_validity = (\<lambda>_. None), rowids_table = (\<lambda>_. None)\<rparr>"

lemma empty_table_wf: "table_wf empty_table"
  by (simp add: table_wf_def empty_table_def meta_wf_def valid_at_def)

lemma empty_table_rows: "table_row empty_table = Map.empty"
  by (simp add: table_row_def empty_table_def fun_eq_iff)

definition sample_insert :: insert_args where
  "sample_insert = (1, int_value 7, [Some (SQLITE_VEC_ELEMENT_TYPE_BIT, 8, [5])], [int_value 42])"

lemma sample_insert_ok: "insert_ok 1 empty_table (int_value 7) [Some (SQLITE_VEC_ELEMENT_TYPE_BIT, 8, [5])] [int_value 42]"
  by (simp add: insert_ok_def empty_table_def int_value_def row_id_def vector_fits_def vecs_ok_def vector_data_def
      meta_arg_ok_def metadata_type_ok_def vector_column_byte_size_def vector_byte_size_def)

text \<open>
  C2. Inserting a row of fitting vectors and metadata values under a fresh row id succeeds, keeps the
  shadow tables consistent, and is the insertion into the map from row ids to rows that the read
  operations of the table show: the new row reads back as given, every other row as before.
\<close>

theorem table_insert_refines_map:
  assumes "table_wf p" and "insert_ok next p idValue vectors metas"
  shows "\<exists>t. insert_row True next p idValue vectors False metas = ((SQLITE_OK, row_id next idValue), t)
    \<and> table_wf t \<and> table_row t = (table_row p)(row_id next idValue \<mapsto> new_row p vectors metas)"
  using assms by (rule insert_refines)

theorem table_insert_refines_map_witness:
  "\<exists>t. insert_row True 1 empty_table (int_value 7) [Some (SQLITE_VEC_ELEMENT_TYPE_BIT, 8, [5])] False [int_value 42]
      = ((SQLITE_OK, 7), t)
    \<and> table_wf t \<and> table_row t = [7 \<mapsto> ([Inr [5]], [Inr (MInt 42)])]"
proof -
  have "new_row empty_table [Some (SQLITE_VEC_ELEMENT_TYPE_BIT, 8, [5])] [int_value 42] = ([Inr [5]], [Inr (MInt 42)])"
    by (simp add: new_row_def empty_table_def vector_data_def value_of_def int_value_def)
  then show ?thesis
    using table_insert_refines_map [OF empty_table_wf sample_insert_ok]
    by (simp add: empty_table_rows row_id_def int_value_def)
qed

text \<open>
  C3. Deleting a row keeps the shadow tables consistent and removes exactly that row from the map
  from row ids to rows; deleting a row id that is not in the table changes nothing and returns
  \<open>SQLITE_EMPTY\<close>.
\<close>

theorem table_delete_refines_map:
  assumes "table_wf p"
  shows "fst (delete_row p idValue) =
      (if table_row p (value_int64 idValue) = None then SQLITE_EMPTY else SQLITE_OK)
    \<and> table_wf (snd (delete_row p idValue))
    \<and> table_row (snd (delete_row p idValue)) = (table_row p)(value_int64 idValue := None)"
proof -
  have "table_row p r = None \<longleftrightarrow> rowids_table p r = None" for r
    by (simp add: table_row_def split: option.splits)
  then show ?thesis using delete_refines [OF assms, of idValue] by simp
qed

theorem table_delete_refines_map_witness:
  "fst (delete_row (table_insert sample_insert empty_table) (int_value 7)) = SQLITE_OK
    \<and> table_row (snd (delete_row (table_insert sample_insert empty_table) (int_value 7))) 7 = None"
proof -
  have "table_wf (table_insert sample_insert empty_table)"
    "table_row (table_insert sample_insert empty_table) 7 \<noteq> None"
    using table.ins_inv [OF empty_table_wf, of sample_insert] table.ins_rows [OF empty_table_wf, of sample_insert]
      sample_insert_ok by (simp_all add: sample_insert_def args_fit_def insert_key_def row_id_def int_value_def)
  then show ?thesis
    using table_delete_refines_map [of "table_insert sample_insert empty_table" "int_value 7"]
    by (simp add: int_value_def)
qed

end
