(* ===== verification/TableScan.thy ===== *)
theory TableScan
  imports TableStore_Correct
begin

text \<open>
  The table and its flat scan together: whatever rows were inserted and deleted, a nearest-neighbour
  query sees exactly the rows the table holds.
\<close>

text \<open>The rows of the statement that enumerates the chunks of a table.\<close>

definition table_chunks :: "vec0_table \<Rightarrow> chunk list" where
  "table_chunks t = map (\<lambda>c. \<lparr>chunk_id = c,
     chunk_validity = (case chunks_validity t c of None \<Rightarrow> [] | Some v \<Rightarrow> v),
     chunk_rowids = (case chunks_rowids t c of None \<Rightarrow> [] | Some rows \<Rightarrow> rows)\<rparr>) (chunk_ids t)"

definition used_rows :: "vec0_table \<Rightarrow> chunk \<Rightarrow> i64 list" where
  "used_rows t c = map (nth (chunk_rowids c)) (filter (bitmap_get (chunk_validity c)) [0..<chunk_size t])"

lemma distinct_concat_map:
  assumes "distinct cs" and "\<And>c. c \<in> set cs \<Longrightarrow> distinct (f c)"
    and "\<And>c d x. c \<in> set cs \<Longrightarrow> d \<in> set cs \<Longrightarrow> x \<in> set (f c) \<Longrightarrow> x \<in> set (f d) \<Longrightarrow> c = d"
  shows "distinct (concat (map f cs))"
  using assms
proof (induction cs)
  case (Cons c cs)
  have "distinct (concat (map f cs))" using Cons by (intro Cons.IH) auto
  moreover have "x \<notin> set (f d)" if "x \<in> set (f c)" "d \<in> set cs" for x d
    using Cons.prems(3) [of c d x] Cons.prems(1) that by auto
  ultimately show ?case using Cons.prems(2) [of c] by auto
qed simp

lemma used_row_position:
  assumes wf: "table_wf t" and c: "c \<in> set (table_chunks t)"
  shows "i < chunk_size t \<Longrightarrow> bitmap_get (chunk_validity c) i \<Longrightarrow>
    rowids_table t (chunk_rowids c ! i) = Some (chunk_id c, i)"
  using wf c by (auto simp: table_chunks_def table_wf_def chunk_wf_def valid_at_def)

lemma table_chunk_eq: "c \<in> set (table_chunks t) \<Longrightarrow> d \<in> set (table_chunks t) \<Longrightarrow> chunk_id c = chunk_id d \<Longrightarrow> c = d"
  by (auto simp: table_chunks_def)

lemma used_rows_rows:
  assumes wf: "table_wf t"
  shows "set (concat (map (used_rows t) (table_chunks t))) = dom (table_row t)"
    and "distinct (concat (map (used_rows t) (table_chunks t)))"
proof -
  note pos = used_row_position [OF wf]
  have in_used: "x \<in> set (used_rows t c) \<Longrightarrow> c \<in> set (table_chunks t) \<Longrightarrow>
      \<exists>i. rowids_table t x = Some (chunk_id c, i)" for x c
    using pos by (auto simp: used_rows_def)
  have A: "r \<in> dom (table_row t)" if "c \<in> set (table_chunks t)" "r \<in> set (used_rows t c)" for r c
    using in_used [OF that(2,1)] by (auto simp: table_row_def)
  have B: "\<exists>c\<in>set (table_chunks t). r \<in> set (used_rows t c)" if r: "r \<in> dom (table_row t)" for r
  proof -
    obtain c i where p: "rowids_table t r = Some (c, i)"
      using r by (auto simp: table_row_def split: option.splits)
    note place = wf_position [OF wf p]
    obtain v rows where vr: "chunks_validity t c = Some v" "chunks_rowids t c = Some rows" "bitmap_get v i" "rows ! i = r"
      using place(1) by (auto simp: valid_at_def split: option.splits)
    let ?c = "\<lparr>chunk_id = c, chunk_validity = v, chunk_rowids = rows\<rparr>"
    have "?c \<in> set (table_chunks t)" using place(2) vr by (force simp: table_chunks_def)
    moreover have "r \<in> set (used_rows t ?c)" using place(3) vr by (auto simp: used_rows_def)
    ultimately show ?thesis by blast
  qed
  have "r \<in> set (concat (map (used_rows t) (table_chunks t))) \<longleftrightarrow> (\<exists>c\<in>set (table_chunks t). r \<in> set (used_rows t c))" for r
    by simp
  then show "set (concat (map (used_rows t) (table_chunks t))) = dom (table_row t)"
    using A B by (intro set_eqI) blast
  have "distinct (table_chunks t)"
    using wf by (simp add: table_chunks_def distinct_map table_wf_def inj_on_def)
  moreover have "distinct (used_rows t c)" if c: "c \<in> set (table_chunks t)" for c
    unfolding used_rows_def distinct_map
    using pos [OF c] by (auto simp: inj_on_def) (metis option.inject prod.inject)
  moreover have "c = d" if "c \<in> set (table_chunks t)" "d \<in> set (table_chunks t)"
    "x \<in> set (used_rows t c)" "x \<in> set (used_rows t d)" for c d x
    using in_used [OF that(3,1)] in_used [OF that(4,2)] table_chunk_eq [OF that(1,2)] by auto
  ultimately show "distinct (concat (map (used_rows t) (table_chunks t)))"
    by (intro distinct_concat_map)
qed

text \<open>The hits of an unfiltered scan are the used slots.\<close>

lemma table_hits_rows:
  assumes wf: "table_wf t" and vi: "vi < length (vector_columns t)" and c: "c \<in> set (table_chunks t)"
  shows "map fst (chunk_hits junk [] None [] val (vec0_vtab.truncate t) vi q c) = used_rows t c"
    and "chunk_ok junk [] (vec0_vtab.truncate t) [] val c" and "vectors_ok (vec0_vtab.truncate t) vi c"
proof -
  obtain id where id: "id \<in> set (chunk_ids t)" "chunk_id c = id"
    "chunk_validity c = (case chunks_validity t id of None \<Rightarrow> [] | Some v \<Rightarrow> v)"
    "chunk_rowids c = (case chunks_rowids t id of None \<Rightarrow> [] | Some rows \<Rightarrow> rows)"
    using c by (auto simp: table_chunks_def)
  have "chunk_wf t id" using wf id(1) by (simp add: table_wf_def)
  then obtain v rows b where w: "chunks_validity t id = Some v" "length v = chunk_size t div 8"
    "chunks_rowids t id = Some rows" "length rows = chunk_size t"
    "vector_chunks t vi id = Some b" "length b = chunk_size t * vector_column_byte_size (vector_columns t ! vi)"
    using vi unfolding chunk_wf_def by blast
  have "row_passes junk [] None [] val c = bitmap_get v" using id(3) w(1) by (simp add: row_passes_def fun_eq_iff)
  then show "map fst (chunk_hits junk [] None [] val (vec0_vtab.truncate t) vi q c) = used_rows t c"
    using id w by (simp add: chunk_hits_def used_rows_def vec0_vtab.defs comp_def)
  show "chunk_ok junk [] (vec0_vtab.truncate t) [] val c" "vectors_ok (vec0_vtab.truncate t) vi c"
    using id w by (simp_all add: chunk_ok_def vectors_ok_def vec0_vtab.defs)
qed

lemma table_scan_all:
  assumes wf: "table_wf t" and vi: "vi < length (vector_columns t)"
    and num: "\<forall>c\<in>set (table_chunks t). \<forall>h\<in>set (chunk_hits junk [] None [] val (vec0_vtab.truncate t) vi q c).
      \<not> fisnan (snd h)"
    and k: "card (dom (table_row t)) \<le> k"
  shows "\<exists>hs. vec0Filter_knn_chunks_iter True junk (vec0_vtab.truncate t) (map Chunk_Row (table_chunks t)) vi None [] [] q k
      = Inr hs
    \<and> set (map fst hs) = dom (table_row t) \<and> distinct (map fst hs) \<and> sorted (map hit_key hs)"
proof -
  let ?p = "vec0_vtab.truncate t" and ?hits = "chunk_hits junk [] None [] val (vec0_vtab.truncate t) vi q"
  let ?all = "concat (map ?hits (table_chunks t))"
  have n: "chunk_size ?p mod 8 = 0" using wf by (simp add: vec0_vtab.defs table_wf_def)
  have ok: "\<forall>c\<in>set (table_chunks t). chunk_ok junk [] ?p [] val c \<and> vectors_ok ?p vi c
      \<and> (\<forall>h\<in>set (?hits c). \<not> fisnan (snd h))"
    using table_hits_rows(2,3) [OF wf vi] num by blast
  obtain hs where hs: "scan_chunks True junk ?p (vector_columns ?p ! vi) vi None [] [] q k (map Chunk_Row (table_chunks t)) [] = Inr hs"
    "best_k hit_key k (mset ?all) (mset hs)" "sorted (map hit_key hs)"
    using scan_chunks_best [OF n _ ok, of "{#}" k "[]"] by auto
  have fst_all: "map fst ?all = concat (map (used_rows t) (table_chunks t))"
    using table_hits_rows(1) [OF wf vi] by (simp add: map_concat comp_def cong: map_cong)
  have "length ?all = card (dom (table_row t))"
    using used_rows_rows [OF wf] fst_all by (metis distinct_card length_map)
  then have "mset hs = mset ?all" using best_k_everything [OF hs(2)] k by simp
  then have "mset (map fst hs) = mset (map fst ?all)" by simp
  then have "set (map fst hs) = dom (table_row t)" "distinct (map fst hs)"
    using used_rows_rows [OF wf] fst_all by (metis mset_eq_setD, metis mset_eq_imp_distinct_iff)
  then show ?thesis using hs(1,3) by (auto simp: vec0Filter_knn_chunks_iter_def)
qed

text \<open>
  C4. After any sequence of successful inserts and deletes on an empty table, a nearest-neighbour
  query for at least as many neighbours as there are rows returns every row that was inserted and not
  deleted since, each exactly once and in order of distance.
\<close>

theorem table_scan_returns_live_rows:
  assumes "table_wf p" and "dom (table_row p) = {}" and "table.ops_ok ops p"
    and "t = fold table.run_op ops p" and "vi < length (vector_columns t)"
    and "\<forall>c\<in>set (table_chunks t). \<forall>h\<in>set (chunk_hits junk [] None [] val (vec0_vtab.truncate t) vi q c).
      \<not> fisnan (snd h)"
    and "card (table.last_ins ops) \<le> k"
  shows "\<exists>hs. vec0Filter_knn_chunks_iter True junk (vec0_vtab.truncate t) (map Chunk_Row (table_chunks t)) vi None [] [] q k
      = Inr hs
    \<and> set (map fst hs) = table.last_ins ops \<and> distinct (map fst hs) \<and> sorted (map hit_key hs)"
proof -
  have wf: "table_wf t" unfolding assms(4) using assms(1,3) by (rule table.run_inv)
  have "dom (table_row t) = table.last_ins ops" unfolding assms(4) using assms(1,3,2) by (rule table.run_dom)
  then show ?thesis using table_scan_all [OF wf assms(5,6)] assms(7) by simp
qed

subsection \<open>Tables of bit vectors\<close>

text \<open>The column definitions never change, and distances of bit vectors are small whole numbers.\<close>

lemma write_vectors_columns: "vector_columns (snd (write_vectors p c off i vs)) = vector_columns p"
  by (induction p c off i vs rule: write_vectors.induct) (auto simp: Let_def split: option.splits sum.splits)

lemma write_metadata_columns: "vector_columns (snd (write_metadata_values p r c off i vs)) = vector_columns p"
  by (induction p r c off i vs rule: write_metadata_values.induct) (auto simp: Let_def split: prod.splits)

lemma rowid_step_columns: "vector_columns (snd (vec0Update_InsertRowidStep nx p idv)) = vector_columns p"
  by (auto simp: vec0Update_InsertRowidStep_def vec0_rowids_insert_rowid_def split: option.splits)

lemma fresh_position_columns: "vector_columns (snd (fresh_position p)) = vector_columns p"
  by (auto simp: fresh_position_def vec0_new_chunk_def Let_def split: option.splits)

lemma next_available_columns: "vector_columns (snd (vec0Update_InsertNextAvailableStep ok p)) = vector_columns p"
  by (auto simp: vec0Update_InsertNextAvailableStep_def fresh_position_columns split: sum.splits sqlite_rc.splits option.splits)

lemma final_step_columns: "vector_columns (snd (vec0Update_InsertWriteFinalStep p c off r vs v)) = vector_columns p"
proof -
  have "vector_columns (snd (case write_vectors p1 c off 0 vs of (SQLITE_OK, p1) \<Rightarrow> f p1 | (rc, p1) \<Rightarrow> (rc, p1))) = vector_columns p1"
    if "\<And>p1. vector_columns (snd (f p1)) = vector_columns p1" for p1 and f :: "vec0_table \<Rightarrow> sqlite_rc \<times> vec0_table"
    using write_vectors_columns [of p1 c off 0 vs] that by (auto split: prod.splits sqlite_rc.splits)
  then show ?thesis
    unfolding vec0Update_InsertWriteFinalStep_def Let_def
    by (auto simp: vec0_rowids_update_position_def split: option.split sum.split)
qed

text \<open>A step that keeps the columns, followed by another that does.\<close>

lemma ok_step_columns:
  assumes "vector_columns (snd x) = C" and "\<And>p. vector_columns p = C \<Longrightarrow> vector_columns (snd (f p)) = C"
    and "\<And>rc p. vector_columns p = C \<Longrightarrow> vector_columns (snd (g rc p)) = C"
  shows "vector_columns (snd (case x of (SQLITE_OK, p) \<Rightarrow> f p | (rc, p) \<Rightarrow> g rc p)) = C"
  using assms by (cases x; cases "fst x") auto

lemma table_insert_columns: "vector_columns (table_insert a p) = vector_columns p"
proof -
  obtain nx idv vs ms where a: "a = (nx, idv, vs, ms)" by (metis prod_cases4)
  let ?C = "vector_columns p"
  let ?last = "\<lambda>r c off p3. case write_metadata_values p3 r c off 0 ms of
      (SQLITE_OK, p4) \<Rightarrow> ((SQLITE_OK, r), p4) | (rc, p4) \<Rightarrow> ((rc, 0), p4)"
  let ?wrt = "\<lambda>r c off v p2. case vec0Update_InsertWriteFinalStep p2 c off r (map vector_data vs) v of
      (SQLITE_OK, p3) \<Rightarrow> ?last r c off p3 | (rc, p3) \<Rightarrow> ((rc, 0), p3)"
  let ?find = "\<lambda>r p1. case vec0Update_InsertNextAvailableStep True p1 of
      (Inl rc, p2) \<Rightarrow> ((rc, 0), p2) | (Inr (c, off, v), p2) \<Rightarrow> ?wrt r c off v p2"
  have la: "vector_columns (snd (?last r c off p3)) = ?C" if "vector_columns p3 = ?C" for r c off p3
    using that by (intro ok_step_columns) (simp_all add: write_metadata_columns)
  have wr: "vector_columns (snd (?wrt r c off v p2)) = ?C" if "vector_columns p2 = ?C" for r c off v p2
    using that by (intro ok_step_columns la) (simp_all add: final_step_columns)
  have fnd: "vector_columns (snd (?find r p1)) = ?C" if "vector_columns p1 = ?C" for r p1
  proof (cases "vec0Update_InsertNextAvailableStep True p1")
    case (Pair res p2)
    then have "vector_columns p2 = ?C" using next_available_columns [of True p1] that by simp
    then show ?thesis using Pair wr by (simp split: sum.split)
  qed
  obtain rc r p1 where rw: "vec0Update_InsertRowidStep nx p idv = ((rc, r), p1)" by (metis prod.collapse)
  then have "vector_columns p1 = ?C" using rowid_step_columns [of nx p idv] by simp
  then show ?thesis using fnd rw
    by (cases rc) (simp_all add: a table_insert_def insert_row_def)
qed

lemma table_delete_columns: "vector_columns (table_delete r p) = vector_columns p"
  by (auto simp: table_delete_def delete_row_def vec0Update_Delete_ClearValidity_def Let_def
      vec0Update_Delete_DeleteRowids_def clear_metadata_values_def split: sum.splits prod.splits option.splits sqlite_rc.splits)

lemma popcount_le: "popcount w \<le> LENGTH('a)" for w :: "'a::len word"
  unfolding popcount_def by (metis length_filter_le length_upt minus_nat.diff_0)

lemma hamming_not_nan:
  assumes "dims < 2 ^ 24"
  shows "\<not> fisnan (distance_hamming a b dims)"
proof -
  have le: "(\<Sum>i\<leftarrow>[0..<n]. f i) \<le> k * n" if "\<And>i. f i \<le> k" for f :: "nat \<Rightarrow> nat" and k n
    using sum_bounded_above [of "{0..<n}" f k] that by (simp add: interv_sum_list_conv_sum_set_nat mult.commute)
  have "(\<Sum>i\<leftarrow>[0..<dims div 8]. hamdist_table ! unat (a ! i XOR b ! i)) \<le> 8 * (dims div 8)"
    using popcount_le [where 'a = 8] by (intro le) (simp add: hamdist_table_popcount)
  moreover have "(\<Sum>i\<leftarrow>[0..<dims div 8 div 8]. popcount (u64_at a i XOR u64_at b i)) \<le> 64 * (dims div 8 div 8)"
    using popcount_le [where 'a = 64] by (intro le) simp
  ultimately show ?thesis
    unfolding distance_hamming_def distance_hamming_u64_def distance_hamming_u8_def foldl_sum_int
    using assms by (auto intro!: int_not_nan)
qed

lemma bit_hits_not_nan:
  assumes "element_type (vector_columns p ! vi) = SQLITE_VEC_ELEMENT_TYPE_BIT" and "dimensions (vector_columns p ! vi) < 2 ^ 24"
    and "h \<in> set (chunk_hits junk mins rin args val p vi q c)"
  shows "\<not> fisnan (snd h)"
  using assms by (auto simp: chunk_hits_def row_distance_def Let_def hamming_not_nan split: option.splits)

definition sample_ops :: "(insert_args, i64) store_op list" where
  "sample_ops = [Store_Insert sample_insert, Store_Delete 3]"

theorem table_scan_returns_live_rows_witness:
  "\<exists>hs. vec0Filter_knn_chunks_iter True sample_in (vec0_vtab.truncate (fold table.run_op sample_ops empty_table))
      (map Chunk_Row (table_chunks (fold table.run_op sample_ops empty_table))) 0 None [] [] [0] 4 = Inr hs
    \<and> set (map fst hs) = {7} \<and> distinct (map fst hs) \<and> sorted (map hit_key hs)"
proof -
  let ?t = "fold table.run_op sample_ops empty_table"
  have cols: "vector_columns ?t = vector_columns empty_table"
    by (simp add: sample_ops_def table_insert_columns table_delete_columns)
  have "table.ops_ok sample_ops empty_table" using sample_insert_ok by (simp add: sample_ops_def sample_insert_def args_fit_def)
  moreover have "\<forall>c\<in>set (table_chunks ?t). \<forall>h\<in>set (chunk_hits sample_in [] None [] sample_val (vec0_vtab.truncate ?t) 0 [0] c).
      \<not> fisnan (snd h)"
    by (intro ballI, rule bit_hits_not_nan) (simp_all add: vec0_vtab.defs cols, simp_all add: empty_table_def)
  moreover have "table.last_ins sample_ops = {7}"
    unfolding table.last_ins_def sample_ops_def sample_insert_def by (auto simp: insert_key_def row_id_def int_value_def)
  ultimately show ?thesis
    using table_scan_returns_live_rows [OF empty_table_wf, of sample_ops ?t 0 sample_in sample_val "[0]" 4]
    by (simp add: empty_table_rows cols) (simp add: empty_table_def)
qed

end
