(* ===== verification/KDTree_Balance.thy ===== *)
theory KDTree_Balance
  imports KDTree Float_Exact
begin

text \<open>
  The balance of the k-d tree. The two float thresholds are evaluated exactly for trees below \<open>2 ^ 22\<close>
  nodes; every operation leaves no node that is unbalanced or has too many tombstones below it; hence
  the height, and with it the recursion depth of every operation, is logarithmic in the size.
\<close>

subsection \<open>The thresholds\<close>

lemma fval_ALPHA_BAL: "fval ALPHA_BAL = FFin False (3 * 2 ^ 147)"
  by (simp add: ALPHA_BAL_def fval_def fp_of_mag_def binary32_def fmag_def fneg_bit_def mag_units_def)

lemma fval_ALPHA_DEL: "fval ALPHA_DEL = FFin False (10066330 * 2 ^ 124)"
  by (simp add: ALPHA_DEL_def fval_def fp_of_mag_def binary32_def fmag_def fneg_bit_def mag_units_def)

lemma fval_of_nat: "n < 2 ^ 24 \<Longrightarrow> fval (f32_of_int (int n)) = FFin False (int n * 2 ^ 149)"
  using fval_of_int [of "int n"] by simp

lemma fmul_ALPHA_BAL:
  assumes "n < 2 ^ 22"
  shows "fval (fmul ALPHA_BAL (f32_of_int (int n))) = FFin False (3 * int n * 2 ^ 147)"
proof -
  have "fmul ALPHA_BAL (f32_of_int (int n)) = f32_of (XRat False (3 * 2 ^ 147 * (int n * 2 ^ 149)) (2 ^ 149))"
    unfolding fmul_def fval_ALPHA_BAL using fval_of_nat [of n] assms by simp
  also have "\<dots> = f32_of (XRat False (3 * int n * 2 ^ 147 * 2 ^ 149) (1 * 2 ^ 149))" by (simp only: mult_ac mult_1)
  also have "\<dots> = f32_of (XRat False (3 * int n * 2 ^ 147) 1)" by (rule f32_of_scale) simp
  finally show ?thesis using fval_exact [of "3 * int n" 147 False] assms by simp
qed

lemma over_ALPHA_BAL:
  assumes "n < 2 ^ 22" and "m < 2 ^ 24"
  shows "flt (fmul ALPHA_BAL (f32_of_int (int n))) (f32_of_int (int m)) \<longleftrightarrow> 3 * n < 4 * m"
proof -
  have "flt (fmul ALPHA_BAL (f32_of_int (int n))) (f32_of_int (int m)) \<longleftrightarrow> 3 * int n * 2 ^ 147 < int m * 2 ^ 149"
    using flt_values [OF fmul_ALPHA_BAL [OF assms(1)] fval_of_nat [OF assms(2)]] by (simp add: fp_int_def)
  also have "\<dots> \<longleftrightarrow> 3 * int n < 4 * int m" by simp
  finally show ?thesis by presburger
qed

lemma over_ALPHA_BAL_int:
  "0 \<le> n \<Longrightarrow> n < 2 ^ 22 \<Longrightarrow> 0 \<le> m \<Longrightarrow> m < 2 ^ 24 \<Longrightarrow>
   flt (fmul ALPHA_BAL (f32_of_int n)) (f32_of_int m) \<longleftrightarrow> 3 * n < 4 * m"
  using over_ALPHA_BAL [of "nat n" "nat m"] by (simp add: nat_less_iff) linarith

lemma is_unbalanced_exact:
  assumes "sz < 2 ^ 22" and "node_size lt < 2 ^ 24" and "node_size rt < 2 ^ 24"
  shows "is_unbalanced (KDNode p r lt rt ax sz del ic) \<longleftrightarrow>
    2 < sz \<and> (3 * sz < 4 * node_size lt \<or> 3 * sz < 4 * node_size rt)"
  using assms by (simp add: over_ALPHA_BAL Let_def not_le)

text \<open>\<open>ALPHA_DEL\<close> is not a dyadic fraction, so its products round; the test is sound towards "few".\<close>

lemma few_deleted:
  assumes "n < 2 ^ 24" and "m < 2 ^ 24" and "m * 2 ^ 25 \<le> 10066330 * n"
  shows "\<not> flt (fmul ALPHA_DEL (f32_of_int (int n))) (f32_of_int (int m))"
proof -
  have "fmul ALPHA_DEL (f32_of_int (int n)) = f32_of (XRat False (10066330 * 2 ^ 124 * (int n * 2 ^ 149)) (2 ^ 149))"
    unfolding fmul_def fval_ALPHA_DEL using fval_of_nat [of n] assms(1) by simp
  moreover have "int m * 2 ^ 149 * 2 ^ 149 \<le> 10066330 * 2 ^ 124 * (int n * 2 ^ 149)"
    using assms(3) by simp
  ultimately show ?thesis
    using not_flt_round [OF fval_of_nat [OF assms(2)]] by simp
qed

lemma few_deleted_int:
  "0 \<le> n \<Longrightarrow> n < 2 ^ 24 \<Longrightarrow> 0 \<le> m \<Longrightarrow> m < 2 ^ 24 \<Longrightarrow> m * 2 ^ 25 \<le> 10066330 * n \<Longrightarrow>
   \<not> flt (fmul ALPHA_DEL (f32_of_int n)) (f32_of_int m)"
  using few_deleted [of "nat n" "nat m"] by (simp add: nat_less_iff)

lemma too_many_deleted_none [simp]:
  "sz < 2 ^ 24 \<Longrightarrow> \<not> too_many_deleted (KDNode p r lt rt ax sz del 0)"
  using few_deleted [of sz 0] by simp

subsection \<open>No operation leaves an unbalanced node\<close>

fun kd_nodes_ok :: "kdnode \<Rightarrow> bool" where
  "kd_nodes_ok KDNull = True"
| "kd_nodes_ok (KDNode p r lt rt ax sz del ic) =
     (\<not> is_unbalanced (KDNode p r lt rt ax sz del ic) \<and> \<not> too_many_deleted (KDNode p r lt rt ax sz del ic)
      \<and> kd_nodes_ok lt \<and> kd_nodes_ok rt)"

fun kd_height :: "kdnode \<Rightarrow> nat" where
  "kd_height KDNull = 0"
| "kd_height (KDNode p r lt rt ax sz del ic) = Suc (max (kd_height lt) (kd_height rt))"

fun kd_sized :: "kdnode \<Rightarrow> bool" where
  "kd_sized KDNull = True"
| "kd_sized (KDNode p r lt rt ax sz del ic) = (sz = 1 + kd_count lt + kd_count rt \<and> kd_sized lt \<and> kd_sized rt)"

lemma kd_sized_size: "kd_sized t \<Longrightarrow> node_size t = kd_count t"
  by (cases t) auto

lemma kd_inv_sized: "kd_inv dims t \<Longrightarrow> kd_sized t"
  by (induction t) auto

lemma length_collect: "length (collect_valid_nodes t) \<le> kd_count t"
  by (induction t) auto

lemma build_balanced_ok:
  "length arr < 2 ^ 22 \<Longrightarrow> kd_nodes_ok (build_balanced arr depth dims)
    \<and> node_size (build_balanced arr depth dims) = length arr
    \<and> node_invalid (build_balanced arr depth dims) = 0
    \<and> kd_count (build_balanced arr depth dims) = length arr"
proof (induction arr depth dims rule: build_balanced.induct)
  case (1 arr depth dims)
  show ?case
  proof (cases "arr = []")
    case True
    then show ?thesis by (simp add: build_balanced.simps [of "[]"])
  next
    case False
    define ax where "ax = depth mod dims"
    define ys where "ys = c_qsort (pointrec_cmp ax) arr"
    define mid where "mid = length arr div 2"
    define lt where "lt = build_balanced (take mid ys) (depth + 1) dims"
    define rt where "rt = build_balanced (drop (mid + 1) ys) (depth + 1) dims"
    have len: "length ys = length arr" by (simp add: ys_def)
    have pos: "0 < length arr" using False by simp
    have ml: "mid < length arr" using pos by (simp add: mid_def)
    then have tl: "length (take mid ys) = mid" using len by simp
    have L: "kd_nodes_ok lt \<and> node_size lt = mid \<and> node_invalid lt = 0 \<and> kd_count lt = mid"
      using "1.IH"(1) [OF False ax_def ys_def mid_def, unfolded tl] "1.prems" ml by (simp add: lt_def)
    have R: "kd_nodes_ok rt \<and> node_size rt = length arr - (mid + 1) \<and> node_invalid rt = 0
        \<and> kd_count rt = length arr - (mid + 1)"
      using "1.IH"(2) [OF False ax_def ys_def mid_def] "1.prems" len by (auto simp: rt_def)
    have sz: "1 + node_size lt + node_size rt = length arr" using L R ml by simp
    have half: "4 * mid \<le> 3 * length arr" "4 * (length arr - (mid + 1)) \<le> 3 * length arr"
      by (auto simp: mid_def)
    have e: "build_balanced arr depth dims = KDNode (fst (ys ! mid)) (snd (ys ! mid)) lt rt ax (length arr) False 0"
      using False L R sz by (simp add: build_balanced.simps [of arr] Let_def ax_def ys_def mid_def lt_def rt_def)
    have "\<not> is_unbalanced (build_balanced arr depth dims)"
      unfolding e using "1.prems" L R half by (subst is_unbalanced_exact) auto
    moreover have "\<not> too_many_deleted (build_balanced arr depth dims)"
      unfolding e using "1.prems" by (intro too_many_deleted_none) simp
    ultimately show ?thesis using L R sz unfolding e by simp
  qed
qed

lemma rebuild_ok:
  assumes "kd_count t < 2 ^ 22"
  shows "kd_nodes_ok (rebuild_subtree t dims) \<and> kd_count (rebuild_subtree t dims) \<le> kd_count t"
  using assms build_balanced_ok [of "collect_valid_nodes t" 0 dims] length_collect [of t] by (cases t) auto

lemma kd_nodes_ok_pullup:
  assumes "kd_nodes_ok lt" and "kd_nodes_ok rt"
    and "n = pullup (KDNode p r lt rt ax sz del ic)" and "\<not> is_unbalanced n" and "\<not> too_many_deleted n"
  shows "kd_nodes_ok n"
  using assms by simp

lemma insert_rec_ok:
  "kd_nodes_ok t \<Longrightarrow> kd_count t + 1 < 2 ^ 22 \<Longrightarrow>
   kd_nodes_ok (kdtree_insert_rec True t point rowid depth dims)
   \<and> kd_count (kdtree_insert_rec True t point rowid depth dims) \<le> kd_count t + 1"
proof (induction t arbitrary: depth)
  case KDNull
  then show ?case using few_deleted [of 1 0] by simp
next
  case (KDNode p r lt rt ax sz del ic)
  let ?lt = "kdtree_insert_rec True lt point rowid (depth + 1) dims"
  let ?rt = "kdtree_insert_rec True rt point rowid (depth + 1) dims"
  have L: "kd_nodes_ok ?lt \<and> kd_count ?lt \<le> kd_count lt + 1" using KDNode.IH(1) KDNode.prems by simp
  have R: "kd_nodes_ok ?rt \<and> kd_count ?rt \<le> kd_count rt + 1" using KDNode.IH(2) KDNode.prems by simp
  define node where "node = (if flt (point ! ax) (p ! ax)
      then pullup (KDNode p r ?lt rt ax sz del ic) else pullup (KDNode p r lt ?rt ax sz del ic))"
  have e: "kdtree_insert_rec True (KDNode p r lt rt ax sz del ic) point rowid depth dims =
      (if is_unbalanced node \<or> too_many_deleted node then rebuild_subtree node dims else node)"
    by (simp add: node_def Let_def)
  have cnt: "kd_count node \<le> kd_count (KDNode p r lt rt ax sz del ic) + 1" using L R by (simp add: node_def)
  then have re: "kd_nodes_ok (rebuild_subtree node dims) \<and> kd_count (rebuild_subtree node dims) \<le> kd_count node"
    using KDNode.prems by (intro rebuild_ok) simp
  have "\<not> is_unbalanced node \<Longrightarrow> \<not> too_many_deleted node \<Longrightarrow> kd_nodes_ok node"
    using L R KDNode.prems kd_nodes_ok_pullup [of ?lt rt node p r ax sz del ic] kd_nodes_ok_pullup [of lt ?rt node p r ax sz del ic]
    by (cases "flt (point ! ax) (p ! ax)") (simp_all add: node_def del: is_unbalanced.simps too_many_deleted.simps)
  then show ?case unfolding e using re cnt by auto
qed

lemma delete_rec_ok:
  "kd_nodes_ok t \<Longrightarrow> kd_sized t \<Longrightarrow> kd_count t < 2 ^ 22 \<Longrightarrow>
   kd_nodes_ok (kdtree_delete_rec t rowid depth dims) \<and> kd_count (kdtree_delete_rec t rowid depth dims) \<le> kd_count t"
proof (induction t arbitrary: depth)
  case KDNull
  then show ?case by simp
next
  case (KDNode p r lt rt ax sz del ic)
  show ?case
  proof (cases "r = rowid")
    case True
    define node where "node = pullup (KDNode p r lt rt ax sz True ic)"
    have sz: "sz = 1 + node_size lt + node_size rt" using KDNode.prems kd_sized_size by auto
    have nu: "\<not> is_unbalanced node" using KDNode.prems(1) sz by (simp add: node_def)
    have "kdtree_delete_rec (KDNode p r lt rt ax sz del ic) rowid depth dims =
        (if too_many_deleted node then rebuild_subtree node dims else node)"
      using True by (simp add: node_def Let_def)
    moreover have "kd_nodes_ok (rebuild_subtree node dims) \<and> kd_count (rebuild_subtree node dims) \<le> kd_count node"
      using KDNode.prems by (intro rebuild_ok) (simp add: node_def)
    moreover have "\<not> too_many_deleted node \<Longrightarrow> kd_nodes_ok node"
      using KDNode.prems nu by (auto simp: node_def)
    ultimately show ?thesis by (simp add: node_def)
  next
    case False
    let ?lt = "kdtree_delete_rec lt rowid (depth + 1) dims"
    let ?rt = "kdtree_delete_rec rt rowid (depth + 1) dims"
    have L: "kd_nodes_ok ?lt \<and> kd_count ?lt \<le> kd_count lt" using KDNode.IH(1) KDNode.prems by simp
    have R: "kd_nodes_ok ?rt \<and> kd_count ?rt \<le> kd_count rt" using KDNode.IH(2) KDNode.prems by simp
    define node where "node = pullup (KDNode p r ?lt ?rt ax sz del ic)"
    have "kdtree_delete_rec (KDNode p r lt rt ax sz del ic) rowid depth dims =
        (if is_unbalanced node \<or> too_many_deleted node then rebuild_subtree node dims else node)"
      using False by (simp add: node_def Let_def)
    moreover have cnt: "kd_count node \<le> kd_count (KDNode p r lt rt ax sz del ic)" using L R by (simp add: node_def)
    moreover have "kd_nodes_ok (rebuild_subtree node dims) \<and> kd_count (rebuild_subtree node dims) \<le> kd_count node"
      using KDNode.prems cnt by (intro rebuild_ok) simp
    moreover have "\<not> is_unbalanced node \<Longrightarrow> \<not> too_many_deleted node \<Longrightarrow> kd_nodes_ok node"
      using L R by (auto simp: node_def)
    ultimately show ?thesis by auto
  qed
qed

subsection \<open>Height\<close>

lemma height_bound:
  "kd_nodes_ok t \<Longrightarrow> kd_sized t \<Longrightarrow> kd_count t < 2 ^ 22 \<Longrightarrow> t \<noteq> KDNull \<Longrightarrow>
   3 * 4 ^ kd_height t \<le> 4 * 3 ^ kd_height t * kd_count t"
proof (induction t)
  case KDNull
  then show ?case by simp
next
  case (KDNode p r lt rt ax sz del ic)
  have s: "sz = 1 + kd_count lt + kd_count rt" "node_size lt = kd_count lt" "node_size rt = kd_count rt"
    using KDNode.prems(2) kd_sized_size by auto
  have bal: "\<not> is_unbalanced (KDNode p r lt rt ax sz del ic)" using KDNode.prems(1) by simp
  have step: "3 * 4 ^ Suc (kd_height c) \<le> 4 * 3 ^ Suc (kd_height c) * sz"
    if c: "c \<noteq> KDNull" "3 * 4 ^ kd_height c \<le> 4 * 3 ^ kd_height c * kd_count c" "4 * kd_count c \<le> 3 * sz" for c
  proof -
    have "3 * 4 ^ Suc (kd_height c) \<le> 4 * 3 ^ kd_height c * (4 * kd_count c)" using c(2) by (simp add: ac_simps)
    also have "\<dots> \<le> 4 * 3 ^ kd_height c * (3 * sz)" using c(3) by (rule mult_left_mono) simp
    finally show ?thesis by (simp add: ac_simps)
  qed
  have small: "4 * kd_count c \<le> 3 * sz" if "c = lt \<or> c = rt" "2 < sz" for c
    using bal that s KDNode.prems(3) by (subst (asm) is_unbalanced_exact) auto
  have IH: "c = lt \<or> c = rt \<Longrightarrow> c \<noteq> KDNull \<Longrightarrow> 3 * 4 ^ kd_height c \<le> 4 * 3 ^ kd_height c * kd_count c" for c
    using KDNode.IH KDNode.prems by auto
  define c where "c = (if kd_height lt \<le> kd_height rt then rt else lt)"
  have h: "kd_height (KDNode p r lt rt ax sz del ic) = Suc (kd_height c)" by (simp add: c_def)
  have cc: "c = lt \<or> c = rt" by (simp add: c_def)
  show ?case
  proof (cases "c = KDNull")
    case True
    then show ?thesis unfolding h using s(1) by simp
  next
    case False
    then have pos: "0 < kd_count c" by (cases c) auto
    show ?thesis
    proof (cases "2 < sz")
      case True
      then show ?thesis using step [OF False IH [OF cc False] small [OF cc True]] s(1) h by simp
    next
      case small: False
      then have "kd_count c = 1" "sz = 2" using s(1) cc pos by auto
      then have "kd_height c = 1" by (cases c) (auto elim: kd_count.elims)
      moreover have "kd_count (KDNode p r lt rt ax sz del ic) = 2" using s(1) \<open>sz = 2\<close> by simp
      ultimately show ?thesis unfolding h by (simp only:) simp
    qed
  qed
qed

end
