(* ===== verification/KDTree_Correct.thy ===== *)
theory KDTree_Correct
  imports KDTree_Balance Distance_Exact
begin

text \<open>
  What the k-d tree promises its callers, stated over the C functions: the contents after any load and
  a deletion, the logarithmic height, the exactness of the bounded search under the condition its
  pruning test needs, and the inputs on which that condition, the row id width or the tombstones let it
  down.
\<close>

subsection \<open>Loading\<close>

definition kd_load :: "nat \<Rightarrow> (f32 list \<times> i64) list \<Rightarrow> kdtree" where
  "kd_load dims rows = fold (\<lambda>(v, r) t. snd (kdtree_insert True t v r dims)) rows (kd_new dims)"

lemma kd_load_load: "kd_load (Suc d) rows = kd_index.load d rows"
  unfolding kd_load_def kd_index.load_def by (simp add: case_prod_unfold)

lemma insert_ok_step:
  assumes "kd_nodes_ok (kd_root t)" and "kd_count (kd_root t) + 1 < 2 ^ 22"
  shows "kd_nodes_ok (kd_root (snd (kdtree_insert True t v r dims)))
    \<and> kd_count (kd_root (snd (kdtree_insert True t v r dims))) \<le> kd_count (kd_root t) + 1"
  using insert_rec_ok [OF assms, of v r 0 dims] assms by (auto simp: kdtree_insert_def Let_def)

lemma fold_insert_ok:
  "kd_nodes_ok (kd_root t) \<Longrightarrow> kd_count (kd_root t) + length rows < 2 ^ 22 \<Longrightarrow>
   kd_nodes_ok (kd_root (fold (\<lambda>(v, r) t. snd (kdtree_insert True t v r dims)) rows t))
   \<and> kd_count (kd_root (fold (\<lambda>(v, r) t. snd (kdtree_insert True t v r dims)) rows t))
     \<le> kd_count (kd_root t) + length rows"
proof (induction rows arbitrary: t)
  case (Cons x rows)
  obtain v r where x: "x = (v, r)" by force
  let ?t = "snd (kdtree_insert True t v r dims)"
  have "kd_nodes_ok (kd_root ?t) \<and> kd_count (kd_root ?t) \<le> kd_count (kd_root t) + 1"
    using Cons.prems by (intro insert_ok_step) auto
  with Cons.IH [of ?t] Cons.prems show ?case by (auto simp: x)
qed simp

lemmas kd_eval = kd_load_def kd_new_def kdtree_insert_def Let_def of_ints_def over_ALPHA_BAL_int few_deleted_int
  float_exact

lemma fkey_int_le: "\<bar>i\<bar> < 2 ^ 24 \<Longrightarrow> \<bar>j\<bar> < 2 ^ 24 \<Longrightarrow> fkey (f32_of_int i) \<le> fkey (f32_of_int j) \<longleftrightarrow> i \<le> j"
  using flt_int [of j i] not_flt_iff [of "f32_of_int j" "f32_of_int i"] int_not_nan by auto

lemma int_less_FLT_MAX: "\<bar>i\<bar> < 2 ^ 24 \<Longrightarrow> flt (f32_of_int i) FLT_MAX"
proof -
  assume i: "\<bar>i\<bar> < 2 ^ 24"
  have "fval FLT_MAX = FFin False ((2 ^ 24 - 1) * 2 ^ 253)"
    by (simp add: FLT_MAX_def fval_def fp_of_mag_def binary32_def fmag_def fneg_bit_def mag_units_def)
  from flt_values [OF fval_of_int [OF i] this] show ?thesis
    using i by (auto simp: fp_int_def abs_if split: if_splits)
qed

lemma all_less_2: "(\<forall>i<2. P i) \<longleftrightarrow> P 0 \<and> P (Suc 0)"
  by (auto simp: less_2_cases_iff)

text \<open>Three points of the plane.\<close>

definition sample_rows :: "(f32 list \<times> i64) list" where
  "sample_rows = [(of_ints [4, 2], 1), (of_ints [3, 2], 2), (of_ints [4, 3], 3)]"

lemma sample_tree: "kd_load 2 sample_rows =
   \<lparr>kd_root = KDNode (of_ints [4, 2]) 1 (KDNode (of_ints [3, 2]) 2 KDNull KDNull 1 1 False 0)
     (KDNode (of_ints [4, 3]) 3 KDNull KDNull 1 1 False 0) 0 3 False 0,
    kd_dimensions = 2, kd_tree_size = 3\<rparr>"
  by (simp add: sample_rows_def kd_eval)

subsection \<open>Contents\<close>

text \<open>
  C8. Inserting any sequence of vectors without NaN coordinates, with every local rebuild on the way,
  keeps the search-tree order, the axes and the size and tombstone counters right, and the live entries
  are exactly the inserted ones; deleting one row id that fits an \<open>int\<close> then removes its entry and no other.
\<close>

theorem kdtree_load_then_delete:
  assumes "\<forall>x\<in>set rows. point_ok (Suc d) (fst x)" and "distinct (map snd rows)" and "c_int r = r"
  shows "kd_tree_inv (Suc d) (kd_load (Suc d) rows)
    \<and> kd_live (kd_root (kd_load (Suc d) rows)) = mset rows
    \<and> kd_tree_inv (Suc d) (snd (kdtree_delete (kd_load (Suc d) rows) r))
    \<and> kd_live (kd_root (snd (kdtree_delete (kd_load (Suc d) rows) r))) = mset (filter (\<lambda>x. snd x \<noteq> r) rows)"
  using kd_index.load_live [OF assms(1) TrueI] kd_index.load_del_live [OF assms(1) TrueI assms(2,3)]
  by (simp add: kd_load_load drop_row_def)

lemma sample_ok: "\<forall>x\<in>set sample_rows. point_ok 2 (fst x)"
  by (simp add: sample_rows_def point_ok_def of_ints_def int_not_nan)

theorem kdtree_load_then_delete_witness:
  "kd_live (kd_root (snd (kdtree_delete (kd_load (Suc 1) sample_rows) 3)))
     = mset [(of_ints [4, 2], 1), (of_ints [3, 2], 2)]"
proof -
  have "distinct (map snd sample_rows)" "c_int 3 = 3" by (simp_all add: sample_rows_def c_int_def)
  then show ?thesis
    using kdtree_load_then_delete [of sample_rows 1 3] sample_ok by (simp add: sample_rows_def numeral_2_eq_2)
qed



subsection \<open>Search\<close>

text \<open>
  C9. On a well-formed tree the bounded search returns, of the live rows that pass the row id filter, a
  set of \<open>k\<close> with the smallest distances (all of them if there are fewer), whenever the squared
  distance to a splitting coordinate never exceeds the distance to a point behind it.
\<close>

theorem kdtree_topk_exact:
  assumes "kd_tree_inv dims t" and "point_ok dims q" and "0 < k"
    and "prune_safe f q dims (kd_points (kd_root t))"
  shows "best_k (\<lambda>h. fkey (snd h)) (nat k) (kd_cands m f q dims (kd_root t)) (mset (kdtree_topk (Some t) q k m f))"
proof -
  have d: "kd_dimensions t = dims" "kd_inv dims (kd_root t)" using assms(1) by (auto simp: kd_tree_inv_def)
  have "hits_ok (nat k) []" by (simp add: hits_ok_def)
  from search_best [of "nat k" _ _ _ _ "[]" "{#}", OF _ d(2) assms(4,2) this] show ?thesis
    using assms(3) d(1) by (cases "kd_root t") (simp_all add: kdtree_topk_def)
qed

lemma sample_prune:
  "prune_safe distance_l2_sqr_float (of_ints [4, 2]) 2 (kd_points (kd_root (kd_load 2 sample_rows)))"
proof -
  have d: "distance_l2_sqr_float (of_ints [4, 2]) (of_ints [4, 2]) 2 = f32_of_int 0"
    "distance_l2_sqr_float (of_ints [4, 2]) (of_ints [3, 2]) 2 = f32_of_int 1"
    "distance_l2_sqr_float (of_ints [4, 2]) (of_ints [4, 3]) 2 = f32_of_int 1"
    by (rule l2_int2; simp)+
  show ?thesis
    unfolding prune_safe_def sample_tree
    by (simp add: d int_not_nan all_less_2 axis_sq_def of_ints2_nth float_exact int_less_FLT_MAX
        between_key_def fkey_int_le)
qed

theorem kdtree_topk_exact_witness:
  "best_k (\<lambda>h. fkey (snd h)) 2
     (kd_cands no_filter distance_l2_sqr_float (of_ints [4, 2]) 2 (kd_root (kd_load 2 sample_rows)))
     (mset (kdtree_topk (Some (kd_load 2 sample_rows)) (of_ints [4, 2]) 2 no_filter distance_l2_sqr_float))"
proof -
  have inv: "kd_tree_inv 2 (kd_load 2 sample_rows)"
    by (simp add: sample_tree kd_tree_inv_def point_ok_def of_ints_def int_not_nan fkey_int_le)
  have q: "point_ok 2 (of_ints [4, 2])" by (simp add: point_ok_def of_ints_def int_not_nan)
  show ?thesis
    using kdtree_topk_exact [OF inv q _ sample_prune, of 2 no_filter] by simp
qed

subsection \<open>Row ids, tombstones and pruning\<close>

text \<open>
  The row id parameter of \<open>kdtree_delete\<close> is an \<open>int\<close>: deleting row \<open>2 ^ 32 + 1\<close> removes row 1 and
  leaves the row that was meant.
\<close>

theorem kdtree_delete_truncates_rowid:
  "kd_live (kd_root (snd (kdtree_delete (kd_load 1
     [(of_ints [0], 1), (of_ints [1], 4294967297), (of_ints [2], 3), (of_ints [3], 4)]) 4294967297)))
     = mset [(of_ints [1], 4294967297), (of_ints [2], 3), (of_ints [3], 4)]"
  by (simp add: kd_eval kdtree_delete_def c_int_def)


text \<open>
  An update leaves a tombstone with the same row id in the tree. A later deletion stops at the first
  node with that row id, so it can hit the tombstone again and the updated row stays live.
\<close>

theorem kdtree_delete_after_update_keeps_row:
  "let t = kd_load 1 [(of_ints [2], 1), (of_ints [1], 2), (of_ints [3], 3), (of_ints [4], 4)];
       t1 = snd (kdtree_update True t 1 (of_ints [5]) 1)
   in kdtree_find_vector_by_rowid t1 1 = Some (of_ints [5])
     \<and> kdtree_find_vector_by_rowid (snd (kdtree_delete t1 1)) 1 = Some (of_ints [5])"
  by (simp add: kd_eval kdtree_update_def kdtree_delete_def c_int_def kdtree_find_vector_by_rowid_def)


end
