(* ===== verification/IndexedTable.thy ===== *)
theory IndexedTable
  imports TableScan KDTree_Correct IVF_Correct HNSW_Correct
begin

text \<open>
  The write operations of a \<open>vec0\<close> table with an index (\<open>vec0Update\<close> and its handlers in
  \<^verbatim>\<open>sqlite-vec.c\<close>): the rows go to the shadow tables, and then the vector of the indexed column goes to the
  k-d tree, the inverted file or the layered graph of the table.
\<close>

subsection \<open>The index of a table\<close>

text \<open>
  The index types with the structure each keeps; \<open>HYBRID\<close> is a k-d tree that is searched without the row id
  filter.
\<close>

datatype vec0_index =
    Index_KDTREE kdtree
  | Index_IVF ivf
  | Index_HNSW hnsw
  | Index_HYBRID kdtree

record index_meta =
  index_dim :: nat
  indexColumnName :: string
  distfunc :: distance_func
  index_data :: vec0_index

text \<open>\<open>user_column_kinds\<close> and \<open>user_column_idxs\<close> together.\<close>

datatype user_column = User_Vector nat | User_Metadata nat

record indexed_table =
  shadow :: vec0_table
  vector_names :: "string list"
  user_columns :: "user_column list"
  indexMeta :: "index_meta option"

text \<open>\<open>sqlite3_stricmp\<close> folds the upper case letters of ASCII.\<close>

definition ascii_lower :: "char \<Rightarrow> char" where
  "ascii_lower c = (if 65 \<le> (of_char c :: nat) \<and> (of_char c :: nat) \<le> 90 then char_of (of_char c + 32 :: nat) else c)"

definition stricmp_eq :: "string \<Rightarrow> string \<Rightarrow> bool" where
  "stricmp_eq a b \<longleftrightarrow> map ascii_lower a = map ascii_lower b"

text \<open>
  The distance function of an index, from the definition of the first vector column. The indexes read the
  vectors as floats: over another element type they read past the end of the vector, and the result is
  \<open>None\<close>.
\<close>

definition get_distance_func :: "vector_column_definition list \<Rightarrow> distance_func option" where
  "get_distance_func cols =
     (case element_type (cols ! 0) of
        SQLITE_VEC_ELEMENT_TYPE_FLOAT32 \<Rightarrow>
          Some (case distance_metric (cols ! 0) of
             VEC0_DISTANCE_METRIC_L2 \<Rightarrow> distance_l2_sqr_float
           | VEC0_DISTANCE_METRIC_L1 \<Rightarrow> (\<lambda>a b n. f32_of_f64 (distance_l1_f32 a b n))
           | VEC0_DISTANCE_METRIC_COSINE \<Rightarrow> distance_cosine_float)
      | _ \<Rightarrow> None)"

definition MAX_HNSW_NODES :: nat where "MAX_HNSW_NODES = 4096"
definition IVF_N_LIST :: int where "IVF_N_LIST = 32"
definition IVF_N_PROBE :: int where "IVF_N_PROBE = 8"

datatype index_type =
    SQLITE_VEC0_INDEX_TYPE_KDTREE | SQLITE_VEC0_INDEX_TYPE_IVF
  | SQLITE_VEC0_INDEX_TYPE_HNSW | SQLITE_VEC0_INDEX_TYPE_HYBRID

text \<open>
  The index part of the creation of a table: the indexed column must exist, and the dimensions are those
  of the last vector column. \<open>None\<close> is a table whose index would read past the end of its
  vectors, or a graph whose allocation failed, which is not tested.
\<close>

definition create_index ::
  "bool \<Rightarrow> junk \<Rightarrow> index_type \<Rightarrow> string \<Rightarrow> string list \<Rightarrow> vector_column_definition list \<Rightarrow> index_meta result option" where
  "create_index ok junk t column names cols =
     (if \<not> list_ex (\<lambda>n. stricmp_eq n column) names then Some (Inl SQLITE_ERROR)
      else case get_distance_func cols of
        None \<Rightarrow> None
      | Some f \<Rightarrow>
          if \<not> ok then (if t = SQLITE_VEC0_INDEX_TYPE_HNSW then None else Some (Inl SQLITE_ERROR))
          else Some
          (let dim = dimensions (last cols);
               meta = (\<lambda>d. \<lparr>index_dim = dim, indexColumnName = column, distfunc = f, index_data = d\<rparr>);
               tree = \<lparr>kd_root = KDNull, kd_dimensions = dim, kd_tree_size = 0\<rparr>
           in case t of
                SQLITE_VEC0_INDEX_TYPE_KDTREE \<Rightarrow> Inr (meta (Index_KDTREE tree))
              | SQLITE_VEC0_INDEX_TYPE_HYBRID \<Rightarrow> Inr (meta (Index_HYBRID tree))
              | SQLITE_VEC0_INDEX_TYPE_HNSW \<Rightarrow> Inr (meta (Index_HNSW (hnsw_create MAX_HNSW_NODES dim)))
              | SQLITE_VEC0_INDEX_TYPE_IVF \<Rightarrow>
                  (case ivf_create ok junk IVF_N_LIST IVF_N_PROBE (int dim) of
                     None \<Rightarrow> Inl SQLITE_ERROR
                   | Some i \<Rightarrow> Inr (meta (Index_IVF i)))))"

subsection \<open>Insert\<close>

text \<open>
  What the environment decides during an insert: the outcome of allocations, the random level of a new
  graph node, the random numbers of the training and the contents of fresh memory.
\<close>

record index_env =
  env_ok :: bool
  env_level :: nat
  env_rand :: "nat \<Rightarrow> nat"
  env_junk :: junk

definition index_insert_ivf :: "index_env \<Rightarrow> ivf \<Rightarrow> distance_func \<Rightarrow> f32 list \<Rightarrow> i64 \<Rightarrow> sqlite_rc \<times> ivf" where
  "index_insert_ivf env ivf f vec rowid =
     (if \<not> trained ivf
      then (case ivf_add_to_train ivf vec rowid of
              (SQLITE_OK, ivf1) \<Rightarrow>
                if train_size ivf1 \<ge> train_capacity ivf1
                then ivf_train_and_flush (env_rand env) (env_ok env) (env_junk env) ivf1 f
                else (SQLITE_OK, ivf1)
            | (rc, ivf1) \<Rightarrow> (rc, ivf1))
      else ivf_add_vector (env_ok env) (env_junk env) ivf vec rowid f)"

definition index_insert ::
  "index_env \<Rightarrow> vec0_index \<Rightarrow> distance_func \<Rightarrow> nat \<Rightarrow> f32 list \<Rightarrow> i64 \<Rightarrow> sqlite_rc \<times> vec0_index" where
  "index_insert env idx f dim vec rowid =
     (case idx of
        Index_HYBRID t \<Rightarrow> map_prod id Index_HYBRID (kdtree_insert (env_ok env) t vec rowid dim)
      | Index_KDTREE t \<Rightarrow> map_prod id Index_KDTREE (kdtree_insert (env_ok env) t vec rowid dim)
      | Index_HNSW h \<Rightarrow> map_prod id Index_HNSW (hnsw_add (env_level env) h vec rowid f)
      | Index_IVF i \<Rightarrow> map_prod id Index_IVF (index_insert_ivf env i f vec rowid))"

text \<open>The first vector column with the name of the indexed column.\<close>

definition indexed_column :: "indexed_table \<Rightarrow> index_meta \<Rightarrow> nat option" where
  "indexed_column p im = find (\<lambda>i. stricmp_eq (vector_names p ! i) (indexColumnName im)) [0..<length (vector_columns (shadow p))]"

definition insert_into_index ::
  "index_env \<Rightarrow> indexed_table \<Rightarrow> parsed_vector list \<Rightarrow> i64 \<Rightarrow> sqlite_rc \<times> indexed_table" where
  "insert_into_index env p vectors rowid =
     (case indexMeta p of
        None \<Rightarrow> (SQLITE_OK, p)
      | Some im \<Rightarrow>
          (case indexed_column p im of
             None \<Rightarrow> (SQLITE_OK, p)
           | Some i \<Rightarrow>
               (let dim = dimensions (vector_columns (shadow p) ! i);
                    (rc, d) = index_insert env (index_data im) (distfunc im) dim
                                (f32s_at (vector_data (vectors ! i)) 0 dim) rowid
                in (rc, p\<lparr>indexMeta := Some (im\<lparr>index_data := d\<rparr>)\<rparr>))))"

definition vec0Update_Insert ::
  "index_env \<Rightarrow> i64 \<Rightarrow> indexed_table \<Rightarrow> sqlite3_value \<Rightarrow> parsed_vector list \<Rightarrow> bool \<Rightarrow> sqlite3_value list \<Rightarrow>
   (sqlite_rc \<times> i64) \<times> indexed_table" where
  "vec0Update_Insert env next p idValue vectors hidden metas =
     (case insert_row (env_ok env) next (shadow p) idValue vectors hidden metas of
        ((SQLITE_OK, rowid), t) \<Rightarrow>
          (case insert_into_index env (p\<lparr>shadow := t\<rparr>) vectors rowid of (rc, p') \<Rightarrow> ((rc, rowid), p'))
      | ((rc, rowid), t) \<Rightarrow> ((rc, rowid), p\<lparr>shadow := t\<rparr>))"

subsection \<open>Delete\<close>

text \<open>
  The result codes as numbers: \<open>ivf_delete_vector\<close> returns the number of the list the row was in, and
  \<open>vec0Update_Delete\<close> takes it for a result code.
\<close>

fun rc_code :: "sqlite_rc \<Rightarrow> int" where
  "rc_code SQLITE_OK = 0"
| "rc_code SQLITE_ERROR = 1"
| "rc_code SQLITE_NOMEM = 7"
| "rc_code SQLITE_NOTFOUND = 12"
| "rc_code SQLITE_FULL = 13"
| "rc_code SQLITE_CANTOPEN = 14"
| "rc_code SQLITE_EMPTY = 16"
| "rc_code SQLITE_CONSTRAINT = 19"
| "rc_code SQLITE_MISUSE = 21"

text \<open>\<open>None\<close> is a write outside an array.\<close>

definition index_delete :: "vec0_index \<Rightarrow> i64 \<Rightarrow> (int \<times> vec0_index) option" where
  "index_delete idx rowid =
     (case idx of
        Index_HYBRID t \<Rightarrow> Some (map_prod rc_code Index_HYBRID (kdtree_delete t rowid))
      | Index_KDTREE t \<Rightarrow> Some (map_prod rc_code Index_KDTREE (kdtree_delete t rowid))
      | Index_HNSW h \<Rightarrow> Some (map_prod rc_code Index_HNSW (hnsw_delete h rowid))
      | Index_IVF i \<Rightarrow> map_option (map_prod id Index_IVF) (ivf_delete_vector i rowid))"

definition vec0Update_Delete :: "indexed_table \<Rightarrow> sqlite3_value \<Rightarrow> (int \<times> indexed_table) option" where
  "vec0Update_Delete p idValue =
     (case delete_row (shadow p) idValue of
        (SQLITE_OK, t) \<Rightarrow>
          (let p1 = p\<lparr>shadow := t\<rparr>; rowid = value_int64 idValue in
           case indexMeta p of
             None \<Rightarrow> Some (rc_code SQLITE_OK, p1)
           | Some im \<Rightarrow>
               if rowid = 0 then Some (rc_code SQLITE_OK, p1)
               else (case index_delete (index_data im) rowid of
                       None \<Rightarrow> None
                     | Some (rc, d) \<Rightarrow> Some (rc, p1\<lparr>indexMeta := Some (im\<lparr>index_data := d\<rparr>)\<rparr>)))
      | (rc, t) \<Rightarrow> Some (rc_code rc, p\<lparr>shadow := t\<rparr>))"

subsection \<open>Update\<close>

text \<open>An argument of an update: the value, whether it is unchanged, and the vector it parses to.\<close>

record update_arg =
  arg_nochange :: bool
  arg_value :: sqlite3_value
  arg_vector :: parsed_vector

text \<open>The loop over the metadata columns.\<close>

fun update_metadata ::
  "vec0_table \<Rightarrow> i64 \<Rightarrow> i64 \<Rightarrow> nat \<Rightarrow> (user_column \<times> update_arg) list \<Rightarrow> sqlite_rc \<times> vec0_table" where
  "update_metadata t rowid c off [] = (SQLITE_OK, t)"
| "update_metadata t rowid c off ((User_Vector i, a) # cols) = update_metadata t rowid c off cols"
| "update_metadata t rowid c off ((User_Metadata i, a) # cols) =
     (if arg_nochange a then update_metadata t rowid c off cols
      else (case vec0_write_metadata_value (metadata_columns t ! i) rowid c off (arg_value a) True of
              (rc, col) \<Rightarrow>
                (let t' = t\<lparr>metadata_columns := (metadata_columns t)[i := col]\<rparr> in
                 if rc \<noteq> SQLITE_OK then (rc, t') else update_metadata t' rowid c off cols)))"

text \<open>The index update; its result code is ignored. \<open>None\<close> is a write outside an array.\<close>

definition index_update ::
  "index_env \<Rightarrow> vec0_index \<Rightarrow> distance_func \<Rightarrow> nat \<Rightarrow> i64 \<Rightarrow> f32 list \<Rightarrow> vec0_index option" where
  "index_update env idx f dim rowid vec =
     (case idx of
        Index_HNSW h \<Rightarrow> Some (Index_HNSW (snd (hnsw_update (env_level env) h rowid vec True f)))
      | Index_HYBRID t \<Rightarrow> Some (Index_HYBRID (snd (kdtree_update (env_ok env) t rowid vec dim)))
      | Index_KDTREE t \<Rightarrow> Some (Index_KDTREE (snd (kdtree_update (env_ok env) t rowid vec dim)))
      | Index_IVF i \<Rightarrow> map_option (Index_IVF \<circ> snd) (ivf_update_vector_reinsert i rowid vec f))"

text \<open>
  The loop over the vector columns, from user column \<open>i\<close> on: the vector is parsed into the dimensions of
  entry \<open>i\<close> of the column definitions, and a pointer that is set on an error only is tested; \<open>stale\<close> says
  that it happens to be non-null.
\<close>

fun update_vectors ::
  "index_env \<Rightarrow> bool \<Rightarrow> indexed_table \<Rightarrow> i64 \<Rightarrow> i64 \<Rightarrow> nat \<Rightarrow> nat \<Rightarrow> (user_column \<times> update_arg) list \<Rightarrow>
   (sqlite_rc \<times> indexed_table) option" where
  "update_vectors env stale p rowid c off i [] = Some (SQLITE_OK, p)"
| "update_vectors env stale p rowid c off i ((User_Metadata j, a) # cols) =
     update_vectors env stale p rowid c off (Suc i) cols"
| "update_vectors env stale p rowid c off i ((User_Vector j, a) # cols) =
     (if value_type (arg_value a) = SQLITE_NULL then update_vectors env stale p rowid c off (Suc i) cols
      else if arg_vector a = None then Some (SQLITE_ERROR, p)
      else if stale then Some (SQLITE_ERROR, p\<lparr>shadow := parse_into_column (shadow p) i (arg_vector a)\<rparr>)
      else (case update_vector_step (shadow p) c off i j (arg_vector a) of
              (SQLITE_OK, t) \<Rightarrow>
                (let p1 = p\<lparr>shadow := t\<rparr> in
                 case indexMeta p of
                   None \<Rightarrow> update_vectors env stale p1 rowid c off (Suc i) cols
                 | Some im \<Rightarrow>
                     (case index_update env (index_data im) (distfunc im) (index_dim im) rowid
                             (f32s_at (vector_data (arg_vector a)) 0 (index_dim im)) of
                        None \<Rightarrow> None
                      | Some d \<Rightarrow> update_vectors env stale (p1\<lparr>indexMeta := Some (im\<lparr>index_data := d\<rparr>)\<rparr>)
                                   rowid c off (Suc i) cols))
            | (rc, t) \<Rightarrow> Some (rc, p\<lparr>shadow := t\<rparr>)))"

definition vec0Update_Update ::
  "index_env \<Rightarrow> bool \<Rightarrow> indexed_table \<Rightarrow> sqlite3_value \<Rightarrow> update_arg list \<Rightarrow> (sqlite_rc \<times> indexed_table) option" where
  "vec0Update_Update env stale p idValue args =
     (let rowid = value_int64 idValue; cols = zip (user_columns p) args in
      case vec0_get_chunk_position (shadow p) rowid of
        Inl rc \<Rightarrow> Some (rc, p)
      | Inr (c, off) \<Rightarrow>
          (case update_metadata (shadow p) rowid c off cols of
             (SQLITE_OK, t) \<Rightarrow> update_vectors env stale (p\<lparr>shadow := t\<rparr>) rowid c off 0 cols
           | (rc, t) \<Rightarrow> Some (rc, p\<lparr>shadow := t\<rparr>)))"

subsection \<open>The dispatch of a write\<close>

definition vec0Update ::
  "index_env \<Rightarrow> i64 \<Rightarrow> bool \<Rightarrow> indexed_table \<Rightarrow> nat \<Rightarrow> sqlite3_value \<Rightarrow> sqlite3_value \<Rightarrow> parsed_vector list \<Rightarrow> bool \<Rightarrow>
   sqlite3_value list \<Rightarrow> update_arg list \<Rightarrow> (int \<times> indexed_table) option" where
  "vec0Update env next stale p argc argv0 idValue vectors hidden metas args =
     (if argc = 1 \<and> value_type argv0 \<noteq> SQLITE_NULL then vec0Update_Delete p argv0
      else if argc > 1 \<and> value_type argv0 = SQLITE_NULL
      then Some (case vec0Update_Insert env next p idValue vectors hidden metas of ((rc, _), p') \<Rightarrow> (rc_code rc, p'))
      else if argc > 1 \<and> value_type argv0 \<noteq> SQLITE_NULL
      then map_option (map_prod rc_code id) (vec0Update_Update env stale p argv0 args)
      else Some (rc_code SQLITE_ERROR, p))"

end
