(* ===== verification/Knn.thy ===== *)
theory Knn
  imports IndexedTable
begin

text \<open>
  The nearest-neighbour query of a \<open>vec0\<close> table (\<open>vec0Filter_knn\<close> in \<^verbatim>\<open>sqlite-vec.c\<close>): it checks the query
  vector and \<open>k\<close>, collects the \<open>in (...)\<close> lists, and runs the search of the index over the row ids that
  pass the constraints, or the flat scan.
\<close>

subsection \<open>The arguments\<close>

text \<open>
  An argument of \<open>xFilter\<close>: the value, the values of the list if it is an \<open>in (...)\<close>, and the vector it
  parses to.
\<close>

record filter_arg =
  fa_value :: sqlite3_value
  fa_in :: "sqlite3_value list"
  fa_vector :: parsed_vector

definition K_EXT :: int where "K_EXT = 2"
definition EF_CONSTRUCTION :: nat where "EF_CONSTRUCTION = 64"
definition SQLITE_VEC_VEC0_K_MAX :: int where "SQLITE_VEC_VEC0_K_MAX = 4096"

text \<open>The last argument of a kind.\<close>

definition last_arg :: "idx_entry \<Rightarrow> (idx_entry \<times> filter_arg) list \<Rightarrow> filter_arg option" where
  "last_arg which args = foldl (\<lambda>found (e, a). if e = which then Some a else found) None args"

text \<open>The sorted row ids of a \<open>rowid in (...)\<close> constraint.\<close>

definition rowids_in :: "(idx_entry \<times> filter_arg) list \<Rightarrow> i64 list option" where
  "rowids_in args =
     (case last_arg VEC0_IDXSTR_KIND_KNN_ROWID_IN args of
        None \<Rightarrow> None
      | Some a \<Rightarrow> Some (c_qsort cmp_i64 (map value_int64 (fa_in a))))"

text \<open>
  The entries of the \<open>x in (...)\<close> constraints on metadata columns, from argument \<open>i\<close> on; the result is \<open>None\<close>
  for a column of another kind than integer or text.
\<close>

fun metadata_ins :: "vec0_table \<Rightarrow> (idx_entry \<times> filter_arg) list \<Rightarrow> nat \<Rightarrow> vec0_metadata_in list option" where
  "metadata_ins t [] i = Some []"
| "metadata_ins t ((e, a) # args) i =
     (case e of
        VEC0_IDXSTR_KIND_METADATA_CONSTRAINT idx VEC0_METADATA_OPERATOR_IN \<Rightarrow>
          (case kind (metadata_columns t ! idx) of
             VEC0_METADATA_COLUMN_KIND_INTEGER \<Rightarrow>
               map_option ((#) \<lparr>argv_idx = i, in_ints = map value_int64 (fa_in a), in_texts = []\<rparr>) (metadata_ins t args (Suc i))
           | VEC0_METADATA_COLUMN_KIND_TEXT \<Rightarrow>
               map_option ((#) \<lparr>argv_idx = i, in_ints = [], in_texts = map value_text (fa_in a)\<rparr>) (metadata_ins t args (Suc i))
           | _ \<Rightarrow> None)
      | _ \<Rightarrow> metadata_ins t args (Suc i))"

definition plain_args :: "(idx_entry \<times> filter_arg) list \<Rightarrow> (idx_entry \<times> sqlite3_value) list" where
  "plain_args args = map (\<lambda>(e, a). (e, fa_value a)) args"

subsection \<open>The search\<close>

text \<open>
  The search of an index over the row ids in the map; \<open>None\<close> is a read outside the nodes of the graph. The
  inverted file is trained here.
\<close>

definition index_search :: "vec0_index \<Rightarrow> distance_func \<Rightarrow> f32 list \<Rightarrow> int \<Rightarrow> rowid_map \<Rightarrow> hits option" where
  "index_search idx f q k m =
     (case idx of
        Index_HYBRID t \<Rightarrow> Some (kdtree_topk (Some t) q (K_EXT * k) m f)
      | Index_KDTREE t \<Rightarrow> Some (kdtree_topk (Some t) q (K_EXT * k) m f)
      | Index_HNSW h \<Rightarrow>
          (let k_ext = (if int EF_CONSTRUCTION > k * K_EXT then k * K_EXT else int EF_CONSTRUCTION)
           in hnsw_search h q EF_CONSTRUCTION (nat k_ext) m f)
      | Index_IVF i \<Rightarrow> Some (ivf_search i q (k * K_EXT) IVF_N_PROBE m f))"

definition hybrid :: "vec0_index \<Rightarrow> bool" where
  "hybrid idx \<longleftrightarrow> (case idx of Index_HYBRID _ \<Rightarrow> True | _ \<Rightarrow> False)"

definition searchable :: "vec0_index \<Rightarrow> bool" where
  "searchable idx \<longleftrightarrow> (case idx of Index_IVF i \<Rightarrow> trained i | _ \<Rightarrow> True)"

text \<open>
  The search step of the query, with the row ids collected first if there is an index; an untrained
  inverted file falls back to the flat scan.
\<close>

definition knn_search ::
  "bool \<Rightarrow> vec0_metadata_in \<Rightarrow> indexed_table \<Rightarrow> nat \<Rightarrow> i64 list option \<Rightarrow> vec0_metadata_in list \<Rightarrow>
   (idx_entry \<times> sqlite3_value) list \<Rightarrow> bytes \<Rightarrow> int \<Rightarrow> (sqlite_rc \<times> hits option) option" where
  "knn_search ok junk p vi rin mins args q k =
     (let t = vec0_vtab.truncate (shadow p); stmtChunks = map Chunk_Row (table_chunks (shadow p));
          flat = (case vec0Filter_knn_chunks_iter ok junk t stmtChunks vi rin mins args q (nat k) of
                    Inl rc \<Rightarrow> Some (rc, None)
                  | Inr hs \<Rightarrow> Some (SQLITE_OK, Some hs))
      in case indexMeta p of
           None \<Rightarrow> flat
         | Some im \<Rightarrow>
             if \<not> ok then Some (SQLITE_NOMEM, None)
             else (case vec0Filter_chunks_to_rowid_map ok junk t stmtChunks rin mins args
                          \<lparr>rowids = [], capacity = 16, pre_filter = \<not> hybrid (index_data im)\<rparr> of
                     (SQLITE_OK, m) \<Rightarrow>
                       if \<not> searchable (index_data im) then flat
                       else map_option (\<lambda>hs. (SQLITE_OK, Some hs))
                              (index_search (index_data im) (distfunc im)
                                 (f32s_at q 0 (dimensions (vector_columns (shadow p) ! vi))) k m)
                   | (rc, m) \<Rightarrow> Some (rc, None)))"

text \<open>
  The query: the result code and the hits of the cursor, if they were set; a cursor without hits is at its
  end. A failed allocation of the \<open>rowid in\<close> list sets an inner \<open>rc\<close> that shadows the one returned, and an
  \<open>in\<close> on a column of the wrong kind sets none: both return \<open>SQLITE_OK\<close> without hits. \<open>ok_data\<close> is the outcome of
  the allocation of the cursor data, \<open>ok\<close> that of the others.
\<close>

definition metadata_in_entry :: "idx_entry \<Rightarrow> bool" where
  "metadata_in_entry e \<longleftrightarrow>
     (case e of VEC0_IDXSTR_KIND_METADATA_CONSTRAINT _ VEC0_METADATA_OPERATOR_IN \<Rightarrow> True | _ \<Rightarrow> False)"

definition vec0Filter_knn ::
  "bool \<Rightarrow> bool \<Rightarrow> vec0_metadata_in \<Rightarrow> indexed_table \<Rightarrow> nat \<Rightarrow> (idx_entry \<times> filter_arg) list \<Rightarrow>
   (sqlite_rc \<times> hits option) option" where
  "vec0Filter_knn ok_data ok junk p vi args =
     (if \<not> ok_data then Some (SQLITE_NOMEM, None)
      else case (last_arg VEC0_IDXSTR_KIND_KNN_MATCH args, last_arg VEC0_IDXSTR_KIND_KNN_K args) of
        (Some qa, Some ka) \<Rightarrow>
          (let k = value_int64 (fa_value ka) in
           if \<not> vector_fits (vector_columns (shadow p) ! vi) (fa_vector qa) then Some (SQLITE_ERROR, None)
           else if k < 0 then Some (SQLITE_ERROR, None)
           else if k > SQLITE_VEC_VEC0_K_MAX then Some (SQLITE_ERROR, None)
           else if k = 0 then Some (SQLITE_OK, Some [])
           else if rowids_in args \<noteq> None \<and> \<not> ok then Some (SQLITE_OK, None)
           else if list_ex (\<lambda>(e, a). metadata_in_entry e) args \<and> \<not> ok then Some (SQLITE_NOMEM, None)
           else (case metadata_ins (shadow p) args 0 of
                   None \<Rightarrow> Some (SQLITE_OK, None)
                 | Some mins \<Rightarrow> knn_search ok junk p vi (rowids_in args) mins (plain_args args)
                                 (vector_data (fa_vector qa)) k))
      | _ \<Rightarrow> None)"

end
