(* ===== verification/IndexedTable_Correct.thy ===== *)
theory IndexedTable_Correct
  imports IndexedTable
begin

text \<open>
  A table and its index agree: whatever rows were inserted and deleted, the live entries of the index
  are the vectors of the rows the table holds, one per row.
\<close>

subsection \<open>A store of rows with an index\<close>

text \<open>
  The composition of the two contracts. Every insert goes to both, a delete goes to the index only if
  the row exists; \<open>vec_of\<close> is the vector of an insert that is indexed and \<open>row_vec\<close> that of a stored row.
\<close>

locale indexed_rows =
  row_store inv rows ins del ins_ok key_of row_of +
  ix: index_ops add idel live stored iinv vec_ok row_ok room
  for inv :: "'s \<Rightarrow> bool" and rows :: "'s \<Rightarrow> i64 \<Rightarrow> 'r option" and ins :: "'i \<Rightarrow> 's \<Rightarrow> 's" and del :: "i64 \<Rightarrow> 's \<Rightarrow> 's"
    and ins_ok :: "'s \<Rightarrow> 'i \<Rightarrow> bool" and key_of :: "'i \<Rightarrow> i64" and row_of :: "'s \<Rightarrow> 'i \<Rightarrow> 'r"
    and add :: "'v \<Rightarrow> i64 \<Rightarrow> 'x \<Rightarrow> 'x" and idel :: "i64 \<Rightarrow> 'x \<Rightarrow> 'x" and live :: "'x \<Rightarrow> ('v \<times> i64) multiset"
    and stored :: "'x \<Rightarrow> i64 multiset" and iinv :: "'x \<Rightarrow> bool" and vec_ok :: "'v \<Rightarrow> i64 \<Rightarrow> bool"
    and row_ok :: "i64 \<Rightarrow> bool" and room :: "'x \<Rightarrow> nat \<Rightarrow> bool" +
  fixes vec_of :: "'i \<Rightarrow> 'v" and row_vec :: "'r \<Rightarrow> 'v"
  assumes row_vec: "inv s \<Longrightarrow> ins_ok s i \<Longrightarrow> row_vec (row_of s i) = vec_of i"
begin

fun step :: "('i, i64) store_op \<Rightarrow> 's \<times> 'x \<Rightarrow> 's \<times> 'x" where
  "step (Store_Insert i) (s, x) = (ins i s, add (vec_of i) (key_of i) x)"
| "step (Store_Delete k) (s, x) = (del k s, if rows s k = None then x else idel k x)"

definition ins_keys :: "('i, i64) store_op list \<Rightarrow> i64 list" where
  "ins_keys ops = concat (map (\<lambda>op. case op of Store_Insert i \<Rightarrow> [key_of i] | Store_Delete k \<Rightarrow> []) ops)"

lemma ins_keys_simps [simp]:
  "ins_keys [] = []" "ins_keys (Store_Insert i # ops) = key_of i # ins_keys ops" "ins_keys (Store_Delete k # ops) = ins_keys ops"
  by (simp_all add: ins_keys_def)

definition args_ok :: "('i, i64) store_op list \<Rightarrow> bool" where
  "args_ok ops \<longleftrightarrow> list_all (\<lambda>op. case op of Store_Insert i \<Rightarrow> vec_ok (vec_of i) (key_of i) | Store_Delete k \<Rightarrow> row_ok k) ops"

definition agrees :: "'s \<Rightarrow> 'x \<Rightarrow> bool" where
  "agrees s x \<longleftrightarrow> (\<forall>v r. count (live x) (v, r) = (if \<exists>w. rows s r = Some w \<and> row_vec w = v then 1 else 0))"

lemma step_fst: "fst (fold step ops (s, x)) = fold run_op ops s"
proof (induction ops arbitrary: s x)
  case (Cons op ops)
  then show ?case by (cases op) simp_all
qed simp

lemma count_drop_row: "count (drop_row k M) (v, r) = (if r = k then 0 else count M (v, r))"
  by (simp add: drop_row_def)

lemma agrees_insert:
  assumes "inv s" and "iinv x" and "agrees s x" and "ins_ok s i" and "vec_ok (vec_of i) (key_of i)" and "room x (Suc n)"
  shows "agrees (ins i s) (add (vec_of i) (key_of i) x)"
proof -
  have "rows s (key_of i) = None" "row_vec (row_of s i) = vec_of i" using assms ins_fresh row_vec by auto
  then show ?thesis
    using assms(3) by (auto simp: agrees_def ix.add_live [OF assms(2,5,6)] ins_rows [OF assms(1,4)])
qed

lemma agrees_delete:
  assumes "inv s" and "iinv x" and "agrees s x" and "row_ok k" and "count (stored x) k \<le> 1"
  shows "agrees (del k s) (if rows s k = None then x else idel k x)"
  using assms(3)
  by (auto simp: agrees_def del_rows [OF assms(1)] ix.del_live [OF assms(2,4,5)] count_drop_row)

lemma run_agrees:
  assumes "inv s" and "iinv x" and "agrees s x" and "ops_ok ops s" and "args_ok ops"
    and "room x (length (ins_keys ops))" and "\<And>r. count (stored x) r + count (mset (ins_keys ops)) r \<le> 1"
  shows "inv (fst (fold step ops (s, x))) \<and> iinv (snd (fold step ops (s, x)))
    \<and> agrees (fst (fold step ops (s, x))) (snd (fold step ops (s, x)))"
  using assms
proof (induction ops arbitrary: s x)
  case (Cons op ops)
  show ?case
  proof (cases op)
    case (Store_Insert i)
    let ?x = "add (vec_of i) (key_of i) x"
    have ok: "ins_ok s i" "ops_ok ops (ins i s)" "vec_ok (vec_of i) (key_of i)" "args_ok ops"
      "room x (Suc (length (ins_keys ops)))"
      using Cons.prems Store_Insert by (simp_all add: args_ok_def)
    note x = Cons.prems(2) ok(3,5)
    have cnt: "count (stored ?x) r + count (mset (ins_keys ops)) r \<le> 1" for r
      using mset_subset_eq_count [OF ix.add_stored [OF x], of r] Cons.prems(7) [of r] Store_Insert
        count_mset_0_iff [of "ins_keys ops" r]
      by (auto split: if_splits simp del: count_mset_0_iff)
    from Cons.IH [OF ins_inv [OF Cons.prems(1) ok(1)] ix.add_inv [OF x] agrees_insert [OF Cons.prems(1-3) ok(1,3,5)]
        ok(2,4) ix.add_room [OF x] cnt]
    show ?thesis by (simp add: Store_Insert)
  next
    case (Store_Delete k)
    let ?x = "if rows s k = None then x else idel k x"
    have ok: "ops_ok ops (del k s)" "row_ok k" "args_ok ops" "room x (length (ins_keys ops))"
      using Cons.prems(4-6) Store_Delete by (simp_all add: args_ok_def)
    have one: "count (stored x) k \<le> 1" using Cons.prems(7) [of k] by (rule add_leD1)
    note x = Cons.prems(2) ok(2) one
    have cnt: "count (stored ?x) r + count (mset (ins_keys ops)) r \<le> 1" for r
      using mset_subset_eq_count [OF ix.del_stored [OF x], of r] Cons.prems(7) [of r] Store_Delete
      by (simp split: if_splits)
    have "iinv ?x" "room ?x (length (ins_keys ops))" using ix.del_inv [OF x] ix.del_room [OF x ok(4)] Cons.prems(2) ok(4) by simp_all
    from Cons.IH [OF del_inv [OF Cons.prems(1)] this(1) agrees_delete [OF Cons.prems(1-3) ok(2) one] ok(1,3) this(2) cnt]
    show ?thesis by (simp add: Store_Delete)
  qed
qed simp

end

subsection \<open>The index of a table as an index\<close>

fun index_live :: "vec0_index \<Rightarrow> (f32 list \<times> i64) multiset" where
  "index_live (Index_KDTREE t) = kd_live (kd_root t)"
| "index_live (Index_HYBRID t) = kd_live (kd_root t)"
| "index_live (Index_HNSW h) = hnsw_live h"
| "index_live (Index_IVF i) = ivf_live i"

fun index_stored :: "vec0_index \<Rightarrow> i64 multiset" where
  "index_stored (Index_KDTREE t) = kd_rowids (kd_root t)"
| "index_stored (Index_HYBRID t) = kd_rowids (kd_root t)"
| "index_stored (Index_HNSW h) = image_mset snd (hnsw_live h)"
| "index_stored (Index_IVF i) = image_mset snd (ivf_live i)"

text \<open>A well-formed index; the inverted file is trained.\<close>

fun index_inv :: "nat \<Rightarrow> vec0_index \<Rightarrow> bool" where
  "index_inv dim (Index_KDTREE t) = kd_tree_inv dim t"
| "index_inv dim (Index_HYBRID t) = kd_tree_inv dim t"
| "index_inv dim (Index_HNSW h) = hnsw_ok dim h"
| "index_inv dim (Index_IVF i) = ivf_ok dim i"

fun index_room :: "vec0_index \<Rightarrow> nat \<Rightarrow> bool" where
  "index_room (Index_HNSW h) n = (num_nodes h + n \<le> max_nodes h)"
| "index_room _ n = True"

definition env_of :: "(i64 \<Rightarrow> nat) \<Rightarrow> (nat \<Rightarrow> nat) \<Rightarrow> junk \<Rightarrow> i64 \<Rightarrow> index_env" where
  "env_of levels rnd junk r = \<lparr>env_ok = True, env_level = levels r, env_rand = rnd, env_junk = junk\<rparr>"

definition index_add :: "(i64 \<Rightarrow> index_env) \<Rightarrow> distance_func \<Rightarrow> nat \<Rightarrow> f32 list \<Rightarrow> i64 \<Rightarrow> vec0_index \<Rightarrow> vec0_index" where
  "index_add env f dim v r x = snd (index_insert (env r) x f dim v r)"

definition index_del :: "i64 \<Rightarrow> vec0_index \<Rightarrow> vec0_index" where
  "index_del r x = (case index_delete x r of None \<Rightarrow> x | Some (_, d) \<Rightarrow> d)"

definition index_vec_ok :: "nat \<Rightarrow> f32 list \<Rightarrow> i64 \<Rightarrow> bool" where
  "index_vec_ok dim v r \<longleftrightarrow> point_ok dim v \<and> c_int r = r"

lemma index_add_cases:
  "index_add (env_of levels rnd junk) f dim v r (Index_KDTREE t) = Index_KDTREE (snd (kdtree_insert True t v r dim))"
  "index_add (env_of levels rnd junk) f dim v r (Index_HYBRID t) = Index_HYBRID (snd (kdtree_insert True t v r dim))"
  "index_add (env_of levels rnd junk) f dim v r (Index_HNSW h) = Index_HNSW (snd (hnsw_add (levels r) h v r f))"
  "trained i \<Longrightarrow> index_add (env_of levels rnd junk) f dim v r (Index_IVF i) = Index_IVF (snd (ivf_add_vector True junk i v r f))"
  by (simp_all add: index_add_def index_insert_def env_of_def index_insert_ivf_def)

lemma index_del_cases:
  "index_del r (Index_KDTREE t) = Index_KDTREE (snd (kdtree_delete t r))"
  "index_del r (Index_HYBRID t) = Index_HYBRID (snd (kdtree_delete t r))"
  "index_del r (Index_HNSW h) = Index_HNSW (snd (hnsw_delete h r))"
  "index_del r (Index_IVF i) = Index_IVF (ivf_del r i)"
  by (auto simp: index_del_def index_delete_def ivf_del_def map_prod_def case_prod_unfold split: option.splits)

lemma ivf_ok_trained: "ivf_ok dim i \<Longrightarrow> trained i"
  by (simp add: ivf_ok_def)

lemma point_ok_length: "point_ok dim v \<Longrightarrow> length v = dim"
  by (simp add: point_ok_def)

lemmas index_cases = index_add_cases index_del_cases index_vec_ok_def

interpretation table_index: index_ops "index_add (env_of levels rnd junk) f (Suc d)" index_del index_live index_stored
  "index_inv (Suc d)" "index_vec_ok (Suc d)" "\<lambda>r. c_int r = r \<and> r \<noteq> 0" index_room for levels rnd junk f d
proof
  fix s v r n
  assume s: "index_inv (Suc d) s" "index_vec_ok (Suc d) v r" "index_room s (Suc n)"
  then have v: "point_ok (Suc d) v" "length v = Suc d" "c_int r = r" by (simp_all add: index_vec_ok_def point_ok_length)
  let ?s = "index_add (env_of levels rnd junk) f (Suc d) v r s"
  show "index_inv (Suc d) ?s" "index_room ?s n" "index_live ?s = add_mset (v, r) (index_live s)"
    "index_stored ?s \<subseteq># add_mset r (index_stored s)"
    using s(1,3) v
    by (cases s; force simp: index_cases ivf_ok_trained ivf_ok_add kd_index.add_inv kd_index.add_live kd_index.add_stored
        hnsw_index.add_inv hnsw_index.add_live hnsw_index.add_stored hnsw_index.add_room)+
next
  fix s r n
  assume s: "index_inv (Suc d) s" "c_int r = r \<and> r \<noteq> 0" "count (index_stored s) r \<le> 1"
  show "index_inv (Suc d) (index_del r s)" "index_live (index_del r s) = drop_row r (index_live s)"
    "index_stored (index_del r s) \<subseteq># index_stored s"
    using s
    by (cases s; force simp: index_cases ivf_ok_del hnsw_delete_ok kd_index.del_inv kd_index.del_live kd_index.del_stored
        drop_row_def image_mset_subseteq_mono)+
  show "index_room s n \<Longrightarrow> index_room (index_del r s) n"
    by (cases s) (simp_all add: index_cases hnsw_delete_room)
qed

subsection \<open>Writes keep the table and its index in step\<close>

text \<open>The vector that an insert, and that a stored row, has in column \<open>col\<close>.\<close>

definition insert_vec :: "nat \<Rightarrow> nat \<Rightarrow> insert_args \<Rightarrow> f32 list" where
  "insert_vec col dim a = (case a of (next, idValue, vectors, metas) \<Rightarrow> f32s_at (vector_data (vectors ! col)) 0 dim)"

definition stored_vec :: "nat \<Rightarrow> nat \<Rightarrow> bytes result list \<times> meta_value result list \<Rightarrow> f32 list" where
  "stored_vec col dim w = f32s_at (projr (fst w ! col)) 0 dim"

definition cols_wf :: "vector_column_definition list \<Rightarrow> nat \<Rightarrow> vec0_table \<Rightarrow> bool" where
  "cols_wf cols col t \<longleftrightarrow> table_wf t \<and> vector_columns t = cols \<and> col < length cols"

interpretation indexed: indexed_rows "cols_wf cols col" table_row table_insert table_delete args_fit insert_key args_row
  "index_add (env_of levels rnd junk) f (Suc d)" index_del index_live index_stored "index_inv (Suc d)"
  "index_vec_ok (Suc d)" "\<lambda>r. c_int r = r \<and> r \<noteq> 0" index_room "insert_vec col (Suc d)" "stored_vec col (Suc d)"
  for cols col levels rnd junk f d
proof unfold_locales
  fix s i assume s: "cols_wf cols col s" "args_fit s i"
  obtain nx idv vs ms where i: "i = (nx, idv, vs, ms)" by (metis prod_cases4)
  have "length vs = length cols" using s i by (auto simp: cols_wf_def args_fit_def insert_ok_def dest: list_all2_lengthD)
  then show "stored_vec col (Suc d) (args_row s i) = insert_vec col (Suc d) i"
    using s(1) i by (simp add: stored_vec_def args_row_def new_row_def insert_vec_def cols_wf_def)
  have wf: "table_wf s" using s by (simp add: cols_wf_def)
  note ok = s(2)
  show "cols_wf cols col (table_insert i s)"
    using table.ins_inv [OF wf ok] s(1) by (simp add: cols_wf_def table_insert_columns)
  show "table_row (table_insert i s) = (table_row s)(insert_key i \<mapsto> args_row s i)" "table_row s (insert_key i) = None"
    using table.ins_rows [OF wf ok] table.ins_fresh [OF wf ok] by simp_all
next
  fix s k assume "cols_wf cols col s"
  then show "cols_wf cols col (table_delete k s)" "table_row (table_delete k s) = (table_row s)(k := None)"
    using table.del_inv table.del_rows by (simp_all add: cols_wf_def table_delete_columns)
qed

text \<open>The writes of a table: an insert with its environment, and a delete of a row id.\<close>

definition write_op ::
  "(i64 \<Rightarrow> index_env) \<Rightarrow> (insert_args, i64) store_op \<Rightarrow> indexed_table \<Rightarrow> indexed_table" where
  "write_op env op p =
     (case op of
        Store_Insert a \<Rightarrow>
          (case a of (next, idValue, vectors, metas) \<Rightarrow>
             snd (vec0Update_Insert (env (row_id next idValue)) next p idValue vectors False metas))
      | Store_Delete k \<Rightarrow> (case vec0Update_Delete p (int_value k) of None \<Rightarrow> p | Some (_, p') \<Rightarrow> p'))"

fun index_trained :: "vec0_index \<Rightarrow> bool" where
  "index_trained (Index_IVF i) = trained i"
| "index_trained _ = True"

lemma index_inv_trained: "index_inv dim x \<Longrightarrow> index_trained x"
  by (cases x) (simp_all add: ivf_ok_def)

lemma index_delete_trained: "index_trained x \<Longrightarrow> index_delete x r = Some (fst (the (index_delete x r)), index_del r x)"
  by (cases x) (auto simp: index_del_def index_delete_def ivf_delete_vector_def map_prod_def case_prod_unfold split: option.splits)

lemma write_insert:
  assumes "table_wf (shadow p)" and "args_fit (shadow p) a" and "vector_columns (shadow p) = cols"
    and "dimensions (cols ! col) = dim" and "indexMeta p = Some im" and "indexed_column p im = Some col"
    and "\<And>r. env_ok (env r)"
  shows "write_op env (Store_Insert a) p = p\<lparr>shadow := table_insert a (shadow p),
    indexMeta := Some (im\<lparr>index_data := index_add env (distfunc im) dim (insert_vec col dim a) (insert_key a) (index_data im)\<rparr>)\<rparr>"
proof -
  obtain nx idv vs ms where a: "a = (nx, idv, vs, ms)" by (metis prod_cases4)
  obtain t where t: "insert_row True nx (shadow p) idv vs False ms = ((SQLITE_OK, row_id nx idv), t)"
    using insert_refines [OF assms(1), of nx idv vs ms] assms(2) a by (auto simp: args_fit_def)
  then have ti: "table_insert a (shadow p) = t" by (simp add: table_insert_def a)
  then have "vector_columns t = cols" using table_insert_columns [of a "shadow p"] assms(3) by simp
  moreover from this have "indexed_column (p\<lparr>shadow := t\<rparr>) im = Some col"
    using assms(3,6) by (simp add: indexed_column_def)
  ultimately show ?thesis
    using t ti assms(4,5,7)
    by (simp add: a write_op_def vec0Update_Insert_def insert_into_index_def index_add_def insert_vec_def insert_key_def
        Let_def case_prod_unfold)
qed

lemma write_delete:
  assumes "table_wf (shadow p)" and "indexMeta p = Some im" and "index_trained (index_data im)" and "k \<noteq> 0"
  shows "write_op env (Store_Delete k) p = p\<lparr>shadow := table_delete k (shadow p),
    indexMeta := Some (im\<lparr>index_data := if table_row (shadow p) k = None then index_data im else index_del k (index_data im)\<rparr>)\<rparr>"
proof -
  have row: "table_row (shadow p) k = None \<longleftrightarrow> rowids_table (shadow p) k = None"
    by (simp add: table_row_def split: option.splits)
  have v: "value_int64 (int_value k) = k" by (simp add: int_value_def)
  note rc = delete_refines(1) [OF assms(1), of "int_value k", unfolded v]
  show ?thesis
  proof (cases "rowids_table (shadow p) k")
    case None
    then show ?thesis
      using assms(2) row v
      by (simp add: write_op_def vec0Update_Delete_def delete_row_def vec0_get_chunk_position_def table_delete_def)
  next
    case (Some pos)
    then have "delete_row (shadow p) (int_value k) = (SQLITE_OK, table_delete k (shadow p))"
      using rc by (simp add: table_delete_def prod_eq_iff)
    moreover obtain rc where "index_delete (index_data im) k = Some (rc, index_del k (index_data im))"
      using index_delete_trained [OF assms(3), of k] by blast
    moreover obtain w where "table_row (shadow p) k = Some w" using Some row by auto
    ultimately show ?thesis
      using v assms(2,4) by (simp add: write_op_def vec0Update_Delete_def Let_def)
  qed
qed

lemma trained_add: "index_trained x \<Longrightarrow> index_trained (index_add (env_of levels rnd junk) f dim v r x)"
  by (cases x) (auto simp: index_add_cases ivf_add_vector_def Let_def case_prod_unfold)

lemma trained_del: "index_trained x \<Longrightarrow> index_trained (index_del r x)"
  by (cases x) (auto simp: index_del_cases ivf_del_def ivf_delete_vector_def split: option.splits)

text \<open>A sequence of writes acts on the shadow tables and on the index as the two contracts say.\<close>

lemma writes_simulate:
  assumes "cols_wf cols col (shadow p)" and "dimensions (cols ! col) = Suc d" and "indexMeta p = Some im"
    and "indexed_column p im = Some col" and "index_trained (index_data im)"
    and "indexed.ops_ok ops (shadow p)" and "indexed.args_ok d col ops"
  shows "\<exists>im'. indexMeta (fold (write_op (env_of levels rnd junk)) ops p) = Some im'
    \<and> (shadow (fold (write_op (env_of levels rnd junk)) ops p), index_data im')
        = fold (indexed.step levels rnd junk (distfunc im) d col) ops (shadow p, index_data im)"
  using assms
proof (induction ops arbitrary: p im)
  case (Cons op ops)
  let ?env = "env_of levels rnd junk" and ?p = "write_op (env_of levels rnd junk) op p"
  let ?st = "indexed.step levels rnd junk (distfunc im) d col op (shadow p, index_data im)"
  have wf: "table_wf (shadow p)" "vector_columns (shadow p) = cols" using Cons.prems(1) by (simp_all add: cols_wf_def)
  have "?p = p\<lparr>shadow := fst ?st, indexMeta := Some (im\<lparr>index_data := snd ?st\<rparr>)\<rparr>
    \<and> cols_wf cols col (fst ?st) \<and> index_trained (snd ?st)"
  proof (cases op)
    case (Store_Insert a)
    have "args_fit (shadow p) a" using Cons.prems(6) Store_Insert by simp
    then show ?thesis
      using write_insert [OF wf(1) _ wf(2) Cons.prems(2-4), of a ?env] Cons.prems(1,5) Store_Insert
      by (simp add: indexed.ins_inv trained_add env_of_def)
  next
    case (Store_Delete k)
    then have "k \<noteq> 0" using Cons.prems(7) by (simp add: indexed.args_ok_def)
    then show ?thesis
      using write_delete [OF wf(1) Cons.prems(3,5), of k ?env] Cons.prems(1,5) Store_Delete
      by (simp add: indexed.del_inv trained_del)
  qed
  moreover from this have "indexed_column ?p (im\<lparr>index_data := snd ?st\<rparr>) = Some col"
    using Cons.prems(4) wf(2) by (simp add: indexed_column_def cols_wf_def)
  moreover have "indexed.ops_ok ops (fst ?st)" "indexed.args_ok d col ops"
    using Cons.prems(6,7) by (cases op; simp add: indexed.args_ok_def)+
  ultimately show ?case using Cons.IH [of ?p "im\<lparr>index_data := snd ?st\<rparr>"] Cons.prems(2) by simp
qed simp

text \<open>The row ids inserted, and what a sequence of writes needs to fit the index.\<close>

definition written_keys :: "(insert_args, i64) store_op list \<Rightarrow> i64 list" where
  "written_keys ops = concat (map (\<lambda>op. case op of Store_Insert a \<Rightarrow> [insert_key a] | Store_Delete k \<Rightarrow> []) ops)"

definition writes_fit :: "nat \<Rightarrow> nat \<Rightarrow> (insert_args, i64) store_op list \<Rightarrow> bool" where
  "writes_fit col dim ops \<longleftrightarrow>
     list_all (\<lambda>op. case op of
         Store_Insert a \<Rightarrow> point_ok dim (insert_vec col dim a) \<and> c_int (insert_key a) = insert_key a
       | Store_Delete k \<Rightarrow> c_int k = k \<and> k \<noteq> 0) ops
     \<and> distinct (written_keys ops)"

lemma writes_in_step:
  assumes "table_wf (shadow p)" and "dom (table_row (shadow p)) = {}" and "vector_columns (shadow p) = cols"
    and "col < length cols" and "dimensions (cols ! col) = Suc d"
    and "indexMeta p = Some im" and "indexed_column p im = Some col"
    and "index_inv (Suc d) (index_data im)" and "index_live (index_data im) = {#}" and "index_stored (index_data im) = {#}"
    and "table.ops_ok ops (shadow p)" and "writes_fit col (Suc d) ops"
    and "index_room (index_data im) (length (written_keys ops))"
    and "p' = fold (write_op (env_of levels rnd junk)) ops p"
  shows "\<exists>im'. indexMeta p' = Some im' \<and> table_wf (shadow p') \<and> index_inv (Suc d) (index_data im')
    \<and> dom (table_row (shadow p')) = table.last_ins ops
    \<and> (\<forall>v r. count (index_live (index_data im')) (v, r) =
        (if \<exists>w. table_row (shadow p') r = Some w \<and> stored_vec col (Suc d) w = v then 1 else 0))"
proof -
  have wf: "cols_wf cols col (shadow p)" using assms(1,3,4) by (simp add: cols_wf_def)
  have keys: "indexed.ins_keys ops = written_keys ops" by (simp add: indexed.ins_keys_def written_keys_def)
  have args: "indexed.args_ok d col ops"
    using assms(12) by (auto simp: indexed.args_ok_def writes_fit_def index_vec_ok_def list_all_iff split: store_op.splits)
  have start: "indexed.agrees col d (shadow p) (index_data im)" using assms(2,9) by (auto simp: indexed.agrees_def)
  obtain im' where im': "indexMeta p' = Some im'" and run: "(shadow p', index_data im') =
      fold (indexed.step levels rnd junk (distfunc im) d col) ops (shadow p, index_data im)"
    using writes_simulate [OF wf assms(5-7) index_inv_trained [OF assms(8)] assms(11) args] assms(14) by blast
  have cnt: "count (index_stored (index_data im)) r + count (mset (indexed.ins_keys ops)) r \<le> 1" for r
    using assms(10,12) by (simp add: keys writes_fit_def distinct_count_atmost_1)
  have "cols_wf cols col (shadow p') \<and> index_inv (Suc d) (index_data im') \<and> indexed.agrees col d (shadow p') (index_data im')"
    using indexed.run_agrees [OF wf assms(8) start assms(11) args, of levels rnd junk "distfunc im"] assms(13) cnt keys run
    by (metis fst_conv snd_conv)
  moreover have "shadow p' = fold table.run_op ops (shadow p)"
    using run indexed.step_fst [of levels rnd junk "distfunc im" d col ops "shadow p" "index_data im"] by (metis fst_conv)
  then have "dom (table_row (shadow p')) = table.last_ins ops" using table.run_dom [OF assms(1,11,2)] by simp
  ultimately show ?thesis using im' by (auto simp: indexed.agrees_def cols_wf_def)
qed


text \<open>A table of one-dimensional vectors with a k-d tree.\<close>

definition float_table :: vec0_table where
  "float_table = empty_table\<lparr>vector_columns := [\<lparr>dimensions = 1, element_type = SQLITE_VEC_ELEMENT_TYPE_FLOAT32,
     distance_metric = VEC0_DISTANCE_METRIC_L2\<rparr>]\<rparr>"

definition float_meta :: index_meta where
  "float_meta = \<lparr>index_dim = 1, indexColumnName = ''Emb'', distfunc = distance_l2_sqr_float, index_data = Index_KDTREE (kd_new 1)\<rparr>"

definition float_indexed :: indexed_table where
  "float_indexed = \<lparr>shadow = float_table, vector_names = [''emb''], user_columns = [User_Vector 0, User_Metadata 0],
     indexMeta = Some float_meta\<rparr>"

definition float_insert :: insert_args where
  "float_insert = (1, int_value 7, [Some (SQLITE_VEC_ELEMENT_TYPE_FLOAT32, 1, [0, 0, 0, 0])], [int_value 42])"

lemma float_table_wf: "table_wf float_table" "table_row float_table = Map.empty"
  by (simp_all add: float_table_def empty_table_def table_wf_def meta_wf_def valid_at_def table_row_def fun_eq_iff)

lemma float_insert_ok: "args_fit float_table float_insert"
  by (simp add: float_insert_def args_fit_def insert_ok_def float_table_def empty_table_def int_value_def row_id_def
      vector_fits_def vecs_ok_def vector_data_def meta_arg_ok_def metadata_type_ok_def vector_column_byte_size_def
      vector_byte_size_def)

lemma float_insert_vec: "insert_vec 0 1 float_insert = [0]" "insert_key float_insert = 7"
  by (simp_all add: insert_vec_def float_insert_def f32s_at_def vector_data_def insert_key_def row_id_def int_value_def)

lemma float_indexed_column: "indexed_column float_indexed float_meta = Some 0"
proof -
  have "stricmp_eq ''emb'' ''Emb''" by code_simp
  then show ?thesis by (simp add: indexed_column_def float_indexed_def float_meta_def float_table_def upt_rec)
qed


subsection \<open>Where the writes go wrong\<close>

lemma ivf_delete_list:
  assumes "ivf_delete_vector i k = Some (l, i')"
  shows "(trained i \<longrightarrow> l = - 1 \<or> 0 \<le> l \<and> nat l < nlist i \<and> il_find (lists i ! nat l) k \<noteq> None) \<and> (\<not> trained i \<longrightarrow> l = - 2)"
  using assms by (auto simp: ivf_delete_vector_def find_Some_iff split: if_splits option.splits)

text \<open>
  A delete from a table with an inverted file returns the number of the list the row was in, or \<open>-2\<close>
  before the training, as its result code: the row is gone from the table, and the statement still
  reports an error unless the row was in list 0.
\<close>

theorem ivf_delete_reports_list:
  assumes "table_wf (shadow p)" and "table_row (shadow p) k \<noteq> None" and "k \<noteq> 0"
    and "indexMeta p = Some im" and "index_data im = Index_IVF i" and "ivf_delete_vector i k = Some (l, i')"
  shows "\<exists>p'. vec0Update_Delete p (int_value k) = Some (l, p')
    \<and> table_row (shadow p') = (table_row (shadow p))(k := None)
    \<and> (trained i \<longrightarrow> l = - 1 \<or> 0 \<le> l \<and> nat l < nlist i \<and> il_find (lists i ! nat l) k \<noteq> None)
    \<and> (\<not> trained i \<longrightarrow> l = - 2)"
proof -
  have v: "value_int64 (int_value k) = k" by (simp add: int_value_def)
  have "rowids_table (shadow p) k \<noteq> None" using assms(2) by (auto simp: table_row_def split: option.splits)
  then obtain t where "delete_row (shadow p) (int_value k) = (SQLITE_OK, t)" "table_row t = (table_row (shadow p))(k := None)"
    using delete_refines [OF assms(1), of "int_value k"] v by (cases "delete_row (shadow p) (int_value k)") auto
  then show ?thesis
    using assms(3-6) v ivf_delete_list [OF assms(6)]
    by (simp add: vec0Update_Delete_def index_delete_def)
qed

definition ivf_two_lists :: ivf where
  "ivf_two_lists = \<lparr>nlist = 2, nprobe = 1, iv_dim = 1, centroids = [[0], [0]],
     lists = [\<lparr>il_count = 0, il_cap = 1, il_rowids = [0], il_vecs = [[0]]\<rparr>,
              \<lparr>il_count = 1, il_cap = 1, il_rowids = [7], il_vecs = [[0]]\<rparr>],
     train_vecs = [], train_rowids = [], iv_deleted = [], train_size = 0, train_capacity = 0, trained = True\<rparr>"

theorem ivf_delete_reports_list_witness:
  "\<exists>p'. vec0Update_Delete \<lparr>shadow = table_insert float_insert float_table, vector_names = [''emb''],
       user_columns = [User_Vector 0, User_Metadata 0], indexMeta = Some (float_meta\<lparr>index_data := Index_IVF ivf_two_lists\<rparr>)\<rparr>
       (int_value 7) = Some (1, p')
    \<and> table_row (shadow p') 7 = None"
proof -
  have "table_wf (table_insert float_insert float_table)" "table_row (table_insert float_insert float_table) 7 \<noteq> None"
    using table.ins_inv [OF float_table_wf(1) float_insert_ok] table.ins_rows [OF float_table_wf(1) float_insert_ok]
    by (simp_all add: float_insert_vec)
  moreover have "\<exists>i'. ivf_delete_vector ivf_two_lists 7 = Some (1, i')"
    by (simp add: ivf_delete_vector_def ivf_two_lists_def il_find_def upt_rec)
  ultimately show ?thesis
    using ivf_delete_reports_list [of "\<lparr>shadow = table_insert float_insert float_table, vector_names = [''emb''],
       user_columns = [User_Vector 0, User_Metadata 0], indexMeta = Some (float_meta\<lparr>index_data := Index_IVF ivf_two_lists\<rparr>)\<rparr>"
       7 "float_meta\<lparr>index_data := Index_IVF ivf_two_lists\<rparr>" ivf_two_lists 1]
    by auto
qed

text \<open>
  An update parses the new vector into the dimensions of the column definition before it compares
  the two: a vector of any length that still fits the blob is accepted, and the column has its dimensions
  from then on.
\<close>

theorem update_overwrites_dimensions:
  assumes "user_columns p = [User_Vector 0]" and "indexMeta p = None" and "vector_columns (shadow p) = [vc]"
    and "element_type vc = SQLITE_VEC_ELEMENT_TYPE_FLOAT32"
    and "rowids_table (shadow p) (value_int64 idValue) = Some (c, off)" and "vector_chunks (shadow p) 0 c = Some blob"
    and "value_type (arg_value a) \<noteq> SQLITE_NULL" and "arg_vector a = Some (SQLITE_VEC_ELEMENT_TYPE_FLOAT32, dims, bs)"
    and "length bs = dims * 4" and "off * dims * 4 + dims * 4 \<le> length blob"
  shows "\<exists>p'. vec0Update_Update env False p idValue [a] = Some (SQLITE_OK, p')
    \<and> vector_columns (shadow p') = [vc\<lparr>dimensions := dims\<rparr>]"
proof -
  obtain b where "blob_write blob bs (off * dims * 4) = Inr b" using assms(9,10) by (simp add: blob_write_def)
  then show ?thesis
    using assms
    by (simp add: vec0Update_Update_def vec0_get_chunk_position_def update_vector_step_def parse_into_column_def
        vec0Update_UpdateVectorColumn_def vector_fits_def vector_data_def vec0_write_vector_to_vector_blob_def Let_def)
qed

definition float_written :: indexed_table where
  "float_written = float_indexed\<lparr>shadow := float_table\<lparr>rowids_table := [7 \<mapsto> (1, 0)],
     vector_chunks := (\<lambda>_. [1 \<mapsto> replicate 32 0])\<rparr>, user_columns := [User_Vector 0], indexMeta := None\<rparr>"

theorem update_overwrites_dimensions_witness:
  "\<exists>p'. vec0Update_Update (env_of (\<lambda>_. 0) id (0, []) 7) False float_written (int_value 7)
       [\<lparr>arg_nochange = False, arg_value = int_value 0, arg_vector = Some (SQLITE_VEC_ELEMENT_TYPE_FLOAT32, 2, replicate 8 1)\<rparr>]
       = Some (SQLITE_OK, p')
    \<and> map dimensions (vector_columns (shadow float_written)) = [1] \<and> map dimensions (vector_columns (shadow p')) = [2]"
proof -
  have "element_type (hd (vector_columns float_table)) = SQLITE_VEC_ELEMENT_TYPE_FLOAT32"
    "vector_columns float_table = [hd (vector_columns float_table)]" by (simp_all add: float_table_def)
  then show ?thesis
    using update_overwrites_dimensions [of float_written "hd (vector_columns float_table)" "int_value 7" 1 0 "replicate 32 0"
        "\<lparr>arg_nochange = False, arg_value = int_value 0, arg_vector = Some (SQLITE_VEC_ELEMENT_TYPE_FLOAT32, 2, replicate 8 1)\<rparr>"
        2 "replicate 8 1" "env_of (\<lambda>_. 0) id (0, []) 7"]
    by (auto simp: float_written_def float_indexed_def int_value_def) (simp add: float_table_def)
qed

end
