(* ===== verification/Knn_Correct.thy ===== *)
theory Knn_Correct
  imports Knn IndexedTable_Correct
begin

text \<open>
  What a nearest-neighbour query over an index returns: live rows of the table that satisfy the
  constraints of the query, each with its distance.
\<close>

subsection \<open>The hits of an index search\<close>

lemma topk_insert_sub: "set (topk_insert k r d hs) \<subseteq> insert (r, d) (set hs)"
proof -
  obtain mi md where "max_hit k hs = (mi, md)" by force
  then show ?thesis using set_update_subset_insert [of hs mi "(r, d)"] by (auto simp: topk_insert_def)
qed

lemma topk_insert_length: "length hs \<le> k \<Longrightarrow> length (topk_insert k r d hs) \<le> k"
  by (simp add: topk_insert_def split: prod.splits)

lemma kd_search_sub:
  "length hs \<le> k \<Longrightarrow> set (kdtree_search_topk_rec t q dims k hs m f) \<subseteq> set hs \<union> set_mset (kd_cands m f q dims t)
    \<and> length (kdtree_search_topk_rec t q dims k hs m f) \<le> k"
proof (induction t arbitrary: hs)
  case (KDNode p r lt rt ax sz del ic)
  define hs1 where "hs1 = (if del \<or> \<not> passes m r then hs else topk_insert k r (f q p dims) hs)"
  define near where "near = (if flt (q ! ax) (p ! ax) then lt else rt)"
  define far where "far = (if flt (q ! ax) (p ! ax) then rt else lt)"
  define hs2 where "hs2 = kdtree_search_topk_rec near q dims k hs1 m f"
  have 1: "length hs1 \<le> k" "set hs1 \<subseteq> set hs \<union> (if del \<or> \<not> passes m r then {} else {(r, f q p dims)})"
    using KDNode.prems topk_insert_sub [of k r "f q p dims" hs] by (auto simp: hs1_def topk_insert_length)
  have 2: "set hs2 \<subseteq> set hs1 \<union> set_mset (kd_cands m f q dims near)" "length hs2 \<le> k"
    using KDNode.IH(1) [OF 1(1)] KDNode.IH(2) [OF 1(1)] by (auto simp: hs2_def near_def)
  have 3: "set (kdtree_search_topk_rec far q dims k hs2 m f) \<subseteq> set hs2 \<union> set_mset (kd_cands m f q dims far)
      \<and> length (kdtree_search_topk_rec far q dims k hs2 m f) \<le> k"
    using KDNode.IH(1) [OF 2(2)] KDNode.IH(2) [OF 2(2)] by (auto simp: far_def)
  have "kdtree_search_topk_rec (KDNode p r lt rt ax sz del ic) q dims k hs m f \<in>
      {kdtree_search_topk_rec far q dims k hs2 m f, hs2}"
    by (auto simp: Let_def hs2_def hs1_def near_def far_def passes_def)
  moreover have cands: "set_mset (kd_cands m f q dims (KDNode p r lt rt ax sz del ic)) =
      (if del \<or> \<not> passes m r then {} else {(r, f q p dims)})
      \<union> set_mset (kd_cands m f q dims near) \<union> set_mset (kd_cands m f q dims far)"
    by (simp add: near_def far_def Un_commute Un_left_commute)
  have "set hs2 \<subseteq> set hs \<union> set_mset (kd_cands m f q dims (KDNode p r lt rt ax sz del ic))"
    unfolding cands using 1(2) 2(1) by blast
  moreover from this have "set (kdtree_search_topk_rec far q dims k hs2 m f) \<subseteq>
      set hs \<union> set_mset (kd_cands m f q dims (KDNode p r lt rt ax sz del ic))"
    using 3 unfolding cands by blast
  ultimately show ?case using 2(2) 3 by (metis insertE singletonD)
qed simp

lemma kd_no_filter:
  "\<not> pre_filter m \<Longrightarrow> kdtree_search_topk_rec t q dims k hs m f = kdtree_search_topk_rec t q dims k hs no_filter f"
  by (induction t arbitrary: hs) (simp_all add: Let_def no_filter_def)

text \<open>The distances that must not be NaN.\<close>

fun search_numeric :: "distance_func \<Rightarrow> f32 list \<Rightarrow> vec0_index \<Rightarrow> bool" where
  "search_numeric f q (Index_HNSW h) = (\<forall>n\<in>set (hn_nodes h). \<not> fisnan (f (hn_vec n) q (hn_dim h)))"
| "search_numeric f q (Index_IVF i) =
     ((\<forall>c\<in>set (centroids i). \<not> fisnan (f q c (iv_dim i))) \<and> (\<forall>x\<in>#ivf_live i. \<not> fisnan (f q (fst x) (iv_dim i))))"
| "search_numeric f q _ = True"

definition hit_of :: "distance_func \<Rightarrow> f32 list \<Rightarrow> nat \<Rightarrow> vec0_index \<Rightarrow> rowid_map \<Rightarrow> hit \<Rightarrow> bool" where
  "hit_of f q dim idx m h \<longleftrightarrow>
     (\<exists>v. (v, fst h) \<in># index_live idx \<and> passes m (fst h) \<and> (snd h = f q v dim \<or> snd h = f v q dim))"

lemma ivf_search_hits:
  assumes "ivf_inv i" and "0 < topk" and "search_numeric f q (Index_IVF i)"
  shows "length (ivf_search i q topk override m f) \<le> nat topk
    \<and> (\<forall>h\<in>set (ivf_search i q topk override m f). hit_of f q (iv_dim i) (Index_IVF i) m h)"
proof -
  define n where "n = (if 0 < override then nat override else nprobe i)"
  let ?ps = "select_nprobe i q (min n (nlist i)) f"
  have b: "\<forall>c\<in>set ?ps. c < nlist i" using assms by (intro select_nprobe_bound) auto
  have "\<forall>h\<in>set (probe_hits i q m f ?ps). \<not> fisnan (snd h)" using assms b by (intro probe_hits_no_nan) auto
  then have best: "best_k hit_key (nat topk) (mset (probe_hits i q m f ?ps)) (mset (ivf_search i q topk override m f))"
    using ivf_search_heap [OF assms(2) n_def] by blast
  have "hit_of f q (iv_dim i) (Index_IVF i) m h" if "h \<in> set (ivf_search i q topk override m f)" for h
  proof -
    have "h \<in> set (probe_hits i q m f ?ps)" using that best_k_sub [OF best] by (metis mset_subset_eqD set_mset_mset)
    then obtain c where c: "c \<in> set ?ps" "h \<in> set (list_hits f q (iv_dim i) m (lists i ! c))" by (auto simp: probe_hits_def)
    then have l: "lists i ! c \<in> set (lists i)" "il_inv (lists i ! c)" using assms(1) b by (auto simp: ivf_inv_def)
    have "h \<in># il_cands m f q (iv_dim i) (lists i ! c)" using c(2) mset_list_hits [OF l(2)] by (metis set_mset_mset)
    then obtain v r where "(v, r) \<in># il_live (lists i ! c)" "passes m r" "h = (r, f q v (iv_dim i))" by (auto simp: il_cands_def)
    moreover from this(1) l(1) have "(v, r) \<in># ivf_live i" unfolding ivf_live_lists by blast
    ultimately show ?thesis by (auto simp: hit_of_def)
  qed
  moreover have "length (ivf_search i q topk override m f) \<le> nat topk" using best_k_size [OF best] by simp
  ultimately show ?thesis by blast
qed

text \<open>The eight bytes the graph probes with are a row id of the table only on the bottom level.\<close>

lemma rowid_key_row:
  assumes "c_int (rowid_key n) = rowid_key n" and "c_int (hn_rowid n) = hn_rowid n"
  shows "rowid_key n = hn_rowid n"
proof -
  have "0 \<le> hn_rowid n mod 2 ^ 32" "hn_rowid n mod 2 ^ 32 < (2 ^ 32 :: int)" by simp_all
  moreover have "rowid_key n < 2 ^ 31" using c_int_range [of "rowid_key n"] assms(1) by simp
  ultimately have "hn_level n = 0" by (simp add: rowid_key_def)
  then have key: "rowid_key n = hn_rowid n mod 4294967296" by (simp add: rowid_key_def)
  have r: "- 2147483648 \<le> hn_rowid n" "hn_rowid n < 2147483648" using c_int_range [of "hn_rowid n"] assms(2) by simp_all
  show ?thesis
  proof (cases "0 \<le> hn_rowid n")
    case True
    then show ?thesis using key r(2) by simp
  next
    case False
    have "hn_rowid n mod 4294967296 = (hn_rowid n + 4294967296) mod 4294967296" by simp
    also have "\<dots> = hn_rowid n + 4294967296" using False r(1) by (intro mod_pos_pos_trivial) simp_all
    finally show ?thesis using key r(1) \<open>rowid_key n < 2 ^ 31\<close> by simp
  qed
qed

lemma hnsw_search_hit:
  assumes "hnsw_inv h" and "search_numeric f q (Index_HNSW h)" and "hnsw_search h q ef topk m f = Some hs"
    and "\<And>r. map_has m r \<Longrightarrow> c_int r = r" and "x \<in> set hs"
  shows "hit_of f q (hn_dim h) (Index_HNSW h) m x"
proof -
  obtain i where i: "i < num_nodes h" "bfs_valid h m i" "x = bfs_hit h f q i"
    using hnsw_search_hits [of h f q, OF assms(1) _ assms(3)] assms(2,5) by auto
  let ?n = "hn_nodes h ! i"
  have wf: "c_int (hn_rowid ?n) = hn_rowid ?n" using assms(1) i(1) by (simp add: hnsw_inv_def node_wf_def)
  have "(hn_vec ?n, hn_rowid ?n) \<in># hnsw_live h" using i by (auto simp: hnsw_live_def bfs_valid_def)
  moreover have "passes m (hn_rowid ?n)"
    using i(2) rowid_key_row [OF assms(4) wf] by (auto simp: bfs_valid_def passes_def)
  ultimately show ?thesis using i(3) by (auto simp: hit_of_def bfs_hit_def)
qed

lemma index_search_hits:
  assumes "index_inv dim idx" and "search_numeric f q idx" and "0 < k" and "index_search idx f q k m = Some hs"
    and "\<And>r. map_has m r \<Longrightarrow> c_int r = r"
  shows "int (length hs) \<le> 2 * k \<and> (\<forall>h\<in>set hs. hit_of f q dim idx m h)"
proof -
  have kd: "int (length (kdtree_topk (Some t) q (2 * k) m f)) \<le> 2 * k
      \<and> (\<forall>h\<in>set (kdtree_topk (Some t) q (2 * k) m f). hit_of f q dim idx m h)"
    if t: "kd_tree_inv dim t" "index_live idx = kd_live (kd_root t)" for t
  proof -
    have "set (kdtree_search_topk_rec (kd_root t) q dim (nat (2 * k)) [] m f) \<subseteq> set_mset (kd_cands m f q dim (kd_root t))
        \<and> length (kdtree_search_topk_rec (kd_root t) q dim (nat (2 * k)) [] m f) \<le> nat (2 * k)"
      using kd_search_sub [of "[]" "nat (2 * k)" "kd_root t" q dim m f] by simp
    moreover have "hit_of f q dim idx m h" if "h \<in># kd_cands m f q dim (kd_root t)" for h
      using that t(2) by (auto simp: kd_cands_def hit_of_def)
    ultimately show ?thesis using t(1) assms(3) by (auto simp: kdtree_topk_def kd_tree_inv_def)
  qed
  show ?thesis
  proof (cases idx)
    case (Index_KDTREE t)
    then show ?thesis using kd [of t] assms by (simp add: index_search_def K_EXT_def)
  next
    case (Index_HYBRID t)
    then show ?thesis using kd [of t] assms by (simp add: index_search_def K_EXT_def)
  next
    case (Index_IVF i)
    then have inv: "ivf_inv i" "iv_dim i = dim" using assms(1) by (simp_all add: ivf_ok_def)
    have "hs = ivf_search i q (k * 2) IVF_N_PROBE m f" using assms(4) Index_IVF by (simp add: index_search_def K_EXT_def)
    moreover have "0 < k * 2" using assms(3) by simp
    ultimately show ?thesis
      using ivf_search_hits [of i "k * 2" f q IVF_N_PROBE m] inv assms(2) Index_IVF by auto
  next
    case (Index_HNSW h)
    then have inv: "hnsw_inv h" "hn_dim h = dim" using assms(1) by (simp_all add: hnsw_ok_def)
    obtain n where n: "hnsw_search h q EF_CONSTRUCTION n m f = Some hs" "int n \<le> 2 * k"
      using assms(3,4) Index_HNSW by (auto simp: index_search_def K_EXT_def Let_def split: if_splits)
    have "length hs \<le> n" using hnsw_search_hits [of h f q, OF inv(1) _ n(1)] assms(2) Index_HNSW by simp
    then show ?thesis
      using hnsw_search_hit [of h f q, OF inv(1) _ n(1) assms(5)] inv(2) n(2) assms(2) Index_HNSW by auto
  qed
qed

subsection \<open>Queries over an index\<close>

text \<open>The rows of the table that a query may return: used slots whose row satisfies the constraints.\<close>

definition query_row ::
  "vec0_metadata_in \<Rightarrow> vec0_metadata_in list \<Rightarrow> i64 list option \<Rightarrow> (idx_entry \<times> sqlite3_value) list \<Rightarrow>
   (i64 \<Rightarrow> nat \<Rightarrow> nat \<Rightarrow> meta_value) \<Rightarrow> vec0_table \<Rightarrow> i64 \<Rightarrow> bool" where
  "query_row junk mins rin args val t r \<longleftrightarrow>
     (\<exists>c\<in>set (table_chunks t). \<exists>i<chunk_size t. row_passes junk mins rin args val c i \<and> chunk_rowids c ! i = r)"

lemma query_row_stored:
  assumes "table_wf t" and "query_row junk mins rin args val t r"
  shows "r \<in> dom (table_row t)"
proof -
  obtain c i where "c \<in> set (table_chunks t)" "i < chunk_size t" "row_passes junk mins rin args val c i" "chunk_rowids c ! i = r"
    using assms(2) by (auto simp: query_row_def)
  then have "rowids_table t r = Some (chunk_id c, i)" using used_row_position [OF assms(1)] by (auto simp: row_passes_def)
  then show ?thesis by (auto simp: table_row_def)
qed

lemma rowids_in_sorted: "rowids_in args = Some rs \<Longrightarrow> sorted rs"
  using sorted_c_qsort [OF cmp_i64_by] by (auto simp: rowids_in_def split: option.splits)

lemma query_rowid_map:
  assumes "table_wf t" and "\<forall>c\<in>set (table_chunks t). chunk_ok junk mins (vec0_vtab.truncate t) args val c"
    and "\<forall>rs. rin = Some rs \<longrightarrow> sorted rs"
  shows "\<exists>m. vec0Filter_chunks_to_rowid_map True junk (vec0_vtab.truncate t) (map Chunk_Row (table_chunks t)) rin mins args
      \<lparr>rowids = [], capacity = 16, pre_filter = b\<rparr> = (SQLITE_OK, m)
    \<and> pre_filter m = b \<and> (\<forall>r. map_has m r \<longleftrightarrow> query_row junk mins rin args val t r)"
proof -
  have n: "chunk_size (vec0_vtab.truncate t) mod 8 = 0" "chunk_size (vec0_vtab.truncate t) = chunk_size t"
    using assms(1) by (simp_all add: vec0_vtab.defs table_wf_def)
  show ?thesis
    using rowid_map_rows [OF n(1) assms(3,2), of "\<lparr>rowids = [], capacity = 16, pre_filter = b\<rparr>"] n(2)
    by (simp add: map_wf_def map_count_def query_row_def)
qed

lemma knn_search_hits:
  assumes wf: "table_wf (shadow p)" and im: "indexMeta p = Some im" and inv: "index_inv dim (index_data im)"
    and hy: "\<not> hybrid (index_data im)" and k: "0 < k"
    and int: "\<And>r. r \<in> dom (table_row (shadow p)) \<Longrightarrow> c_int r = r"
    and ok: "\<forall>c\<in>set (table_chunks (shadow p)). chunk_ok junk mins (vec0_vtab.truncate (shadow p)) args val c"
    and rin: "\<forall>rs. rin = Some rs \<longrightarrow> sorted rs"
    and num: "search_numeric (distfunc im) (f32s_at q 0 (dimensions (vector_columns (shadow p) ! vi))) (index_data im)"
    and res: "knn_search True junk p vi rin mins args q k = Some (rc, Some hs)"
  shows "int (length hs) \<le> 2 * k \<and> (\<forall>h\<in>set hs. query_row junk mins rin args val (shadow p) (fst h)
    \<and> (\<exists>v. (v, fst h) \<in># index_live (index_data im)
        \<and> snd h \<in> {distfunc im (f32s_at q 0 (dimensions (vector_columns (shadow p) ! vi))) v dim,
                    distfunc im v (f32s_at q 0 (dimensions (vector_columns (shadow p) ! vi))) dim}))"
proof -
  let ?t = "shadow p" and ?tr = "vec0_vtab.truncate (shadow p)" and ?q = "f32s_at q 0 (dimensions (vector_columns (shadow p) ! vi))"
  obtain m where
    m: "vec0Filter_chunks_to_rowid_map True junk ?tr (map Chunk_Row (table_chunks ?t)) rin mins args
        \<lparr>rowids = [], capacity = 16, pre_filter = True\<rparr> = (SQLITE_OK, m)"
      "pre_filter m" "\<And>r. map_has m r \<longleftrightarrow> query_row junk mins rin args val ?t r"
    using query_rowid_map [OF wf ok rin, of True] by blast
  have "searchable (index_data im)" using inv by (cases "index_data im") (simp_all add: searchable_def ivf_ok_def)
  then have "index_search (index_data im) (distfunc im) ?q k m = Some hs"
    using res im m(1) hy by (simp add: knn_search_def Let_def)
  from index_search_hits [OF inv num k this] m(3) query_row_stored [OF wf] int
  have "int (length hs) \<le> 2 * k" "\<forall>h\<in>set hs. hit_of (distfunc im) ?q dim (index_data im) m h" by blast+
  then show ?thesis using m(2,3) by (auto simp: hit_of_def passes_def)
qed

lemma knn_query_search:
  assumes "vec0Filter_knn True True junk p vi args = Some (rc, Some hs)" and "hs \<noteq> []"
    and "last_arg VEC0_IDXSTR_KIND_KNN_MATCH args = Some qa" and "last_arg VEC0_IDXSTR_KIND_KNN_K args = Some ka"
  shows "\<exists>mins. metadata_ins (shadow p) args 0 = Some mins \<and> 0 < value_int64 (fa_value ka) \<and>
    knn_search True junk p vi (rowids_in args) mins (plain_args args) (vector_data (fa_vector qa)) (value_int64 (fa_value ka))
      = Some (rc, Some hs)"
  using assms by (auto simp: vec0Filter_knn_def Let_def split: if_splits option.splits)

text \<open>
  C6. A nearest-neighbour query over a table whose index is in step with its rows returns at most twice
  \<open>k\<close> hits, and every hit is a row of the table that is valid, is in the \<open>rowid in\<close> list if there is one,
  satisfies every metadata constraint, and comes with the distance of its stored vector to the query,
  for the k-d tree, the inverted file and the layered graph.
\<close>

theorem knn_query_sound:
  assumes "table_wf (shadow p)" and "indexMeta p = Some im" and "index_inv dim (index_data im)" and "\<not> hybrid (index_data im)"
    and "\<forall>v r. count (index_live (index_data im)) (v, r) =
        (if \<exists>w. table_row (shadow p) r = Some w \<and> stored_vec col dim w = v then 1 else 0)"
    and "\<forall>r\<in>dom (table_row (shadow p)). c_int r = r"
    and "last_arg VEC0_IDXSTR_KIND_KNN_MATCH args = Some qa" and "last_arg VEC0_IDXSTR_KIND_KNN_K args = Some ka"
    and "metadata_ins (shadow p) args 0 = Some mins"
    and "\<forall>c\<in>set (table_chunks (shadow p)). chunk_ok junk mins (vec0_vtab.truncate (shadow p)) (plain_args args) val c"
    and "q = f32s_at (vector_data (fa_vector qa)) 0 (dimensions (vector_columns (shadow p) ! vi))"
    and "search_numeric (distfunc im) q (index_data im)"
    and "vec0Filter_knn True True junk p vi args = Some (SQLITE_OK, Some hs)"
  shows "int (length hs) \<le> 2 * max 0 (value_int64 (fa_value ka))
    \<and> (\<forall>(r, d)\<in>set hs. query_row junk mins (rowids_in args) (plain_args args) val (shadow p) r
        \<and> (\<exists>w. table_row (shadow p) r = Some w
            \<and> d \<in> {distfunc im q (stored_vec col dim w) dim, distfunc im (stored_vec col dim w) q dim}))"
proof (cases "hs = []")
  case False
  let ?k = "value_int64 (fa_value ka)"
  note run = knn_query_search [OF assms(13) False assms(7,8)]
  have k: "0 < ?k" and search: "knn_search True junk p vi (rowids_in args) mins (plain_args args)
      (vector_data (fa_vector qa)) ?k = Some (SQLITE_OK, Some hs)" using run assms(9) by auto
  have live: "\<exists>w. table_row (shadow p) r = Some w \<and> stored_vec col dim w = v"
    if "(v, r) \<in># index_live (index_data im)" for v r
  proof -
    have "0 < count (index_live (index_data im)) (v, r)" using that by simp
    then show ?thesis using assms(5) by (metis less_numeral_extra(3))
  qed
  have srt: "\<forall>rs. rowids_in args = Some rs \<longrightarrow> sorted rs" using rowids_in_sorted by blast
  have "c_int r = r" if "r \<in> dom (table_row (shadow p))" for r using assms(6) that by blast
  from knn_search_hits [OF assms(1-4) k this assms(10) srt _ search] assms(11,12)
  have "int (length hs) \<le> 2 * ?k" "\<forall>h\<in>set hs. query_row junk mins (rowids_in args) (plain_args args) val (shadow p) (fst h)
      \<and> (\<exists>v. (v, fst h) \<in># index_live (index_data im) \<and> snd h \<in> {distfunc im q v dim, distfunc im v q dim})" by auto
  then show ?thesis using k live by fastforce
qed simp

text \<open>A query over the one-dimensional table with one row.\<close>

definition float_query :: "(idx_entry \<times> filter_arg) list" where
  "float_query =
     [(VEC0_IDXSTR_KIND_KNN_MATCH, \<lparr>fa_value = int_value 0, fa_in = [],
         fa_vector = Some (SQLITE_VEC_ELEMENT_TYPE_FLOAT32, 1, [0, 0, 0, 0])\<rparr>),
      (VEC0_IDXSTR_KIND_KNN_K, \<lparr>fa_value = int_value 5, fa_in = [], fa_vector = None\<rparr>)]"

definition float_one :: indexed_table where
  "float_one = write_op (env_of (\<lambda>_. 0) id (0, [])) (Store_Insert float_insert) float_indexed"

lemma float_one_state:
  "\<exists>t. indexMeta float_one = Some (float_meta\<lparr>index_data := Index_KDTREE t\<rparr>)
    \<and> shadow float_one = table_insert float_insert float_table"
proof -
  have "dimensions (vector_columns (shadow float_indexed) ! 0) = 1" by (simp add: float_indexed_def float_table_def)
  moreover have "index_data float_meta = Index_KDTREE (kd_new 1)" by (simp add: float_meta_def)
  ultimately show ?thesis
    using write_insert [of float_indexed float_insert "vector_columns (shadow float_indexed)" 0 1 float_meta
        "env_of (\<lambda>_. 0) id (0, [])"] float_insert_ok float_table_wf float_indexed_column
    by (simp add: float_one_def float_indexed_def index_add_cases env_of_def [of "\<lambda>_. 0"] del: One_nat_def) blast
qed

lemma float_one_in_step:
  "\<exists>im. indexMeta float_one = Some im \<and> table_wf (shadow float_one) \<and> index_inv 1 (index_data im)
    \<and> dom (table_row (shadow float_one)) = {7}
    \<and> (\<forall>v r. count (index_live (index_data im)) (v, r) =
        (if \<exists>w. table_row (shadow float_one) r = Some w \<and> stored_vec 0 1 w = v then 1 else 0))"
proof -
  have fit: "writes_fit 0 (Suc 0) [Store_Insert float_insert]"
    using float_insert_vec by (simp add: writes_fit_def written_keys_def point_ok_def fisnan_def fmag_def c_int_def)
  have "table.ops_ok [Store_Insert float_insert] float_table" using float_insert_ok by simp
  moreover have "index_inv (Suc 0) (Index_KDTREE (kd_new 1))" "index_live (Index_KDTREE (kd_new 1)) = {#}"
    "index_stored (Index_KDTREE (kd_new 1)) = {#}" by (simp_all add: kd_tree_inv_def kd_new_def)
  moreover have "table.last_ins [Store_Insert float_insert] = {7}" by (simp add: table.last_ins_def float_insert_vec)
  ultimately show ?thesis
    using writes_in_step [of float_indexed "vector_columns float_table" 0 0 float_meta "[Store_Insert float_insert]" float_one
        "\<lambda>_. 0" id "(0, [])"] float_table_wf fit float_indexed_column
    by (simp add: float_indexed_def float_meta_def float_table_def float_one_def)
qed

lemma float_query_args:
  "last_arg VEC0_IDXSTR_KIND_KNN_MATCH float_query = Some (snd (float_query ! 0))"
  "last_arg VEC0_IDXSTR_KIND_KNN_K float_query = Some (snd (float_query ! 1))"
  "rowids_in float_query = None" "metadata_ins t float_query 0 = Some []"
  "plain_args float_query = [(VEC0_IDXSTR_KIND_KNN_MATCH, int_value 0), (VEC0_IDXSTR_KIND_KNN_K, int_value 5)]"
  "fa_vector (snd (float_query ! 0)) = Some (SQLITE_VEC_ELEMENT_TYPE_FLOAT32, 1, [0, 0, 0, 0])"
  "value_int64 (fa_value (snd (float_query ! 1))) = 5"
  by (simp_all add: float_query_def last_arg_def rowids_in_def plain_args_def int_value_def)

theorem knn_query_sound_witness:
  "\<exists>hs. vec0Filter_knn True True sample_in float_one 0 float_query = Some (SQLITE_OK, Some hs)
    \<and> int (length hs) \<le> 10 \<and> (\<forall>(r, d)\<in>set hs. r = 7)"
proof -
  obtain t where t: "indexMeta float_one = Some (float_meta\<lparr>index_data := Index_KDTREE t\<rparr>)"
    "shadow float_one = table_insert float_insert float_table" using float_one_state by blast
  define im where "im = float_meta\<lparr>index_data := Index_KDTREE t\<rparr>"
  have step: "table_wf (shadow float_one)" "index_inv 1 (index_data im)" "dom (table_row (shadow float_one)) = {7}"
    "\<forall>v r. count (index_live (index_data im)) (v, r) =
        (if \<exists>w. table_row (shadow float_one) r = Some w \<and> stored_vec 0 1 w = v then 1 else 0)"
    using float_one_in_step t(1) by (auto simp: im_def)
  have cols: "vector_columns (shadow float_one) = vector_columns float_table" by (simp add: t(2) table_insert_columns)
  have "0 < length (vector_columns (shadow float_one))" by (simp add: cols float_table_def)
  note h = table_hits_rows(2) [OF step(1) this, of _ sample_in sample_val]
  have ok: "\<forall>c\<in>set (table_chunks (shadow float_one)).
      chunk_ok sample_in [] (vec0_vtab.truncate (shadow float_one)) (plain_args float_query) sample_val c"
    using h by (simp add: chunk_ok_def float_query_args)
  obtain m where "vec0Filter_chunks_to_rowid_map True sample_in (vec0_vtab.truncate (shadow float_one))
      (map Chunk_Row (table_chunks (shadow float_one))) None [] (plain_args float_query)
      \<lparr>rowids = [], capacity = 16, pre_filter = True\<rparr> = (SQLITE_OK, m)"
    using query_rowid_map [OF step(1) ok, of None True] by auto
  moreover have "vector_fits (vector_columns float_table ! 0) (Some (SQLITE_VEC_ELEMENT_TYPE_FLOAT32, 1, [0, 0, 0, 0]))"
    by (simp add: vector_fits_def float_table_def)
  ultimately obtain hs where hs: "vec0Filter_knn True True sample_in float_one 0 float_query = Some (SQLITE_OK, Some hs)"
    using t(1) cols
    by (simp add: vec0Filter_knn_def float_query_args [simplified] knn_search_def hybrid_def searchable_def
        index_search_def SQLITE_VEC_VEC0_K_MAX_def)
  have im: "indexMeta float_one = Some im" "\<not> hybrid (index_data im)" "search_numeric (distfunc im) q (index_data im)" for q
    using t(1) by (simp_all add: im_def hybrid_def)
  have "\<forall>r\<in>dom (table_row (shadow float_one)). c_int r = r" by (simp add: step(3) c_int_def)
  from knn_query_sound [OF step(1) im(1) step(2) im(2) step(4) this float_query_args(1,2,4) ok refl im(3) hs]
  have "int (length hs) \<le> 10" "\<forall>(r, d)\<in>set hs. \<exists>w. table_row (shadow float_one) r = Some w"
    by (auto simp: float_query_args [simplified])
  then show ?thesis using hs step(3) by blast
qed

subsection \<open>Hybrid queries\<close>

lemma add_pre_filter: "pre_filter (snd (rowid_map_add_all ok m rs)) = pre_filter m"
  by (induction ok m rs rule: rowid_map_add_all.induct)
    (auto simp: rowid_map_add_def split: prod.splits sqlite_rc.splits if_splits)

lemma map_pre_filter: "pre_filter (snd (map_chunks ok junk p rin mins args cs m)) = pre_filter m"
proof (induction ok junk p rin mins args cs m rule: map_chunks.induct)
  case (3 ok junk p rin mins args c cs m)
  obtain rc b where b: "chunk_bitmap ok junk p rin mins args c = (rc, b)" by force
  obtain rc2 m2 where m2: "add_rows ok m (chunk_rowids c) b (chunk_size p) = (rc2, m2)" by force
  then have "pre_filter m2 = pre_filter m"
    using add_pre_filter [of ok m "map (nth (chunk_rowids c)) (filter (bitmap_get b) [0..<chunk_size p])"]
    by (simp add: add_rows_def)
  then show ?case using 3 b m2 by (cases rc; cases rc2) auto
qed simp_all

lemma hybrid_search:
  assumes "indexMeta p = Some im" and "index_data im = Index_HYBRID t"
    and "knn_search True junk p vi rin mins args q k = Some (SQLITE_OK, Some hs)"
  shows "hs = kdtree_topk (Some t) (f32s_at q 0 (dimensions (vector_columns (shadow p) ! vi))) (K_EXT * k) no_filter (distfunc im)"
proof -
  let ?m = "vec0Filter_chunks_to_rowid_map True junk (vec0_vtab.truncate (shadow p))
      (map Chunk_Row (table_chunks (shadow p))) rin mins args \<lparr>rowids = [], capacity = 16, pre_filter = False\<rparr>"
  have "\<not> pre_filter (snd ?m)"
    using map_pre_filter [of True junk "vec0_vtab.truncate (shadow p)" rin mins args
        "map Chunk_Row (table_chunks (shadow p))" "\<lparr>rowids = [], capacity = 16, pre_filter = False\<rparr>"]
    by (auto simp: vec0Filter_chunks_to_rowid_map_def map_sort_def split: prod.splits sqlite_rc.splits)
  moreover have "hs = kdtree_topk (Some t) (f32s_at q 0 (dimensions (vector_columns (shadow p) ! vi))) (K_EXT * k) (snd ?m) (distfunc im)"
    using assms by (auto simp: knn_search_def Let_def hybrid_def searchable_def index_search_def split: prod.splits sqlite_rc.splits)
  ultimately show ?thesis by (simp add: kdtree_topk_def kd_no_filter)
qed

text \<open>
  C33. With an index of the hybrid type the constraints of a query have no effect: two queries with the
  same vector and \<open>k\<close> return the same hits, whatever their metadata and \<open>rowid in\<close> constraints are, although
  the query plan told SQLITE not to check them again.
\<close>

theorem hybrid_query_ignores_constraints:
  assumes "indexMeta p = Some im" and "index_data im = Index_HYBRID t"
    and "last_arg VEC0_IDXSTR_KIND_KNN_MATCH args = last_arg VEC0_IDXSTR_KIND_KNN_MATCH args'"
    and "last_arg VEC0_IDXSTR_KIND_KNN_K args = last_arg VEC0_IDXSTR_KIND_KNN_K args'"
    and "vec0Filter_knn True True junk p vi args = Some (SQLITE_OK, Some hs)"
    and "vec0Filter_knn True True junk p vi args' = Some (SQLITE_OK, Some hs')"
  shows "hs = hs'"
proof -
  obtain qa ka where a: "last_arg VEC0_IDXSTR_KIND_KNN_MATCH args = Some qa" "last_arg VEC0_IDXSTR_KIND_KNN_K args = Some ka"
    using assms(5) by (auto simp: vec0Filter_knn_def split: option.splits)
  note b = a [unfolded assms(3,4)]
  let ?k = "value_int64 (fa_value ka)"
  show ?thesis
  proof (cases "?k = 0")
    case True
    then show ?thesis using assms(5,6) a b by (simp add: vec0Filter_knn_def Let_def split: if_splits)
  next
    case False
    have "\<exists>mins. knn_search True junk p vi (rowids_in args0) mins (plain_args args0) (vector_data (fa_vector qa)) ?k
        = Some (SQLITE_OK, Some hs0)"
      if "last_arg VEC0_IDXSTR_KIND_KNN_MATCH args0 = Some qa" "last_arg VEC0_IDXSTR_KIND_KNN_K args0 = Some ka"
        "vec0Filter_knn True True junk p vi args0 = Some (SQLITE_OK, Some hs0)" for args0 hs0
      using that False by (auto simp: vec0Filter_knn_def Let_def split: if_splits option.splits)
    from this [OF a assms(5)] this [OF b assms(6)] show ?thesis
      using hybrid_search [OF assms(1,2)] by metis
  qed
qed

definition float_hybrid :: indexed_table where
  "float_hybrid = float_indexed\<lparr>indexMeta := Some (float_meta\<lparr>index_data :=
     Index_HYBRID \<lparr>kd_root = KDNode [0] 7 KDNull KDNull 0 1 False 0, kd_dimensions = 1, kd_tree_size = 1\<rparr>\<rparr>)\<rparr>"

definition float_query_in :: "(idx_entry \<times> filter_arg) list" where
  "float_query_in = float_query @ [(VEC0_IDXSTR_KIND_KNN_ROWID_IN, \<lparr>fa_value = int_value 0, fa_in = [int_value 8], fa_vector = None\<rparr>)]"

lemma float_query_in_args:
  "last_arg VEC0_IDXSTR_KIND_KNN_MATCH float_query_in = last_arg VEC0_IDXSTR_KIND_KNN_MATCH float_query"
  "last_arg VEC0_IDXSTR_KIND_KNN_K float_query_in = last_arg VEC0_IDXSTR_KIND_KNN_K float_query"
  "metadata_ins t float_query_in 0 = Some []"
  by (simp_all add: float_query_in_def float_query_def last_arg_def int_value_def)

theorem hybrid_query_ignores_constraints_witness:
  "\<exists>d. vec0Filter_knn True True sample_in float_hybrid 0 float_query = Some (SQLITE_OK, Some [(7, d)])
    \<and> vec0Filter_knn True True sample_in float_hybrid 0 float_query_in = Some (SQLITE_OK, Some [(7, d)])"
proof -
  let ?im = "float_meta\<lparr>index_data := Index_HYBRID \<lparr>kd_root = KDNode [0] 7 KDNull KDNull 0 1 False 0, kd_dimensions = 1, kd_tree_size = 1\<rparr>\<rparr>"
  have im: "indexMeta float_hybrid = Some ?im" by (simp add: float_hybrid_def)
  have no_chunks: "table_chunks (shadow float_hybrid) = []"
    by (simp add: table_chunks_def float_hybrid_def float_indexed_def float_table_def empty_table_def)
  have fits: "vector_fits (vector_columns (shadow float_hybrid) ! 0) (Some (SQLITE_VEC_ELEMENT_TYPE_FLOAT32, 1, [0, 0, 0, 0]))"
    by (simp add: vector_fits_def float_hybrid_def float_indexed_def float_table_def)
  have run: "\<exists>hs. vec0Filter_knn True True sample_in float_hybrid 0 args = Some (SQLITE_OK, Some hs)"
    if "last_arg VEC0_IDXSTR_KIND_KNN_MATCH args = last_arg VEC0_IDXSTR_KIND_KNN_MATCH float_query"
      "last_arg VEC0_IDXSTR_KIND_KNN_K args = last_arg VEC0_IDXSTR_KIND_KNN_K float_query"
      "metadata_ins (shadow float_hybrid) args 0 = Some []" for args
    using that fits
    by (simp add: vec0Filter_knn_def float_query_args [simplified] knn_search_def im no_chunks hybrid_def searchable_def
        index_search_def SQLITE_VEC_VEC0_K_MAX_def vec0Filter_chunks_to_rowid_map_def)
  obtain hs where hs: "vec0Filter_knn True True sample_in float_hybrid 0 float_query = Some (SQLITE_OK, Some hs)"
    using run [of float_query] float_query_args(4) by blast
  obtain hs' where hs': "vec0Filter_knn True True sample_in float_hybrid 0 float_query_in = Some (SQLITE_OK, Some hs')"
    using run [of float_query_in] float_query_in_args by blast
  have "hs = hs'"
    using hybrid_query_ignores_constraints [OF im _ float_query_in_args(1,2) hs' hs] by simp
  moreover have "\<exists>d. hs = [(7, d)]"
    using hs fits
    by (auto simp: vec0Filter_knn_def float_query_args [simplified] knn_search_def im no_chunks hybrid_def searchable_def
        index_search_def SQLITE_VEC_VEC0_K_MAX_def vec0Filter_chunks_to_rowid_map_def map_sort_def kdtree_topk_def K_EXT_def
        topk_insert_def Let_def)
  ultimately show ?thesis using hs hs' by auto
qed

end
