(* ===== verification/QueryPlan.thy ===== *)
theory QueryPlan
  imports FlatScan
begin

text \<open>
  The query planner of a \<open>vec0\<close> table (\<open>vec0BestIndex\<close> in \<^verbatim>\<open>sqlite-vec.c\<close>): from the constraints SQLITE
  offers it chooses a plan, the constraints whose values it wants as arguments, and a string with four
  characters per argument that tells \<open>vec0Filter\<close> what each argument is for.
\<close>

subsection \<open>Columns and constraints\<close>

datatype plan_column = Plan_Vector nat | Plan_Partition nat | Plan_Auxiliary nat | Plan_Metadata nat

text \<open>The user columns in order, and the kinds of the metadata columns.\<close>

record plan_table =
  plan_columns :: "plan_column list"
  plan_kinds :: "vec0_metadata_column_kind list"

datatype constraint_op =
    SQLITE_INDEX_CONSTRAINT_EQ | SQLITE_INDEX_CONSTRAINT_GT | SQLITE_INDEX_CONSTRAINT_LE
  | SQLITE_INDEX_CONSTRAINT_LT | SQLITE_INDEX_CONSTRAINT_GE | SQLITE_INDEX_CONSTRAINT_NE
  | SQLITE_INDEX_CONSTRAINT_MATCH | SQLITE_INDEX_CONSTRAINT_LIMIT | SQLITE_INDEX_CONSTRAINT_OFFSET
  | SQLITE_INDEX_CONSTRAINT_OTHER

text \<open>\<open>ic_in\<close> is what \<open>sqlite3_vtab_in\<close> says of the constraint: an equality that stands for \<open>in (...)\<close>.\<close>

record index_constraint =
  ic_column :: int
  ic_op :: constraint_op
  ic_usable :: bool
  ic_in :: bool

record order_by =
  ob_column :: int
  ob_desc :: bool

definition vec0_num_defined_user_columns :: "plan_table \<Rightarrow> int" where
  "vec0_num_defined_user_columns p = int (length (plan_columns p))"

definition vec0_column_distance_idx :: "plan_table \<Rightarrow> int" where
  "vec0_column_distance_idx p = 1 + (vec0_num_defined_user_columns p - 1) + 1"

definition vec0_column_k_idx :: "plan_table \<Rightarrow> int" where
  "vec0_column_k_idx p = 1 + (vec0_num_defined_user_columns p - 1) + 2"

definition column_at :: "plan_table \<Rightarrow> int \<Rightarrow> plan_column option" where
  "column_at p column_idx =
     (if column_idx \<ge> 1 \<and> column_idx \<le> 1 + vec0_num_defined_user_columns p - 1
      then Some (plan_columns p ! nat (column_idx - 1)) else None)"

definition vec0_column_idx_is_vector :: "plan_table \<Rightarrow> int \<Rightarrow> bool" where
  "vec0_column_idx_is_vector p i \<longleftrightarrow> (case column_at p i of Some (Plan_Vector _) \<Rightarrow> True | _ \<Rightarrow> False)"

definition vec0_column_idx_is_auxiliary :: "plan_table \<Rightarrow> int \<Rightarrow> bool" where
  "vec0_column_idx_is_auxiliary p i \<longleftrightarrow> (case column_at p i of Some (Plan_Auxiliary _) \<Rightarrow> True | _ \<Rightarrow> False)"

definition vec0_column_idx_to_vector_idx :: "plan_table \<Rightarrow> int \<Rightarrow> nat" where
  "vec0_column_idx_to_vector_idx p i = (case column_at p i of Some (Plan_Vector v) \<Rightarrow> v | _ \<Rightarrow> 0)"

subsection \<open>The terms of a query\<close>

record plan_terms =
  iMatchTerm :: "nat option"
  iMatchVectorTerm :: nat
  iLimitTerm :: "nat option"
  iRowidTerm :: "nat option"
  iKTerm :: "nat option"
  iRowidInTerm :: "nat option"
  hasAuxConstraint :: bool

definition no_terms :: plan_terms where
  "no_terms = \<lparr>iMatchTerm = None, iMatchVectorTerm = 0, iLimitTerm = None, iRowidTerm = None, iKTerm = None,
     iRowidInTerm = None, hasAuxConstraint = False\<rparr>"

text \<open>The body of the first loop, for the usable constraint \<open>c\<close> at position \<open>i\<close>.\<close>

definition find_term :: "plan_table \<Rightarrow> nat \<Rightarrow> index_constraint \<Rightarrow> plan_terms \<Rightarrow> plan_terms result" where
  "find_term p i c ts =
     (let vec = (ic_op c = SQLITE_INDEX_CONSTRAINT_MATCH \<and> vec0_column_idx_is_vector p (ic_column c));
          rid = (ic_op c = SQLITE_INDEX_CONSTRAINT_EQ \<and> ic_column c = 0)
      in if vec \<and> iMatchTerm ts \<noteq> None then Inl SQLITE_ERROR
         else if rid \<and> ic_in c \<and> iRowidInTerm ts \<noteq> None then Inl SQLITE_ERROR
         else Inr \<lparr>
           iMatchTerm = (if vec then Some i else iMatchTerm ts),
           iMatchVectorTerm = (if vec then vec0_column_idx_to_vector_idx p (ic_column c) else iMatchVectorTerm ts),
           iLimitTerm = (if ic_op c = SQLITE_INDEX_CONSTRAINT_LIMIT then Some i else iLimitTerm ts),
           iRowidTerm = (if rid \<and> \<not> ic_in c then Some i else iRowidTerm ts),
           iKTerm = (if ic_op c = SQLITE_INDEX_CONSTRAINT_EQ \<and> ic_column c = vec0_column_k_idx p then Some i else iKTerm ts),
           iRowidInTerm = (if rid \<and> ic_in c then Some i else iRowidInTerm ts),
           hasAuxConstraint = (hasAuxConstraint ts \<or> ic_op c \<noteq> SQLITE_INDEX_CONSTRAINT_LIMIT
             \<and> ic_op c \<noteq> SQLITE_INDEX_CONSTRAINT_OFFSET \<and> vec0_column_idx_is_auxiliary p (ic_column c))\<rparr>)"

fun find_terms :: "plan_table \<Rightarrow> nat \<Rightarrow> index_constraint list \<Rightarrow> plan_terms \<Rightarrow> plan_terms result" where
  "find_terms p i [] ts = Inr ts"
| "find_terms p i (c # cs) ts =
     (if \<not> ic_usable c then find_terms p (Suc i) cs ts
      else (case find_term p i c ts of Inl rc \<Rightarrow> Inl rc | Inr ts' \<Rightarrow> find_terms p (Suc i) cs ts'))"

subsection \<open>The arguments of the plan\<close>

text \<open>
  \<open>usage\<close> holds the \<open>argvIndex\<close> of every constraint, zero for a constraint whose value is not wanted; a
  constraint with an argument is also marked \<open>omit\<close>.
\<close>

record plan_state =
  ps_str :: string
  argvIndex :: nat
  usage :: "nat list"

definition add_arg :: "nat \<Rightarrow> string \<Rightarrow> plan_state \<Rightarrow> plan_state" where
  "add_arg i block st =
     \<lparr>ps_str = ps_str st @ block, argvIndex = argvIndex st + 1, usage = (usage st)[i := argvIndex st]\<rparr>"

definition kind_block :: "char \<Rightarrow> string" where
  "kind_block c = [c, CHR ''_'', CHR ''_'', CHR ''_'']"

definition column_block :: "char \<Rightarrow> nat \<Rightarrow> char \<Rightarrow> string" where
  "column_block c idx op = [c, char_of (65 + idx), op, CHR ''_'']"

definition partition_operator :: "constraint_op \<Rightarrow> char option" where
  "partition_operator op =
     (case op of
        SQLITE_INDEX_CONSTRAINT_EQ \<Rightarrow> Some CHR ''a''
      | SQLITE_INDEX_CONSTRAINT_GT \<Rightarrow> Some CHR ''b''
      | SQLITE_INDEX_CONSTRAINT_LE \<Rightarrow> Some CHR ''c''
      | SQLITE_INDEX_CONSTRAINT_LT \<Rightarrow> Some CHR ''d''
      | SQLITE_INDEX_CONSTRAINT_GE \<Rightarrow> Some CHR ''e''
      | SQLITE_INDEX_CONSTRAINT_NE \<Rightarrow> Some CHR ''f''
      | _ \<Rightarrow> None)"

fun add_partitions :: "plan_table \<Rightarrow> nat \<Rightarrow> index_constraint list \<Rightarrow> plan_state \<Rightarrow> plan_state" where
  "add_partitions p i [] st = st"
| "add_partitions p i (c # cs) st =
     add_partitions p (Suc i) cs
       (if \<not> ic_usable c then st
        else if ic_op c = SQLITE_INDEX_CONSTRAINT_LIMIT \<or> ic_op c = SQLITE_INDEX_CONSTRAINT_OFFSET then st
        else case column_at p (ic_column c) of
          Some (Plan_Partition idx) \<Rightarrow>
            (case partition_operator (ic_op c) of
               None \<Rightarrow> st
             | Some v \<Rightarrow> add_arg i (column_block CHR '']'' idx v) st)
        | _ \<Rightarrow> st)"

text \<open>The operator character of a metadata constraint; \<open>None\<close> is an error.\<close>

definition metadata_operator :: "vec0_metadata_column_kind \<Rightarrow> index_constraint \<Rightarrow> char option" where
  "metadata_operator k c =
     (let value = (if ic_op c = SQLITE_INDEX_CONSTRAINT_EQ \<and> ic_in c
                   then (case k of
                           VEC0_METADATA_COLUMN_KIND_FLOAT \<Rightarrow> None
                         | VEC0_METADATA_COLUMN_KIND_BOOLEAN \<Rightarrow> None
                         | _ \<Rightarrow> Some CHR ''g'')
                   else partition_operator (ic_op c))
      in case value of
           None \<Rightarrow> None
         | Some v \<Rightarrow> if k = VEC0_METADATA_COLUMN_KIND_BOOLEAN \<and> \<not> (v = CHR ''a'' \<or> v = CHR ''f'') then None else Some v)"

fun add_metadata :: "plan_table \<Rightarrow> nat \<Rightarrow> index_constraint list \<Rightarrow> plan_state \<Rightarrow> plan_state result" where
  "add_metadata p i [] st = Inr st"
| "add_metadata p i (c # cs) st =
     (if \<not> ic_usable c then add_metadata p (Suc i) cs st
      else if ic_op c = SQLITE_INDEX_CONSTRAINT_LIMIT \<or> ic_op c = SQLITE_INDEX_CONSTRAINT_OFFSET
      then add_metadata p (Suc i) cs st
      else case column_at p (ic_column c) of
        Some (Plan_Metadata idx) \<Rightarrow>
          (case metadata_operator (plan_kinds p ! idx) c of
             None \<Rightarrow> Inl SQLITE_ERROR
           | Some v \<Rightarrow> add_metadata p (Suc i) cs (add_arg i (column_block CHR ''&'' idx v) st))
      | _ \<Rightarrow> add_metadata p (Suc i) cs st)"

subsection \<open>The plan\<close>

record query_plan =
  idxStr :: string
  idxNum :: int
  plan_usage :: "nat list"

definition start_plan :: "char \<Rightarrow> nat \<Rightarrow> plan_state" where
  "start_plan c n = \<lparr>ps_str = [c], argvIndex = 1, usage = replicate n 0\<rparr>"

definition order_ok :: "plan_table \<Rightarrow> order_by list \<Rightarrow> bool" where
  "order_ok p orders \<longleftrightarrow>
     (orders = [] \<or> \<not> length orders > 1 \<and> \<not> ob_column (orders ! 0) \<noteq> vec0_column_distance_idx p \<and> \<not> ob_desc (orders ! 0))"

definition knn_plan :: "plan_table \<Rightarrow> index_constraint list \<Rightarrow> plan_terms \<Rightarrow> nat \<Rightarrow> nat \<Rightarrow> query_plan result" where
  "knn_plan p cs ts iMatch iCount =
     (let st1 = add_arg iMatch (kind_block CHR ''{'') (start_plan CHR ''3'' (length cs));
          st2 = add_arg iCount (kind_block CHR ''}'') st1;
          st3 = (case iRowidInTerm ts of None \<Rightarrow> st2 | Some i \<Rightarrow> add_arg i (kind_block CHR ''['') st2)
      in case add_metadata p 0 cs (add_partitions p 0 cs st3) of
           Inl rc \<Rightarrow> Inl rc
         | Inr st \<Rightarrow> Inr \<lparr>idxStr = ps_str st, idxNum = int (iMatchVectorTerm ts), plan_usage = usage st\<rparr>)"

text \<open>\<open>colUsed\<close> is the column mask SQLITE passes; the cost estimates are left out.\<close>

definition vec0BestIndex ::
  "plan_table \<Rightarrow> int \<Rightarrow> index_constraint list \<Rightarrow> order_by list \<Rightarrow> query_plan result" where
  "vec0BestIndex p colUsed cs orders =
     (case find_terms p 0 cs no_terms of
        Inl rc \<Rightarrow> Inl rc
      | Inr ts \<Rightarrow>
          (case iMatchTerm ts of
             Some iMatch \<Rightarrow>
               (case (iLimitTerm ts, iKTerm ts) of
                  (None, None) \<Rightarrow> Inl SQLITE_ERROR
                | (Some _, Some _) \<Rightarrow> Inl SQLITE_ERROR
                | (l, k) \<Rightarrow>
                    if \<not> order_ok p orders then Inl SQLITE_ERROR
                    else if hasAuxConstraint ts then Inl SQLITE_ERROR
                    else knn_plan p cs ts iMatch (case l of Some i \<Rightarrow> i | None \<Rightarrow> the k))
           | None \<Rightarrow>
               (case iRowidTerm ts of
                  Some i \<Rightarrow>
                    (let st = add_arg i (kind_block CHR ''!'') (start_plan CHR ''2'' (length cs))
                     in Inr \<lparr>idxStr = ps_str st, idxNum = colUsed, plan_usage = usage st\<rparr>)
                | None \<Rightarrow> Inr \<lparr>idxStr = [CHR ''1''], idxNum = 0, plan_usage = replicate (length cs) 0\<rparr>)))"

subsection \<open>Reading the plan\<close>

text \<open>The entry of argument \<open>j\<close>, as \<open>vec0Filter_knn\<close> and the scans read it.\<close>

definition metadata_op_of :: "char \<Rightarrow> vec0_metadata_operator option" where
  "metadata_op_of c =
     (if c = CHR ''a'' then Some VEC0_METADATA_OPERATOR_EQ
      else if c = CHR ''b'' then Some VEC0_METADATA_OPERATOR_GT
      else if c = CHR ''c'' then Some VEC0_METADATA_OPERATOR_LE
      else if c = CHR ''d'' then Some VEC0_METADATA_OPERATOR_LT
      else if c = CHR ''e'' then Some VEC0_METADATA_OPERATOR_GE
      else if c = CHR ''f'' then Some VEC0_METADATA_OPERATOR_NE
      else if c = CHR ''g'' then Some VEC0_METADATA_OPERATOR_IN
      else None)"

definition idx_entry_at :: "string \<Rightarrow> nat \<Rightarrow> idx_entry option" where
  "idx_entry_at s j =
     (let kd = s ! (1 + j * 4) in
      if kd = CHR ''{'' then Some VEC0_IDXSTR_KIND_KNN_MATCH
      else if kd = CHR ''}'' then Some VEC0_IDXSTR_KIND_KNN_K
      else if kd = CHR ''['' then Some VEC0_IDXSTR_KIND_KNN_ROWID_IN
      else if kd = CHR '']'' then Some VEC0_IDXSTR_KIND_KNN_PARTITON_CONSTRAINT
      else if kd = CHR ''!'' then Some VEC0_IDXSTR_KIND_POINT_ID
      else if kd = CHR ''&''
      then map_option (VEC0_IDXSTR_KIND_METADATA_CONSTRAINT (of_char (s ! (1 + j * 4 + 1)) - 65))
             (metadata_op_of (s ! (1 + j * 4 + 2)))
      else None)"

text \<open>The checks and the dispatch of \<open>vec0Filter\<close>.\<close>

datatype query_kind = VEC0_QUERY_PLAN_FULLSCAN | VEC0_QUERY_PLAN_POINT | VEC0_QUERY_PLAN_KNN

definition vec0Filter_plan :: "string \<Rightarrow> nat \<Rightarrow> query_kind result" where
  "vec0Filter_plan s argc =
     (if length s \<le> 0 then Inl SQLITE_ERROR
      else if (length s - 1) mod 4 \<noteq> 0 then Inl SQLITE_ERROR
      else if (length s - 1) div 4 \<noteq> argc then Inl SQLITE_ERROR
      else if s ! 0 = CHR ''1'' then Inr VEC0_QUERY_PLAN_FULLSCAN
      else if s ! 0 = CHR ''3'' then Inr VEC0_QUERY_PLAN_KNN
      else if s ! 0 = CHR ''2'' then Inr VEC0_QUERY_PLAN_POINT
      else Inl SQLITE_ERROR)"

end
