(* ===== verification/QueryPlan_Correct.thy ===== *)
theory QueryPlan_Correct
  imports QueryPlan
begin

text \<open>
  The plan that the planner hands to SQLITE is one that the filter accepts: there is one entry per
  argument, and the entry of an argument says what its constraint is.
\<close>

subsection \<open>The terms\<close>

definition terms_ok :: "plan_table \<Rightarrow> index_constraint list \<Rightarrow> plan_terms \<Rightarrow> bool" where
  "terms_ok p cs ts \<longleftrightarrow>
     (\<forall>i. iMatchTerm ts = Some i \<longrightarrow> i < length cs \<and> ic_op (cs ! i) = SQLITE_INDEX_CONSTRAINT_MATCH)
     \<and> (\<forall>i. iLimitTerm ts = Some i \<longrightarrow> i < length cs \<and> ic_op (cs ! i) = SQLITE_INDEX_CONSTRAINT_LIMIT)
     \<and> (\<forall>i. iRowidTerm ts = Some i \<longrightarrow> i < length cs \<and> ic_op (cs ! i) = SQLITE_INDEX_CONSTRAINT_EQ
          \<and> ic_column (cs ! i) = 0 \<and> \<not> ic_in (cs ! i))
     \<and> (\<forall>i. iKTerm ts = Some i \<longrightarrow> i < length cs \<and> ic_op (cs ! i) = SQLITE_INDEX_CONSTRAINT_EQ
          \<and> ic_column (cs ! i) = vec0_column_k_idx p)
     \<and> (\<forall>i. iRowidInTerm ts = Some i \<longrightarrow> i < length cs \<and> ic_op (cs ! i) = SQLITE_INDEX_CONSTRAINT_EQ
          \<and> ic_column (cs ! i) = 0 \<and> ic_in (cs ! i))
     \<and> (\<forall>i. iMatchTerm ts = Some i \<longrightarrow> vec0_column_idx_is_vector p (ic_column (cs ! i)))"

lemma find_term_ok:
  assumes "terms_ok p cs ts" and "i < length cs" and "find_term p i (cs ! i) ts = Inr ts'"
  shows "terms_ok p cs ts'"
proof -
  let ?c = "cs ! i"
  have ts': "iMatchTerm ts' = (if ic_op ?c = SQLITE_INDEX_CONSTRAINT_MATCH \<and> vec0_column_idx_is_vector p (ic_column ?c)
      then Some i else iMatchTerm ts)"
    "iLimitTerm ts' = (if ic_op ?c = SQLITE_INDEX_CONSTRAINT_LIMIT then Some i else iLimitTerm ts)"
    "iRowidTerm ts' = (if ic_op ?c = SQLITE_INDEX_CONSTRAINT_EQ \<and> ic_column ?c = 0 \<and> \<not> ic_in ?c then Some i else iRowidTerm ts)"
    "iKTerm ts' = (if ic_op ?c = SQLITE_INDEX_CONSTRAINT_EQ \<and> ic_column ?c = vec0_column_k_idx p then Some i else iKTerm ts)"
    "iRowidInTerm ts' = (if ic_op ?c = SQLITE_INDEX_CONSTRAINT_EQ \<and> ic_column ?c = 0 \<and> ic_in ?c then Some i else iRowidInTerm ts)"
    using assms(3) by (simp_all add: find_term_def Let_def split: if_split_asm) fastforce+
  show ?thesis using assms(1,2) unfolding terms_ok_def ts' by (simp split: if_split)
qed

lemma find_terms_ok:
  "terms_ok p (pre @ cs) ts \<Longrightarrow> find_terms p (length pre) cs ts = Inr ts' \<Longrightarrow> terms_ok p (pre @ cs) ts'"
proof (induction cs arbitrary: pre ts)
  case (Cons c cs)
  show ?case
  proof (cases "ic_usable c")
    case False
    then show ?thesis using Cons.IH [of "pre @ [c]" ts] Cons.prems by simp
  next
    case True
    then obtain ts1 where "find_term p (length pre) c ts = Inr ts1" "find_terms p (Suc (length pre)) cs ts1 = Inr ts'"
      using Cons.prems(2) by (auto split: sum.splits)
    moreover from this have "terms_ok p (pre @ c # cs) ts1"
      using find_term_ok [OF Cons.prems(1), of "length pre" ts1] by simp
    ultimately show ?thesis using Cons.IH [of "pre @ [c]" ts1] by simp
  qed
qed simp

subsection \<open>The entries\<close>

text \<open>What a constraint is to the query.\<close>

definition metadata_op_for :: "index_constraint \<Rightarrow> vec0_metadata_operator" where
  "metadata_op_for c =
     (case ic_op c of
        SQLITE_INDEX_CONSTRAINT_GT \<Rightarrow> VEC0_METADATA_OPERATOR_GT
      | SQLITE_INDEX_CONSTRAINT_LE \<Rightarrow> VEC0_METADATA_OPERATOR_LE
      | SQLITE_INDEX_CONSTRAINT_LT \<Rightarrow> VEC0_METADATA_OPERATOR_LT
      | SQLITE_INDEX_CONSTRAINT_GE \<Rightarrow> VEC0_METADATA_OPERATOR_GE
      | SQLITE_INDEX_CONSTRAINT_NE \<Rightarrow> VEC0_METADATA_OPERATOR_NE
      | _ \<Rightarrow> if ic_in c then VEC0_METADATA_OPERATOR_IN else VEC0_METADATA_OPERATOR_EQ)"

definition entry_for :: "plan_table \<Rightarrow> index_constraint \<Rightarrow> idx_entry" where
  "entry_for p c =
     (if ic_op c = SQLITE_INDEX_CONSTRAINT_MATCH then VEC0_IDXSTR_KIND_KNN_MATCH
      else if ic_op c = SQLITE_INDEX_CONSTRAINT_LIMIT then VEC0_IDXSTR_KIND_KNN_K
      else if ic_column c = 0 then (if ic_in c then VEC0_IDXSTR_KIND_KNN_ROWID_IN else VEC0_IDXSTR_KIND_POINT_ID)
      else case column_at p (ic_column c) of
        Some (Plan_Partition _) \<Rightarrow> VEC0_IDXSTR_KIND_KNN_PARTITON_CONSTRAINT
      | Some (Plan_Metadata idx) \<Rightarrow> VEC0_IDXSTR_KIND_METADATA_CONSTRAINT idx (metadata_op_for c)
      | _ \<Rightarrow> VEC0_IDXSTR_KIND_KNN_K)"

text \<open>
  The arguments are numbered from one without gaps, no two constraints share a number, and the entry at
  the number of a constraint is the entry for it.
\<close>

definition numbered :: "plan_table \<Rightarrow> index_constraint list \<Rightarrow> string \<Rightarrow> nat list \<Rightarrow> nat \<Rightarrow> bool" where
  "numbered p cs s us n \<longleftrightarrow>
     length s = 1 + n * 4 \<and> length us = length cs
     \<and> (\<forall>i<length cs. us ! i \<le> n)
     \<and> (\<forall>j<n. \<exists>i<length cs. us ! i = Suc j)
     \<and> (\<forall>i<length cs. \<forall>i'<length cs. us ! i = us ! i' \<longrightarrow> us ! i \<noteq> 0 \<longrightarrow> i = i')
     \<and> (\<forall>i<length cs. \<forall>j. us ! i = Suc j \<longrightarrow> idx_entry_at s j = Some (entry_for p (cs ! i)))"

definition state_ok :: "plan_table \<Rightarrow> index_constraint list \<Rightarrow> plan_state \<Rightarrow> bool" where
  "state_ok p cs st \<longleftrightarrow> 0 < argvIndex st \<and> numbered p cs (ps_str st) (usage st) (argvIndex st - 1)"

lemma start_ok: "state_ok p cs (start_plan c (length cs))"
  by (simp add: state_ok_def numbered_def start_plan_def)

lemma idx_entry_at_cong:
  assumes "s ! (1 + j * 4) = s' ! (1 + j' * 4)" and "s ! (1 + j * 4 + 1) = s' ! (1 + j' * 4 + 1)"
    and "s ! (1 + j * 4 + 2) = s' ! (1 + j' * 4 + 2)"
  shows "idx_entry_at s j = idx_entry_at s' j'"
  unfolding idx_entry_at_def assms ..

lemma entry_at_append_old: "length s = 1 + n * 4 \<Longrightarrow> j < n \<Longrightarrow> idx_entry_at (s @ block) j = idx_entry_at s j"
  by (rule idx_entry_at_cong) (simp_all add: nth_append)

lemma entry_at_append_new:
  assumes "length s = 1 + n * 4" and "length block = 4"
  shows "idx_entry_at (s @ block) n = idx_entry_at (CHR ''_'' # block) 0"
proof -
  have "(s @ block) ! (1 + n * 4 + i) = (CHR ''_'' # block) ! (1 + 0 * 4 + i)" if "i < 3" for i
    using assms that by (simp add: nth_append)
  from this [of 0] this [of 1] this [of 2] show ?thesis by (intro idx_entry_at_cong) simp_all
qed

lemma add_arg_ok:
  assumes "state_ok p cs st" and "i < length cs" and "usage st ! i = 0" and "length block = 4"
    and "idx_entry_at (CHR ''_'' # block) 0 = Some (entry_for p (cs ! i))"
  shows "state_ok p cs (add_arg i block st)"
proof -
  obtain n where n: "argvIndex st = Suc n" using assms(1) by (cases "argvIndex st") (auto simp: state_ok_def)
  have num: "numbered p cs (ps_str st) (usage st) n" using assms(1) n by (simp add: state_ok_def)
  let ?us = "(usage st)[i := Suc n]" and ?s = "ps_str st @ block"
  have us: "?us ! i' = (if i' = i then Suc n else usage st ! i')" if "i' < length cs" for i'
    using that num by (simp add: numbered_def nth_list_update)
  have low: "usage st ! i' \<le> n" if "i' < length cs" for i' using that num by (simp add: numbered_def)
  have "\<exists>i'<length cs. ?us ! i' = Suc j" if jn: "j < Suc n" for j
  proof (cases "j = n")
    case True
    then show ?thesis using us assms(2) by auto
  next
    case False
    then have "j < n" using jn by simp
    then obtain i' where "i' < length cs" "usage st ! i' = Suc j" using num unfolding numbered_def by blast
    then show ?thesis using us assms(3) by (metis nat.distinct(1))
  qed
  moreover have "i1 = i2" if "i1 < length cs" "i2 < length cs" "?us ! i1 = ?us ! i2" "?us ! i1 \<noteq> 0" for i1 i2
    using that num us low [of i1] low [of i2] by (auto simp: numbered_def split: if_splits)
  moreover have "idx_entry_at ?s j = Some (entry_for p (cs ! i'))" if "i' < length cs" "?us ! i' = Suc j" for i' j
  proof (cases "i' = i")
    case True
    then show ?thesis
      using that us num assms(4,5) entry_at_append_new [of "ps_str st" n block] by (simp add: numbered_def)
  next
    case False
    then have "usage st ! i' = Suc j" "j < n" using that us low [of i'] by auto
    then show ?thesis using that(1) num entry_at_append_old [of "ps_str st" n j block] by (simp add: numbered_def)
  qed
  moreover have "?us ! i' \<le> Suc n" if "i' < length cs" for i' using us low that by (simp add: le_SucI)
  ultimately have "numbered p cs ?s ?us (Suc n)" using num assms(4) unfolding numbered_def by simp
  then show ?thesis using n by (simp add: state_ok_def add_arg_def)
qed

lemma add_arg_usage:
  "i' \<noteq> i \<Longrightarrow> usage (add_arg i block st) ! i' = usage st ! i'" "length (usage (add_arg i block st)) = length (usage st)"
  by (simp_all add: add_arg_def)

lemma kind_block_entry:
  "idx_entry_at (CHR ''_'' # kind_block CHR ''{'') 0 = Some VEC0_IDXSTR_KIND_KNN_MATCH"
  "idx_entry_at (CHR ''_'' # kind_block CHR ''}'') 0 = Some VEC0_IDXSTR_KIND_KNN_K"
  "idx_entry_at (CHR ''_'' # kind_block CHR ''['') 0 = Some VEC0_IDXSTR_KIND_KNN_ROWID_IN"
  "idx_entry_at (CHR ''_'' # kind_block CHR ''!'') 0 = Some VEC0_IDXSTR_KIND_POINT_ID"
  "length (kind_block c) = 4"
  by (simp_all add: idx_entry_at_def kind_block_def)

lemma column_block_entry:
  "idx_entry_at (CHR ''_'' # column_block CHR '']'' idx v) 0 = Some VEC0_IDXSTR_KIND_KNN_PARTITON_CONSTRAINT"
  "idx < 16 \<Longrightarrow> idx_entry_at (CHR ''_'' # column_block CHR ''&'' idx v) 0 =
     map_option (VEC0_IDXSTR_KIND_METADATA_CONSTRAINT idx) (metadata_op_of v)"
  "length (column_block c idx v) = 4"
  by (simp_all add: idx_entry_at_def column_block_def)

lemma metadata_operator_entry:
  "metadata_operator k c = Some v \<Longrightarrow> metadata_op_of v = Some (metadata_op_for c)
     \<and> ic_op c \<notin> {SQLITE_INDEX_CONSTRAINT_MATCH, SQLITE_INDEX_CONSTRAINT_LIMIT}"
  by (cases "ic_op c"; cases k; cases "ic_in c")
    (auto simp: metadata_operator_def partition_operator_def metadata_op_of_def metadata_op_for_def Let_def split: if_splits)

subsection \<open>The column constraints\<close>

definition partition_at :: "plan_table \<Rightarrow> index_constraint \<Rightarrow> bool" where
  "partition_at p c \<longleftrightarrow> ic_op c \<noteq> SQLITE_INDEX_CONSTRAINT_LIMIT
     \<and> (\<exists>idx. column_at p (ic_column c) = Some (Plan_Partition idx))"

definition metadata_at :: "plan_table \<Rightarrow> index_constraint \<Rightarrow> bool" where
  "metadata_at p c \<longleftrightarrow> ic_op c \<noteq> SQLITE_INDEX_CONSTRAINT_LIMIT
     \<and> (\<exists>idx. column_at p (ic_column c) = Some (Plan_Metadata idx))"

definition unused_from :: "(index_constraint \<Rightarrow> bool) \<Rightarrow> index_constraint list \<Rightarrow> nat \<Rightarrow> plan_state \<Rightarrow> bool" where
  "unused_from Q cs i st \<longleftrightarrow> (\<forall>i'. i \<le> i' \<longrightarrow> i' < length cs \<longrightarrow> Q (cs ! i') \<longrightarrow> usage st ! i' = 0)"

lemma unused_from_Suc: "unused_from Q cs i st \<Longrightarrow> unused_from Q cs (Suc i) st"
  by (simp add: unused_from_def)

lemma unused_from_add_arg: "unused_from Q cs i st \<Longrightarrow> unused_from Q cs (Suc i) (add_arg i block st)"
  by (simp add: unused_from_def add_arg_def)

lemma column_at_zero: "column_at p 0 = None"
  by (simp add: column_at_def)

lemma partition_operator_entry:
  "partition_operator (ic_op c) = Some v \<Longrightarrow> column_at p (ic_column c) = Some (Plan_Partition idx) \<Longrightarrow>
     entry_for p c = VEC0_IDXSTR_KIND_KNN_PARTITON_CONSTRAINT"
  by (cases "ic_column c = 0") (auto simp: entry_for_def partition_operator_def column_at_zero split: constraint_op.splits)

lemma metadata_entry_for:
  assumes "metadata_operator k c = Some v" and "column_at p (ic_column c) = Some (Plan_Metadata idx)" and "idx < 16"
  shows "idx_entry_at (CHR ''_'' # column_block CHR ''&'' idx v) 0 = Some (entry_for p c)"
  using metadata_operator_entry [OF assms(1)] assms(2,3)
  by (cases "ic_column c = 0") (auto simp: entry_for_def column_block_entry column_at_zero)

lemma add_partitions_ok:
  "state_ok p (pre @ cs) st \<Longrightarrow> unused_from (partition_at p) (pre @ cs) (length pre) st \<Longrightarrow>
   st' = add_partitions p (length pre) cs st \<Longrightarrow>
   state_ok p (pre @ cs) st' \<and> (\<forall>i<length (pre @ cs). \<not> partition_at p ((pre @ cs) ! i) \<longrightarrow> usage st' ! i = usage st ! i)"
proof (induction cs arbitrary: pre st)
  case (Cons c cs)
  let ?st1 = "(if \<not> ic_usable c then st
        else if ic_op c = SQLITE_INDEX_CONSTRAINT_LIMIT \<or> ic_op c = SQLITE_INDEX_CONSTRAINT_OFFSET then st
        else case column_at p (ic_column c) of
          Some (Plan_Partition idx) \<Rightarrow>
            (case partition_operator (ic_op c) of
               None \<Rightarrow> st
             | Some v \<Rightarrow> add_arg (length pre) (column_block CHR '']'' idx v) st)
        | _ \<Rightarrow> st)"
  have st': "st' = add_partitions p (length (pre @ [c])) cs ?st1" using Cons.prems(3) by simp
  consider "?st1 = st"
    | idx v where "ic_op c \<noteq> SQLITE_INDEX_CONSTRAINT_LIMIT" "column_at p (ic_column c) = Some (Plan_Partition idx)"
        "partition_operator (ic_op c) = Some v" "?st1 = add_arg (length pre) (column_block CHR '']'' idx v) st"
    by (cases "ic_usable c"; cases "ic_op c = SQLITE_INDEX_CONSTRAINT_LIMIT \<or> ic_op c = SQLITE_INDEX_CONSTRAINT_OFFSET";
      cases "column_at p (ic_column c)"; cases "the (column_at p (ic_column c))"; cases "partition_operator (ic_op c)") auto
  then show ?case
  proof cases
    case 1
    then show ?thesis
      using Cons.IH [of "pre @ [c]" st] st' Cons.prems(1) unused_from_Suc [OF Cons.prems(2)] by simp
  next
    case 2
    have at: "partition_at p c" using 2 by (simp add: partition_at_def)
    have "usage st ! length pre = 0" using Cons.prems(2) at by (simp add: unused_from_def)
    then have "state_ok p (pre @ c # cs) ?st1"
      using 2 Cons.prems(1) by (simp add: add_arg_ok column_block_entry partition_operator_entry)
    moreover have "unused_from (partition_at p) (pre @ c # cs) (Suc (length pre)) ?st1"
      using 2 unused_from_add_arg [OF Cons.prems(2)] by simp
    ultimately have "state_ok p (pre @ c # cs) st' \<and> (\<forall>i<length (pre @ c # cs). \<not> partition_at p ((pre @ c # cs) ! i) \<longrightarrow>
        usage st' ! i = usage ?st1 ! i)"
      using Cons.IH [of "pre @ [c]" ?st1] st' by simp
    moreover have "usage ?st1 ! i = usage st ! i" if "\<not> partition_at p ((pre @ c # cs) ! i)" for i
      using that at 2 add_arg_usage(1) [of i "length pre"] by (cases "i = length pre") simp_all
    ultimately show ?thesis by simp
  qed
qed simp

lemma add_metadata_ok:
  "state_ok p (pre @ cs) st \<Longrightarrow> unused_from (metadata_at p) (pre @ cs) (length pre) st \<Longrightarrow>
   (\<And>i idx. column_at p i = Some (Plan_Metadata idx) \<Longrightarrow> idx < 16) \<Longrightarrow>
   add_metadata p (length pre) cs st = Inr st' \<Longrightarrow> state_ok p (pre @ cs) st' \<and> hd (ps_str st') = hd (ps_str st)"
proof (induction cs arbitrary: pre st)
  case (Cons c cs)
  consider "add_metadata p (length (pre @ [c])) cs st = Inr st'"
    | idx v where "ic_op c \<noteq> SQLITE_INDEX_CONSTRAINT_LIMIT" "column_at p (ic_column c) = Some (Plan_Metadata idx)"
        "metadata_operator (plan_kinds p ! idx) c = Some v"
        "add_metadata p (length (pre @ [c])) cs (add_arg (length pre) (column_block CHR ''&'' idx v) st) = Inr st'"
    using Cons.prems(4)
    by (cases "ic_usable c"; cases "column_at p (ic_column c)")
      (auto split: plan_column.splits option.splits if_splits)
  then show ?case
  proof cases
    case 1
    then show ?thesis
      using Cons.IH [of "pre @ [c]" st] Cons.prems(1,3) unused_from_Suc [OF Cons.prems(2)] by simp
  next
    case 2
    let ?st1 = "add_arg (length pre) (column_block CHR ''&'' idx v) st"
    have "metadata_at p c" using 2 by (simp add: metadata_at_def)
    then have "usage st ! length pre = 0" using Cons.prems(2) by (simp add: unused_from_def)
    then have "state_ok p (pre @ c # cs) ?st1"
      using 2 Cons.prems(1) metadata_entry_for [OF 2(3,2) Cons.prems(3) [OF 2(2)]]
      by (simp add: add_arg_ok column_block_entry(3))
    moreover have "ps_str st \<noteq> []" using Cons.prems(1) by (auto simp: state_ok_def numbered_def)
    ultimately show ?thesis
      using Cons.IH [of "pre @ [c]" ?st1] Cons.prems(3) 2(4) unused_from_add_arg [OF Cons.prems(2)]
      by (simp add: add_arg_def)
  qed
qed simp

lemma hd_add_partitions: "ps_str st \<noteq> [] \<Longrightarrow> hd (ps_str (add_partitions p i cs st)) = hd (ps_str st)"
  by (induction p i cs st rule: add_partitions.induct)
    (auto simp: add_arg_def split: option.splits plan_column.splits)

subsection \<open>The plan is accepted\<close>

definition vector_match :: "plan_table \<Rightarrow> index_constraint \<Rightarrow> bool" where
  "vector_match p c \<longleftrightarrow> ic_usable c \<and> ic_op c = SQLITE_INDEX_CONSTRAINT_MATCH \<and> vec0_column_idx_is_vector p (ic_column c)"

lemma find_terms_match:
  "find_terms p i cs ts = Inr ts' \<Longrightarrow> iMatchTerm ts' \<noteq> None \<longleftrightarrow> iMatchTerm ts \<noteq> None \<or> (\<exists>c\<in>set cs. vector_match p c)"
proof (induction p i cs ts rule: find_terms.induct)
  case (2 p i c cs ts)
  show ?case
  proof (cases "ic_usable c")
    case True
    then obtain ts1 where ts1: "find_term p i c ts = Inr ts1" "find_terms p (Suc i) cs ts1 = Inr ts'"
      using 2(3) by (auto split: sum.splits)
    then have "iMatchTerm ts1 \<noteq> None \<longleftrightarrow> iMatchTerm ts \<noteq> None \<or> vector_match p c"
      using True by (auto simp: find_term_def vector_match_def Let_def split: if_splits)
    then show ?thesis using 2(2) [of ts1] True ts1 by auto
  qed (use 2 in \<open>auto simp: vector_match_def\<close>)
qed simp

lemma numbered_count:
  assumes "numbered p cs s us n"
  shows "length (filter (\<lambda>u. u \<noteq> 0) us) = n"
proof -
  let ?used = "{i. i < length us \<and> us ! i \<noteq> 0}"
  have len: "length us = length cs" using assms by (simp add: numbered_def)
  have "inj_on ((!) us) ?used" using assms len by (auto simp: inj_on_def numbered_def)
  moreover have "(!) us ` ?used = {1..n}"
  proof (intro equalityI subsetI)
    fix u assume "u \<in> (!) us ` ?used"
    then show "u \<in> {1..n}" using assms len by (auto simp: numbered_def)
  next
    fix u assume "u \<in> {1..n}"
    then obtain j where "u = Suc j" "j < n" by (cases u) auto
    then obtain i where "i < length us" "us ! i = u" using assms len unfolding numbered_def by metis
    then show "u \<in> (!) us ` ?used" using \<open>u = Suc j\<close> by (intro image_eqI [of _ _ i]) simp_all
  qed
  ultimately have "card ?used = n" using card_image [of "(!) us" ?used] by simp
  then show ?thesis by (simp add: length_filter_conv_card)
qed

lemma no_vector_column:
  "vec0_column_idx_is_vector p (ic_column c) \<Longrightarrow> \<not> partition_at p c \<and> \<not> metadata_at p c"
  by (auto simp: vec0_column_idx_is_vector_def partition_at_def metadata_at_def split: option.splits)

lemma no_user_column:
  "column_at p (ic_column c) = None \<or> ic_op c = SQLITE_INDEX_CONSTRAINT_LIMIT \<Longrightarrow> \<not> partition_at p c \<and> \<not> metadata_at p c"
  by (auto simp: partition_at_def metadata_at_def)

lemma column_at_k: "column_at p (vec0_column_k_idx p) = None"
  by (simp add: column_at_def vec0_column_k_idx_def)

lemma k_idx_pos: "vec0_column_k_idx p \<noteq> 0"
  by (simp add: vec0_column_k_idx_def vec0_num_defined_user_columns_def)

lemma count_entry:
  "ic_op c = SQLITE_INDEX_CONSTRAINT_LIMIT \<or> ic_op c = SQLITE_INDEX_CONSTRAINT_EQ \<and> ic_column c = vec0_column_k_idx p \<Longrightarrow>
     entry_for p c = VEC0_IDXSTR_KIND_KNN_K"
  by (auto simp: entry_for_def column_at_k k_idx_pos)

text \<open>The three fixed arguments are at different constraints, none of which is on a partition or metadata column.\<close>

lemma fixed_args_ok:
  assumes ok: "terms_ok p cs ts" and m: "iMatchTerm ts = Some m"
    and l: "l < length cs" "ic_op (cs ! l) = SQLITE_INDEX_CONSTRAINT_LIMIT
      \<or> ic_op (cs ! l) = SQLITE_INDEX_CONSTRAINT_EQ \<and> ic_column (cs ! l) = vec0_column_k_idx p"
    and st2: "st2 = add_arg l (kind_block CHR ''}'') (add_arg m (kind_block CHR ''{'') (start_plan CHR ''3'' (length cs)))"
    and st3: "st3 = (case iRowidInTerm ts of None \<Rightarrow> st2 | Some i \<Rightarrow> add_arg i (kind_block CHR ''['') st2)"
  shows "state_ok p cs st3 \<and> hd (ps_str st3) = CHR ''3''
    \<and> (\<forall>i<length cs. partition_at p (cs ! i) \<or> metadata_at p (cs ! i) \<longrightarrow> usage st3 ! i = 0)"
proof -
  have m': "m < length cs" "ic_op (cs ! m) = SQLITE_INDEX_CONSTRAINT_MATCH" "vec0_column_idx_is_vector p (ic_column (cs ! m))"
    using ok m by (simp_all add: terms_ok_def)
  have ml: "m \<noteq> l" using m'(2) l(2) by auto
  let ?st1 = "add_arg m (kind_block CHR ''{'') (start_plan CHR ''3'' (length cs))"
  have zero: "usage (start_plan CHR ''3'' (length cs)) ! i = 0" if "i < length cs" for i
    using that by (simp add: start_plan_def)
  have st1_ok: "state_ok p cs ?st1"
    by (rule add_arg_ok) (simp_all add: start_ok m' zero kind_block_entry entry_for_def)
  have st2_ok: "state_ok p cs st2"
    unfolding st2 by (rule add_arg_ok) (simp_all add: st1_ok l(1) zero kind_block_entry count_entry [OF l(2)] add_arg_usage(1) ml [symmetric])
  have st2_zero: "usage st2 ! i = 0" if "i < length cs" "i \<noteq> m" "i \<noteq> l" for i
    using that by (simp add: st2 add_arg_usage(1) zero)
  have hd2: "hd (ps_str st2) = CHR ''3''" "ps_str st2 \<noteq> []" by (simp_all add: st2 add_arg_def start_plan_def)
  have none: "\<not> (partition_at p (cs ! i) \<or> metadata_at p (cs ! i))" if "i = m \<or> i = l" for i
    using that no_vector_column [OF m'(3)] no_user_column [of p "cs ! l"] l(2) column_at_k by auto
  show ?thesis
  proof (cases "iRowidInTerm ts")
    case None
    then show ?thesis using st3 st2_ok hd2 st2_zero none by auto
  next
    case (Some r)
    then have r: "r < length cs" "ic_op (cs ! r) = SQLITE_INDEX_CONSTRAINT_EQ" "ic_column (cs ! r) = 0" "ic_in (cs ! r)"
      using ok by (simp_all add: terms_ok_def)
    have rm: "r \<noteq> m" "r \<noteq> l" using r m'(2) l(2) k_idx_pos [of p] by auto
    have st3': "st3 = add_arg r (kind_block CHR ''['') st2" using st3 Some by simp
    have "state_ok p cs st3"
      unfolding st3' by (rule add_arg_ok) (simp_all add: st2_ok r st2_zero rm kind_block_entry entry_for_def)
    moreover have "usage st3 ! i = 0" if "i < length cs" "partition_at p (cs ! i) \<or> metadata_at p (cs ! i)" for i
    proof -
      have "i \<noteq> r" using that(2) no_user_column [of p "cs ! r"] r(3) column_at_zero by auto
      moreover have "i \<noteq> m" "i \<noteq> l" using that(2) none by auto
      ultimately show ?thesis using that(1) by (simp add: st3' add_arg_usage(1) st2_zero)
    qed
    moreover have "hd (ps_str st3) = CHR ''3''" using hd2 by (simp add: st3' add_arg_def)
    ultimately show ?thesis by blast
  qed
qed

lemma knn_plan_ok:
  assumes "terms_ok p cs ts" and "iMatchTerm ts = Some m"
    and "l < length cs" and "ic_op (cs ! l) = SQLITE_INDEX_CONSTRAINT_LIMIT
      \<or> ic_op (cs ! l) = SQLITE_INDEX_CONSTRAINT_EQ \<and> ic_column (cs ! l) = vec0_column_k_idx p"
    and small: "\<And>i idx. column_at p i = Some (Plan_Metadata idx) \<Longrightarrow> idx < 16"
    and plan: "knn_plan p cs ts m l = Inr plan"
  shows "(\<exists>n. numbered p cs (idxStr plan) (plan_usage plan) n) \<and> hd (idxStr plan) = CHR ''3''"
proof -
  define st2 where "st2 = add_arg l (kind_block CHR ''}'') (add_arg m (kind_block CHR ''{'') (start_plan CHR ''3'' (length cs)))"
  define st3 where "st3 = (case iRowidInTerm ts of None \<Rightarrow> st2 | Some i \<Rightarrow> add_arg i (kind_block CHR ''['') st2)"
  define st4 where "st4 = add_partitions p 0 cs st3"
  note fixed = fixed_args_ok [OF assms(1-4) st2_def st3_def]
  have part: "state_ok p cs st4 \<and> (\<forall>i<length cs. \<not> partition_at p (cs ! i) \<longrightarrow> usage st4 ! i = usage st3 ! i)"
    using add_partitions_ok [of p "[]" cs st3 st4] fixed by (simp add: unused_from_def st4_def)
  obtain st where st: "add_metadata p 0 cs st4 = Inr st" "idxStr plan = ps_str st" "plan_usage plan = usage st"
    using plan unfolding knn_plan_def Let_def st2_def [symmetric] st3_def [symmetric] st4_def [symmetric]
    by (auto split: sum.splits)
  have "unused_from (metadata_at p) cs 0 st4"
    using part fixed by (auto simp: unused_from_def metadata_at_def partition_at_def)
  then have "state_ok p cs st \<and> hd (ps_str st) = hd (ps_str st4)"
    using add_metadata_ok [of p "[]" cs st4 st] part small st(1) by simp
  moreover have "ps_str st3 \<noteq> []" using fixed by (auto simp: state_ok_def numbered_def)
  then have "hd (ps_str st4) = CHR ''3''" using fixed hd_add_partitions by (simp add: st4_def)
  ultimately show ?thesis using st by (auto simp: state_ok_def)
qed

lemma column_at_mem: "column_at p i = Some col \<Longrightarrow> col \<in> set (plan_columns p)"
  by (auto simp: column_at_def vec0_num_defined_user_columns_def split: if_splits)

definition argument_count :: "query_plan \<Rightarrow> nat" where
  "argument_count plan = length (filter (\<lambda>u. u \<noteq> 0) (plan_usage plan))"

lemma filter_accepts:
  assumes "numbered p cs s us n" and "hd s = CHR ''1'' \<and> k = VEC0_QUERY_PLAN_FULLSCAN
    \<or> hd s = CHR ''2'' \<and> k = VEC0_QUERY_PLAN_POINT \<or> hd s = CHR ''3'' \<and> k = VEC0_QUERY_PLAN_KNN"
  shows "vec0Filter_plan s n = Inr k"
proof -
  have "length s = 1 + n * 4" using assms(1) by (simp add: numbered_def)
  moreover from this have "s ! 0 = hd s" by (cases s) simp_all
  ultimately show ?thesis using assms(2) by (auto simp: vec0Filter_plan_def)
qed

lemma best_index_cases:
  assumes "vec0BestIndex p colUsed cs orders = Inr plan"
    and small: "\<And>i idx. column_at p i = Some (Plan_Metadata idx) \<Longrightarrow> idx < 16"
  shows "(\<exists>n. numbered p cs (idxStr plan) (plan_usage plan) n)
    \<and> hd (idxStr plan) = (if \<exists>c\<in>set cs. vector_match p c then CHR ''3''
        else if argument_count plan = 0 then CHR ''1'' else CHR ''2'')"
proof -
  obtain ts where ts: "find_terms p 0 cs no_terms = Inr ts"
    using assms(1) by (auto simp: vec0BestIndex_def split: sum.splits)
  have ok: "terms_ok p cs ts"
    using find_terms_ok [of p "[]" cs no_terms ts] ts by (simp add: terms_ok_def no_terms_def)
  have match: "iMatchTerm ts \<noteq> None \<longleftrightarrow> (\<exists>c\<in>set cs. vector_match p c)"
    using find_terms_match [OF ts] by (simp add: no_terms_def)
  show ?thesis
  proof (cases "iMatchTerm ts")
    case (Some m)
    then obtain l where l: "knn_plan p cs ts m l = Inr plan" "iLimitTerm ts = Some l \<or> iKTerm ts = Some l"
      using assms(1) ts by (auto simp: vec0BestIndex_def split: option.splits if_splits)
    then have "l < length cs" "ic_op (cs ! l) = SQLITE_INDEX_CONSTRAINT_LIMIT
      \<or> ic_op (cs ! l) = SQLITE_INDEX_CONSTRAINT_EQ \<and> ic_column (cs ! l) = vec0_column_k_idx p"
      using ok unfolding terms_ok_def by auto
    then show ?thesis using knn_plan_ok [OF ok Some _ _ small l(1)] match Some by simp
  next
    case None
    show ?thesis
    proof (cases "iRowidTerm ts")
      case (Some r)
      let ?st = "add_arg r (kind_block CHR ''!'') (start_plan CHR ''2'' (length cs))"
      have r: "r < length cs" "ic_op (cs ! r) = SQLITE_INDEX_CONSTRAINT_EQ" "ic_column (cs ! r) = 0" "\<not> ic_in (cs ! r)"
        using ok Some by (simp_all add: terms_ok_def)
      have "state_ok p cs ?st"
        by (rule add_arg_ok) (simp_all add: start_ok r kind_block_entry entry_for_def, simp add: start_plan_def r)
      then have "numbered p cs (ps_str ?st) (usage ?st) 1" by (simp add: state_ok_def add_arg_def start_plan_def)
      moreover have "plan = \<lparr>idxStr = ps_str ?st, idxNum = colUsed, plan_usage = usage ?st\<rparr>"
        using assms(1) ts None Some by (simp add: vec0BestIndex_def Let_def)
      moreover have "hd (ps_str ?st) = CHR ''2''" by (simp add: add_arg_def start_plan_def)
      ultimately show ?thesis
        using match None numbered_count [of p cs "ps_str ?st" "usage ?st" 1] by (auto simp: argument_count_def)
    next
      case none: None
      have plan: "plan = \<lparr>idxStr = [CHR ''1''], idxNum = 0, plan_usage = replicate (length cs) 0\<rparr>"
        using assms(1) ts None none by (simp add: vec0BestIndex_def)
      have "numbered p cs (idxStr plan) (plan_usage plan) 0" by (simp add: numbered_def plan)
      then show ?thesis using match None numbered_count by (fastforce simp: argument_count_def plan)
    qed
  qed
qed

text \<open>
  C7. Every plan of \<open>vec0BestIndex\<close> is one \<open>vec0Filter\<close> accepts when it is called with as many arguments as
  constraints were given a number: the query is a nearest-neighbour search exactly when some usable
  constraint matches a vector column, the arguments are numbered from one without gaps or repetitions, and
  the entry of each argument decodes to the role of its constraint (query vector, count, row id set,
  partition constraint, or metadata constraint with its column and operator).
\<close>

theorem best_index_plan_accepted:
  assumes plan: "vec0BestIndex p colUsed cs orders = Inr plan"
    and small: "\<forall>idx. Plan_Metadata idx \<in> set (plan_columns p) \<longrightarrow> idx < 16"
  shows "numbered p cs (idxStr plan) (plan_usage plan) (argument_count plan)
    \<and> vec0Filter_plan (idxStr plan) (argument_count plan) =
      Inr (if \<exists>c\<in>set cs. vector_match p c then VEC0_QUERY_PLAN_KNN
           else if argument_count plan = 0 then VEC0_QUERY_PLAN_FULLSCAN else VEC0_QUERY_PLAN_POINT)"
proof -
  have cases: "(\<exists>n. numbered p cs (idxStr plan) (plan_usage plan) n)
    \<and> hd (idxStr plan) = (if \<exists>c\<in>set cs. vector_match p c then CHR ''3''
        else if argument_count plan = 0 then CHR ''1'' else CHR ''2'')"
    using small column_at_mem by (intro best_index_cases [OF plan]) blast
  then obtain n where n: "numbered p cs (idxStr plan) (plan_usage plan) n" by blast
  then have count: "argument_count plan = n" unfolding argument_count_def by (rule numbered_count)
  have "vec0Filter_plan (idxStr plan) n =
      Inr (if \<exists>c\<in>set cs. vector_match p c then VEC0_QUERY_PLAN_KNN
           else if n = 0 then VEC0_QUERY_PLAN_FULLSCAN else VEC0_QUERY_PLAN_POINT)"
    using cases count by (intro filter_accepts [OF n]) auto
  then show ?thesis using n count by simp
qed

text \<open>A table with a vector, a partition and an integer metadata column, queried on all of them with a limit.\<close>

definition sample_plan_table :: plan_table where
  "sample_plan_table = \<lparr>plan_columns = [Plan_Vector 0, Plan_Partition 0, Plan_Metadata 0],
     plan_kinds = [VEC0_METADATA_COLUMN_KIND_INTEGER]\<rparr>"

definition sample_constraints :: "index_constraint list" where
  "sample_constraints =
     [\<lparr>ic_column = 3, ic_op = SQLITE_INDEX_CONSTRAINT_GT, ic_usable = True, ic_in = False\<rparr>,
      \<lparr>ic_column = 1, ic_op = SQLITE_INDEX_CONSTRAINT_MATCH, ic_usable = True, ic_in = False\<rparr>,
      \<lparr>ic_column = 2, ic_op = SQLITE_INDEX_CONSTRAINT_EQ, ic_usable = True, ic_in = False\<rparr>,
      \<lparr>ic_column = 0, ic_op = SQLITE_INDEX_CONSTRAINT_LIMIT, ic_usable = True, ic_in = False\<rparr>]"

definition sample_plan :: query_plan where
  "sample_plan = \<lparr>idxStr = ''3{___}___]Aa_&Ab_'', idxNum = 0, plan_usage = [4, 1, 3, 2]\<rparr>"

lemma sample_plan_found: "vec0BestIndex sample_plan_table 0 sample_constraints [] = Inr sample_plan"
  by code_simp

lemma sample_columns_small: "\<forall>idx. Plan_Metadata idx \<in> set (plan_columns sample_plan_table) \<longrightarrow> idx < 16"
  by (simp add: sample_plan_table_def)

theorem best_index_plan_accepted_witness:
  "numbered sample_plan_table sample_constraints ''3{___}___]Aa_&Ab_'' [4, 1, 3, 2] 4
    \<and> vec0Filter_plan ''3{___}___]Aa_&Ab_'' 4 = Inr VEC0_QUERY_PLAN_KNN"
proof -
  have "argument_count sample_plan = 4" by (simp add: argument_count_def sample_plan_def)
  moreover have "\<exists>c\<in>set sample_constraints. vector_match sample_plan_table c" by code_simp
  ultimately show ?thesis
    using best_index_plan_accepted [OF sample_plan_found sample_columns_small] by (simp add: sample_plan_def)
qed

end
