(* ===== verification/VectorValue.thy ===== *)
theory VectorValue
  imports FlatScan
begin

text \<open>
  Reading a vector from a SQL value (\<open>vector_from_value\<close> and the functions it calls in \<^verbatim>\<open>sqlite-vec.c\<close>): a
  blob is the vector in memory, a text is a JSON array whose numbers are read with \<open>strtod\<close> or \<open>strtol\<close>, and
  the subtype of the value says which element type is meant.
\<close>

named_theorems reader_simps \<open>equations of the modelled number readers\<close>

subsection \<open>The C library: reading numbers\<close>

text \<open>
  \<open>strtol\<close> and \<open>strtod\<close> in the C locale. A text is followed by a zero byte, which is neither white space nor
  part of a number, so the end of the list acts as that byte.
\<close>

definition c_isspace :: "8 word \<Rightarrow> bool" where
  "c_isspace c \<longleftrightarrow> c = 32 \<or> 9 \<le> c \<and> c \<le> 13"

definition c_isdigit :: "8 word \<Rightarrow> bool" where
  "c_isdigit c \<longleftrightarrow> 48 \<le> c \<and> c \<le> 57"

definition c_isalpha :: "8 word \<Rightarrow> bool" where
  "c_isalpha c \<longleftrightarrow> 65 \<le> c \<and> c \<le> 90 \<or> 97 \<le> c \<and> c \<le> 122"

definition c_tolower :: "8 word \<Rightarrow> 8 word" where
  "c_tolower c = (if 65 \<le> c \<and> c \<le> 90 then c + 32 else c)"

definition c_isxdigit :: "8 word \<Rightarrow> bool" where
  "c_isxdigit c \<longleftrightarrow> c_isdigit c \<or> 97 \<le> c_tolower c \<and> c_tolower c \<le> 102"

definition digit_val :: "8 word \<Rightarrow> int" where
  "digit_val c = (if c_isdigit c then uint c - 48 else uint (c_tolower c) - 87)"

definition digits_val :: "int \<Rightarrow> bytes \<Rightarrow> int" where
  "digits_val base ds = foldl (\<lambda>v c. base * v + digit_val c) 0 ds"

text \<open>The sign and its length.\<close>

definition c_sign :: "bytes \<Rightarrow> bool \<times> nat" where
  "c_sign s = (case s of [] \<Rightarrow> (False, 0) | c # _ \<Rightarrow> if c = 45 then (True, 1) else if c = 43 then (False, 1) else (False, 0))"

text \<open>The value, the number of bytes read (zero if there is no number) and whether \<open>errno\<close> is \<open>ERANGE\<close>.\<close>

definition LONG_MAX :: int where "LONG_MAX = 2 ^ 63 - 1"
definition LONG_MIN :: int where "LONG_MIN = - (2 ^ 63)"

definition strtol :: "bytes \<Rightarrow> int \<times> nat \<times> bool" where
  "strtol s =
     (let ws = length (takeWhile c_isspace s);
          (neg, sg) = c_sign (drop ws s);
          ds = takeWhile c_isdigit (drop (ws + sg) s);
          v = (if neg then - digits_val 10 ds else digits_val 10 ds)
      in if ds = [] then (0, 0, False)
         else if v > LONG_MAX then (LONG_MAX, ws + sg + length ds, True)
         else if v < LONG_MIN then (LONG_MIN, ws + sg + length ds, True)
         else (v, ws + sg + length ds, False))"

text \<open>
  The digits of a number with a point, in base ten or sixteen: the mantissa, the number of digits after
  the point and the bytes read; then the exponent, introduced by \<open>mark\<close>, with the bytes read.
\<close>

definition mantissa :: "(8 word \<Rightarrow> bool) \<Rightarrow> int \<Rightarrow> bytes \<Rightarrow> (int \<times> nat \<times> nat) option" where
  "mantissa digit base s =
     (let ip = takeWhile digit s;
          r = drop (length ip) s;
          fp = (if r \<noteq> [] \<and> hd r = 46 then takeWhile digit (tl r) else [])
      in if ip = [] \<and> fp = [] then None
         else Some (digits_val base (ip @ fp), length fp,
                    length ip + (if r \<noteq> [] \<and> hd r = 46 then 1 + length fp else 0)))"

definition float_exponent :: "8 word \<Rightarrow> bytes \<Rightarrow> int \<times> nat" where
  "float_exponent mark s =
     (case s of
        [] \<Rightarrow> (0, 0)
      | c # r \<Rightarrow>
          if c_tolower c \<noteq> mark then (0, 0)
          else (let (neg, sg) = c_sign r; ds = takeWhile c_isdigit (drop sg r) in
                if ds = [] then (0, 0)
                else (if neg then - digits_val 10 ds else digits_val 10 ds, 1 + sg + length ds)))"

text \<open>A number as mantissa, base and exponent, with the bytes read.\<close>

definition decimal_number :: "bytes \<Rightarrow> (int \<times> int \<times> int \<times> nat) option" where
  "decimal_number s =
     (case mantissa c_isdigit 10 s of
        None \<Rightarrow> None
      | Some (m, f, n) \<Rightarrow> (case float_exponent 101 (drop n s) of (e, k) \<Rightarrow> Some (m, 10, e - int f, n + k)))"

definition hex_number :: "bytes \<Rightarrow> (int \<times> int \<times> int \<times> nat) option" where
  "hex_number s =
     (if \<not> (length s \<ge> 2 \<and> s ! 0 = 48 \<and> c_tolower (s ! 1) = 120) then None
      else case mantissa c_isxdigit 16 (drop 2 s) of
        None \<Rightarrow> None
      | Some (m, f, n) \<Rightarrow>
          (case float_exponent 112 (drop (2 + n) s) of (e, k) \<Rightarrow> Some (m, 2, e - 4 * int f, 2 + n + k)))"

definition number_at :: "bytes \<Rightarrow> (int \<times> int \<times> int \<times> nat) option" where
  "number_at s = (case hex_number s of Some x \<Rightarrow> Some x | None \<Rightarrow> decimal_number s)"

definition float_ratio :: "bool \<Rightarrow> int \<Rightarrow> int \<Rightarrow> int \<Rightarrow> fexact" where
  "float_ratio neg m base e =
     (if e \<ge> 0 then XRat neg (m * base ^ nat e * 2 ^ 1074) 1 else XRat neg (m * 2 ^ 1074) (base ^ nat (- e)))"

text \<open>The words \<open>infinity\<close>, \<open>inf\<close> and \<open>nan\<close>, in either case; \<open>nan\<close> may be followed by a tag in parentheses.\<close>

definition word_at :: "bytes \<Rightarrow> bytes \<Rightarrow> bool" where
  "word_at w s \<longleftrightarrow> map c_tolower (take (length w) s) = w"

definition inf_word :: bytes where "inf_word = [105, 110, 102]"
definition infinity_word :: bytes where "infinity_word = [105, 110, 102, 105, 110, 105, 116, 121]"
definition nan_word :: bytes where "nan_word = [110, 97, 110]"

definition nan_tag :: "bytes \<Rightarrow> nat" where
  "nan_tag s =
     (if s \<noteq> [] \<and> hd s = 40
      then (let t = takeWhile (\<lambda>c. c_isalpha c \<or> c_isdigit c \<or> c = 95) (tl s); r = drop (1 + length t) s
            in if r \<noteq> [] \<and> hd r = 41 then length t + 2 else 0)
      else 0)"

text \<open>
  \<open>ERANGE\<close> is set for a number that overflows and for one that is not zero but rounds to zero. A
  subnormal result may set it too, which the callers do not tell apart from success.
\<close>

definition strtod :: "bytes \<Rightarrow> f64 \<times> nat \<times> bool" where
  "strtod s =
     (let ws = length (takeWhile c_isspace s);
          (neg, sg) = c_sign (drop ws s);
          n0 = ws + sg;
          r = drop n0 s
      in if word_at infinity_word r then (f64_of (XInf neg), n0 + 8, False)
         else if word_at inf_word r then (f64_of (XInf neg), n0 + 3, False)
         else if word_at nan_word r then (f64_of XNaN, n0 + 3 + nan_tag (drop 3 r), False)
         else (case number_at r of
                 None \<Rightarrow> (0, 0, False)
               | Some (m, base, e, n) \<Rightarrow>
                   (let v = f64_of (float_ratio neg m base e)
                    in (v, n0 + n, m \<noteq> 0 \<and> (dmag v = 0 \<or> dmag v = 2047 * 2 ^ 52)))))"

subsection \<open>Growable arrays\<close>

record 'a c_array =
  arr_elems :: "'a list"
  arr_capacity :: nat

definition array_init :: "bool \<Rightarrow> nat \<Rightarrow> 'a c_array result" where
  "array_init ok init_capacity = (if \<not> ok then Inl SQLITE_NOMEM else Inr \<lparr>arr_elems = [], arr_capacity = init_capacity\<rparr>)"

definition array_append :: "bool \<Rightarrow> 'a c_array \<Rightarrow> 'a \<Rightarrow> sqlite_rc \<times> 'a c_array" where
  "array_append ok a x =
     (if length (arr_elems a) = arr_capacity a
      then (if ok then (SQLITE_OK, \<lparr>arr_elems = arr_elems a @ [x], arr_capacity = arr_capacity a * 2 + 100\<rparr>)
            else (SQLITE_NOMEM, a))
      else (SQLITE_OK, a\<lparr>arr_elems := arr_elems a @ [x]\<rparr>))"

subsection \<open>JSON arrays\<close>

definition vecJsonIsSpaceX :: "nat list" where
  "vecJsonIsSpaceX = replicate 9 0 @ [1, 1, 0, 0, 1] @ replicate 18 0 @ [1] @ replicate 223 0"

definition vecJsonIsspace :: "8 word \<Rightarrow> bool" where
  "vecJsonIsspace c \<longleftrightarrow> vecJsonIsSpaceX ! unat c \<noteq> 0"

text \<open>The text after the first \<open>[\<close>.\<close>

definition json_open :: "bytes \<Rightarrow> bytes option" where
  "json_open source =
     (case dropWhile vecJsonIsspace source of
        [] \<Rightarrow> None
      | c # rest \<Rightarrow> if c = 91 then Some rest else None)"

text \<open>
  A reader of one element: whether it fails with a range error, the bytes read, and the element if the
  value is one. The result of the append is not tested.
\<close>

type_synonym 'a reader = "bytes \<Rightarrow> bool \<times> nat \<times> 'a option"

definition skip_separators :: "bytes \<Rightarrow> bytes" where
  "skip_separators s = dropWhile (\<lambda>c. vecJsonIsspace c \<or> c = 44) s"

lemma length_skip_separators: "length (skip_separators s) \<le> length s"
  by (simp add: skip_separators_def length_dropWhile_le)

function json_numbers :: "bool \<Rightarrow> 'a reader \<Rightarrow> bytes \<Rightarrow> 'a c_array \<Rightarrow> 'a c_array result" where
  "json_numbers ok read rest x =
     (if rest = [] then Inr x
      else case read rest of (bad, n, e) \<Rightarrow>
        if bad then Inl SQLITE_ERROR
        else if n = 0 then (if hd rest \<noteq> 93 then Inl SQLITE_ERROR else Inr x)
        else case e of
          None \<Rightarrow> Inl SQLITE_ERROR
        | Some v \<Rightarrow>
            (let x' = snd (array_append ok x v); rest' = skip_separators (drop n rest) in
             if rest' \<noteq> [] \<and> hd rest' = 93 then Inr x' else json_numbers ok read rest' x'))"
  by pat_completeness auto

termination
proof (relation "measure (\<lambda>(ok, read, rest, x). length rest)")
  fix ok :: bool and read :: "'a reader" and rest :: bytes and x bad n e and v :: 'a and x' rest' pr z
  assume "rest \<noteq> []" and "n \<noteq> 0" and "rest' = skip_separators (drop n rest)"
  moreover have "length (skip_separators (drop n rest)) \<le> length rest - n"
    using length_skip_separators [of "drop n rest"] by simp
  ultimately show "((ok, read, rest', x'), (ok, read, rest, x)) \<in> measure (\<lambda>(ok, read, rest, x). length rest)"
    by (cases rest) auto
qed simp

declare json_numbers.simps [simp del]

text \<open>
  The elements of a JSON array; the array starts with room for half as many elements as the text has bytes.
\<close>

definition json_vector :: "bool \<Rightarrow> 'a reader \<Rightarrow> bytes \<Rightarrow> 'a list result" where
  "json_vector ok read source =
     (if source = [] then Inl SQLITE_ERROR
      else case array_init ok ((length source + 1) div 2) of
        Inl rc \<Rightarrow> Inl rc
      | Inr x \<Rightarrow>
          (case json_open source of
             None \<Rightarrow> Inl SQLITE_ERROR
           | Some rest \<Rightarrow>
               (case json_numbers ok read rest x of
                  Inl rc \<Rightarrow> Inl rc
                | Inr x' \<Rightarrow> if length (arr_elems x') > 0 then Inr (arr_elems x') else Inl SQLITE_ERROR)))"

definition read_f32 :: "f32 reader" where
  "read_f32 s = (case strtod s of (result, n, erange) \<Rightarrow>
     (erange \<and> (dmag result = 0 \<or> dmag result = 2047 * 2 ^ 52), n, Some (f32_of_f64 result)))"

definition read_i8 :: "8 word reader" where
  "read_i8 s = (case strtol s of (result, n, erange) \<Rightarrow>
     (erange \<and> (result = 0 \<or> result = LONG_MAX \<or> result = LONG_MIN), n,
      if result < - 128 \<or> result > 127 then None else Some (word_of_int result)))"

subsection \<open>Values\<close>

text \<open>A value with its subtype.\<close>

record sqlite3_arg = sqlite3_value +
  value_subtype :: int

definition subtype_of :: "element_type \<Rightarrow> int" where
  "subtype_of t =
     (case t of
        SQLITE_VEC_ELEMENT_TYPE_FLOAT32 \<Rightarrow> 223
      | SQLITE_VEC_ELEMENT_TYPE_BIT \<Rightarrow> 224
      | SQLITE_VEC_ELEMENT_TYPE_INT8 \<Rightarrow> 225)"

definition JSON_SUBTYPE :: int where "JSON_SUBTYPE = 74"

definition fvec_from_value :: "bool \<Rightarrow> sqlite3_arg \<Rightarrow> (nat \<times> bytes) result" where
  "fvec_from_value ok v =
     (case value_type v of
        SQLITE_BLOB \<Rightarrow>
          (if length (value_text v) = 0 then Inl SQLITE_ERROR
           else if length (value_text v) mod 4 \<noteq> 0 then Inl SQLITE_ERROR
           else Inr (length (value_text v) div 4, value_text v))
      | SQLITE_TEXT \<Rightarrow>
          (case json_vector ok read_f32 (value_text v) of
             Inl rc \<Rightarrow> Inl rc
           | Inr xs \<Rightarrow> Inr (length xs, fwrite_floats xs))
      | _ \<Rightarrow> Inl SQLITE_ERROR)"

definition bitvec_from_value :: "sqlite3_arg \<Rightarrow> (nat \<times> bytes) result" where
  "bitvec_from_value v =
     (case value_type v of
        SQLITE_BLOB \<Rightarrow>
          (if length (value_text v) = 0 then Inl SQLITE_ERROR else Inr (length (value_text v) * 8, value_text v))
      | _ \<Rightarrow> Inl SQLITE_ERROR)"

definition int8_vec_from_value :: "bool \<Rightarrow> sqlite3_arg \<Rightarrow> (nat \<times> bytes) result" where
  "int8_vec_from_value ok v =
     (case value_type v of
        SQLITE_BLOB \<Rightarrow>
          (if length (value_text v) = 0 then Inl SQLITE_ERROR else Inr (length (value_text v), value_text v))
      | SQLITE_TEXT \<Rightarrow>
          (case json_vector ok read_i8 (value_text v) of
             Inl rc \<Rightarrow> Inl rc
           | Inr xs \<Rightarrow> Inr (length xs, xs))
      | _ \<Rightarrow> Inl SQLITE_ERROR)"

definition with_type :: "element_type \<Rightarrow> (nat \<times> bytes) result \<Rightarrow> (element_type \<times> nat \<times> bytes) result" where
  "with_type t r = (case r of Inl rc \<Rightarrow> Inl rc | Inr x \<Rightarrow> Inr (t, x))"

definition vector_from_value :: "bool \<Rightarrow> sqlite3_arg \<Rightarrow> (element_type \<times> nat \<times> bytes) result" where
  "vector_from_value ok v =
     (let subtype = value_subtype v in
      if subtype = 0 \<or> subtype = subtype_of SQLITE_VEC_ELEMENT_TYPE_FLOAT32 \<or> subtype = JSON_SUBTYPE
      then with_type SQLITE_VEC_ELEMENT_TYPE_FLOAT32 (fvec_from_value ok v)
      else if subtype = subtype_of SQLITE_VEC_ELEMENT_TYPE_BIT
      then with_type SQLITE_VEC_ELEMENT_TYPE_BIT (bitvec_from_value v)
      else if subtype = subtype_of SQLITE_VEC_ELEMENT_TYPE_INT8
      then with_type SQLITE_VEC_ELEMENT_TYPE_INT8 (int8_vec_from_value ok v)
      else Inl SQLITE_ERROR)"

definition ensure_vector_match ::
  "bool \<Rightarrow> sqlite3_arg \<Rightarrow> sqlite3_arg \<Rightarrow> (element_type \<times> nat \<times> bytes \<times> bytes) result" where
  "ensure_vector_match ok aValue bValue =
     (case vector_from_value ok aValue of
        Inl _ \<Rightarrow> Inl SQLITE_ERROR
      | Inr (aType, aDims, a) \<Rightarrow>
          (case vector_from_value ok bValue of
             Inl _ \<Rightarrow> Inl SQLITE_ERROR
           | Inr (bType, bDims, b) \<Rightarrow>
               if aType \<noteq> bType then Inl SQLITE_ERROR
               else if aDims \<noteq> bDims then Inl SQLITE_ERROR
               else Inr (aType, aDims, a, b)))"

end
