(* ===== verification/ScalarFuns.thy ===== *)
theory ScalarFuns
  imports VectorValue
begin

text \<open>
  The scalar SQL functions on vectors (\<open>vec_f32\<close> to \<open>vec_normalize\<close> in \<^verbatim>\<open>sqlite-vec.c\<close>). A function returns the
  value it sets as the result of the call, or the result code of the error it reports; \<open>ok\<close> says whether
  allocations succeed.
\<close>

subsection \<open>Results\<close>

text \<open>The accessors of another type than the one set are not read by any caller.\<close>

definition blob_result :: "element_type \<Rightarrow> bytes \<Rightarrow> sqlite3_arg" where
  "blob_result t bs = \<lparr>value_type = SQLITE_BLOB, value_int64 = 0, value_double = 0, value_text = bs, value_subtype = subtype_of t\<rparr>"

definition text_result :: "bytes \<Rightarrow> int \<Rightarrow> sqlite3_arg" where
  "text_result bs st = \<lparr>value_type = SQLITE_TEXT, value_int64 = 0, value_double = 0, value_text = bs, value_subtype = st\<rparr>"

definition int_result :: "int \<Rightarrow> sqlite3_arg" where
  "int_result i = \<lparr>value_type = SQLITE_INTEGER, value_int64 = i, value_double = 0, value_text = [], value_subtype = 0\<rparr>"

definition double_result :: "f64 \<Rightarrow> sqlite3_arg" where
  "double_result d = \<lparr>value_type = SQLITE_FLOAT, value_int64 = 0, value_double = d, value_text = [], value_subtype = 0\<rparr>"

subsection \<open>Constructors, length and type\<close>

definition vec_f32 :: "bool \<Rightarrow> sqlite3_arg \<Rightarrow> sqlite3_arg result" where
  "vec_f32 ok v =
     (case fvec_from_value ok v of
        Inl _ \<Rightarrow> Inl SQLITE_ERROR
      | Inr (dims, vec) \<Rightarrow> Inr (blob_result SQLITE_VEC_ELEMENT_TYPE_FLOAT32 (take (dims * 4) vec)))"

definition vec_bit :: "sqlite3_arg \<Rightarrow> sqlite3_arg result" where
  "vec_bit v =
     (case bitvec_from_value v of
        Inl _ \<Rightarrow> Inl SQLITE_ERROR
      | Inr (dims, vec) \<Rightarrow> Inr (blob_result SQLITE_VEC_ELEMENT_TYPE_BIT (take (dims div 8) vec)))"

definition vec_int8 :: "bool \<Rightarrow> sqlite3_arg \<Rightarrow> sqlite3_arg result" where
  "vec_int8 ok v =
     (case int8_vec_from_value ok v of
        Inl _ \<Rightarrow> Inl SQLITE_ERROR
      | Inr (dims, vec) \<Rightarrow> Inr (blob_result SQLITE_VEC_ELEMENT_TYPE_INT8 (take dims vec)))"

definition vec_length :: "bool \<Rightarrow> sqlite3_arg \<Rightarrow> sqlite3_arg result" where
  "vec_length ok v =
     (case vector_from_value ok v of
        Inl _ \<Rightarrow> Inl SQLITE_ERROR
      | Inr (t, dims, vec) \<Rightarrow> Inr (int_result (int dims)))"

definition vec_type_name :: "element_type \<Rightarrow> bytes" where
  "vec_type_name t = map of_char
     (case t of
        SQLITE_VEC_ELEMENT_TYPE_FLOAT32 \<Rightarrow> ''float32''
      | SQLITE_VEC_ELEMENT_TYPE_INT8 \<Rightarrow> ''int8''
      | SQLITE_VEC_ELEMENT_TYPE_BIT \<Rightarrow> ''bit'')"

definition vec_type :: "bool \<Rightarrow> sqlite3_arg \<Rightarrow> sqlite3_arg result" where
  "vec_type ok v =
     (case vector_from_value ok v of
        Inl _ \<Rightarrow> Inl SQLITE_ERROR
      | Inr (t, dims, vec) \<Rightarrow> Inr (text_result (vec_type_name t) 0))"

subsection \<open>Distances\<close>

definition vec_distance_cosine :: "bool \<Rightarrow> sqlite3_arg \<Rightarrow> sqlite3_arg \<Rightarrow> sqlite3_arg result" where
  "vec_distance_cosine ok v w =
     (case ensure_vector_match ok v w of
        Inl _ \<Rightarrow> Inl SQLITE_ERROR
      | Inr (t, d, a, b) \<Rightarrow>
          (case t of
             SQLITE_VEC_ELEMENT_TYPE_BIT \<Rightarrow> Inl SQLITE_ERROR
           | SQLITE_VEC_ELEMENT_TYPE_FLOAT32 \<Rightarrow>
               Inr (double_result (f64_of_f32 (distance_cosine_float (f32s_at a 0 d) (f32s_at b 0 d) d)))
           | SQLITE_VEC_ELEMENT_TYPE_INT8 \<Rightarrow>
               Inr (double_result (f64_of_f32 (distance_cosine_int8 (i8s_at a 0 d) (i8s_at b 0 d) d)))))"

definition vec_distance_l2 :: "bool \<Rightarrow> sqlite3_arg \<Rightarrow> sqlite3_arg \<Rightarrow> sqlite3_arg result" where
  "vec_distance_l2 ok v w =
     (case ensure_vector_match ok v w of
        Inl _ \<Rightarrow> Inl SQLITE_ERROR
      | Inr (t, d, a, b) \<Rightarrow>
          (case t of
             SQLITE_VEC_ELEMENT_TYPE_BIT \<Rightarrow> Inl SQLITE_ERROR
           | SQLITE_VEC_ELEMENT_TYPE_FLOAT32 \<Rightarrow>
               Inr (double_result (f64_of_f32 (distance_l2_sqr_float (f32s_at a 0 d) (f32s_at b 0 d) d)))
           | SQLITE_VEC_ELEMENT_TYPE_INT8 \<Rightarrow>
               Inr (double_result (f64_of_f32 (distance_l2_sqr_int8 (i8s_at a 0 d) (i8s_at b 0 d) d)))))"

definition vec_distance_l1 :: "bool \<Rightarrow> sqlite3_arg \<Rightarrow> sqlite3_arg \<Rightarrow> sqlite3_arg result" where
  "vec_distance_l1 ok v w =
     (case ensure_vector_match ok v w of
        Inl _ \<Rightarrow> Inl SQLITE_ERROR
      | Inr (t, d, a, b) \<Rightarrow>
          (case t of
             SQLITE_VEC_ELEMENT_TYPE_BIT \<Rightarrow> Inl SQLITE_ERROR
           | SQLITE_VEC_ELEMENT_TYPE_FLOAT32 \<Rightarrow>
               Inr (double_result (distance_l1_f32 (f32s_at a 0 d) (f32s_at b 0 d) d))
           | SQLITE_VEC_ELEMENT_TYPE_INT8 \<Rightarrow>
               Inr (int_result (distance_l1_int8 (i8s_at a 0 d) (i8s_at b 0 d) d))))"

definition vec_distance_hamming :: "bool \<Rightarrow> sqlite3_arg \<Rightarrow> sqlite3_arg \<Rightarrow> sqlite3_arg result" where
  "vec_distance_hamming ok v w =
     (case ensure_vector_match ok v w of
        Inl _ \<Rightarrow> Inl SQLITE_ERROR
      | Inr (t, d, a, b) \<Rightarrow>
          (case t of
             SQLITE_VEC_ELEMENT_TYPE_BIT \<Rightarrow> Inr (double_result (f64_of_f32 (distance_hamming a b d)))
           | _ \<Rightarrow> Inl SQLITE_ERROR))"

subsection \<open>Quantization\<close>

text \<open>The loop that sets one bit per element.\<close>

definition quantize_bits :: "(nat \<Rightarrow> bool) \<Rightarrow> nat \<Rightarrow> bytes" where
  "quantize_bits res dims =
     foldl (\<lambda>out i. out[i div 8 := out ! (i div 8) OR push_bit (i mod 8) (of_bool (res i))])
       (replicate (dims div 8) 0) [0..<dims]"

definition vec_quantize_binary :: "bool \<Rightarrow> sqlite3_arg \<Rightarrow> sqlite3_arg result" where
  "vec_quantize_binary ok v =
     (case vector_from_value ok v of
        Inl _ \<Rightarrow> Inl SQLITE_ERROR
      | Inr (t, dims, vec) \<Rightarrow>
          if dims \<le> 0 then Inl SQLITE_ERROR
          else if dims mod 8 \<noteq> 0 then Inl SQLITE_ERROR
          else if \<not> ok then Inl SQLITE_NOMEM
          else (case t of
                  SQLITE_VEC_ELEMENT_TYPE_FLOAT32 \<Rightarrow>
                    (let xs = f32s_at vec 0 dims in
                     Inr (blob_result SQLITE_VEC_ELEMENT_TYPE_BIT (quantize_bits (\<lambda>i. flt 0 (xs ! i)) dims)))
                | SQLITE_VEC_ELEMENT_TYPE_INT8 \<Rightarrow>
                    (let xs = i8s_at vec 0 dims in
                     Inr (blob_result SQLITE_VEC_ELEMENT_TYPE_BIT (quantize_bits (\<lambda>i. xs ! i > 0) dims)))
                | SQLITE_VEC_ELEMENT_TYPE_BIT \<Rightarrow> Inl SQLITE_ERROR))"

text \<open>
  The conversion of a \<open>double\<close> to \<open>i8\<close> drops the fraction; it is undefined, \<open>None\<close>, for a value whose whole
  part does not fit.
\<close>

definition i8_of_f64 :: "f64 \<Rightarrow> 8 word option" where
  "i8_of_f64 x =
     (case dval x of
        FFin s a \<Rightarrow>
          (let i = fp_int s (a div 2 ^ 1074) in if - 128 \<le> i \<and> i \<le> 127 then Some (word_of_int i) else None)
      | _ \<Rightarrow> None)"

definition quantize_step :: f32 where
  "quantize_step = f32_of_f64 (ddiv (dsub (f64_of_int 1) (f64_of_int (- 1))) (f64_of_int 255))"

definition quantize_unit :: "f32 \<Rightarrow> f64" where
  "quantize_unit x =
     dsub (ddiv (dsub (f64_of_f32 x) (f64_of_int (- 1))) (f64_of_f32 quantize_step)) (f64_of_int 128)"

definition unit_word :: bytes where "unit_word = map of_char ''unit''"

text \<open>\<open>None\<close> is an undefined conversion.\<close>

definition vec_quantize_int8 :: "bool \<Rightarrow> sqlite3_arg \<Rightarrow> sqlite3_arg \<Rightarrow> sqlite3_arg result option" where
  "vec_quantize_int8 ok v w =
     (case fvec_from_value ok v of
        Inl _ \<Rightarrow> Some (Inl SQLITE_ERROR)
      | Inr (dims, vec) \<Rightarrow>
          if \<not> ok then Some (Inl SQLITE_NOMEM)
          else if value_type w \<noteq> SQLITE_TEXT \<or> length (value_text w) \<noteq> 4 \<or> map c_tolower (value_text w) \<noteq> unit_word
          then Some (Inl SQLITE_ERROR)
          else map_option (\<lambda>out. Inr (blob_result SQLITE_VEC_ELEMENT_TYPE_INT8 out))
                 (those (map (i8_of_f64 \<circ> quantize_unit) (f32s_at vec 0 dims))))"

subsection \<open>Arithmetic\<close>

text \<open>The conversion of an \<open>int\<close> sum to \<open>i8\<close> keeps the low byte.\<close>

definition vec_add :: "bool \<Rightarrow> sqlite3_arg \<Rightarrow> sqlite3_arg \<Rightarrow> sqlite3_arg result" where
  "vec_add ok v w =
     (case ensure_vector_match ok v w of
        Inl _ \<Rightarrow> Inl SQLITE_ERROR
      | Inr (t, d, a, b) \<Rightarrow>
          (case t of
             SQLITE_VEC_ELEMENT_TYPE_BIT \<Rightarrow> Inl SQLITE_ERROR
           | SQLITE_VEC_ELEMENT_TYPE_FLOAT32 \<Rightarrow>
               if \<not> ok then Inl SQLITE_NOMEM
               else Inr (blob_result t (fwrite_floats (map2 fadd (f32s_at a 0 d) (f32s_at b 0 d))))
           | SQLITE_VEC_ELEMENT_TYPE_INT8 \<Rightarrow>
               if \<not> ok then Inl SQLITE_NOMEM
               else Inr (blob_result t (map word_of_int (map2 (+) (i8s_at a 0 d) (i8s_at b 0 d))))))"

definition vec_sub :: "bool \<Rightarrow> sqlite3_arg \<Rightarrow> sqlite3_arg \<Rightarrow> sqlite3_arg result" where
  "vec_sub ok v w =
     (case ensure_vector_match ok v w of
        Inl _ \<Rightarrow> Inl SQLITE_ERROR
      | Inr (t, d, a, b) \<Rightarrow>
          (case t of
             SQLITE_VEC_ELEMENT_TYPE_BIT \<Rightarrow> Inl SQLITE_ERROR
           | SQLITE_VEC_ELEMENT_TYPE_FLOAT32 \<Rightarrow>
               if \<not> ok then Inl SQLITE_NOMEM
               else Inr (blob_result t (fwrite_floats (map2 fsub (f32s_at a 0 d) (f32s_at b 0 d))))
           | SQLITE_VEC_ELEMENT_TYPE_INT8 \<Rightarrow>
               if \<not> ok then Inl SQLITE_NOMEM
               else Inr (blob_result t (map word_of_int (map2 (-) (i8s_at a 0 d) (i8s_at b 0 d))))))"

definition vec_normalize :: "bool \<Rightarrow> sqlite3_arg \<Rightarrow> sqlite3_arg result" where
  "vec_normalize ok v =
     (case vector_from_value ok v of
        Inl _ \<Rightarrow> Inl SQLITE_ERROR
      | Inr (t, dims, vec) \<Rightarrow>
          if t \<noteq> SQLITE_VEC_ELEMENT_TYPE_FLOAT32 then Inl SQLITE_ERROR
          else if \<not> ok then Inl SQLITE_NOMEM
          else (let xs = f32s_at vec 0 dims;
                    sum = foldl (\<lambda>norm x. fadd norm (fmul x x)) 0 xs;
                    norm = f32_of_f64 (dsqrt (f64_of_f32 sum))
                in Inr (blob_result t (fwrite_floats (map (\<lambda>x. fdiv x norm) xs)))))"

subsection \<open>Slices\<close>

definition vec_slice :: "bool \<Rightarrow> sqlite3_arg \<Rightarrow> sqlite3_arg \<Rightarrow> sqlite3_arg \<Rightarrow> sqlite3_arg result" where
  "vec_slice ok v vstart vend =
     (case vector_from_value ok v of
        Inl _ \<Rightarrow> Inl SQLITE_ERROR
      | Inr (t, dims, vec) \<Rightarrow>
          (let start = c_int (value_int64 vstart); end_idx = c_int (value_int64 vend) in
           if start < 0 then Inl SQLITE_ERROR
           else if end_idx < 0 then Inl SQLITE_ERROR
           else if nat start > dims then Inl SQLITE_ERROR
           else if nat end_idx > dims then Inl SQLITE_ERROR
           else if start > end_idx then Inl SQLITE_ERROR
           else if start = end_idx then Inl SQLITE_ERROR
           else (let s = nat start; n = nat (end_idx - start) in
                 case t of
                   SQLITE_VEC_ELEMENT_TYPE_FLOAT32 \<Rightarrow>
                     if \<not> ok then Inl SQLITE_NOMEM
                     else Inr (blob_result t (fwrite_floats (f32s_at vec s n)))
                 | SQLITE_VEC_ELEMENT_TYPE_INT8 \<Rightarrow>
                     if \<not> ok then Inl SQLITE_NOMEM
                     else Inr (blob_result t (map (\<lambda>i. vec ! (s + i)) [0..<n]))
                 | SQLITE_VEC_ELEMENT_TYPE_BIT \<Rightarrow>
                     if s mod 8 \<noteq> 0 then Inl SQLITE_ERROR
                     else if nat end_idx mod 8 \<noteq> 0 then Inl SQLITE_ERROR
                     else if \<not> ok then Inl SQLITE_NOMEM
                     else Inr (blob_result t (map (\<lambda>i. vec ! (s div 8 + i)) [0..<n div 8])))))"

subsection \<open>JSON\<close>

text \<open>The conversion \<open>%d\<close>.\<close>

fun dec_digits :: "nat \<Rightarrow> bytes" where
  "dec_digits n = (if n < 10 then [word_of_nat (48 + n)] else dec_digits (n div 10) @ [word_of_nat (48 + n mod 10)])"

declare dec_digits.simps [simp del]

definition fmt_d :: "int \<Rightarrow> bytes" where
  "fmt_d i = (if i < 0 then 45 # dec_digits (nat (- i)) else dec_digits (nat i))"

fun join_comma :: "bytes list \<Rightarrow> bytes" where
  "join_comma [] = []"
| "join_comma [x] = x"
| "join_comma (x # xs) = x @ 44 # join_comma xs"

text \<open>The conversion \<open>%f\<close> of a \<open>float\<close> is the formatted output of SQLITE, the parameter \<open>fmt_f\<close>.\<close>

definition vec_to_json :: "(f32 \<Rightarrow> bytes) \<Rightarrow> bool \<Rightarrow> sqlite3_arg \<Rightarrow> sqlite3_arg result" where
  "vec_to_json fmt_f ok v =
     (case vector_from_value ok v of
        Inl _ \<Rightarrow> Inl SQLITE_ERROR
      | Inr (t, dims, vec) \<Rightarrow>
          (let elems =
             (case t of
                SQLITE_VEC_ELEMENT_TYPE_FLOAT32 \<Rightarrow>
                  map (\<lambda>x. if fisnan x then map of_char ''null'' else fmt_f x) (f32s_at vec 0 dims)
              | SQLITE_VEC_ELEMENT_TYPE_INT8 \<Rightarrow> map fmt_d (i8s_at vec 0 dims)
              | SQLITE_VEC_ELEMENT_TYPE_BIT \<Rightarrow>
                  map (\<lambda>i. fmt_d (uint (drop_bit (i mod 8) (vec ! (i div 8)) AND 1))) [0..<dims])
           in if \<not> ok then Inl SQLITE_NOMEM else Inr (text_result (91 # join_comma elems @ [93]) JSON_SUBTYPE)))"

end
