(* ===== verification/ScalarFuns_Correct.thy ===== *)
theory ScalarFuns_Correct
  imports ScalarFuns
begin

text \<open>
  What the scalar functions return: vectors that can be read back, sums that differences undo, slices of
  slices, bits that are the signs of the elements, and JSON texts that parse to the vector they print.
\<close>

subsection \<open>Vectors in memory\<close>

lemma length_fwrite_floats [simp]: "length (fwrite_floats xs) = 4 * length xs"
  by (induction xs) (simp_all add: fwrite_floats_def)

lemma le_int_word: "word_of_int (le_int (le_bytes 4 (uint x))) = (x :: f32)"
proof -
  have "uint x mod 256 ^ 4 = uint x" using uint_lt2p [of x] by (intro mod_pos_pos_trivial) simp_all
  then show ?thesis by (simp add: le_int_le_bytes)
qed

lemma fwrite_floats_at: "i < length xs \<Longrightarrow> take 4 (drop (4 * i) (fwrite_floats xs)) = le_bytes 4 (uint (xs ! i))"
proof (induction xs arbitrary: i)
  case (Cons x xs)
  show ?case
  proof (cases i)
    case (Suc j)
    have "fwrite_floats (x # xs) = le_bytes 4 (uint x) @ fwrite_floats xs" by (simp add: fwrite_floats_def)
    then show ?thesis using Cons.IH [of j] Cons.prems Suc by simp
  qed (simp add: fwrite_floats_def)
qed simp

lemma f32s_at_fwrite: "off + n \<le> length xs \<Longrightarrow> f32s_at (fwrite_floats xs) off n = take n (drop off xs)"
  by (rule nth_equalityI) (simp_all add: f32s_at_def fwrite_floats_at le_int_word del: add_mult_distrib2 distrib_left_numeral)

lemma length_f32s_at [simp]: "length (f32s_at bs off n) = n"
  by (simp add: f32s_at_def)

lemma length_i8s_at [simp]: "length (i8s_at bs off n) = n"
  by (simp add: i8s_at_def)

lemma le_int_range: "0 \<le> le_int bs \<and> le_int bs < 256 ^ length bs"
proof (induction bs)
  case (Cons b bs)
  then show ?case using uint_lt2p [of b] by simp
qed simp

lemma le_bytes_le_int: "le_bytes (length bs) (le_int bs) = bs"
proof (induction bs)
  case (Cons b bs)
  have "uint b < 256" using uint_lt2p [of b] by simp
  then have "(uint b + 256 * le_int bs) div 256 = le_int bs" by simp
  moreover have "word_of_int (uint b + 256 * le_int bs) = b"
  proof -
    have "(uint b + 256 * le_int bs) mod 2 ^ 8 = uint b" using \<open>uint b < 256\<close> by simp
    then have "uint (word_of_int (uint b + 256 * le_int bs) :: 8 word) = uint b"
      unfolding uint_word_of_int by simp
    then show ?thesis by (rule unsigned_word_eqI)
  qed
  ultimately show ?case using Cons by simp
qed simp

lemma fwrite_f32s_at: "length bs = 4 * n \<Longrightarrow> fwrite_floats (f32s_at bs 0 n) = bs"
proof (induction n arbitrary: bs)
  case 0
  then show ?case by (simp add: fwrite_floats_def f32s_at_def)
next
  case (Suc n)
  have "f32s_at bs 0 (Suc n) = word_of_int (le_int (take 4 bs)) # f32s_at (drop 4 bs) 0 n"
    unfolding f32s_at_def map_upt_Suc by (simp add: add.commute)
  moreover have "le_bytes 4 (uint (word_of_int (le_int (take 4 bs)) :: f32)) = take 4 bs"
  proof -
    have len: "length (take 4 bs) = 4" using Suc.prems by simp
    then have "0 \<le> le_int (take 4 bs)" "le_int (take 4 bs) < 2 ^ 32" using le_int_range [of "take 4 bs"] by simp_all
    then have "uint (word_of_int (le_int (take 4 bs)) :: f32) = le_int (take 4 bs)" by (simp add: uint_word_of_int)
    then show ?thesis using le_bytes_le_int [of "take 4 bs"] len by simp
  qed
  moreover have "fwrite_floats (x # xs) = le_bytes 4 (uint x) @ fwrite_floats xs" for x xs
    by (simp add: fwrite_floats_def)
  ultimately show ?case using Suc.IH [of "drop 4 bs"] Suc.prems by simp
qed

subsection \<open>Results are vectors\<close>

lemma json_vector_nonempty: "json_vector ok read s = Inr xs \<Longrightarrow> xs \<noteq> []"
  by (auto simp: json_vector_def split: if_splits sum.splits option.splits)

lemma vector_from_value_wf:
  assumes "vector_from_value ok v = Inr (t, d, bs)"
  shows "0 < d \<and> length bs = vector_byte_size t d \<and> (t = SQLITE_VEC_ELEMENT_TYPE_BIT \<longrightarrow> d mod 8 = 0)"
proof -
  have f: "0 < d \<and> length bs = 4 * d" if "fvec_from_value ok v = Inr (d, bs)"
    using that json_vector_nonempty
    by (auto simp: fvec_from_value_def mult.commute div_greater_zero_iff dvd_imp_le split: sqlite_type.splits if_splits sum.splits)
  have i: "0 < d \<and> length bs = d" if "int8_vec_from_value ok v = Inr (d, bs)"
    using that json_vector_nonempty
    by (auto simp: int8_vec_from_value_def split: sqlite_type.splits if_splits sum.splits)
  have b: "0 < d \<and> length bs * 8 = d" if "bitvec_from_value v = Inr (d, bs)"
    using that by (auto simp: bitvec_from_value_def split: sqlite_type.splits if_splits)
  show ?thesis
    using assms f i b
    by (auto simp: vector_from_value_def with_type_def vector_byte_size_def Let_def split: if_splits sum.splits)
qed

lemma vector_of_blob:
  assumes "0 < d" and "length bs = vector_byte_size t d" and "t = SQLITE_VEC_ELEMENT_TYPE_BIT \<longrightarrow> d mod 8 = 0"
  shows "vector_from_value ok (blob_result t bs) = Inr (t, d, bs)"
proof -
  have "bs \<noteq> []" using assms by (cases t) (auto simp: vector_byte_size_def dvd_imp_le)
  then show ?thesis
    using assms
    by (cases t) (auto simp: vector_from_value_def with_type_def blob_result_def subtype_of_def JSON_SUBTYPE_def
        fvec_from_value_def bitvec_from_value_def int8_vec_from_value_def vector_byte_size_def)
qed

definition vector_value :: "sqlite3_arg \<Rightarrow> element_type \<Rightarrow> nat \<Rightarrow> bool" where
  "vector_value r t d \<longleftrightarrow> 0 < d \<and> (\<forall>ok. vector_from_value ok r = Inr (t, d, value_text r))"

lemma blob_vector_value:
  "0 < d \<Longrightarrow> length bs = vector_byte_size t d \<Longrightarrow> (t = SQLITE_VEC_ELEMENT_TYPE_BIT \<Longrightarrow> d mod 8 = 0) \<Longrightarrow>
     vector_value (blob_result t bs) t d"
  using vector_of_blob [of d bs t] by (simp add: vector_value_def) (simp add: blob_result_def)

text \<open>The bits after the first \<open>k\<close> rounds of the quantization loop.\<close>

abbreviation quantize_upto :: "nat \<Rightarrow> (nat \<Rightarrow> bool) \<Rightarrow> nat \<Rightarrow> bytes" where
  "quantize_upto n res k \<equiv>
     foldl (\<lambda>out i. out[i div 8 := out ! (i div 8) OR push_bit (i mod 8) (of_bool (res i))]) (replicate n 0) [0..<k]"

lemma quantize_loop:
  "k \<le> 8 * n \<Longrightarrow> length (quantize_upto n res k) = n
    \<and> (\<forall>j<n. \<forall>m<8. bit (quantize_upto n res k ! j) m \<longleftrightarrow> 8 * j + m < k \<and> res (8 * j + m))"
proof (induction k)
  case (Suc k)
  let ?out = "quantize_upto n res k"
  have k: "k div 8 < n" using Suc.prems by simp
  have IH: "length ?out = n" "\<And>j m. j < n \<Longrightarrow> m < 8 \<Longrightarrow> bit (?out ! j) m \<longleftrightarrow> 8 * j + m < k \<and> res (8 * j + m)"
    using Suc by simp_all
  have new: "bit (push_bit (k mod 8) (of_bool (res k)) :: 8 word) m \<longleftrightarrow> m = k mod 8 \<and> res k" if "m < 8" for m
    using that by (cases "res k") (auto simp: bit_exp_iff)
  have "bit ((?out[k div 8 := ?out ! (k div 8) OR push_bit (k mod 8) (of_bool (res k))]) ! j) m \<longleftrightarrow>
      8 * j + m < Suc k \<and> res (8 * j + m)" if jm: "j < n" "m < 8" for j m
  proof (cases "8 * j + m = k")
    case True
    then have "k div 8 = j" "k mod 8 = m" using jm(2) by auto
    then show ?thesis using IH jm new [OF jm(2)] True by (simp add: bit_or_iff)
  next
    case False
    then have "\<not> (k div 8 = j \<and> k mod 8 = m)" by auto
    then have "bit ((?out[k div 8 := ?out ! (k div 8) OR push_bit (k mod 8) (of_bool (res k))]) ! j) m = bit (?out ! j) m"
      using IH(1) jm k new [OF jm(2)] by (auto simp: nth_list_update bit_or_iff)
    then show ?thesis using IH(2) [OF jm] False by auto
  qed
  then show ?case using IH(1) by simp
qed simp

lemma quantize_bits:
  assumes "d mod 8 = 0"
  shows "length (quantize_bits res d) = d div 8"
    and "j < d div 8 \<Longrightarrow> m < 8 \<Longrightarrow> bit (quantize_bits res d ! j) m \<longleftrightarrow> res (8 * j + m)"
proof -
  have d: "d = 8 * (d div 8)" using assms by presburger
  then have "8 * j + m < d" if "j < d div 8" "m < 8" for j m using that by linarith
  then show "length (quantize_bits res d) = d div 8"
    "j < d div 8 \<Longrightarrow> m < 8 \<Longrightarrow> bit (quantize_bits res d ! j) m \<longleftrightarrow> res (8 * j + m)"
    using quantize_loop [of d "d div 8" res] d unfolding quantize_bits_def by simp_all
qed

lemma quantize_hamming:
  assumes "d mod 8 = 0"
  shows "hamming_bits (quantize_bits f d) (quantize_bits g d) = card {i. i < d \<and> f i \<noteq> g i}"
proof -
  let ?h = "\<lambda>i. of_bool (f i \<noteq> g i) :: nat"
  have d: "d = d div 8 * 8" using assms by presburger
  have "hamming_bits (quantize_bits f d) (quantize_bits g d) =
      (\<Sum>j<d div 8. popcount (quantize_bits f d ! j XOR quantize_bits g d ! j))"
    by (rule hamming_bits_nth) (simp_all add: quantize_bits(1) assms)
  also have "\<dots> = (\<Sum>j<d div 8. \<Sum>m<8. ?h (j * 8 + m))"
    by (rule sum.cong [OF refl]) (simp add: popcount_sum bit_xor_iff quantize_bits(2) assms mult.commute)
  also have "\<dots> = (\<Sum>j<d div 8. sum ?h {j * 8..<j * 8 + 8})" by (simp only: sum_group8)
  also have "\<dots> = sum ?h {..<d div 8 * 8}" by (rule sum.nat_group)
  also have "\<dots> = card {i. i < d \<and> f i \<noteq> g i}"
    using d by (simp add: lessThan_def Int_def flip: card_eq_sum)
  finally show ?thesis .
qed

lemma match_wf:
  assumes "ensure_vector_match ok v w = Inr (t, d, a, b)"
  shows "vector_from_value ok v = Inr (t, d, a)" and "vector_from_value ok w = Inr (t, d, b)"
  using assms by (auto simp: ensure_vector_match_def split: sum.splits if_splits)

lemma add_vector:
  assumes "vec_add ok v w = Inr r"
  shows "\<exists>t d a. vector_from_value ok v = Inr (t, d, a) \<and> vector_value r t d"
proof -
  obtain t d a b where m: "ensure_vector_match ok v w = Inr (t, d, a, b)"
    using assms by (auto simp: vec_add_def split: sum.splits)
  then have "vector_value r t d"
    using assms vector_from_value_wf [OF match_wf(1) [OF m]]
    by (cases t) (auto simp: vec_add_def vector_byte_size_def split: if_splits intro!: blob_vector_value)
  then show ?thesis using match_wf(1) [OF m] by blast
qed

lemma sub_vector:
  assumes "vec_sub ok v w = Inr r"
  shows "\<exists>t d a. vector_from_value ok v = Inr (t, d, a) \<and> vector_value r t d"
proof -
  obtain t d a b where m: "ensure_vector_match ok v w = Inr (t, d, a, b)"
    using assms by (auto simp: vec_sub_def split: sum.splits)
  then have "vector_value r t d"
    using assms vector_from_value_wf [OF match_wf(1) [OF m]]
    by (cases t) (auto simp: vec_sub_def vector_byte_size_def split: if_splits intro!: blob_vector_value)
  then show ?thesis using match_wf(1) [OF m] by blast
qed

lemma normalize_vector:
  assumes "vec_normalize ok v = Inr r"
  shows "\<exists>t d a. vector_from_value ok v = Inr (t, d, a) \<and> vector_value r t d"
proof -
  obtain t d a where m: "vector_from_value ok v = Inr (t, d, a)"
    using assms by (auto simp: vec_normalize_def split: sum.splits)
  then have "vector_value r t d"
    using assms vector_from_value_wf [OF m]
    by (cases t) (auto simp: vec_normalize_def vector_byte_size_def Let_def split: if_splits intro!: blob_vector_value)
  then show ?thesis using m by blast
qed

lemma slice_vector:
  assumes "vec_slice ok v vs ve = Inr r"
  shows "\<exists>t d a. vector_from_value ok v = Inr (t, d, a) \<and>
    vector_value r t (nat (c_int (value_int64 ve) - c_int (value_int64 vs)))"
proof -
  obtain t d a where m: "vector_from_value ok v = Inr (t, d, a)"
    using assms by (auto simp: vec_slice_def split: sum.splits)
  let ?n = "nat (c_int (value_int64 ve) - c_int (value_int64 vs))"
  have "?n mod 8 = 0" if "nat (c_int (value_int64 vs)) mod 8 = 0" "nat (c_int (value_int64 ve)) mod 8 = 0"
    "0 \<le> c_int (value_int64 vs)" "c_int (value_int64 vs) < c_int (value_int64 ve)"
    using that by (simp add: nat_diff_distrib' mod_eq_0_iff_dvd)
  then have "vector_value r t ?n"
    using assms m vector_from_value_wf [OF m]
    by (cases t) (auto simp: vec_slice_def vector_byte_size_def Let_def split: if_splits intro!: blob_vector_value)
  then show ?thesis using m by blast
qed

lemma constructor_vectors:
  "vec_f32 ok v = Inr r \<Longrightarrow> \<exists>d. vector_value r SQLITE_VEC_ELEMENT_TYPE_FLOAT32 d"
  "vec_int8 ok v = Inr r \<Longrightarrow> \<exists>d. vector_value r SQLITE_VEC_ELEMENT_TYPE_INT8 d"
  "vec_bit v = Inr r \<Longrightarrow> \<exists>d. vector_value r SQLITE_VEC_ELEMENT_TYPE_BIT d"
proof -
  assume r: "vec_f32 ok v = Inr r"
  then obtain d bs where d: "fvec_from_value ok v = Inr (d, bs)" "r = blob_result SQLITE_VEC_ELEMENT_TYPE_FLOAT32 (take (d * 4) bs)"
    by (auto simp: vec_f32_def split: sum.splits)
  then have "0 < d" "length bs = d * 4"
    using json_vector_nonempty
    by (auto simp: fvec_from_value_def mult.commute div_greater_zero_iff dvd_imp_le split: sqlite_type.splits if_splits sum.splits)
  then show "\<exists>d. vector_value r SQLITE_VEC_ELEMENT_TYPE_FLOAT32 d"
    unfolding d(2) by (intro exI [of _ d] blob_vector_value) (simp_all add: vector_byte_size_def)
next
  assume r: "vec_int8 ok v = Inr r"
  then obtain d bs where d: "int8_vec_from_value ok v = Inr (d, bs)" "r = blob_result SQLITE_VEC_ELEMENT_TYPE_INT8 (take d bs)"
    by (auto simp: vec_int8_def split: sum.splits)
  then have "0 < d" "length bs = d"
    using json_vector_nonempty
    by (auto simp: int8_vec_from_value_def split: sqlite_type.splits if_splits sum.splits)
  then show "\<exists>d. vector_value r SQLITE_VEC_ELEMENT_TYPE_INT8 d"
    unfolding d(2) by (intro exI [of _ d] blob_vector_value) (simp_all add: vector_byte_size_def)
next
  assume r: "vec_bit v = Inr r"
  then obtain d bs where d: "bitvec_from_value v = Inr (d, bs)" "r = blob_result SQLITE_VEC_ELEMENT_TYPE_BIT (take (d div 8) bs)"
    by (auto simp: vec_bit_def split: sum.splits)
  then have "0 < d" "d = length bs * 8" by (auto simp: bitvec_from_value_def split: sqlite_type.splits if_splits)
  then show "\<exists>d. vector_value r SQLITE_VEC_ELEMENT_TYPE_BIT d"
    unfolding d(2) by (intro exI [of _ d] blob_vector_value) (simp_all add: vector_byte_size_def)
qed

lemma quantize_binary_vector:
  assumes "vec_quantize_binary ok v = Inr r"
  shows "\<exists>t d a. vector_from_value ok v = Inr (t, d, a) \<and> vector_value r SQLITE_VEC_ELEMENT_TYPE_BIT d"
proof -
  obtain t d a where m: "vector_from_value ok v = Inr (t, d, a)"
    using assms by (auto simp: vec_quantize_binary_def split: sum.splits)
  then have "d mod 8 = 0" "0 < d" "\<exists>f. r = blob_result SQLITE_VEC_ELEMENT_TYPE_BIT (quantize_bits f d)"
    using assms by (auto simp: vec_quantize_binary_def Let_def split: if_splits element_type.splits)
  then have "vector_value r SQLITE_VEC_ELEMENT_TYPE_BIT d"
    by (auto simp: quantize_bits(1) vector_byte_size_def intro!: blob_vector_value)
  then show ?thesis using m by blast
qed

lemma those_length: "those xs = Some ys \<Longrightarrow> length ys = length xs"
  by (induction xs arbitrary: ys) (auto split: option.splits)

lemma quantize_int8_vector:
  assumes "vec_quantize_int8 ok v w = Some (Inr r)"
  shows "\<exists>d a. fvec_from_value ok v = Inr (d, a) \<and> vector_value r SQLITE_VEC_ELEMENT_TYPE_INT8 d"
proof -
  obtain d a where m: "fvec_from_value ok v = Inr (d, a)"
    using assms by (auto simp: vec_quantize_int8_def split: sum.splits)
  then obtain out where out: "those (map (i8_of_f64 \<circ> quantize_unit) (f32s_at a 0 d)) = Some out"
    "r = blob_result SQLITE_VEC_ELEMENT_TYPE_INT8 out"
    using assms by (auto simp: vec_quantize_int8_def split: if_splits)
  have "0 < d" using m json_vector_nonempty
    by (auto simp: fvec_from_value_def div_greater_zero_iff dvd_imp_le split: sqlite_type.splits if_splits sum.splits)
  then show ?thesis
    using m out(2) those_length [OF out(1)] by (auto simp: vector_byte_size_def intro!: blob_vector_value)
qed

text \<open>
  C30. Whatever a vector function returns is a vector: the constructors, sums, differences, slices,
  normalizations and quantizations return a value that every vector function reads back as a vector of
  at least one dimension, with the bytes that were returned, of the element type of the argument, except
  that the quantizations return bit and int8 vectors.
\<close>

theorem vector_results_well_typed:
  "(vec_f32 ok v = Inr r \<longrightarrow> (\<exists>d. vector_value r SQLITE_VEC_ELEMENT_TYPE_FLOAT32 d))
  \<and> (vec_int8 ok v = Inr r \<longrightarrow> (\<exists>d. vector_value r SQLITE_VEC_ELEMENT_TYPE_INT8 d))
  \<and> (vec_bit v = Inr r \<longrightarrow> (\<exists>d. vector_value r SQLITE_VEC_ELEMENT_TYPE_BIT d))
  \<and> (vec_add ok v w = Inr r \<or> vec_sub ok v w = Inr r \<or> vec_normalize ok v = Inr r \<longrightarrow>
       (\<exists>t d a. vector_from_value ok v = Inr (t, d, a) \<and> vector_value r t d))
  \<and> (vec_slice ok v vs ve = Inr r \<longrightarrow> (\<exists>t d a. vector_from_value ok v = Inr (t, d, a)
       \<and> vector_value r t (nat (c_int (value_int64 ve) - c_int (value_int64 vs)))))
  \<and> (vec_quantize_binary ok v = Inr r \<longrightarrow>
       (\<exists>t d a. vector_from_value ok v = Inr (t, d, a) \<and> vector_value r SQLITE_VEC_ELEMENT_TYPE_BIT d))
  \<and> (vec_quantize_int8 ok v w = Some (Inr r) \<longrightarrow>
       (\<exists>d a. fvec_from_value ok v = Inr (d, a) \<and> vector_value r SQLITE_VEC_ELEMENT_TYPE_INT8 d))"
  by (intro conjI impI; (elim disjE)?; erule constructor_vectors add_vector sub_vector normalize_vector slice_vector
      quantize_binary_vector quantize_int8_vector)

text \<open>An int8 vector is cut, and the slice is a vector of two elements.\<close>

definition int8_sample :: sqlite3_arg where
  "int8_sample = blob_result SQLITE_VEC_ELEMENT_TYPE_INT8 [1, 2, 253, 4]"

theorem vector_results_well_typed_witness:
  "vec_slice True int8_sample (int_result 1) (int_result 3) = Inr (blob_result SQLITE_VEC_ELEMENT_TYPE_INT8 [2, 253])
   \<and> (\<exists>t. vector_value (blob_result SQLITE_VEC_ELEMENT_TYPE_INT8 [2, 253]) t 2)"
proof -
  have run: "vec_slice True int8_sample (int_result 1) (int_result 3) =
      Inr (blob_result SQLITE_VEC_ELEMENT_TYPE_INT8 [2, 253])" by code_simp
  have "nat (c_int (value_int64 (int_result 3)) - c_int (value_int64 (int_result 1))) = 2" by code_simp
  then show ?thesis
    using run vector_results_well_typed [of True int8_sample "blob_result SQLITE_VEC_ELEMENT_TYPE_INT8 [2, 253]"
        int8_sample "int_result 1" "int_result 3"] by auto
qed

subsection \<open>Sums and differences\<close>

lemma i8_sum: "length a = d \<Longrightarrow> length b = d \<Longrightarrow>
    map word_of_int (map2 (+) (i8s_at a 0 d) (i8s_at b 0 d)) = (map2 (+) a b :: bytes)"
  by (rule nth_equalityI) (simp_all add: i8s_at_def)

lemma i8_difference: "length a = d \<Longrightarrow> length b = d \<Longrightarrow>
    map word_of_int (map2 (-) (i8s_at a 0 d) (i8s_at b 0 d)) = (map2 (-) a b :: bytes)"
  by (rule nth_equalityI) (simp_all add: i8s_at_def)

text \<open>
  On int8 vectors the sum wraps around and the difference undoes it: if two vectors match, both
  orders of the sum give the same vector, and subtracting the second vector from it gives the first one
  back, whatever overflowed.
\<close>

theorem int8_add_sub_inverse:
  assumes "ensure_vector_match True v w = Inr (SQLITE_VEC_ELEMENT_TYPE_INT8, d, a, b)"
  shows "\<exists>s. vec_add True v w = Inr s \<and> vec_add True w v = Inr s
    \<and> vec_sub True s w = Inr (blob_result SQLITE_VEC_ELEMENT_TYPE_INT8 a)"
proof -
  note v = match_wf(1) [OF assms] and w = match_wf(2) [OF assms]
  have len: "0 < d" "length a = d" "length b = d"
    using vector_from_value_wf [OF v] vector_from_value_wf [OF w] by (simp_all add: vector_byte_size_def)
  let ?s = "blob_result SQLITE_VEC_ELEMENT_TYPE_INT8 (map2 (+) a b)"
  have s: "vector_from_value True ?s = Inr (SQLITE_VEC_ELEMENT_TYPE_INT8, d, map2 (+) a b)"
    using len by (intro vector_of_blob) (simp_all add: vector_byte_size_def)
  have "map2 (+) b a = map2 (+) a b" by (rule nth_equalityI) (simp_all add: len add.commute)
  moreover have "map2 (-) (map2 (+) a b) b = a" by (rule nth_equalityI) (simp_all add: len)
  moreover have "length (map2 (+) a b) = d" using len by simp
  ultimately have "vec_add True v w = Inr ?s \<and> vec_add True w v = Inr ?s
    \<and> vec_sub True ?s w = Inr (blob_result SQLITE_VEC_ELEMENT_TYPE_INT8 a)"
    using v w s len by (simp add: vec_add_def vec_sub_def ensure_vector_match_def i8_sum i8_difference del: map_map)
  then show ?thesis by blast
qed

theorem int8_add_sub_inverse_witness:
  "vec_add True int8_sample int8_sample = Inr (blob_result SQLITE_VEC_ELEMENT_TYPE_INT8 [2, 4, 250, 8])
    \<and> vec_sub True (blob_result SQLITE_VEC_ELEMENT_TYPE_INT8 [2, 4, 250, 8]) int8_sample = Inr int8_sample"
proof -
  have "ensure_vector_match True int8_sample int8_sample =
      Inr (SQLITE_VEC_ELEMENT_TYPE_INT8, 4, [1, 2, 253, 4], [1, 2, 253, 4])" by code_simp
  from int8_add_sub_inverse [OF this] obtain s where
    "vec_add True int8_sample int8_sample = Inr s" "vec_sub True s int8_sample = Inr int8_sample"
    by (auto simp: int8_sample_def)
  moreover have "vec_add True int8_sample int8_sample = Inr (blob_result SQLITE_VEC_ELEMENT_TYPE_INT8 [2, 4, 250, 8])"
    by code_simp
  ultimately show ?thesis by simp
qed

subsection \<open>Slices\<close>

lemma f32s_at_slice: "off + n \<le> m \<Longrightarrow> take n (drop off (f32s_at bs s m)) = f32s_at bs (s + off) n"
  by (rule nth_equalityI) (simp_all add: f32s_at_def add.assoc)

lemma c_int_between: "c_int a = a \<Longrightarrow> c_int e = e \<Longrightarrow> a \<le> x \<Longrightarrow> x \<le> e \<Longrightarrow> c_int x = x"
  using c_int_range [of a] c_int_range [of e] by (intro c_int_id) simp_all

definition slice_bytes :: "element_type \<Rightarrow> bytes \<Rightarrow> nat \<Rightarrow> nat \<Rightarrow> bytes" where
  "slice_bytes t bs s n =
     (case t of
        SQLITE_VEC_ELEMENT_TYPE_FLOAT32 \<Rightarrow> fwrite_floats (f32s_at bs s n)
      | SQLITE_VEC_ELEMENT_TYPE_INT8 \<Rightarrow> map (\<lambda>i. bs ! (s + i)) [0..<n]
      | SQLITE_VEC_ELEMENT_TYPE_BIT \<Rightarrow> map (\<lambda>i. bs ! (s div 8 + i)) [0..<n div 8])"

definition slice_ok :: "element_type \<Rightarrow> nat \<Rightarrow> int \<Rightarrow> int \<Rightarrow> bool" where
  "slice_ok t d s e \<longleftrightarrow> 0 \<le> s \<and> s < e \<and> nat e \<le> d
     \<and> (t = SQLITE_VEC_ELEMENT_TYPE_BIT \<longrightarrow> nat s mod 8 = 0 \<and> nat e mod 8 = 0)"

lemma slice_result:
  assumes "vector_from_value True v = Inr (t, d, bs)" and "c_int s = s" and "c_int e = e"
  shows "vec_slice True v (int_result s) (int_result e) =
    (if slice_ok t d s e then Inr (blob_result t (slice_bytes t bs (nat s) (nat (e - s)))) else Inl SQLITE_ERROR)"
proof (cases "0 \<le> s \<and> s < e \<and> nat e \<le> d")
  case True
  then have "\<not> s < 0" "\<not> e < 0" "\<not> d < nat s" "\<not> d < nat e" "\<not> e < s" "s \<noteq> e" by linarith+
  then show ?thesis
    using assms True by (cases t) (simp_all add: vec_slice_def int_result_def slice_ok_def slice_bytes_def Let_def)
next
  case False
  then show ?thesis
    using assms by (simp add: vec_slice_def int_result_def slice_ok_def) linarith
qed

lemma mod8_diff: "a mod 8 = 0 \<Longrightarrow> b mod 8 = 0 \<Longrightarrow> b = a + c \<Longrightarrow> c mod 8 = 0" for a b c :: nat
  by presburger

lemma slice_bytes_twice:
  assumes "s' + n' \<le> n" and "t = SQLITE_VEC_ELEMENT_TYPE_BIT \<Longrightarrow> s mod 8 = 0 \<and> s' mod 8 = 0 \<and> n mod 8 = 0 \<and> n' mod 8 = 0"
  shows "slice_bytes t (slice_bytes t bs s n) s' n' = slice_bytes t bs (s + s') n'"
proof (cases t)
  case SQLITE_VEC_ELEMENT_TYPE_FLOAT32
  then show ?thesis using assms(1) by (simp add: slice_bytes_def f32s_at_fwrite f32s_at_slice)
next
  case SQLITE_VEC_ELEMENT_TYPE_INT8
  then show ?thesis using assms(1) by (simp add: slice_bytes_def add.assoc)
next
  case SQLITE_VEC_ELEMENT_TYPE_BIT
  then have m: "s mod 8 = 0" "s' mod 8 = 0" using assms(2) by blast+
  then have dvd: "8 dvd s" "8 dvd s'" by (simp_all add: mod_eq_0_iff_dvd)
  then have "(s + s') div 8 = s div 8 + s' div 8" by (simp add: div_add)
  moreover have "s' div 8 + n' div 8 = (s' + n') div 8" using dvd(2) by (simp add: div_plus_div_distrib_dvd_left)
  then have "s' div 8 + n' div 8 \<le> n div 8" using div_le_mono [OF assms(1), of 8] by simp
  ultimately show ?thesis using SQLITE_VEC_ELEMENT_TYPE_BIT by (simp add: slice_bytes_def add.assoc)
qed

text \<open>
  A slice of a slice is a slice of the vector: cutting a vector and then the result gives the same
  vector as one cut at the sums of the positions, for float, int8 and bit vectors.
\<close>

theorem slice_of_slice:
  assumes "c_int s = s" and "c_int e = e" and "c_int s' = s'" and "c_int e' = e'"
    and "vec_slice True v (int_result s) (int_result e) = Inr r"
    and "vec_slice True r (int_result s') (int_result e') = Inr r'"
  shows "vec_slice True v (int_result (s + s')) (int_result (s + e')) = Inr r'"
proof -
  obtain t d bs where v: "vector_from_value True v = Inr (t, d, bs)"
    using assms(5) by (auto simp: vec_slice_def split: sum.splits)
  then have ok: "slice_ok t d s e" and r: "r = blob_result t (slice_bytes t bs (nat s) (nat (e - s)))"
    using assms(5) slice_result [OF v assms(1,2)] by (simp_all split: if_splits)
  have "vector_from_value True r = Inr (t, nat (e - s), value_text r)"
    using slice_vector [OF assms(5)] v assms(1,2) by (auto simp: vector_value_def int_result_def)
  note r_result = slice_result [OF this assms(3,4)]
  then have ok': "slice_ok t (nat (e - s)) s' e'"
    and r': "r' = blob_result t (slice_bytes t (value_text r) (nat s') (nat (e' - s')))"
    using assms(6) by (simp_all split: if_splits)
  have le: "nat s' + nat (e' - s') \<le> nat (e - s)" using ok' unfolding slice_ok_def by linarith
  have sums: "c_int (s + s') = s + s'" "c_int (s + e') = s + e'"
    using ok ok' c_int_between [OF assms(1,2)] unfolding slice_ok_def by auto
  have nats: "nat (s + s') = nat s + nat s'" "nat (s + e') = nat s + nat e'" "nat e = nat s + nat (e - s)"
    "nat e' = nat s' + nat (e' - s')"
    using ok ok' by (simp_all add: slice_ok_def nat_add_distrib flip: nat_add_distrib)
  have bits: "nat s mod 8 = 0 \<and> nat s' mod 8 = 0 \<and> nat (e - s) mod 8 = 0 \<and> nat (e' - s') mod 8 = 0"
    if bit: "t = SQLITE_VEC_ELEMENT_TYPE_BIT"
  proof -
    have m: "nat s mod 8 = 0" "nat e mod 8 = 0" "nat s' mod 8 = 0" "nat e' mod 8 = 0"
      using bit ok ok' by (simp_all only: slice_ok_def)
    show ?thesis using m mod8_diff [OF m(1,2) nats(3)] mod8_diff [OF m(3,4) nats(4)] by (intro conjI)
  qed
  have "slice_ok t d (s + s') (s + e')"
    using ok ok' bits nats unfolding slice_ok_def by auto
  moreover have "value_text r = slice_bytes t bs (nat s) (nat (e - s))" by (simp add: r blob_result_def)
  ultimately show ?thesis
    using slice_result [OF v sums] r' nats(1) slice_bytes_twice [OF le bits] by simp
qed

theorem slice_of_slice_witness:
  "vec_slice True int8_sample (int_result 1) (int_result 4) = Inr (blob_result SQLITE_VEC_ELEMENT_TYPE_INT8 [2, 253, 4])
    \<and> vec_slice True int8_sample (int_result 2) (int_result 3) = Inr (blob_result SQLITE_VEC_ELEMENT_TYPE_INT8 [253])"
proof -
  have "vec_slice True int8_sample (int_result 1) (int_result 4) =
      Inr (blob_result SQLITE_VEC_ELEMENT_TYPE_INT8 [2, 253, 4])" by code_simp
  moreover have "vec_slice True (blob_result SQLITE_VEC_ELEMENT_TYPE_INT8 [2, 253, 4]) (int_result 1) (int_result 2) =
      Inr (blob_result SQLITE_VEC_ELEMENT_TYPE_INT8 [253])" by code_simp
  ultimately show ?thesis using slice_of_slice [of 1 4 1 2 int8_sample] by (simp add: c_int_def)
qed

subsection \<open>Binary quantization\<close>

text \<open>The sign test of an element.\<close>

definition positive_at :: "element_type \<Rightarrow> nat \<Rightarrow> bytes \<Rightarrow> nat \<Rightarrow> bool" where
  "positive_at t d bs i \<longleftrightarrow>
     (case t of
        SQLITE_VEC_ELEMENT_TYPE_FLOAT32 \<Rightarrow> flt 0 (f32s_at bs 0 d ! i)
      | SQLITE_VEC_ELEMENT_TYPE_INT8 \<Rightarrow> i8s_at bs 0 d ! i > 0
      | SQLITE_VEC_ELEMENT_TYPE_BIT \<Rightarrow> False)"

lemma quantize_binary_result:
  assumes "vector_from_value True v = Inr (t, d, a)" and "t \<noteq> SQLITE_VEC_ELEMENT_TYPE_BIT" and "d mod 8 = 0"
  shows "vec_quantize_binary True v = Inr (blob_result SQLITE_VEC_ELEMENT_TYPE_BIT (quantize_bits (positive_at t d a) d))"
  using assms vector_from_value_wf [OF assms(1)]
  by (cases t) (simp_all add: vec_quantize_binary_def positive_at_def [abs_def])

text \<open>
  C31. The Hamming distance of two binary quantizations is the number of elements on which the signs of the
  vectors disagree: quantizing two float or int8 vectors of the same type, whose dimensions are divisible
  by eight, succeeds, and the distance of the results counts the positions where exactly one of the
  elements is positive.
\<close>

theorem quantized_hamming_counts_signs:
  assumes "ensure_vector_match True v w = Inr (t, d, a, b)" and "t \<noteq> SQLITE_VEC_ELEMENT_TYPE_BIT" and "d mod 8 = 0"
  shows "\<exists>r s. vec_quantize_binary True v = Inr r \<and> vec_quantize_binary True w = Inr s
    \<and> vec_distance_hamming True r s = Inr (double_result (f64_of_f32 (f32_of_int
        (int (card {i. i < d \<and> positive_at t d a i \<noteq> positive_at t d b i})))))"
proof -
  note v = match_wf(1) [OF assms(1)] and w = match_wf(2) [OF assms(1)]
  have d: "0 < d" using vector_from_value_wf [OF v] by blast
  let ?q = "\<lambda>x. quantize_bits (positive_at t d x) d"
  have q: "vector_from_value True (blob_result SQLITE_VEC_ELEMENT_TYPE_BIT (?q x)) =
      Inr (SQLITE_VEC_ELEMENT_TYPE_BIT, d, ?q x)" for x
    using d assms(3) by (intro vector_of_blob) (simp_all add: vector_byte_size_def quantize_bits(1))
  have "distance_hamming (?q a) (?q b) d = f32_of_int (int (card {i. i < d \<and> positive_at t d a i \<noteq> positive_at t d b i}))"
    using assms(3) by (simp add: distance_hamming_bits quantize_bits(1) quantize_hamming)
  then have "vec_distance_hamming True (blob_result SQLITE_VEC_ELEMENT_TYPE_BIT (?q a)) (blob_result SQLITE_VEC_ELEMENT_TYPE_BIT (?q b)) =
      Inr (double_result (f64_of_f32 (f32_of_int (int (card {i. i < d \<and> positive_at t d a i \<noteq> positive_at t d b i})))))"
    using q by (simp add: vec_distance_hamming_def ensure_vector_match_def)
  then show ?thesis
    using quantize_binary_result [OF v assms(2,3)] quantize_binary_result [OF w assms(2,3)] by blast
qed

definition signs_sample :: "bytes \<Rightarrow> sqlite3_arg" where
  "signs_sample bs = blob_result SQLITE_VEC_ELEMENT_TYPE_INT8 bs"

theorem quantized_hamming_counts_signs_witness:
  "\<exists>r s. vec_quantize_binary True (signs_sample [1, 255, 3, 4, 5, 6, 7, 8]) = Inr r
    \<and> vec_quantize_binary True (signs_sample [1, 2, 3, 4, 5, 6, 7, 0]) = Inr s
    \<and> vec_distance_hamming True r s = Inr (double_result (f64_of_f32 (f32_of_int 2)))"
proof -
  let ?a = "[1, 255, 3, 4, 5, 6, 7, 8] :: bytes" and ?b = "[1, 2, 3, 4, 5, 6, 7, 0] :: bytes"
  have m: "ensure_vector_match True (signs_sample ?a) (signs_sample ?b) = Inr (SQLITE_VEC_ELEMENT_TYPE_INT8, 8, ?a, ?b)"
    by code_simp
  have "{i. i < 8 \<and> positive_at SQLITE_VEC_ELEMENT_TYPE_INT8 8 ?a i \<noteq> positive_at SQLITE_VEC_ELEMENT_TYPE_INT8 8 ?b i} =
      set (filter (\<lambda>i. positive_at SQLITE_VEC_ELEMENT_TYPE_INT8 8 ?a i \<noteq> positive_at SQLITE_VEC_ELEMENT_TYPE_INT8 8 ?b i) [0..<8])"
    by auto
  moreover have "filter (\<lambda>i. positive_at SQLITE_VEC_ELEMENT_TYPE_INT8 8 ?a i \<noteq> positive_at SQLITE_VEC_ELEMENT_TYPE_INT8 8 ?b i) [0..<8] = [1, 7]"
    by code_simp
  ultimately have "card {i. i < 8 \<and> positive_at SQLITE_VEC_ELEMENT_TYPE_INT8 8 ?a i \<noteq> positive_at SQLITE_VEC_ELEMENT_TYPE_INT8 8 ?b i} = 2"
    by (simp only:) simp
  then show ?thesis using quantized_hamming_counts_signs [OF m] by simp
qed

subsection \<open>Distances in queries and in expressions\<close>

lemma f32s_at_sub: "f32s_at (take (d * 4) (drop (i * (d * 4)) bs)) 0 d = f32s_at bs (i * d) d"
proof -
  have "take 4 (drop (4 * j) (take (d * 4) (drop (i * (d * 4)) bs))) = take 4 (drop (4 * (i * d + j)) bs)" if "j < d" for j
  proof -
    have "min 4 (d * 4 - 4 * j) = 4" using that by auto
    moreover have "4 * j + i * (d * 4) = 4 * (i * d + j)" by simp
    ultimately show ?thesis by (simp only: drop_take drop_drop take_take)
  qed
  then show ?thesis by (simp add: f32s_at_def)
qed

lemma i8s_at_sub: "i8s_at (take d (drop (i * d) bs)) 0 d = i8s_at bs (i * d) d" if "i * d + d \<le> length bs"
  using that by (simp add: i8s_at_def)

lemma u64_at_take: "i < n \<Longrightarrow> u64_at (take (8 * n) bs) i = u64_at bs i"
proof -
  assume "i < n"
  then have "min 8 (8 * n - 8 * i) = 8" by auto
  then show ?thesis by (simp add: u64_at_def drop_take)
qed

lemma foldl_cong_set: "(\<And>a i. i \<in> set xs \<Longrightarrow> f a i = g a i) \<Longrightarrow> foldl f s xs = foldl g s xs"
  by (rule foldl_cong) simp_all

lemma hamming_take: "d mod 8 = 0 \<Longrightarrow> distance_hamming (take (d div 8) bs) q d = distance_hamming bs q d"
proof (cases "d mod 64 = 0")
  case True
  then have eq: "8 * (d div 8 div 8) = d div 8" by presburger
  have "u64_at (take (d div 8) bs) i = u64_at bs i" if "i < d div 8 div 8" for i
    using u64_at_take [OF that, of bs] unfolding eq .
  then have "distance_hamming_u64 (take (d div 8) bs) q (d div 8 div 8) = distance_hamming_u64 bs q (d div 8 div 8)"
    unfolding distance_hamming_u64_def by (intro arg_cong [where f = f32_of_int] foldl_cong_set) simp
  then show ?thesis using True by (simp add: distance_hamming_def)
next
  case False
  have "distance_hamming_u8 (take (d div 8) bs) q (d div 8) = distance_hamming_u8 bs q (d div 8)"
    unfolding distance_hamming_u8_def by (intro arg_cong [where f = f32_of_int] foldl_cong_set) simp
  then show ?thesis using False by (simp add: distance_hamming_def)
qed

text \<open>
  C27. The distance a query reports for a stored row is the distance that the SQL function of the metric
  computes on the stored vector and the query vector: \<open>vec_distance_l2\<close>, \<open>vec_distance_l1\<close> and
  \<open>vec_distance_cosine\<close> on float and int8 columns, \<open>vec_distance_hamming\<close> on bit columns, up to the rounding of
  an L1 distance to \<open>float\<close>.
\<close>

theorem scan_distance_is_sql_distance:
  assumes "0 < dimensions vc" and "element_type vc = SQLITE_VEC_ELEMENT_TYPE_BIT \<longrightarrow> dimensions vc mod 8 = 0"
    and "n = vector_column_byte_size vc" and "length q = n" and "i * n + n \<le> length base"
    and "stored = blob_result (element_type vc) (take n (drop (i * n) base))" and "query = blob_result (element_type vc) q"
  shows "case element_type vc of
      SQLITE_VEC_ELEMENT_TYPE_BIT \<Rightarrow>
        vec_distance_hamming True stored query = Inr (double_result (f64_of_f32 (row_distance vc base q i)))
    | _ \<Rightarrow> (case distance_metric vc of
        VEC0_DISTANCE_METRIC_L2 \<Rightarrow>
          vec_distance_l2 True stored query = Inr (double_result (f64_of_f32 (row_distance vc base q i)))
      | VEC0_DISTANCE_METRIC_COSINE \<Rightarrow>
          vec_distance_cosine True stored query = Inr (double_result (f64_of_f32 (row_distance vc base q i)))
      | VEC0_DISTANCE_METRIC_L1 \<Rightarrow>
          (\<exists>r. vec_distance_l1 True stored query = Inr r
            \<and> (r = double_result (value_double r) \<and> row_distance vc base q i = f32_of_f64 (value_double r)
               \<or> r = int_result (value_int64 r) \<and> row_distance vc base q i = f32_of_int (value_int64 r))))"
proof -
  let ?t = "element_type vc" and ?d = "dimensions vc"
  have len: "length (take n (drop (i * n) base)) = n" using assms(5) by simp
  have "vector_from_value True stored = Inr (?t, ?d, take n (drop (i * n) base))"
    using assms(1,2,3) len unfolding assms(6) by (intro vector_of_blob) (simp_all add: vector_column_byte_size_def)
  moreover have "vector_from_value True query = Inr (?t, ?d, q)"
    using assms(1-4) unfolding assms(7) by (intro vector_of_blob) (simp_all add: vector_column_byte_size_def)
  ultimately have m: "ensure_vector_match True stored query = Inr (?t, ?d, take n (drop (i * n) base), q)"
    by (simp add: ensure_vector_match_def)
  show ?thesis
  proof (cases ?t)
    case SQLITE_VEC_ELEMENT_TYPE_FLOAT32
    then have n: "n = ?d * 4" using assms(3) by (simp add: vector_column_byte_size_def vector_byte_size_def)
    show ?thesis
      using m unfolding SQLITE_VEC_ELEMENT_TYPE_FLOAT32 n
      by (cases "distance_metric vc")
        (simp_all add: vec_distance_l2_def vec_distance_cosine_def vec_distance_l1_def row_distance_def Let_def
          SQLITE_VEC_ELEMENT_TYPE_FLOAT32 f32s_at_sub double_result_def)
  next
    case SQLITE_VEC_ELEMENT_TYPE_INT8
    then have n: "n = ?d" using assms(3) by (simp add: vector_column_byte_size_def vector_byte_size_def)
    show ?thesis
      using m assms(5) unfolding SQLITE_VEC_ELEMENT_TYPE_INT8 n
      by (cases "distance_metric vc")
        (simp_all add: vec_distance_l2_def vec_distance_cosine_def vec_distance_l1_def row_distance_def Let_def
          SQLITE_VEC_ELEMENT_TYPE_INT8 i8s_at_sub int_result_def)
  next
    case SQLITE_VEC_ELEMENT_TYPE_BIT
    then have n: "n = ?d div 8" using assms(3) by (simp add: vector_column_byte_size_def vector_byte_size_def)
    have "?d mod 8 = 0" using assms(2) SQLITE_VEC_ELEMENT_TYPE_BIT by blast
    then show ?thesis
      using m hamming_take [of ?d "drop (i * (?d div 8)) base"] unfolding SQLITE_VEC_ELEMENT_TYPE_BIT n
      by (simp add: vec_distance_hamming_def row_distance_def SQLITE_VEC_ELEMENT_TYPE_BIT Let_def)
  qed
qed

text \<open>The second row of an int8 chunk against a query.\<close>

definition int8_column :: vector_column_definition where
  "int8_column = \<lparr>dimensions = 2, element_type = SQLITE_VEC_ELEMENT_TYPE_INT8, distance_metric = VEC0_DISTANCE_METRIC_L1\<rparr>"

theorem scan_distance_is_sql_distance_witness:
  "\<exists>r. vec_distance_l1 True (signs_sample [5, 250]) (signs_sample [1, 1]) = Inr r
    \<and> (row_distance int8_column [0, 0, 5, 250] [1, 1] 1 = f32_of_f64 (value_double r)
       \<or> row_distance int8_column [0, 0, 5, 250] [1, 1] 1 = f32_of_int (value_int64 r))"
proof -
  have c: "element_type int8_column = SQLITE_VEC_ELEMENT_TYPE_INT8" "distance_metric int8_column = VEC0_DISTANCE_METRIC_L1"
    "0 < dimensions int8_column" by (simp_all add: int8_column_def)
  have n: "2 = vector_column_byte_size int8_column" by code_simp
  have "signs_sample [5, 250] = blob_result (element_type int8_column) (take 2 (drop (1 * 2) [0, 0, 5, 250]))"
    "signs_sample [1, 1] = blob_result (element_type int8_column) [1, 1]" by (simp_all add: signs_sample_def c)
  from scan_distance_is_sql_distance [OF c(3) _ n _ _ this] show ?thesis using c by auto
qed

end
