(* ===== verification/Json_Correct.thy ===== *)
theory Json_Correct
  imports ScalarFuns_Correct
begin

text \<open>
  The parser of JSON arrays: the array it collects the numbers in has room for them from the start, so that
  the append whose result it does not test cannot fail, and it reads back the text that \<open>vec_to_json\<close> prints
  for an int8 vector.
\<close>

subsection \<open>The numbers of a text\<close>

text \<open>What the parser reads, without the array.\<close>

function json_list :: "'a reader \<Rightarrow> bytes \<Rightarrow> 'a list result" where
  "json_list read rest =
     (if rest = [] then Inr []
      else case read rest of (bad, n, e) \<Rightarrow>
        if bad then Inl SQLITE_ERROR
        else if n = 0 then (if hd rest \<noteq> 93 then Inl SQLITE_ERROR else Inr [])
        else case e of
          None \<Rightarrow> Inl SQLITE_ERROR
        | Some v \<Rightarrow>
            (let rest' = skip_separators (drop n rest) in
             if rest' \<noteq> [] \<and> hd rest' = 93 then Inr [v] else map_sum id ((#) v) (json_list read rest')))"
  by pat_completeness auto

termination
proof (relation "measure (\<lambda>(read, rest). length rest)")
  fix read :: "'a reader" and rest :: bytes and bad n e and v :: 'a and rest' pr z
  assume "rest \<noteq> []" and "n \<noteq> 0" and "rest' = skip_separators (drop n rest)"
  moreover have "length (skip_separators (drop n rest)) \<le> length rest - n"
    using length_skip_separators [of "drop n rest"] by simp
  ultimately show "((read, rest'), (read, rest)) \<in> measure (\<lambda>(read, rest). length rest)"
    by (cases rest) auto
qed simp

declare json_list.simps [simp del]

lemma json_list_cases:
  assumes "rest \<noteq> []" and "read rest = (bad, n, e)"
  obtains "json_list read rest = Inl SQLITE_ERROR" "json_numbers ok read rest x = Inl SQLITE_ERROR"
  | "json_list read rest = Inr []" "json_numbers ok read rest x = Inr x"
  | v where "0 < n" "e = Some v" "json_list read rest = Inr [v]"
      "json_numbers ok read rest x = Inr (snd (array_append ok x v))"
  | v rest' where "0 < n" "e = Some v" "rest' = skip_separators (drop n rest)"
      "json_list read rest = map_sum id ((#) v) (json_list read rest')"
      "json_numbers ok read rest x = json_numbers ok read rest' (snd (array_append ok x v))"
  using assms that
  by (cases bad; cases "n = 0"; cases e; cases "hd rest = 93"; cases "skip_separators (drop n rest) = []";
      cases "hd (skip_separators (drop n rest)) = 93")
    (simp_all add: json_list.simps [of read rest] json_numbers.simps [of ok read rest x] Let_def)

lemma dropWhile_shorter: "dropWhile P xs \<noteq> xs \<Longrightarrow> length (dropWhile P xs) < length xs"
  by (cases xs) (auto simp: less_Suc_eq_le length_dropWhile_le split: if_splits)

text \<open>
  A reader takes a number from the front of the text, and what follows a number of one or two bytes is not
  a number of one byte.
\<close>

locale number_reader =
  fixes read :: "'a reader"
  assumes read_within: "read s = (bad, n, e) \<Longrightarrow> n \<le> length s"
    and read_maximal: "read s = (bad, n, e) \<Longrightarrow> 0 < n \<Longrightarrow> n < 3 \<Longrightarrow> read (drop n s) = (bad', n', e') \<Longrightarrow> n' \<noteq> 1"
begin

definition short_start :: "bytes \<Rightarrow> bool" where
  "short_start s \<longleftrightarrow> fst (snd (read s)) = 1"

lemma next_shorter:
  assumes r: "read rest = (bad, n, e)" and n: "0 < n" and rest': "rest' = skip_separators (drop n rest)"
  shows "length rest' + (if short_start rest' then 1 else 0) + 2 \<le> length rest + (if n = 1 then 1 else 0)"
proof -
  have le: "n \<le> length rest" using read_within [OF r] .
  have short: "length rest' \<le> length rest - n" using rest' length_skip_separators [of "drop n rest"] by simp
  have 1: "\<not> short_start rest'" if "rest' = drop n rest" "n < 3"
    using read_maximal [OF r n that(2)] that(1) by (cases "read (drop n rest)") (auto simp: short_start_def)
  have 2: "length rest' < length rest - n" if "rest' \<noteq> drop n rest"
    using that rest' dropWhile_shorter [of _ "drop n rest"] by (auto simp: skip_separators_def)
  show ?thesis
  proof (cases "rest' = drop n rest \<and> n < 3")
    case True
    then show ?thesis using 1 short le n by auto
  next
    case False
    then show ?thesis using 2 short le n by (cases "rest' = drop n rest") auto
  qed
qed

lemma json_list_length:
  "json_list read rest = Inr xs \<Longrightarrow> length xs \<le> (length rest + (if short_start rest then 1 else 0)) div 2"
proof (induction "length rest" arbitrary: rest xs rule: less_induct)
  case less
  obtain bad n e where r: "read rest = (bad, n, e)" by (cases "read rest") auto
  show ?case
  proof (cases "rest = []")
    case True
    then show ?thesis using less.prems by (simp add: json_list.simps)
  next
    case False
    have le: "n \<le> length rest" using read_within [OF r] .
    have n1: "short_start rest \<longleftrightarrow> n = 1" using r by (simp add: short_start_def)
    from False r show ?thesis
    proof (cases rule: json_list_cases [where ok = True and x = "\<lparr>arr_elems = [], arr_capacity = 0\<rparr>"])
      case (3 v)
      then show ?thesis using less.prems le n1 by (cases "n = 1") auto
    next
      case (4 v rest')
      then obtain ys where ys: "json_list read rest' = Inr ys" "xs = v # ys"
        using less.prems by (cases "json_list read rest'") auto
      have short: "length rest' \<le> length rest - n" using 4(3) length_skip_separators [of "drop n rest"] by simp
      then have IH: "length ys \<le> (length rest' + (if short_start rest' then 1 else 0)) div 2"
        using less.hyps [OF _ ys(1)] 4(1) le by simp
      have "length rest' + (if short_start rest' then 1 else 0) + 2 \<le> length rest + (if n = 1 then 1 else 0)"
        using next_shorter [OF r 4(1,3)] .
      then show ?thesis using IH ys(2) n1 by auto
    qed (use less.prems in auto)
  qed
qed

text \<open>With room for the numbers the array holds them, whether it could grow or not.\<close>

lemma json_numbers_array:
  "length (arr_elems x) + (length rest + (if short_start rest then 1 else 0)) div 2 \<le> arr_capacity x \<Longrightarrow>
     json_numbers ok read rest x = map_sum id (\<lambda>xs. x\<lparr>arr_elems := arr_elems x @ xs\<rparr>) (json_list read rest)"
proof (induction "length rest" arbitrary: rest x rule: less_induct)
  case less
  obtain bad n e where r: "read rest = (bad, n, e)" by (cases "read rest") auto
  show ?case
  proof (cases "rest = []")
    case True
    then show ?thesis by (simp add: json_list.simps json_numbers.simps)
  next
    case False
    have le: "n \<le> length rest" using read_within [OF r] .
    have n1: "short_start rest \<longleftrightarrow> n = 1" using r by (simp add: short_start_def)
    have room: "array_append ok x v = (SQLITE_OK, x\<lparr>arr_elems := arr_elems x @ [v]\<rparr>)" if "0 < n" for v
    proof -
      have "1 \<le> (length rest + (if short_start rest then 1 else 0)) div 2" using that le n1 by (cases "n = 1") auto
      then show ?thesis using less.prems by (auto simp: array_append_def)
    qed
    from False r show ?thesis
    proof (cases rule: json_list_cases [where ok = ok and x = x])
      case (3 v)
      then show ?thesis using room by simp
    next
      case (4 v rest')
      let ?x = "x\<lparr>arr_elems := arr_elems x @ [v]\<rparr>"
      have step: "length rest' + (if short_start rest' then 1 else 0) + 2 \<le> length rest + (if n = 1 then 1 else 0)"
        using next_shorter [OF r 4(1,3)] .
      then have "length (arr_elems ?x) + (length rest' + (if short_start rest' then 1 else 0)) div 2 \<le> arr_capacity ?x"
        using less.prems n1 by auto
      moreover have "length rest' < length rest" using 4(1,3) le length_skip_separators [of "drop n rest"] by simp
      ultimately have "json_numbers ok read rest' ?x =
          map_sum id (\<lambda>xs. ?x\<lparr>arr_elems := arr_elems ?x @ xs\<rparr>) (json_list read rest')"
        using less.hyps by blast
      then show ?thesis using 4 room by (cases "json_list read rest'") simp_all
    qed simp_all
  qed
qed

end

subsection \<open>The two readers\<close>

lemma c_sign_le: "c_sign s = (neg, sg) \<Longrightarrow> sg \<le> length s \<and> sg \<le> 1"
  by (cases s) (auto simp: c_sign_def split: if_splits)

definition starts_digit :: "bytes \<Rightarrow> bool" where
  "starts_digit s \<longleftrightarrow> s \<noteq> [] \<and> c_isdigit (hd s)"

lemma takeWhile_digits_end: "(\<And>c. c_isdigit c \<Longrightarrow> P c) \<Longrightarrow> \<not> starts_digit (drop (length (takeWhile P s)) s)"
  using hd_dropWhile [of P s] by (auto simp: starts_digit_def dropWhile_eq_drop)

lemma length_takeWhile_drop: "length (takeWhile P (drop k s)) \<le> length s - k"
  using length_takeWhile_le [of P "drop k s"] by simp

lemma strtol_within: "strtol s = (v, n, r) \<Longrightarrow> n \<le> length s"
proof -
  assume run: "strtol s = (v, n, r)"
  let ?ws = "length (takeWhile c_isspace s)"
  obtain neg sg where sg: "c_sign (drop ?ws s) = (neg, sg)" by force
  let ?ds = "takeWhile c_isdigit (drop (?ws + sg) s)"
  have "n = 0 \<or> n = ?ws + sg + length ?ds" using run sg by (auto simp: strtol_def Let_def split: if_splits)
  moreover have "sg \<le> length s - ?ws" using c_sign_le [OF sg] by simp
  ultimately show ?thesis
    using length_takeWhile_drop [of c_isdigit "?ws + sg" s] length_takeWhile_le [of c_isspace s] by linarith
qed

lemma strtol_end: "strtol s = (v, n, r) \<Longrightarrow> 0 < n \<Longrightarrow> \<not> starts_digit (drop n s)"
proof -
  assume run: "strtol s = (v, n, r)" and n: "0 < n"
  let ?ws = "length (takeWhile c_isspace s)"
  obtain neg sg where sg: "c_sign (drop ?ws s) = (neg, sg)" by force
  let ?ds = "takeWhile c_isdigit (drop (?ws + sg) s)"
  have "n = ?ws + sg + length ?ds" using run sg n by (auto simp: strtol_def Let_def split: if_splits)
  then have "drop n s = drop (length ?ds) (drop (?ws + sg) s)" by (simp add: add.commute)
  then show ?thesis using takeWhile_digits_end [of c_isdigit "drop (?ws + sg) s"] by simp
qed

lemma strtol_one: "strtol s = (v, 1, r) \<Longrightarrow> starts_digit s"
proof -
  assume run: "strtol s = (v, 1, r)"
  let ?ws = "length (takeWhile c_isspace s)"
  obtain neg sg where sg: "c_sign (drop ?ws s) = (neg, sg)" by force
  let ?ds = "takeWhile c_isdigit (drop (?ws + sg) s)"
  have "?ds \<noteq> []" "1 = ?ws + sg + length ?ds" using run sg by (auto simp: strtol_def Let_def split: if_splits)
  then have "takeWhile c_isdigit s \<noteq> []" by (cases "length ?ds") auto
  then show ?thesis by (cases s) (auto simp: starts_digit_def split: if_splits)
qed

lemma mantissa_read:
  assumes "mantissa digit base s = Some (m, f, n)" and "\<And>c. c_isdigit c \<Longrightarrow> digit c" and "\<not> digit 46"
  shows "1 \<le> n \<and> n \<le> length s \<and> \<not> starts_digit (drop n s) \<and> (n = 1 \<longrightarrow> digit (hd s))"
proof -
  let ?ip = "takeWhile digit s"
  let ?r = "drop (length ?ip) s"
  let ?fp = "takeWhile digit (tl ?r)"
  show ?thesis
  proof (cases "?r \<noteq> [] \<and> hd ?r = 46")
    case True
    then have n: "n = length ?ip + 1 + length ?fp" "?ip \<noteq> [] \<or> ?fp \<noteq> []"
      using assms(1) by (auto simp: mantissa_def Let_def split: if_splits)
    have r: "?r = 46 # tl ?r" using True by (cases ?r) auto
    have "drop n s = drop (length ?fp) (drop 1 ?r)" unfolding n(1) drop_drop by (simp only: ac_simps)
    moreover have tl: "drop 1 ?r = tl ?r" by (cases ?r) simp_all
    ultimately have "drop n s = drop (length ?fp) (tl ?r)" by (simp only:)
    then have "\<not> starts_digit (drop n s)" using takeWhile_digits_end [of digit "tl ?r"] assms(2) by (simp only: not_False_eq_True)
    moreover have "length ?ip < length s" using True length_takeWhile_le [of digit s] by (simp add: le_neq_implies_less)
    moreover have "length ?fp \<le> length s - Suc (length ?ip)" using length_takeWhile_le [of digit "tl ?r"] by simp
    moreover have "n \<noteq> 1" using n by (cases ?ip; cases ?fp) auto
    ultimately show ?thesis using n(1) by linarith
  next
    case False
    then have n: "n = length ?ip" "?ip \<noteq> []" using assms(1) by (auto simp: mantissa_def Let_def split: if_splits)
    then have "digit (hd s)" by (cases s) (auto split: if_splits)
    then show ?thesis
      using n takeWhile_digits_end [of digit s] assms(2) length_takeWhile_le [of digit s] by (cases ?ip) auto
  qed
qed

lemma exponent_read:
  assumes "float_exponent mark s = (e, k)" and "\<not> starts_digit s"
  shows "k \<le> length s \<and> \<not> starts_digit (drop k s)"
proof (cases "k = 0")
  case False
  then obtain c r where s: "s = c # r" using assms(1) by (cases s) (auto simp: float_exponent_def)
  obtain neg sg where sg: "c_sign r = (neg, sg)" by force
  let ?ds = "takeWhile c_isdigit (drop sg r)"
  have k: "k = 1 + sg + length ?ds" using assms(1) False s sg by (auto simp: float_exponent_def Let_def split: if_splits)
  then have "drop k s = drop (length ?ds) (drop sg r)" using s by (simp add: add.commute)
  then show ?thesis
    using takeWhile_digits_end [of c_isdigit "drop sg r"] c_sign_le [OF sg] length_takeWhile_drop [of c_isdigit sg r] k s
    by auto
qed (use assms in simp)

lemma not_digit_point: "\<not> c_isdigit 46" "\<not> c_isxdigit 46"
  by (simp_all add: c_isdigit_def c_isxdigit_def c_tolower_def)

lemma decimal_read:
  assumes "decimal_number s = Some (m, b, e, n)"
  shows "1 \<le> n \<and> n \<le> length s \<and> \<not> starts_digit (drop n s) \<and> (n = 1 \<longrightarrow> starts_digit s)"
proof -
  obtain f k where 1: "mantissa c_isdigit 10 s = Some (m, f, k)"
    using assms by (auto simp: decimal_number_def split: option.splits prod.splits)
  then obtain e' j where 2: "float_exponent 101 (drop k s) = (e', j)" "n = k + j"
    using assms by (auto simp: decimal_number_def split: prod.splits)
  note read = mantissa_read [OF 1 _ not_digit_point(1)]
  have "s \<noteq> []" using read by auto
  moreover have "drop n s = drop j (drop k s)" using 2(2) by (simp add: add.commute)
  ultimately show ?thesis using read exponent_read [OF 2(1)] 2(2) by (auto simp: starts_digit_def)
qed

lemma hex_read:
  assumes "hex_number s = Some (m, b, e, n)"
  shows "3 \<le> n \<and> n \<le> length s"
proof -
  obtain f k where 1: "mantissa c_isxdigit 16 (drop 2 s) = Some (m, f, k)" "2 \<le> length s"
    using assms by (auto simp: hex_number_def split: option.splits prod.splits if_splits)
  then obtain e' j where 2: "float_exponent 112 (drop (2 + k) s) = (e', j)" "n = 2 + k + j"
    using assms by (auto simp: hex_number_def split: prod.splits if_splits)
  note read = mantissa_read [OF 1(1) _ not_digit_point(2)]
  have "\<not> starts_digit (drop (2 + k) s)" using read by (simp add: c_isxdigit_def add.commute)
  then have "j \<le> length s - (2 + k)" using exponent_read [OF 2(1)] by simp
  moreover have "1 \<le> k" "k \<le> length s - 2" using read by (simp_all add: c_isxdigit_def)
  ultimately show ?thesis using 2(2) 1(2) by linarith
qed

lemma number_read:
  assumes "number_at s = Some (m, b, e, n)"
  shows "1 \<le> n \<and> n \<le> length s \<and> (n < 3 \<longrightarrow> \<not> starts_digit (drop n s)) \<and> (n = 1 \<longrightarrow> starts_digit s)"
  using assms hex_read [of s m b e n] decimal_read [of s m b e n] by (auto simp: number_at_def split: option.splits)

lemma word_at_length: "word_at w s \<Longrightarrow> length w \<le> length s"
  by (auto simp: word_at_def dest!: arg_cong [where f = length])

lemma nan_tag_length: "nan_tag s \<le> length s"
  using length_takeWhile_le [of "\<lambda>c. c_isalpha c \<or> c_isdigit c \<or> c = 95" "tl s"]
  by (cases s) (auto simp: nan_tag_def Let_def)

lemma strtod_read:
  assumes run: "strtod s = (v, n, erange)"
  shows "n \<le> length s \<and> (0 < n \<longrightarrow> n < 3 \<longrightarrow> \<not> starts_digit (drop n s)) \<and> (n = 1 \<longrightarrow> starts_digit s)"
proof -
  let ?ws = "length (takeWhile c_isspace s)"
  obtain neg sg where sg: "c_sign (drop ?ws s) = (neg, sg)" by force
  let ?r = "drop (?ws + sg) s"
  have "sg \<le> length s - ?ws" using c_sign_le [OF sg] by simp
  then have le: "?ws + sg \<le> length s" using length_takeWhile_le [of c_isspace s] by linarith
  consider "n = 0" | "word_at infinity_word ?r" "n = ?ws + sg + 8" | "word_at inf_word ?r" "n = ?ws + sg + 3"
    | "word_at nan_word ?r" "n = ?ws + sg + 3 + nan_tag (drop 3 ?r)"
    | m b e k where "number_at ?r = Some (m, b, e, k)" "n = ?ws + sg + k"
    using run sg by (auto simp: strtod_def Let_def split: if_splits option.splits prod.splits)
  then show ?thesis
  proof cases
    case 2
    then show ?thesis using le word_at_length [OF 2(1)] by (simp add: infinity_word_def)
  next
    case 3
    then show ?thesis using le word_at_length [OF 3(1)] by (simp add: inf_word_def)
  next
    case 4
    then show ?thesis using le word_at_length [OF 4(1)] nan_tag_length [of "drop 3 ?r"] by (simp add: nan_word_def)
  next
    case 5
    have "drop n s = drop k ?r" using 5(2) by (simp add: add.commute)
    moreover have "?r = s" if "n = 1" using number_read [OF 5(1)] 5(2) that by simp
    ultimately show ?thesis using number_read [OF 5(1)] 5(2) le by auto
  qed simp
qed

interpretation int8_reader: number_reader read_i8
proof
  fix s bad n e bad' n' e'
  assume run: "read_i8 s = (bad, n, e)"
  then obtain v r where v: "strtol s = (v, n, r)" by (auto simp: read_i8_def split: prod.splits)
  then show "n \<le> length s" by (rule strtol_within)
  assume "0 < n" and "read_i8 (drop n s) = (bad', n', e')"
  then show "n' \<noteq> 1" using strtol_end [OF v] strtol_one by (auto simp: read_i8_def split: prod.splits)
qed

interpretation float_reader: number_reader read_f32
proof
  fix s bad n e bad' n' e'
  assume run: "read_f32 s = (bad, n, e)"
  then obtain v r where v: "strtod s = (v, n, r)" by (auto simp: read_f32_def split: prod.splits)
  then show "n \<le> length s" using strtod_read by blast
  assume "0 < n" "n < 3" and "read_f32 (drop n s) = (bad', n', e')"
  then show "n' \<noteq> 1" using strtod_read [OF v] strtod_read by (fastforce simp: read_f32_def split: prod.splits)
qed

lemma json_open_shorter: "json_open s = Some rest \<Longrightarrow> Suc (length rest) \<le> length s"
  using length_dropWhile_le [of vecJsonIsspace s] by (auto simp: json_open_def split: list.splits if_splits)

context number_reader
begin

lemma json_vector_room:
  assumes "json_open s = Some rest"
  shows "json_numbers ok read rest \<lparr>arr_elems = [], arr_capacity = (length s + 1) div 2\<rparr> =
    map_sum id (\<lambda>xs. \<lparr>arr_elems = xs, arr_capacity = (length s + 1) div 2\<rparr>) (json_list read rest)"
  using json_numbers_array [of "\<lparr>arr_elems = [], arr_capacity = (length s + 1) div 2\<rparr>" rest ok]
    json_open_shorter [OF assms] by (cases "json_list read rest") (auto simp: div_le_mono)

end

text \<open>
  C29. The array that collects the numbers of a JSON text has room for all of them from the start: a text of
  \<open>n\<close> bytes holds at most \<open>n / 2\<close> numbers, whatever it looks like, so parsing a float or int8 vector never
  grows the array, and its result is the same whether growing it would succeed or not.
\<close>

theorem json_array_never_grows:
  assumes "json_open s = Some rest" and "x = \<lparr>arr_elems = [], arr_capacity = (length s + 1) div 2\<rparr>"
    and "y = \<lparr>arr_elems = [], arr_capacity = (length s + 1) div 2\<rparr>"
  shows "json_numbers ok read_f32 rest x = json_numbers ok' read_f32 rest x
    \<and> json_numbers ok read_i8 rest y = json_numbers ok' read_i8 rest y
    \<and> (\<forall>x'. json_numbers ok read_f32 rest x = Inr x' \<longrightarrow> 2 * length (arr_elems x') \<le> length s \<and> arr_capacity x' = arr_capacity x)
    \<and> (\<forall>y'. json_numbers ok read_i8 rest y = Inr y' \<longrightarrow> 2 * length (arr_elems y') \<le> length s \<and> arr_capacity y' = arr_capacity y)"
proof -
  have "2 * length xs \<le> length s" if "json_list read_f32 rest = Inr xs" for xs
    using float_reader.json_list_length [OF that] json_open_shorter [OF assms(1)] by (auto split: if_splits)
  moreover have "2 * length xs \<le> length s" if "json_list read_i8 rest = Inr xs" for xs
    using int8_reader.json_list_length [OF that] json_open_shorter [OF assms(1)] by (auto split: if_splits)
  ultimately show ?thesis
    unfolding assms(2,3) float_reader.json_vector_room [OF assms(1)] int8_reader.json_vector_room [OF assms(1)]
    by (cases "json_list read_f32 rest"; cases "json_list read_i8 rest") auto
qed

theorem json_array_never_grows_witness:
  "json_open [91, 49, 45, 50, 93] = Some [49, 45, 50, 93]
    \<and> json_numbers False read_i8 [49, 45, 50, 93] \<lparr>arr_elems = [], arr_capacity = 3\<rparr> =
      Inr \<lparr>arr_elems = [1, 254], arr_capacity = 3\<rparr>"
proof -
  have o: "json_open [91, 49, 45, 50, 93] = Some [49, 45, 50, 93]" by code_simp
  have "json_numbers True read_i8 [49, 45, 50, 93] \<lparr>arr_elems = [], arr_capacity = 3\<rparr> =
      Inr \<lparr>arr_elems = [1, 254], arr_capacity = 3\<rparr>" by code_simp
  moreover have "(length [91, 49, 45, 50, 93 :: 8 word] + 1) div 2 = 3" by simp
  ultimately show ?thesis using json_array_never_grows [OF o, of _ _ False True] o by metis
qed

subsection \<open>Printing and parsing\<close>

lemma digit_byte:
  assumes "d < 10"
  shows "c_isdigit (word_of_nat (48 + d))" and "digit_val (word_of_nat (48 + d)) = int d"
proof -
  have u: "uint (word_of_nat (48 + d) :: 8 word) = 48 + int d"
    using assms unfolding unsigned_of_nat by (simp add: take_bit_nat_eq_self)
  then show dig: "c_isdigit (word_of_nat (48 + d))"
    using assms by (simp add: c_isdigit_def word_le_def del: of_nat_add)
  then show "digit_val (word_of_nat (48 + d)) = int d" using u by (simp add: digit_val_def del: of_nat_add)
qed

lemma digits_val_snoc: "digits_val base (ds @ [c]) = base * digits_val base ds + digit_val c"
  by (simp add: digits_val_def)

lemma dec_digits_value: "digits_val 10 (dec_digits n) = int n"
proof (induction n rule: dec_digits.induct)
  case (1 n)
  show ?case
  proof (cases "n < 10")
    case True
    then have "dec_digits n = [] @ [word_of_nat (48 + n)]" by (simp add: dec_digits.simps [of n])
    then show ?thesis using digit_byte(2) [OF True] digits_val_snoc [of 10 "[]"] by (simp add: digits_val_def del: of_nat_add)
  next
    case False
    then have "dec_digits n = dec_digits (n div 10) @ [word_of_nat (48 + n mod 10)]" by (simp add: dec_digits.simps [of n])
    then have "digits_val 10 (dec_digits n) = 10 * int (n div 10) + int (n mod 10)"
      using 1 False digit_byte(2) [of "n mod 10"] by (simp only: digits_val_snoc) simp
    then show ?thesis by (simp add: zdiv_int zmod_int)
  qed
qed

lemma dec_digits_digits: "dec_digits n \<noteq> [] \<and> (\<forall>c\<in>set (dec_digits n). c_isdigit c)"
proof (induction n rule: dec_digits.induct)
  case (1 n)
  then show ?case
    using digit_byte(1) [of n] digit_byte(1) [of "n mod 10"]
    by (cases "n < 10") (auto simp: dec_digits.simps [of n] simp del: of_nat_add)
qed

lemma strtol_fmt_d:
  assumes "LONG_MIN \<le> i" and "i \<le> LONG_MAX" and "\<not> c_isdigit c"
  shows "strtol (fmt_d i @ c # r) = (i, length (fmt_d i), False)"
proof -
  define n where "n = nat \<bar>i\<bar>"
  obtain d ds where d: "dec_digits n = d # ds" "c_isdigit d"
    using dec_digits_digits [of n] by (cases "dec_digits n") auto
  have dig: "\<And>x. x \<in> set (dec_digits n) \<Longrightarrow> c_isdigit x" using dec_digits_digits [of n] by blast
  have tw: "takeWhile c_isdigit (dec_digits n @ c # r) = dec_digits n"
    using dig assms(3) by (simp add: takeWhile_append2)
  have nd: "\<not> c_isspace d" "d \<noteq> 45" "d \<noteq> 43"
    using d(2) by (auto simp: c_isspace_def c_isdigit_def word_le_def)
  have range: "\<not> LONG_MAX < i" "\<not> i < LONG_MIN" using assms by simp_all
  show ?thesis
  proof (cases "i < 0")
    case True
    then have "fmt_d i = 45 # dec_digits n" by (simp add: fmt_d_def n_def)
    moreover have "\<not> c_isspace 45" by (simp add: c_isspace_def)
    ultimately show ?thesis
      using True tw d(1) range dec_digits_value [of n] by (simp add: strtol_def c_sign_def n_def Let_def)
  next
    case False
    then have "fmt_d i = dec_digits n" by (simp add: fmt_d_def n_def)
    then show ?thesis
      using False tw d(1) nd range dec_digits_value [of n] by (simp add: strtol_def c_sign_def n_def Let_def)
  qed
qed

lemma separators: "skip_separators (44 # r) = skip_separators r" "skip_separators (93 # r) = 93 # r"
proof -
  have "\<not> vecJsonIsspace 93" by code_simp
  then show "skip_separators (44 # r) = skip_separators r" "skip_separators (93 # r) = 93 # r"
    by (simp_all add: skip_separators_def)
qed

lemma skip_number: "skip_separators (fmt_d i @ r) = fmt_d i @ r"
proof -
  obtain d ds where d: "fmt_d i = d # ds" "c_isdigit d \<or> d = 45"
    using dec_digits_digits [of "nat i"] by (cases "i < 0"; cases "dec_digits (nat i)") (auto simp: fmt_d_def)
  have "\<forall>k\<in>set (45 # [48..<58]). \<not> vecJsonIsspace (word_of_nat k) \<and> word_of_nat k \<noteq> (44 :: 8 word)" by code_simp
  moreover have "d = word_of_nat (unat d)" by simp
  moreover have "unat d = 45 \<or> 48 \<le> unat d \<and> unat d < 58" using d(2) by (auto simp: c_isdigit_def word_le_nat_alt)
  then have "unat d \<in> set (45 # [48..<58])" by (simp only: list.set set_upt insert_iff atLeastLessThan_iff)
  ultimately have "\<not> vecJsonIsspace d" "d \<noteq> 44" by metis+
  then show ?thesis using d(1) by (simp add: skip_separators_def)
qed

lemma read_i8_number:
  fixes b :: "8 word"
  assumes "\<not> c_isdigit c"
  shows "read_i8 (fmt_d (sint b) @ c # r) = (False, length (fmt_d (sint b)), Some b)"
proof -
  have "- 128 \<le> sint b" "sint b \<le> 127" using sint_greater_eq [of b] sint_less [of b] by simp_all
  then show ?thesis using strtol_fmt_d [OF _ _ assms] by (simp add: read_i8_def LONG_MAX_def LONG_MIN_def)
qed

text \<open>The numbers of a printed int8 vector.\<close>

lemma json_list_comma:
  assumes "skip_separators (44 # rest) = rest" and "rest \<noteq> []" and "hd rest \<noteq> 93"
  shows "json_list read_i8 (fmt_d (sint b) @ 44 # rest) = map_sum id ((#) b) (json_list read_i8 rest)"
proof -
  have "\<not> c_isdigit 44" by (simp add: c_isdigit_def)
  moreover have "fmt_d (sint b) \<noteq> []" using dec_digits_digits by (simp add: fmt_d_def)
  ultimately show ?thesis
    using assms read_i8_number [of 44 b rest] by (simp add: json_list.simps [of read_i8 "fmt_d (sint b) @ 44 # rest"])
qed

lemma json_list_printed:
  "bs \<noteq> [] \<Longrightarrow> json_list read_i8 (join_comma (map (fmt_d \<circ> sint) bs) @ [93]) = Inr (bs :: bytes)"
proof (induction bs)
  case (Cons b bs)
  have nd: "\<not> c_isdigit 44" "\<not> c_isdigit 93" by (simp_all add: c_isdigit_def)
  have pos: "length (fmt_d (sint b)) \<noteq> 0" using dec_digits_digits by (simp add: fmt_d_def)
  show ?case
  proof (cases bs)
    case Nil
    then show ?thesis
      using read_i8_number [OF nd(2), of b "[]"] pos separators(2) by (simp add: json_list.simps [of read_i8 "fmt_d (sint b) @ [93]"])
  next
    case (Cons b' bs')
    let ?rest = "join_comma (map (fmt_d \<circ> sint) bs) @ [93]"
    have join: "join_comma (map (fmt_d \<circ> sint) (b # bs)) @ [93] = fmt_d (sint b) @ 44 # ?rest" using Cons by simp
    obtain w where w: "?rest = fmt_d (sint b') @ w" using Cons by (cases bs') auto
    have skip: "skip_separators (44 # ?rest) = ?rest" unfolding w separators(1) skip_number ..
    have "?rest \<noteq> []" "hd ?rest \<noteq> 93"
      using skip separators w dec_digits_digits [of "nat (sint b')"] dec_digits_digits [of "nat (- sint b')"] nd
      by (cases "dec_digits (nat (sint b'))"; auto simp: fmt_d_def)+
    with skip have "json_list read_i8 (fmt_d (sint b) @ 44 # ?rest) = map_sum id ((#) b) (json_list read_i8 ?rest)"
      by (rule json_list_comma)
    then show ?thesis unfolding join using Cons.IH Cons by (simp add: comp_def)
  qed
qed simp

lemma parse_printed:
  assumes "bs \<noteq> []"
  shows "json_vector True read_i8 (91 # join_comma (map (fmt_d \<circ> sint) bs) @ [93]) = Inr (bs :: bytes)"
proof -
  let ?s = "91 # join_comma (map (fmt_d \<circ> sint) bs) @ [93]"
  have "\<not> vecJsonIsspace 91" by code_simp
  then have "json_open ?s = Some (join_comma (map (fmt_d \<circ> sint) bs) @ [93])" by (simp add: json_open_def)
  from int8_reader.json_vector_room [OF this, of True] show ?thesis
    using assms json_list_printed [OF assms] \<open>json_open ?s = _\<close> by (simp add: json_vector_def array_init_def)
qed

text \<open>
  C28. Printing an int8 vector as JSON and parsing the text gives the vector back, for every vector of at
  least one element.
\<close>

theorem int8_json_round_trip:
  assumes "bs \<noteq> []" and "vec_to_json fmt_f True (blob_result SQLITE_VEC_ELEMENT_TYPE_INT8 bs) = Inr r"
  shows "vec_int8 True r = Inr (blob_result SQLITE_VEC_ELEMENT_TYPE_INT8 bs)"
proof -
  have "vector_from_value True (blob_result SQLITE_VEC_ELEMENT_TYPE_INT8 bs) =
      Inr (SQLITE_VEC_ELEMENT_TYPE_INT8, length bs, bs)"
    using assms(1) by (intro vector_of_blob) (simp_all add: vector_byte_size_def)
  moreover have "map fmt_d (i8s_at bs 0 (length bs)) = map (fmt_d \<circ> sint) bs"
    by (rule nth_equalityI) (simp_all add: i8s_at_def)
  ultimately have "r = text_result (91 # join_comma (map (fmt_d \<circ> sint) bs) @ [93]) JSON_SUBTYPE"
    using assms(2) by (simp add: vec_to_json_def)
  then show ?thesis
    using parse_printed [OF assms(1)] by (simp add: vec_int8_def int8_vec_from_value_def text_result_def)
qed

theorem int8_json_round_trip_witness:
  "vec_to_json (\<lambda>_. []) True int8_sample = Inr (text_result (map of_char ''[1,2,-3,4]'') JSON_SUBTYPE)
    \<and> vec_int8 True (text_result (map of_char ''[1,2,-3,4]'') JSON_SUBTYPE) = Inr int8_sample"
proof -
  have "vec_to_json (\<lambda>_. []) True int8_sample = Inr (text_result (map of_char ''[1,2,-3,4]'') JSON_SUBTYPE)" by code_simp
  then show ?thesis using int8_json_round_trip [of "[1, 2, 253, 4]" "\<lambda>_. []"] by (simp add: int8_sample_def)
qed

end
