(* ===== verification/GraphStore.thy ===== *)
theory GraphStore
  imports ScalarFuns
begin

text \<open>
  The storage of the property graph extension: the backing tables of a \<open>graph\<close> virtual table, the node and
  edge operations of \<^verbatim>\<open>sqlite-graph/src/graph.c\<close>, and the virtual table methods of
  \<^verbatim>\<open>sqlite-graph/src/graph-vtab.c\<close>. A statement is modelled by its documented effect on the tables it names: it
  fails with \<open>SQLITE_ERROR\<close> when a table or a column it names does not exist. The texts of the statements are
  assumed to be allocated.
\<close>

named_theorems graph_sql \<open>effects of the statements on the backing tables\<close>

subsection \<open>Tables and statements\<close>

text \<open>
  A value is stored with what its accessors return; the accessors of another type than the stored one are
  read by no caller, but for \<open>NULL\<close>, which reads as zero or as no text.
\<close>

definition cell_null :: sqlite3_value where
  "cell_null = \<lparr>value_type = SQLITE_NULL, value_int64 = 0, value_double = 0, value_text = []\<rparr>"

definition cell_int :: "i64 \<Rightarrow> sqlite3_value" where
  "cell_int i = \<lparr>value_type = SQLITE_INTEGER, value_int64 = i, value_double = 0, value_text = []\<rparr>"

definition cell_real :: "f64 \<Rightarrow> sqlite3_value" where
  "cell_real d = \<lparr>value_type = SQLITE_FLOAT, value_int64 = 0, value_double = d, value_text = []\<rparr>"

definition cell_text :: "bytes \<Rightarrow> sqlite3_value" where
  "cell_text t = \<lparr>value_type = SQLITE_TEXT, value_int64 = 0, value_double = 0, value_text = t\<rparr>"

text \<open>A value printed with \<open>%Q\<close>: a null pointer becomes \<open>NULL\<close>.\<close>

definition cell_quoted :: "sqlite3_value \<Rightarrow> sqlite3_value" where
  "cell_quoted v = (if value_type v = SQLITE_NULL then cell_null else cell_text (value_text v))"

text \<open>The comparison of a column of integer affinity with an integer literal.\<close>

definition cell_eq :: "sqlite3_value \<Rightarrow> i64 \<Rightarrow> bool" where
  "cell_eq c i \<longleftrightarrow> value_type c = SQLITE_INTEGER \<and> value_int64 c = i"

type_synonym sql_row = "string \<Rightarrow> sqlite3_value"

text \<open>The columns with their default values, and the rows in the order of the \<open>id\<close>.\<close>

record sql_table =
  tab_columns :: "(string \<times> sqlite3_value) list"
  tab_rows :: "sql_row list"

type_synonym database = "string \<Rightarrow> sql_table option"

definition row_id :: "sql_row \<Rightarrow> i64" where
  "row_id r = value_int64 (r ''id'')"

definition has_columns :: "sql_table \<Rightarrow> string list \<Rightarrow> bool" where
  "has_columns t cs \<longleftrightarrow> list_all (\<lambda>c. c \<in> set (map fst (tab_columns t))) cs"

definition sql_select :: "database \<Rightarrow> string \<Rightarrow> string list \<Rightarrow> (sql_row \<Rightarrow> bool) \<Rightarrow> sql_row list result" where
  "sql_select db t cs P =
     (case db t of
        None \<Rightarrow> Inl SQLITE_ERROR
      | Some tab \<Rightarrow> if has_columns tab cs then Inr (filter P (tab_rows tab)) else Inl SQLITE_ERROR)"

definition sql_delete :: "database \<Rightarrow> string \<Rightarrow> string list \<Rightarrow> (sql_row \<Rightarrow> bool) \<Rightarrow> sqlite_rc \<times> database" where
  "sql_delete db t cs P =
     (case db t of
        None \<Rightarrow> (SQLITE_ERROR, db)
      | Some tab \<Rightarrow>
          if has_columns tab cs then (SQLITE_OK, db(t \<mapsto> tab\<lparr>tab_rows := filter (\<lambda>r. \<not> P r) (tab_rows tab)\<rparr>))
          else (SQLITE_ERROR, db))"

definition set_columns :: "(string \<times> sqlite3_value) list \<Rightarrow> sql_row \<Rightarrow> sql_row" where
  "set_columns vals r = (\<lambda>c. case map_of vals c of Some v \<Rightarrow> v | None \<Rightarrow> r c)"

definition sql_update ::
  "database \<Rightarrow> string \<Rightarrow> (string \<times> sqlite3_value) list \<Rightarrow> string list \<Rightarrow> (sql_row \<Rightarrow> bool) \<Rightarrow> sqlite_rc \<times> database" where
  "sql_update db t vals cs P =
     (case db t of
        None \<Rightarrow> (SQLITE_ERROR, db)
      | Some tab \<Rightarrow>
          if has_columns tab (map fst vals @ cs)
          then (SQLITE_OK, db(t \<mapsto> tab\<lparr>tab_rows := map (\<lambda>r. if P r then set_columns vals r else r) (tab_rows tab)\<rparr>))
          else (SQLITE_ERROR, db))"

text \<open>
  An insert that names no \<open>id\<close> takes the successor of the largest one. SQLite tries random ids once the
  largest possible one is taken; such a table counts as full here.
\<close>

definition next_id :: "sql_row list \<Rightarrow> i64" where
  "next_id rs = (if rs = [] then 1 else Max (row_id ` set rs) + 1)"

definition new_row :: "sql_table \<Rightarrow> (string \<times> sqlite3_value) list \<Rightarrow> i64 \<Rightarrow> sql_row" where
  "new_row tab vals i =
     (\<lambda>c. if c = ''id'' then cell_int i
          else case map_of vals c of
                 Some v \<Rightarrow> v
               | None \<Rightarrow> (case map_of (tab_columns tab) c of Some d \<Rightarrow> d | None \<Rightarrow> cell_null))"

definition sql_insert ::
  "bool \<Rightarrow> database \<Rightarrow> string \<Rightarrow> i64 option \<Rightarrow> (string \<times> sqlite3_value) list \<Rightarrow> i64 result \<times> database" where
  "sql_insert orReplace db t key vals =
     (case db t of
        None \<Rightarrow> (Inl SQLITE_ERROR, db)
      | Some tab \<Rightarrow>
          if \<not> has_columns tab (''id'' # map fst vals) then (Inl SQLITE_ERROR, db)
          else case key of
            None \<Rightarrow>
              (let i = next_id (tab_rows tab)
               in if i > LONG_MAX then (Inl SQLITE_FULL, db)
                  else (Inr i, db(t \<mapsto> tab\<lparr>tab_rows := insort_key row_id (new_row tab vals i) (tab_rows tab)\<rparr>)))
          | Some i \<Rightarrow>
              if \<not> orReplace \<and> list_ex (\<lambda>r. row_id r = i) (tab_rows tab) then (Inl SQLITE_CONSTRAINT, db)
              else (Inr i, db(t \<mapsto> tab\<lparr>tab_rows :=
                     insort_key row_id (new_row tab vals i) (filter (\<lambda>r. row_id r \<noteq> i) (tab_rows tab))\<rparr>)))"

definition sql_create :: "database \<Rightarrow> string \<Rightarrow> (string \<times> sqlite3_value) list \<Rightarrow> database" where
  "sql_create db t cols =
     (case db t of None \<Rightarrow> db(t \<mapsto> \<lparr>tab_columns = cols, tab_rows = []\<rparr>) | Some _ \<Rightarrow> db)"

definition rc_of :: "'a result \<Rightarrow> sqlite_rc" where
  "rc_of r = (case r of Inl rc \<Rightarrow> rc | Inr _ \<Rightarrow> SQLITE_OK)"

subsection \<open>The virtual table\<close>

record graph_vtab =
  zTableName :: string
  zNodeTableName :: string
  zEdgeTableName :: string

definition nodes_of :: "graph_vtab \<Rightarrow> string" where
  "nodes_of v = zTableName v @ ''_nodes''"

definition edges_of :: "graph_vtab \<Rightarrow> string" where
  "edges_of v = zTableName v @ ''_edges''"

definition node_columns :: "(string \<times> sqlite3_value) list" where
  "node_columns = [(''id'', cell_null), (''labels'', cell_text (map of_char ''[]'')), (''properties'', cell_text (map of_char ''{}''))]"

definition edge_columns :: "(string \<times> sqlite3_value) list" where
  "edge_columns =
     [(''id'', cell_null), (''source'', cell_null), (''target'', cell_null), (''edge_type'', cell_null),
      (''weight'', cell_null), (''properties'', cell_text (map of_char ''{}''))]"

text \<open>The arguments after the module name, the database name and the table name are custom names of the backing tables.\<close>

definition new_vtab :: "string \<Rightarrow> string list \<Rightarrow> graph_vtab" where
  "new_vtab name args =
     (case args of
        n # e # _ \<Rightarrow> \<lparr>zTableName = name, zNodeTableName = n, zEdgeTableName = e\<rparr>
      | _ \<Rightarrow> \<lparr>zTableName = name, zNodeTableName = name @ ''_nodes'', zEdgeTableName = name @ ''_edges''\<rparr>)"

definition graphCreate :: "bool \<Rightarrow> database \<Rightarrow> string \<Rightarrow> string list \<Rightarrow> graph_vtab result \<times> database" where
  "graphCreate ok db name args =
     (if \<not> ok then (Inl SQLITE_NOMEM, db)
      else let v = new_vtab name args
           in (Inr v, sql_create (sql_create db (zNodeTableName v) node_columns) (zEdgeTableName v) edge_columns))"

text \<open>The check for the backing tables counts the two names in the schema; the same name twice counts once.\<close>

definition graphConnect :: "bool \<Rightarrow> database \<Rightarrow> string \<Rightarrow> string list \<Rightarrow> graph_vtab result \<times> database" where
  "graphConnect ok db name args =
     (if \<not> ok then (Inl SQLITE_NOMEM, db)
      else let v = new_vtab name args;
               tableCount = card {t \<in> {zNodeTableName v, zEdgeTableName v}. db t \<noteq> None}
           in (Inr v, if tableCount \<noteq> 2
                      then sql_create (sql_create db (zNodeTableName v) node_columns) (zEdgeTableName v) edge_columns
                      else db))"

subsection \<open>Node and edge operations\<close>

text \<open>
  A weight is printed with \<open>%f\<close> and read back as a literal of the statement: \<open>lit\<close> is the value read, if the
  printed text is a number. Printing and reading belong to the SQLite core.
\<close>

definition graphAddNode :: "graph_vtab \<Rightarrow> database \<Rightarrow> i64 \<Rightarrow> sqlite3_value \<Rightarrow> sqlite_rc \<times> database" where
  "graphAddNode v db iNodeId zProperties =
     map_prod rc_of id (sql_insert False db (nodes_of v) (Some iNodeId) [(''properties'', cell_quoted zProperties)])"

definition graphRemoveNode :: "graph_vtab \<Rightarrow> database \<Rightarrow> i64 \<Rightarrow> sqlite_rc \<times> database" where
  "graphRemoveNode v db iNodeId =
     (case sql_delete db (nodes_of v) [''id''] (\<lambda>r. cell_eq (r ''id'') iNodeId) of
        (SQLITE_OK, db1) \<Rightarrow>
          sql_delete db1 (edges_of v) [''source'', ''target'']
            (\<lambda>r. cell_eq (r ''source'') iNodeId \<or> cell_eq (r ''target'') iNodeId)
      | (rc, db1) \<Rightarrow> (rc, db1))"

definition graphGetNode :: "graph_vtab \<Rightarrow> database \<Rightarrow> i64 \<Rightarrow> bytes result" where
  "graphGetNode v db iNodeId =
     (case sql_select db (nodes_of v) [''properties'', ''id''] (\<lambda>r. cell_eq (r ''id'') iNodeId) of
        Inl rc \<Rightarrow> Inl rc
      | Inr [] \<Rightarrow> Inl SQLITE_NOTFOUND
      | Inr (r # _) \<Rightarrow> Inr (value_text (r ''properties'')))"

definition graphAddEdge ::
  "(f64 \<Rightarrow> f64 option) \<Rightarrow> graph_vtab \<Rightarrow> database \<Rightarrow> i64 \<Rightarrow> i64 \<Rightarrow> f64 \<Rightarrow> sqlite3_value \<Rightarrow> sqlite_rc \<times> database" where
  "graphAddEdge lit v db iFromId iToId rWeight zProperties =
     (case lit rWeight of
        None \<Rightarrow> (SQLITE_ERROR, db)
      | Some w \<Rightarrow>
          map_prod rc_of id (sql_insert False db (edges_of v) None
            [(''source'', cell_int iFromId), (''target'', cell_int iToId), (''weight'', cell_real w),
             (''properties'', cell_quoted zProperties)]))"

definition graphRemoveEdge :: "graph_vtab \<Rightarrow> database \<Rightarrow> i64 \<Rightarrow> i64 \<Rightarrow> sqlite_rc \<times> database" where
  "graphRemoveEdge v db iFromId iToId =
     sql_delete db (edges_of v) [''source'', ''target'']
       (\<lambda>r. cell_eq (r ''source'') iFromId \<and> cell_eq (r ''target'') iToId)"

definition graphUpdateNode :: "graph_vtab \<Rightarrow> database \<Rightarrow> i64 \<Rightarrow> sqlite3_value \<Rightarrow> sqlite_rc \<times> database" where
  "graphUpdateNode v db iNodeId zProperties =
     sql_update db (nodes_of v) [(''properties'', cell_quoted zProperties)] [''id''] (\<lambda>r. cell_eq (r ''id'') iNodeId)"

definition graphGetEdge :: "graph_vtab \<Rightarrow> database \<Rightarrow> i64 \<Rightarrow> i64 \<Rightarrow> (f64 \<times> bytes) result" where
  "graphGetEdge v db iFromId iToId =
     (case sql_select db (edges_of v) [''weight'', ''properties'', ''source'', ''target'']
             (\<lambda>r. cell_eq (r ''source'') iFromId \<and> cell_eq (r ''target'') iToId) of
        Inl rc \<Rightarrow> Inl rc
      | Inr [] \<Rightarrow> Inl SQLITE_NOTFOUND
      | Inr (r # _) \<Rightarrow> Inr (value_double (r ''weight''), value_text (r ''properties'')))"

text \<open>\<open>SELECT count(*)\<close>; the count is read with \<open>sqlite3_column_int\<close>, and a failed statement counts zero.\<close>

definition count_rows :: "database \<Rightarrow> string \<Rightarrow> string list \<Rightarrow> (sql_row \<Rightarrow> bool) \<Rightarrow> int result" where
  "count_rows db t cs P = (case sql_select db t cs P of Inl rc \<Rightarrow> Inl rc | Inr rs \<Rightarrow> Inr (c_int (int (length rs))))"

definition count_or_zero :: "int result \<Rightarrow> int" where
  "count_or_zero r = (case r of Inl _ \<Rightarrow> 0 | Inr n \<Rightarrow> n)"

definition graphCountNodes :: "graph_vtab \<Rightarrow> database \<Rightarrow> int" where
  "graphCountNodes v db = count_or_zero (count_rows db (nodes_of v) [] (\<lambda>_. True))"

definition graphCountEdges :: "graph_vtab \<Rightarrow> database \<Rightarrow> int" where
  "graphCountEdges v db = count_or_zero (count_rows db (edges_of v) [] (\<lambda>_. True))"

text \<open>The node found, if any; \<open>ok\<close> says whether it can be allocated.\<close>

definition graphFindNode :: "bool \<Rightarrow> graph_vtab \<Rightarrow> database \<Rightarrow> i64 \<Rightarrow> (i64 \<times> bytes) option" where
  "graphFindNode ok v db iNodeId =
     (case sql_select db (nodes_of v) [''id'', ''properties''] (\<lambda>r. cell_eq (r ''id'') iNodeId) of
        Inr (r # _) \<Rightarrow> if ok then Some (value_int64 (r ''id''), value_text (r ''properties'')) else None
      | _ \<Rightarrow> None)"

definition graphFindEdge :: "bool \<Rightarrow> graph_vtab \<Rightarrow> database \<Rightarrow> i64 \<Rightarrow> i64 \<Rightarrow> (i64 \<times> i64 \<times> i64 \<times> f64 \<times> bytes) option" where
  "graphFindEdge ok v db iFromId iToId =
     (case sql_select db (edges_of v) [''id'', ''source'', ''target'', ''weight'', ''properties'']
             (\<lambda>r. cell_eq (r ''source'') iFromId \<and> cell_eq (r ''target'') iToId) of
        Inr (r # _) \<Rightarrow>
          if ok then Some (value_int64 (r ''id''), value_int64 (r ''source''), value_int64 (r ''target''),
                           value_double (r ''weight''), value_text (r ''properties'')) else None
      | _ \<Rightarrow> None)"

end
