(* ===== verification/GraphVtab.thy ===== *)
theory GraphVtab
  imports GraphStore QueryPlan
begin

text \<open>
  The methods of the \<open>graph\<close> virtual table (\<^verbatim>\<open>sqlite-graph/src/graph-vtab.c\<close>), which shows the nodes and then the
  edges of the backing tables as rows, and the SQL functions of \<^verbatim>\<open>sqlite-graph/src/graph.c\<close> that change or count
  them. The row id of an edge is its id with bit 62 set.
\<close>

subsection \<open>Planning\<close>

text \<open>The \<open>argvIndex\<close> of every constraint (a non-zero one has \<open>omit\<close> set), and \<open>idxNum\<close>.\<close>

fun graph_constraints :: "int \<Rightarrow> index_constraint list \<Rightarrow> int list" where
  "graph_constraints n [] = []"
| "graph_constraints n (c # cs) =
     (if ic_usable c \<and> ic_column c = -1 \<and> ic_op c = SQLITE_INDEX_CONSTRAINT_EQ
      then (n + 1) # graph_constraints (n + 1) cs else 0 # graph_constraints n cs)"

definition graphBestIndex :: "index_constraint list \<Rightarrow> int list \<times> int" where
  "graphBestIndex cs =
     (let us = graph_constraints 0 cs in (us, if list_ex (\<lambda>u. u \<noteq> 0) us then 1 else 0))"

subsection \<open>The cursor\<close>

text \<open>A prepared statement: the rows still to come, and the row it is on.\<close>

record sql_stmt =
  pending :: "sql_row list"
  current :: "sql_row option"

definition prepared :: "sql_row list \<Rightarrow> sql_stmt" where
  "prepared rs = \<lparr>pending = rs, current = None\<rparr>"

definition sqlite3_step :: "sql_stmt \<Rightarrow> bool \<times> sql_stmt" where
  "sqlite3_step s =
     (case pending s of
        [] \<Rightarrow> (False, s\<lparr>current := None\<rparr>)
      | r # rs \<Rightarrow> (True, \<lparr>pending = rs, current = Some r\<rparr>))"

definition stmt_column :: "sql_stmt option \<Rightarrow> string \<Rightarrow> sqlite3_value" where
  "stmt_column s c = (case s of None \<Rightarrow> cell_null
                      | Some t \<Rightarrow> (case current t of None \<Rightarrow> cell_null | Some r \<Rightarrow> r c))"

record graph_cursor =
  iIterMode :: int
  pNodeStmt :: "sql_stmt option"
  pEdgeStmt :: "sql_stmt option"

definition step_opt :: "sql_stmt option \<Rightarrow> bool \<times> sql_stmt option" where
  "step_opt s = (case s of None \<Rightarrow> (False, None) | Some t \<Rightarrow> map_prod id Some (sqlite3_step t))"

definition next_edge :: "graph_cursor \<Rightarrow> graph_cursor" where
  "next_edge c =
     (case step_opt (pEdgeStmt c) of
        (True, s) \<Rightarrow> c\<lparr>iIterMode := 1, pEdgeStmt := s\<rparr>
      | (False, s) \<Rightarrow> c\<lparr>iIterMode := 2, pEdgeStmt := s\<rparr>)"

definition graphNext :: "graph_cursor \<Rightarrow> graph_cursor" where
  "graphNext c =
     (if iIterMode c = -1 \<or> iIterMode c = 0 then
        (case step_opt (pNodeStmt c) of
           (True, s) \<Rightarrow> c\<lparr>iIterMode := 0, pNodeStmt := s\<rparr>
         | (False, s) \<Rightarrow> next_edge (c\<lparr>pNodeStmt := s\<rparr>))
      else if iIterMode c = 1 then next_edge c
      else c\<lparr>iIterMode := 2\<rparr>)"

definition graphEof :: "graph_cursor \<Rightarrow> bool" where
  "graphEof c \<longleftrightarrow> iIterMode c \<ge> 2"

definition node_select :: "string list" where
  "node_select = [''id'', ''labels'', ''properties'']"

definition edge_select :: "string list" where
  "edge_select = [''id'', ''source'', ''target'', ''edge_type'', ''weight'', ''properties'']"

definition graphFilter :: "graph_vtab \<Rightarrow> database \<Rightarrow> int \<Rightarrow> sqlite3_value list \<Rightarrow> graph_cursor result" where
  "graphFilter v db idx argv =
     (let nodes = sql_select db (zNodeTableName v) node_select;
          edges = sql_select db (zEdgeTableName v) edge_select in
      if idx = 1 \<and> argv \<noteq> [] then
        (let targetRowid = value_int64 (hd argv) in
         if bit targetRowid 62 then
           (case edges (\<lambda>r. cell_eq (r ''id'') (unset_bit 62 targetRowid)) of
              Inl rc \<Rightarrow> Inl rc
            | Inr es \<Rightarrow>
                (case nodes (\<lambda>_. False) of
                   Inl rc \<Rightarrow> Inl rc
                 | Inr ns \<Rightarrow> Inr (graphNext \<lparr>iIterMode = 0, pNodeStmt = Some (prepared ns), pEdgeStmt = Some (prepared es)\<rparr>)))
         else
           (case nodes (\<lambda>r. cell_eq (r ''id'') targetRowid) of
              Inl rc \<Rightarrow> Inl rc
            | Inr ns \<Rightarrow>
                (case edges (\<lambda>_. False) of
                   Inl rc \<Rightarrow> Inl rc
                 | Inr es \<Rightarrow> Inr (graphNext \<lparr>iIterMode = -1, pNodeStmt = Some (prepared ns), pEdgeStmt = Some (prepared es)\<rparr>))))
      else
        (case nodes (\<lambda>_. True) of
           Inl rc \<Rightarrow> Inl rc
         | Inr ns \<Rightarrow>
             (case edges (\<lambda>_. True) of
                Inl rc \<Rightarrow> Inl rc
              | Inr es \<Rightarrow> Inr (graphNext \<lparr>iIterMode = -1, pNodeStmt = Some (prepared ns), pEdgeStmt = Some (prepared es)\<rparr>))))"

definition graphColumn :: "graph_cursor \<Rightarrow> nat \<Rightarrow> sqlite3_value" where
  "graphColumn c iCol =
     (if iIterMode c = 0 then
        (let col = stmt_column (pNodeStmt c) in
         if iCol = 0 then cell_text (map of_char ''node'')
         else if iCol = 1 then cell_int (value_int64 (col ''id''))
         else if iCol = 4 then cell_quoted (col ''labels'')
         else if iCol = 7 then cell_quoted (col ''properties'')
         else cell_null)
      else
        (let col = stmt_column (pEdgeStmt c) in
         if iCol = 0 then cell_text (map of_char ''edge'')
         else if iCol = 1 then cell_int (value_int64 (col ''id''))
         else if iCol = 2 then cell_int (value_int64 (col ''source''))
         else if iCol = 3 then cell_int (value_int64 (col ''target''))
         else if iCol = 5 then cell_quoted (col ''edge_type'')
         else if iCol = 6 then cell_real (value_double (col ''weight''))
         else if iCol = 7 then cell_quoted (col ''properties'')
         else cell_null))"

definition graphRowid :: "graph_cursor \<Rightarrow> i64" where
  "graphRowid c =
     (if iIterMode c = 0 then value_int64 (stmt_column (pNodeStmt c) ''id'')
      else set_bit 62 (value_int64 (stmt_column (pEdgeStmt c) ''id'')))"

subsection \<open>Changing rows\<close>

definition graph_delete_row :: "graph_vtab \<Rightarrow> database \<Rightarrow> i64 \<Rightarrow> sqlite_rc \<times> database" where
  "graph_delete_row v db rowid =
     (if bit rowid 62
      then sql_delete db (zEdgeTableName v) [''id''] (\<lambda>r. cell_eq (r ''id'') (unset_bit 62 rowid))
      else sql_delete db (zNodeTableName v) [''id''] (\<lambda>r. cell_eq (r ''id'') rowid))"

definition arg_int :: "sqlite3_value \<Rightarrow> i64" where
  "arg_int a = (if value_type a = SQLITE_NULL then 0 else value_int64 a)"

definition arg_text :: "sqlite3_value \<Rightarrow> string \<Rightarrow> bytes" where
  "arg_text a d = (if value_type a = SQLITE_NULL then map of_char d else value_text a)"

definition arg_double :: "sqlite3_value \<Rightarrow> f64" where
  "arg_double a = (if value_type a = SQLITE_NULL then 0 else value_double a)"

definition graph_insert_node :: "graph_vtab \<Rightarrow> database \<Rightarrow> sqlite3_value list \<Rightarrow> i64 result \<times> database" where
  "graph_insert_node v db argv =
     (let node_id = arg_int (argv ! 3);
          vals = [(''labels'', cell_text (arg_text (argv ! 6) ''[]'')), (''properties'', cell_text (arg_text (argv ! 9) ''''))] in
      if node_id > 0 then sql_insert True db (zNodeTableName v) (Some node_id) vals
      else sql_insert False db (zNodeTableName v) None vals)"

definition graph_insert_edge ::
  "(f64 \<Rightarrow> f64 option) \<Rightarrow> graph_vtab \<Rightarrow> database \<Rightarrow> sqlite3_value list \<Rightarrow> i64 result \<times> database" where
  "graph_insert_edge lit v db argv =
     (let from_id = arg_int (argv ! 4); to_id = arg_int (argv ! 5) in
      case sql_select db (zNodeTableName v) [''id''] (\<lambda>_. True) of
        Inl rc \<Rightarrow> (Inl rc, db)
      | Inr ns \<Rightarrow>
          if list_ex (\<lambda>r. cell_eq (r ''id'') from_id) ns \<and> list_ex (\<lambda>r. cell_eq (r ''id'') to_id) ns then
            (case lit (arg_double (argv ! 8)) of
               None \<Rightarrow> (Inl SQLITE_ERROR, db)
             | Some w \<Rightarrow>
                 map_prod (map_sum id (set_bit 62)) id
                   (sql_insert False db (zEdgeTableName v) None
                      [(''source'', cell_int from_id), (''target'', cell_int to_id),
                       (''edge_type'', cell_text (arg_text (argv ! 7) '''')), (''weight'', cell_real w),
                       (''properties'', cell_text (arg_text (argv ! 9) ''''))]))
          else (Inl SQLITE_CONSTRAINT, db))"

text \<open>
  An update of an edge runs an \<open>UPDATE\<close> statement on the virtual table itself, with the columns to set and
  the edge id: \<open>self\<close> is the effect of that statement, which SQLite runs through this module again.
\<close>

type_synonym self_update = "(string \<times> sqlite3_value) list \<Rightarrow> i64 \<Rightarrow> database \<Rightarrow> sqlite_rc \<times> database"

definition edge_updates :: "(f64 \<Rightarrow> f64 option) \<Rightarrow> sqlite3_value list \<Rightarrow> (string \<times> sqlite3_value) list option" where
  "edge_updates lit argv =
     (let given = (\<lambda>i. value_type (argv ! i) \<noteq> SQLITE_NULL);
          ids = (if given 4 then [(''from_id'', cell_int (value_int64 (argv ! 4)))] else []) @
                (if given 5 then [(''to_id'', cell_int (value_int64 (argv ! 5)))] else []);
          props = (if given 9 then [(''properties'', cell_text (value_text (argv ! 9)))] else []) in
      if given 8
      then map_option (\<lambda>w. ids @ (''weight'', cell_real w) # props) (lit (value_double (argv ! 8)))
      else Some (ids @ props))"

definition graph_update_row ::
  "self_update \<Rightarrow> (f64 \<Rightarrow> f64 option) \<Rightarrow> graph_vtab \<Rightarrow> database \<Rightarrow> sqlite3_value list \<Rightarrow> sqlite_rc \<times> database" where
  "graph_update_row self lit v db argv =
     (let old_rowid = value_int64 (argv ! 0) in
      if old_rowid \<noteq> value_int64 (argv ! 1) then (SQLITE_MISUSE, db)
      else if bit old_rowid 62 then
        (case edge_updates lit argv of
           None \<Rightarrow> (SQLITE_ERROR, db)
         | Some [] \<Rightarrow> (SQLITE_OK, db)
         | Some us \<Rightarrow> self us (unset_bit 62 old_rowid) db)
      else if value_type (argv ! 9) \<noteq> SQLITE_NULL
      then sql_update db (zNodeTableName v) [(''properties'', cell_text (value_text (argv ! 9)))] [''id'']
             (\<lambda>r. cell_eq (r ''id'') old_rowid)
      else (SQLITE_OK, db))"

text \<open>The result code with the row id of an inserted row.\<close>

definition graphUpdate ::
  "self_update \<Rightarrow> (f64 \<Rightarrow> f64 option) \<Rightarrow> graph_vtab \<Rightarrow> database \<Rightarrow> sqlite3_value list \<Rightarrow> i64 option result \<times> database" where
  "graphUpdate self lit v db argv =
     (let code = (\<lambda>rc. if rc = SQLITE_OK then Inr None else Inl rc);
          isnull = (\<lambda>i. value_type (argv ! i) = SQLITE_NULL) in
      if length argv = 1 then map_prod code id (graph_delete_row v db (value_int64 (argv ! 0)))
      else if length argv \<ge> 11 \<and> isnull 0 \<and> isnull 1 then
        (if \<not> isnull 2 \<and> value_text (argv ! 2) = map of_char ''node''
         then map_prod (map_sum id Some) id (graph_insert_node v db argv)
         else if \<not> isnull 2 \<and> value_text (argv ! 2) = map of_char ''edge''
         then map_prod (map_sum id Some) id (graph_insert_edge lit v db argv)
         else (Inl SQLITE_MISUSE, db))
      else if length argv \<ge> 11 then map_prod code id (graph_update_row self lit v db argv)
      else (Inl SQLITE_MISUSE, db))"

subsection \<open>SQL functions\<close>

text \<open>
  The functions work on the graph that was created or connected last, if there is one; a function returns
  its result or the code of the error it reports. They use the default names of the backing tables.
\<close>

definition with_graph ::
  "graph_vtab option \<Rightarrow> database \<Rightarrow> (graph_vtab \<Rightarrow> sqlite3_arg result \<times> database) \<Rightarrow> sqlite3_arg result \<times> database" where
  "with_graph pGraph db f = (case pGraph of None \<Rightarrow> (Inl SQLITE_ERROR, db) | Some v \<Rightarrow> f v)"

definition id_result :: "i64 \<Rightarrow> sqlite_rc \<times> database \<Rightarrow> sqlite3_arg result \<times> database" where
  "id_result i r = (case r of (rc, db) \<Rightarrow> (if rc = SQLITE_OK then Inr (int_result i) else Inl rc, db))"

definition graphNodeAddFunc ::
  "graph_vtab option \<Rightarrow> database \<Rightarrow> sqlite3_value \<Rightarrow> sqlite3_value \<Rightarrow> sqlite3_arg result \<times> database" where
  "graphNodeAddFunc pGraph db a0 a1 =
     with_graph pGraph db (\<lambda>v. id_result (value_int64 a0) (graphAddNode v db (value_int64 a0) a1))"

definition graphEdgeAddFunc ::
  "graph_vtab option \<Rightarrow> database \<Rightarrow> sqlite3_value \<Rightarrow> sqlite3_value \<Rightarrow> sqlite3_value \<Rightarrow> sqlite3_value \<Rightarrow>
   sqlite3_arg result \<times> database" where
  "graphEdgeAddFunc pGraph db a0 a1 a2 a3 =
     with_graph pGraph db (\<lambda>v.
       map_prod (map_sum id int_result) id
         (sql_insert False db (edges_of v) None
            [(''source'', cell_int (value_int64 a0)), (''target'', cell_int (value_int64 a1)),
             (''edge_type'', cell_quoted a2), (''properties'', cell_quoted a3)]))"

definition graphCountNodesFunc :: "graph_vtab option \<Rightarrow> database \<Rightarrow> sqlite3_arg result" where
  "graphCountNodesFunc pGraph db =
     (case pGraph of None \<Rightarrow> Inl SQLITE_ERROR
      | Some v \<Rightarrow> map_sum id int_result (count_rows db (nodes_of v) [] (\<lambda>_. True)))"

definition graphCountEdgesFunc :: "graph_vtab option \<Rightarrow> database \<Rightarrow> sqlite3_arg result" where
  "graphCountEdgesFunc pGraph db =
     (case pGraph of None \<Rightarrow> Inl SQLITE_ERROR
      | Some v \<Rightarrow> map_sum id int_result (count_rows db (edges_of v) [] (\<lambda>_. True)))"

definition graphNodeUpdateFunc ::
  "graph_vtab option \<Rightarrow> database \<Rightarrow> sqlite3_value \<Rightarrow> sqlite3_value \<Rightarrow> sqlite3_arg result \<times> database" where
  "graphNodeUpdateFunc pGraph db a0 a1 =
     with_graph pGraph db (\<lambda>v. id_result (value_int64 a0) (graphUpdateNode v db (value_int64 a0) a1))"

definition graphNodeDeleteFunc :: "graph_vtab option \<Rightarrow> database \<Rightarrow> sqlite3_value \<Rightarrow> sqlite3_arg result \<times> database" where
  "graphNodeDeleteFunc pGraph db a0 =
     with_graph pGraph db (\<lambda>v.
       id_result (value_int64 a0) (sql_delete db (nodes_of v) [''id''] (\<lambda>r. cell_eq (r ''id'') (value_int64 a0))))"

definition graphEdgeUpdateFunc ::
  "(f64 \<Rightarrow> f64 option) \<Rightarrow> graph_vtab option \<Rightarrow> database \<Rightarrow> sqlite3_value \<Rightarrow> sqlite3_value \<Rightarrow> sqlite3_value \<Rightarrow>
   sqlite3_value \<Rightarrow> sqlite3_value \<Rightarrow> sqlite3_arg result \<times> database" where
  "graphEdgeUpdateFunc lit pGraph db a0 a1 a2 a3 a4 =
     with_graph pGraph db (\<lambda>v.
       case lit (value_double a3) of
         None \<Rightarrow> (Inl SQLITE_ERROR, db)
       | Some w \<Rightarrow>
           id_result (value_int64 a0)
             (sql_update db (edges_of v)
                [(''source'', cell_int (value_int64 a1)), (''target'', cell_int (value_int64 a2)),
                 (''weight'', cell_real w), (''properties'', cell_quoted a4)] [''id'']
                (\<lambda>r. cell_eq (r ''id'') (value_int64 a0))))"

definition graphEdgeDeleteFunc :: "graph_vtab option \<Rightarrow> database \<Rightarrow> sqlite3_value \<Rightarrow> sqlite3_arg result \<times> database" where
  "graphEdgeDeleteFunc pGraph db a0 =
     with_graph pGraph db (\<lambda>v.
       id_result (value_int64 a0) (sql_delete db (edges_of v) [''id''] (\<lambda>r. cell_eq (r ''id'') (value_int64 a0))))"

definition graphNodeUpsertFunc ::
  "graph_vtab option \<Rightarrow> database \<Rightarrow> sqlite3_value \<Rightarrow> sqlite3_value \<Rightarrow> sqlite3_arg result \<times> database" where
  "graphNodeUpsertFunc pGraph db a0 a1 =
     with_graph pGraph db (\<lambda>v.
       map_prod (map_sum id (\<lambda>_. int_result (value_int64 a0))) id
         (sql_insert True db (nodes_of v) (Some (value_int64 a0)) [(''properties'', cell_quoted a1)]))"

definition graphCascadeDeleteNodeFunc ::
  "graph_vtab option \<Rightarrow> database \<Rightarrow> sqlite3_value \<Rightarrow> sqlite3_arg result \<times> database" where
  "graphCascadeDeleteNodeFunc pGraph db a0 =
     with_graph pGraph db (\<lambda>v.
       let i = value_int64 a0 in
       case sql_delete db (edges_of v) [''source'', ''target''] (\<lambda>r. cell_eq (r ''source'') i \<or> cell_eq (r ''target'') i) of
         (SQLITE_OK, db1) \<Rightarrow> id_result i (sql_delete db1 (nodes_of v) [''id''] (\<lambda>r. cell_eq (r ''id'') i))
       | (rc, db1) \<Rightarrow> (Inl rc, db1))"

end
