(* ===== verification/GraphVtab_Correct.thy ===== *)
theory GraphVtab_Correct
  imports GraphVtab
begin

text \<open>
  The \<open>graph\<close> virtual table shows exactly the rows of its backing tables, its row ids address them, and the
  writes that check their arguments keep every edge between existing nodes.
\<close>

subsection \<open>Reading a cursor to its end\<close>

text \<open>What a query reads: the row id and the columns of every row until \<open>xEof\<close>; the first argument bounds the number of rows.\<close>

fun cursor_rows :: "nat \<Rightarrow> graph_cursor \<Rightarrow> (i64 \<times> sqlite3_value list) list" where
  "cursor_rows 0 c = []"
| "cursor_rows (Suc n) c =
     (if graphEof c then [] else (graphRowid c, map (graphColumn c) [0..<8]) # cursor_rows n (graphNext c))"

definition node_view :: "sql_row \<Rightarrow> i64 \<times> sqlite3_value list" where
  "node_view r =
     (row_id r, [cell_text (map of_char ''node''), cell_int (row_id r), cell_null, cell_null, cell_quoted (r ''labels''),
       cell_null, cell_null, cell_quoted (r ''properties'')])"

definition edge_view :: "sql_row \<Rightarrow> i64 \<times> sqlite3_value list" where
  "edge_view r =
     (set_bit 62 (row_id r), [cell_text (map of_char ''edge''), cell_int (row_id r), cell_int (value_int64 (r ''source'')),
       cell_int (value_int64 (r ''target'')), cell_null, cell_quoted (r ''edge_type''),
       cell_real (value_double (r ''weight'')), cell_quoted (r ''properties'')])"

lemmas cursor_defs = graphNext_def next_edge_def step_opt_def sqlite3_step_def graphEof_def stmt_column_def
  graphRowid_def prepared_def

lemma upt_0_8: "[0..<8] = [0, 1, 2, 3, 4, 5, 6, 7::nat]"
  by (simp add: upt_rec)

lemma read_node:
  assumes "iIterMode c = 0" and "pNodeStmt c = Some \<lparr>pending = rs, current = Some r\<rparr>"
  shows "(graphRowid c, map (graphColumn c) [0..<8]) = node_view r"
  using assms by (simp add: upt_0_8 graphColumn_def node_view_def graphRowid_def stmt_column_def row_id_def)

lemma read_edge:
  assumes "iIterMode c = 1" and "pEdgeStmt c = Some \<lparr>pending = rs, current = Some r\<rparr>"
  shows "(graphRowid c, map (graphColumn c) [0..<8]) = edge_view r"
  using assms by (simp add: upt_0_8 graphColumn_def edge_view_def graphRowid_def stmt_column_def row_id_def)

text \<open>From a cursor on an edge, and from one that steps to the first edge.\<close>

lemma cursor_rows_edge:
  "iIterMode c = 1 \<Longrightarrow> pEdgeStmt c = Some \<lparr>pending = es, current = Some e\<rparr> \<Longrightarrow> length es < n \<Longrightarrow>
   cursor_rows n c = edge_view e # map edge_view es"
proof (induction es arbitrary: c e n)
  case Nil
  then obtain m where m: "n = Suc m" by (cases n) auto
  have "graphEof (graphNext c)" using Nil by (simp add: cursor_defs)
  then have "cursor_rows m (graphNext c) = []" by (cases m) simp_all
  then show ?case using read_edge [OF Nil(1,2)] Nil by (simp add: m graphEof_def del: upt_rec_numeral)
next
  case (Cons e' es)
  then obtain m where m: "n = Suc m" "length es < m" by (cases n) auto
  have "iIterMode (graphNext c) = 1" "pEdgeStmt (graphNext c) = Some \<lparr>pending = es, current = Some e'\<rparr>"
    using Cons.prems by (simp_all add: cursor_defs)
  then have "cursor_rows m (graphNext c) = edge_view e' # map edge_view es" using Cons.IH m(2) by blast
  then show ?case using read_edge [OF Cons.prems(1,2)] Cons.prems(1) by (simp add: m graphEof_def del: upt_rec_numeral)
qed

lemma cursor_rows_next_edge:
  "pEdgeStmt c = Some (prepared es) \<Longrightarrow> length es \<le> n \<Longrightarrow> cursor_rows n (next_edge c) = map edge_view es"
proof (cases es)
  case Nil
  assume "pEdgeStmt c = Some (prepared es)"
  then have "graphEof (next_edge c)" using Nil by (simp add: cursor_defs)
  then show ?thesis using Nil by (cases n) simp_all
next
  case (Cons e rs)
  assume c: "pEdgeStmt c = Some (prepared es)" and n: "length es \<le> n"
  have "iIterMode (next_edge c) = 1" "pEdgeStmt (next_edge c) = Some \<lparr>pending = rs, current = Some e\<rparr>"
    using c Cons by (simp_all add: cursor_defs)
  then show ?thesis using cursor_rows_edge [of "next_edge c" rs e n] Cons n by simp
qed

lemma cursor_rows_node:
  "iIterMode c = 0 \<Longrightarrow> pNodeStmt c = Some \<lparr>pending = ns, current = Some r\<rparr> \<Longrightarrow> pEdgeStmt c = Some (prepared es) \<Longrightarrow>
   length ns + length es < n \<Longrightarrow> cursor_rows n c = node_view r # map node_view ns @ map edge_view es"
proof (induction ns arbitrary: c r n)
  case Nil
  then obtain m where m: "n = Suc m" "length es \<le> m" by (cases n) auto
  have "graphNext c = next_edge (c\<lparr>pNodeStmt := Some \<lparr>pending = [], current = None\<rparr>\<rparr>)"
    using Nil by (simp add: graphNext_def step_opt_def sqlite3_step_def)
  then have "cursor_rows m (graphNext c) = map edge_view es" using cursor_rows_next_edge Nil(3) m(2) by simp
  then show ?case using read_node [OF Nil(1,2)] Nil(1) by (simp add: m graphEof_def del: upt_rec_numeral)
next
  case (Cons r' ns)
  then obtain m where m: "n = Suc m" "length ns + length es < m" by (cases n) auto
  have "iIterMode (graphNext c) = 0" "pNodeStmt (graphNext c) = Some \<lparr>pending = ns, current = Some r'\<rparr>"
    "pEdgeStmt (graphNext c) = Some (prepared es)"
    using Cons.prems by (simp_all add: cursor_defs)
  then have "cursor_rows m (graphNext c) = node_view r' # map node_view ns @ map edge_view es" using Cons.IH m(2) by blast
  then show ?case using read_node [OF Cons.prems(1,2)] Cons.prems(1) by (simp add: m graphEof_def del: upt_rec_numeral)
qed

text \<open>The first fetch may start in the mode before the first node or, for an edge lookup, in that of a node.\<close>

lemma cursor_rows_first:
  assumes c: "c = \<lparr>iIterMode = m, pNodeStmt = Some (prepared ns), pEdgeStmt = Some (prepared es)\<rparr>" "m = -1 \<or> m = 0"
    and n: "length ns + length es \<le> n"
  shows "cursor_rows n (graphNext c) = map node_view ns @ map edge_view es"
proof (cases ns)
  case Nil
  have "graphNext c = next_edge (c\<lparr>pNodeStmt := Some \<lparr>pending = [], current = None\<rparr>\<rparr>)"
    using c Nil by (auto simp: graphNext_def step_opt_def sqlite3_step_def prepared_def)
  then show ?thesis using cursor_rows_next_edge [of "c\<lparr>pNodeStmt := Some \<lparr>pending = [], current = None\<rparr>\<rparr>" es n] c n Nil by simp
next
  case (Cons r rs)
  have "iIterMode (graphNext c) = 0" "pNodeStmt (graphNext c) = Some \<lparr>pending = rs, current = Some r\<rparr>"
    "pEdgeStmt (graphNext c) = Some (prepared es)"
    using c Cons by (auto simp: cursor_defs)
  then show ?thesis using cursor_rows_node [of "graphNext c" rs r es n] Cons n by simp
qed

subsection \<open>Consistent graphs\<close>

definition table_ok :: "sql_table \<Rightarrow> bool" where
  "table_ok tab \<longleftrightarrow> sorted_wrt (<) (map row_id (tab_rows tab)) \<and>
     (\<forall>r \<in> set (tab_rows tab). value_type (r ''id'') = SQLITE_INTEGER)"

definition graph_rows :: "graph_vtab \<Rightarrow> database \<Rightarrow> (sql_row list \<times> sql_row list) option" where
  "graph_rows v db =
     (case (db (zNodeTableName v), db (zEdgeTableName v)) of
        (Some ns, Some es) \<Rightarrow>
          if zNodeTableName v \<noteq> zEdgeTableName v \<and> has_columns ns node_select \<and> has_columns es edge_select \<and>
             table_ok ns \<and> table_ok es
          then Some (tab_rows ns, tab_rows es) else None
      | _ \<Rightarrow> None)"

lemma graph_rowsE:
  assumes "graph_rows v db = Some (ns, es)"
  obtains tn te where "db (zNodeTableName v) = Some tn" "db (zEdgeTableName v) = Some te"
    "zNodeTableName v \<noteq> zEdgeTableName v" "has_columns tn node_select" "has_columns te edge_select"
    "table_ok tn" "table_ok te" "tab_rows tn = ns" "tab_rows te = es"
  using assms by (auto simp: graph_rows_def split: option.splits if_splits)

lemma cell_eq_row_id: "table_ok tab \<Longrightarrow> r \<in> set (tab_rows tab) \<Longrightarrow> cell_eq (r ''id'') i \<longleftrightarrow> row_id r = i"
  by (auto simp: table_ok_def cell_eq_def row_id_def)

lemma filter_row_id:
  assumes "sorted_wrt (<) (map row_id rs)" and "r \<in> set rs"
  shows "filter (\<lambda>s. row_id s = row_id r) rs = [r]"
  using assms by (induction rs) (auto simp: filter_empty_conv)

lemma select_by_id:
  assumes "table_ok tab" and "r \<in> set (tab_rows tab)"
  shows "filter (\<lambda>s. cell_eq (s ''id'') (row_id r)) (tab_rows tab) = [r]"
proof -
  have "filter (\<lambda>s. cell_eq (s ''id'') (row_id r)) (tab_rows tab) = filter (\<lambda>s. row_id s = row_id r) (tab_rows tab)"
    using cell_eq_row_id [OF assms(1)] by (intro filter_cong) auto
  then show ?thesis using filter_row_id assms by (simp add: table_ok_def)
qed

lemma delete_by_id:
  assumes "table_ok tab"
  shows "filter (\<lambda>s. \<not> cell_eq (s ''id'') i) (tab_rows tab) = filter (\<lambda>s. row_id s \<noteq> i) (tab_rows tab)"
  using cell_eq_row_id [OF assms] by (intro filter_cong) auto

lemma table_ok_filter: "table_ok tab \<Longrightarrow> table_ok (tab\<lparr>tab_rows := filter P (tab_rows tab)\<rparr>)"
  by (auto simp: table_ok_def sorted_wrt_map intro: sorted_wrt_filter)

definition graph_view :: "sql_row list \<Rightarrow> sql_row list \<Rightarrow> (i64 \<times> sqlite3_value list) list" where
  "graph_view ns es = map node_view ns @ map edge_view es"

definition id_in_range :: "i64 \<Rightarrow> bool" where
  "id_in_range i \<longleftrightarrow> 0 \<le> i \<and> i < 2 ^ 62"

lemma in_range_bit: "id_in_range i \<Longrightarrow> \<not> bit i 62"
  by (simp add: id_in_range_def bit_iff_odd)

lemma edge_rowid_bits: "id_in_range i \<Longrightarrow> bit (set_bit 62 i) 62 \<and> unset_bit 62 (set_bit 62 i) = i"
  using in_range_bit [of i] by (auto simp: bit_eq_iff [of "unset_bit 62 (set_bit 62 i)"] bit_simps)

lemma edge_rowid_inj: "id_in_range i \<Longrightarrow> id_in_range j \<Longrightarrow> set_bit 62 i = set_bit 62 j \<Longrightarrow> i = j"
  using edge_rowid_bits [of i] edge_rowid_bits [of j] by metis

lemma edge_rowid_not_node: "id_in_range i \<Longrightarrow> \<not> id_in_range (set_bit 62 i)"
  using edge_rowid_bits [of i] in_range_bit by metis

lemma sorted_ids_distinct: "table_ok tab \<Longrightarrow> distinct (map row_id (tab_rows tab))"
  by (simp add: table_ok_def strict_sorted_iff)

subsection \<open>Scans, lookups and deletions\<close>

lemma full_scan:
  assumes "graph_rows v db = Some (ns, es)" and "length ns + length es \<le> n"
  shows "\<exists>c. graphFilter v db 0 [] = Inr c \<and> cursor_rows n c = graph_view ns es"
proof -
  obtain tn te where t: "db (zNodeTableName v) = Some tn" "db (zEdgeTableName v) = Some te"
    "has_columns tn node_select" "has_columns te edge_select" "tab_rows tn = ns" "tab_rows te = es"
    using assms(1) by (rule graph_rowsE)
  then have "graphFilter v db 0 [] = Inr (graphNext \<lparr>iIterMode = -1, pNodeStmt = Some (prepared ns), pEdgeStmt = Some (prepared es)\<rparr>)"
    by (simp add: graphFilter_def sql_select_def)
  then show ?thesis using cursor_rows_first [OF refl _ assms(2), of "-1"] by (simp add: graph_view_def)
qed

lemma rowid_lookup:
  assumes "graph_rows v db = Some (ns, es)" and ids: "\<forall>r \<in> set ns \<union> set es. id_in_range (row_id r)"
    and row: "(i, cols) \<in> set (graph_view ns es)" and n: "0 < n"
  shows "\<exists>c. graphFilter v db 1 [cell_int i] = Inr c \<and> cursor_rows n c = [(i, cols)]"
proof -
  obtain tn te where t: "db (zNodeTableName v) = Some tn" "db (zEdgeTableName v) = Some te"
    "has_columns tn node_select" "has_columns te edge_select" "table_ok tn" "table_ok te" "tab_rows tn = ns" "tab_rows te = es"
    using assms(1) by (rule graph_rowsE)
  consider r where "r \<in> set ns" "node_view r = (i, cols)" | r where "r \<in> set es" "edge_view r = (i, cols)"
    using row by (auto simp: graph_view_def)
  then show ?thesis
  proof cases
    case 1
    then have i: "i = row_id r" "id_in_range i" using ids by (auto simp: node_view_def)
    have "filter (\<lambda>s. cell_eq (s ''id'') i) ns = [r]" using select_by_id [OF t(5), of r] 1(1) i(1) by (simp only: t(7))
    then have "graphFilter v db 1 [cell_int i] =
        Inr (graphNext \<lparr>iIterMode = -1, pNodeStmt = Some (prepared [r]), pEdgeStmt = Some (prepared [])\<rparr>)"
      using t i in_range_bit by (simp add: graphFilter_def sql_select_def cell_int_def)
    then show ?thesis using cursor_rows_first [OF refl, of "-1" "[r]" "[]" n] n 1(2) by simp
  next
    case 2
    then have i: "bit i 62" "unset_bit 62 i = row_id r" using ids edge_rowid_bits [of "row_id r"] by (auto simp: edge_view_def)
    have "filter (\<lambda>s. cell_eq (s ''id'') (unset_bit 62 i)) es = [r]"
      using select_by_id [OF t(6), of r] 2(1) i(2) by (simp only: t(8))
    then have "graphFilter v db 1 [cell_int i] =
        Inr (graphNext \<lparr>iIterMode = 0, pNodeStmt = Some (prepared []), pEdgeStmt = Some (prepared [r])\<rparr>)"
      using t i(1) by (simp add: graphFilter_def sql_select_def cell_int_def)
    then show ?thesis using cursor_rows_first [OF refl, of 0 "[]" "[r]" n] n 2(2) by simp
  qed
qed

lemma graph_rows_change:
  assumes "db (zNodeTableName v) = Some tn" "db (zEdgeTableName v) = Some te" "zNodeTableName v \<noteq> zEdgeTableName v"
    "has_columns tn node_select" "has_columns te edge_select" "table_ok tn" "table_ok te"
  shows "graph_rows v db = Some (tab_rows tn, tab_rows te)"
  using assms by (simp add: graph_rows_def)

lemma has_columns_rows [simp]: "has_columns (tab\<lparr>tab_rows := rs\<rparr>) cs = has_columns tab cs"
  by (simp add: has_columns_def)

lemma has_id: "has_columns t node_select \<Longrightarrow> has_columns t [''id'']" "has_columns t edge_select \<Longrightarrow> has_columns t [''id'']"
  by (simp_all add: has_columns_def node_select_def edge_select_def)

lemma delete_node:
  assumes "graph_rows v db = Some (ns, es)"
  shows "\<exists>db'. sql_delete db (zNodeTableName v) [''id''] (\<lambda>r. cell_eq (r ''id'') i) = (SQLITE_OK, db') \<and>
    graph_rows v db' = Some (filter (\<lambda>r. row_id r \<noteq> i) ns, es)"
proof -
  obtain tn te where t: "db (zNodeTableName v) = Some tn" "db (zEdgeTableName v) = Some te"
    "zNodeTableName v \<noteq> zEdgeTableName v" "has_columns tn node_select" "has_columns te edge_select"
    "table_ok tn" "table_ok te" "tab_rows tn = ns" "tab_rows te = es"
    using assms by (rule graph_rowsE)
  let ?tn = "tn\<lparr>tab_rows := filter (\<lambda>r. row_id r \<noteq> i) ns\<rparr>"
  have "sql_delete db (zNodeTableName v) [''id''] (\<lambda>r. cell_eq (r ''id'') i) = (SQLITE_OK, db(zNodeTableName v \<mapsto> ?tn))"
    using t has_id delete_by_id [OF t(6), of i] by (simp add: sql_delete_def)
  then show ?thesis
    using graph_rows_change [of "db(zNodeTableName v \<mapsto> ?tn)" v ?tn te] t table_ok_filter [OF t(6)] by simp
qed

lemma delete_edge_where:
  assumes "graph_rows v db = Some (ns, es)" and "set cs \<subseteq> set edge_select"
  shows "\<exists>db'. sql_delete db (zEdgeTableName v) cs P = (SQLITE_OK, db') \<and>
    graph_rows v db' = Some (ns, filter (\<lambda>r. \<not> P r) es)"
proof -
  obtain tn te where t: "db (zNodeTableName v) = Some tn" "db (zEdgeTableName v) = Some te"
    "zNodeTableName v \<noteq> zEdgeTableName v" "has_columns tn node_select" "has_columns te edge_select"
    "table_ok tn" "table_ok te" "tab_rows tn = ns" "tab_rows te = es"
    using assms(1) by (rule graph_rowsE)
  let ?te = "te\<lparr>tab_rows := filter (\<lambda>r. \<not> P r) es\<rparr>"
  have "has_columns te cs" using t(5) assms(2) by (auto simp: has_columns_def list_all_iff)
  then have "sql_delete db (zEdgeTableName v) cs P = (SQLITE_OK, db(zEdgeTableName v \<mapsto> ?te))"
    using t by (simp add: sql_delete_def)
  then show ?thesis
    using graph_rows_change [of "db(zEdgeTableName v \<mapsto> ?te)" v tn ?te] t table_ok_filter [OF t(7)] by simp
qed

lemma delete_row:
  assumes g: "graph_rows v db = Some (ns, es)" and ids: "\<forall>r \<in> set ns \<union> set es. id_in_range (row_id r)"
    and row: "(i, cols) \<in> set (graph_view ns es)"
  shows "\<exists>db' ns' es'. graph_delete_row v db i = (SQLITE_OK, db') \<and> graph_rows v db' = Some (ns', es') \<and>
    graph_view ns' es' = filter (\<lambda>x. fst x \<noteq> i) (graph_view ns es)"
proof -
  consider r where "r \<in> set ns" "node_view r = (i, cols)" | r where "r \<in> set es" "edge_view r = (i, cols)"
    using row by (auto simp: graph_view_def)
  then show ?thesis
  proof cases
    case 1
    then have i: "id_in_range i" using ids by (auto simp: node_view_def)
    have e: "filter (\<lambda>x. fst x \<noteq> i) (map edge_view es) = map edge_view es"
      unfolding filter_id_conv using ids i edge_rowid_not_node by (auto simp: edge_view_def)
    have v: "graph_view (filter (\<lambda>r. row_id r \<noteq> i) ns) es = filter (\<lambda>x. fst x \<noteq> i) (graph_view ns es)"
      using e by (simp add: graph_view_def filter_map o_def node_view_def)
    obtain db' where "sql_delete db (zNodeTableName v) [''id''] (\<lambda>r. cell_eq (r ''id'') i) = (SQLITE_OK, db')"
      "graph_rows v db' = Some (filter (\<lambda>r. row_id r \<noteq> i) ns, es)" using delete_node [OF g] by blast
    then show ?thesis using v in_range_bit [OF i] by (auto simp: graph_delete_row_def)
  next
    case 2
    let ?k = "row_id r"
    have k: "id_in_range ?k" "i = set_bit 62 ?k" using 2 ids by (auto simp: edge_view_def)
    then have b: "bit i 62" "unset_bit 62 i = ?k" using edge_rowid_bits by blast+
    have n: "filter (\<lambda>x. fst x \<noteq> i) (map node_view ns) = map node_view ns"
      unfolding filter_id_conv using ids edge_rowid_not_node [OF k(1)] by (auto simp: node_view_def k(2)) (metis UnI1)
    obtain te where t: "table_ok te" "tab_rows te = es" using g by (rule graph_rowsE)
    have "filter (\<lambda>s. \<not> cell_eq (s ''id'') ?k) es = filter (\<lambda>s. set_bit 62 (row_id s) \<noteq> i) es"
      using delete_by_id [OF t(1), of ?k] ids edge_rowid_inj k unfolding t(2) by (auto intro!: filter_cong)
    then have v: "graph_view ns (filter (\<lambda>r. \<not> cell_eq (r ''id'') ?k) es) = filter (\<lambda>x. fst x \<noteq> i) (graph_view ns es)"
      using n by (simp add: graph_view_def filter_map o_def edge_view_def)
    obtain db' where "sql_delete db (zEdgeTableName v) [''id''] (\<lambda>r. cell_eq (r ''id'') ?k) = (SQLITE_OK, db')"
      "graph_rows v db' = Some (ns, filter (\<lambda>r. \<not> cell_eq (r ''id'') ?k) es)"
      using delete_edge_where [OF g, of "[''id'']"] by (auto simp: edge_select_def)
    then show ?thesis using v b by (auto simp: graph_delete_row_def)
  qed
qed


lemma row_id_new_row [simp]: "row_id (new_row tab vals i) = i"
  by (simp add: row_id_def new_row_def cell_int_def)

lemma new_row_id: "value_type (new_row tab vals i ''id'') = SQLITE_INTEGER"
  by (simp add: new_row_def cell_int_def)

definition sample_graph :: database where
  "sample_graph = (\<lambda>_. None)
     (''g_nodes'' \<mapsto> \<lparr>tab_columns = node_columns,
        tab_rows = [new_row \<lparr>tab_columns = node_columns, tab_rows = []\<rparr> [] 1, new_row \<lparr>tab_columns = node_columns, tab_rows = []\<rparr> [] 2]\<rparr>,
      ''g_edges'' \<mapsto> \<lparr>tab_columns = edge_columns,
        tab_rows = [new_row \<lparr>tab_columns = edge_columns, tab_rows = []\<rparr> [(''source'', cell_int 1), (''target'', cell_int 2)] 1]\<rparr>)"


subsection \<open>Writes\<close>

lemma table_ok_insort:
  assumes "table_ok tab" and "row_id r \<notin> row_id ` set (tab_rows tab)" and "value_type (r ''id'') = SQLITE_INTEGER"
  shows "table_ok (tab\<lparr>tab_rows := insort_key row_id r (tab_rows tab)\<rparr>)"
  using assms by (auto simp: table_ok_def strict_sorted_iff sorted_insort_key distinct_insort_key set_insort_key)

lemma next_id_fresh: "next_id rs \<notin> row_id ` set rs"
proof
  assume r: "next_id rs \<in> row_id ` set rs"
  then have "next_id rs \<le> Max (row_id ` set rs)" "rs \<noteq> []" by auto
  then show False by (simp add: next_id_def)
qed

lemma insert_ok:
  assumes "db t = Some tab" and "table_ok tab"
  shows "(\<exists>rc. sql_insert orReplace db t key vals = (Inl rc, db)) \<or>
    (\<exists>i rows. sql_insert orReplace db t key vals = (Inr i, db(t \<mapsto> tab\<lparr>tab_rows := rows\<rparr>)) \<and>
      table_ok (tab\<lparr>tab_rows := rows\<rparr>) \<and>
      set rows = insert (new_row tab vals i) {r \<in> set (tab_rows tab). key = None \<or> row_id r \<noteq> i})"
proof -
  show ?thesis
  proof (cases key)
    case None
    let ?i = "next_id (tab_rows tab)"
    let ?rows = "insort_key row_id (new_row tab vals ?i) (tab_rows tab)"
    have "table_ok (tab\<lparr>tab_rows := ?rows\<rparr>)" using table_ok_insort [OF assms(2)] next_id_fresh new_row_id by simp
    moreover have "sql_insert orReplace db t key vals = (Inr ?i, db(t \<mapsto> tab\<lparr>tab_rows := ?rows\<rparr>)) \<or>
        (\<exists>rc. sql_insert orReplace db t key vals = (Inl rc, db))"
      using assms(1) None by (simp add: sql_insert_def Let_def)
    moreover have "set ?rows = insert (new_row tab vals ?i) {r \<in> set (tab_rows tab). key = None \<or> row_id r \<noteq> ?i}"
      using None by (simp add: set_insort_key)
    ultimately show ?thesis by blast
  next
    case (Some i)
    let ?rs = "filter (\<lambda>r. row_id r \<noteq> i) (tab_rows tab)"
    let ?rows = "insort_key row_id (new_row tab vals i) ?rs"
    have "table_ok (tab\<lparr>tab_rows := ?rows\<rparr>)"
      using table_ok_insort [OF table_ok_filter [OF assms(2)], of "new_row tab vals i" "\<lambda>r. row_id r \<noteq> i"] new_row_id by auto
    moreover have "sql_insert orReplace db t key vals = (Inr i, db(t \<mapsto> tab\<lparr>tab_rows := ?rows\<rparr>)) \<or>
        (\<exists>rc. sql_insert orReplace db t key vals = (Inl rc, db))"
      using assms(1) Some by (simp add: sql_insert_def)
    moreover have "set ?rows = insert (new_row tab vals i) {r \<in> set (tab_rows tab). key = None \<or> row_id r \<noteq> i}"
      using Some by (auto simp: set_insort_key)
    ultimately show ?thesis by blast
  qed
qed

text \<open>Every edge of the graph leads from a node of the graph to a node of the graph.\<close>

definition linked :: "sql_row list \<Rightarrow> sql_row list \<Rightarrow> bool" where
  "linked ns es \<longleftrightarrow> (\<forall>e \<in> set es. \<exists>s \<in> set ns. \<exists>t \<in> set ns.
     cell_eq (e ''source'') (row_id s) \<and> cell_eq (e ''target'') (row_id t))"

definition graph_ok :: "graph_vtab \<Rightarrow> database \<Rightarrow> bool" where
  "graph_ok v db \<longleftrightarrow> (case graph_rows v db of None \<Rightarrow> False | Some (ns, es) \<Rightarrow> linked ns es)"

lemma graph_okE:
  assumes "graph_ok v db"
  obtains ns es where "graph_rows v db = Some (ns, es)" "linked ns es"
  using assms by (auto simp: graph_ok_def split: option.splits)

lemma linked_mono: "linked ns es \<Longrightarrow> row_id ` set ns \<subseteq> row_id ` set ns' \<Longrightarrow> set es' \<subseteq> set es \<Longrightarrow> linked ns' es'"
proof -
  assume l: "linked ns es" and n: "row_id ` set ns \<subseteq> row_id ` set ns'" and e: "set es' \<subseteq> set es"
  show ?thesis
    unfolding linked_def
  proof
    fix x assume "x \<in> set es'"
    then obtain s t where st: "s \<in> set ns" "t \<in> set ns" "cell_eq (x ''source'') (row_id s)" "cell_eq (x ''target'') (row_id t)"
      using l e unfolding linked_def by blast
    obtain s' where s': "s' \<in> set ns'" "row_id s' = row_id s" using st(1) n by (metis (no_types) imageE imageI subsetD)
    obtain t' where t': "t' \<in> set ns'" "row_id t' = row_id t" using st(2) n by (metis (no_types) imageE imageI subsetD)
    show "\<exists>s\<in>set ns'. \<exists>t\<in>set ns'. cell_eq (x ''source'') (row_id s) \<and> cell_eq (x ''target'') (row_id t)"
      using st s' t' by (intro bexI [of _ s'] bexI [of _ t']) simp_all
  qed
qed

lemma insert_node_ok:
  assumes "graph_ok v db"
  shows "graph_ok v (snd (sql_insert orReplace db (zNodeTableName v) key vals))"
proof -
  obtain ns es where g: "graph_rows v db = Some (ns, es)" "linked ns es" using assms by (rule graph_okE)
  obtain tn te where t: "db (zNodeTableName v) = Some tn" "db (zEdgeTableName v) = Some te"
    "zNodeTableName v \<noteq> zEdgeTableName v" "has_columns tn node_select" "has_columns te edge_select"
    "table_ok tn" "table_ok te" "tab_rows tn = ns" "tab_rows te = es"
    using g(1) by (rule graph_rowsE)
  have "row_id ` set ns \<subseteq> row_id ` set rows"
    if "set rows = insert (new_row tn vals i) {r \<in> set (tab_rows tn). key = None \<or> row_id r \<noteq> i}" for i rows
    unfolding that t(8) by (auto simp: image_iff)
  then have "graph_ok v (db(zNodeTableName v \<mapsto> tn\<lparr>tab_rows := rows\<rparr>))"
    if "table_ok (tn\<lparr>tab_rows := rows\<rparr>)"
      "set rows = insert (new_row tn vals i) {r \<in> set (tab_rows tn). key = None \<or> row_id r \<noteq> i}" for i rows
    using that graph_rows_change [of "db(zNodeTableName v \<mapsto> tn\<lparr>tab_rows := rows\<rparr>)" v "tn\<lparr>tab_rows := rows\<rparr>" te] t
      linked_mono [OF g(2)] by (simp add: graph_ok_def)
  then show ?thesis using insert_ok [of db "zNodeTableName v" tn orReplace key vals] t(1,6) assms by auto
qed

lemma delete_edges_ok:
  assumes "graph_ok v db" and "set cs \<subseteq> set edge_select"
  shows "graph_ok v (snd (sql_delete db (zEdgeTableName v) cs P))"
proof -
  obtain ns es where g: "graph_rows v db = Some (ns, es)" "linked ns es" using assms(1) by (rule graph_okE)
  then show ?thesis using delete_edge_where [OF g(1) assms(2), of P] linked_mono [OF g(2)] by (auto simp: graph_ok_def)
qed

lemma insert_edge_ok:
  assumes "graph_ok v db"
  shows "graph_ok v (snd (graph_insert_edge lit v db argv))"
proof -
  obtain ns es where g: "graph_rows v db = Some (ns, es)" "linked ns es" using assms by (rule graph_okE)
  obtain tn te where t: "db (zNodeTableName v) = Some tn" "db (zEdgeTableName v) = Some te"
    "zNodeTableName v \<noteq> zEdgeTableName v" "has_columns tn node_select" "has_columns te edge_select"
    "table_ok tn" "table_ok te" "tab_rows tn = ns" "tab_rows te = es"
    using g(1) by (rule graph_rowsE)
  let ?s = "arg_int (argv ! 4)" and ?t = "arg_int (argv ! 5)"
  define vals where "vals w = [(''source'', cell_int ?s), (''target'', cell_int ?t),
    (''edge_type'', cell_text (arg_text (argv ! 7) '''')), (''weight'', cell_real w),
    (''properties'', cell_text (arg_text (argv ! 9) ''''))]" for w
  have ok: "graph_ok v (snd (sql_insert False db (zEdgeTableName v) None (vals w)))"
    if ends: "list_ex (\<lambda>r. cell_eq (r ''id'') ?s) ns" "list_ex (\<lambda>r. cell_eq (r ''id'') ?t) ns" for w
  proof -
    obtain a b where ab: "a \<in> set ns" "b \<in> set ns" "row_id a = ?s" "row_id b = ?t"
      using ends cell_eq_row_id [OF t(6)] unfolding t(8) list_ex_iff by blast
    have "linked ns rows" if *: "set rows = insert (new_row te (vals w) i) {r \<in> set es. True}" for rows i
    proof -
      have "cell_eq (new_row te (vals w) i ''source'') (row_id a)" "cell_eq (new_row te (vals w) i ''target'') (row_id b)"
        using ab by (simp_all add: new_row_def vals_def cell_eq_def cell_int_def)
      then have new: "\<exists>s\<in>set ns. \<exists>t\<in>set ns. cell_eq (new_row te (vals w) i ''source'') (row_id s) \<and>
          cell_eq (new_row te (vals w) i ''target'') (row_id t)"
        using ab(1,2) by blast
      have "e = new_row te (vals w) i \<or> e \<in> set es" if "e \<in> set rows" for e using that * by simp
      then show ?thesis using new g(2) unfolding linked_def by metis
    qed
    then have "graph_ok v (db(zEdgeTableName v \<mapsto> te\<lparr>tab_rows := rows\<rparr>))"
      if "table_ok (te\<lparr>tab_rows := rows\<rparr>)" "set rows = insert (new_row te (vals w) i) {r \<in> set (tab_rows te). None = None \<or> row_id r \<noteq> i}"
      for rows i
      using that graph_rows_change [of "db(zEdgeTableName v \<mapsto> te\<lparr>tab_rows := rows\<rparr>)" v tn "te\<lparr>tab_rows := rows\<rparr>"] t
      by (simp add: graph_ok_def)
    then show ?thesis using insert_ok [of db "zEdgeTableName v" te False None "vals w"] t(2,7) assms by auto
  qed
  have "sql_select db (zNodeTableName v) [''id''] (\<lambda>_. True) = Inr ns" using t has_id by (simp add: sql_select_def)
  then show ?thesis using ok assms
    by (auto simp: graph_insert_edge_def Let_def vals_def [symmetric] split: option.splits)
qed

lemma update_node_ok:
  assumes "graph_ok v db"
  shows "graph_ok v (snd (sql_update db (zNodeTableName v) [(''properties'', w)] cs P))"
proof -
  obtain ns es where g: "graph_rows v db = Some (ns, es)" "linked ns es" using assms by (rule graph_okE)
  obtain tn te where t: "db (zNodeTableName v) = Some tn" "db (zEdgeTableName v) = Some te"
    "zNodeTableName v \<noteq> zEdgeTableName v" "has_columns tn node_select" "has_columns te edge_select"
    "table_ok tn" "table_ok te" "tab_rows tn = ns" "tab_rows te = es"
    using g(1) by (rule graph_rowsE)
  let ?f = "\<lambda>r. if P r then set_columns [(''properties'', w)] r else r"
  let ?tn = "tn\<lparr>tab_rows := map ?f (tab_rows tn)\<rparr>"
  have f: "row_id (?f r) = row_id r" "(?f r) ''id'' = r ''id''" for r by (simp_all add: row_id_def set_columns_def)
  have "value_type (r ''id'') = SQLITE_INTEGER" if "r \<in> set (map ?f (tab_rows tn))" for r
  proof -
    obtain r0 where "r0 \<in> set (tab_rows tn)" "r = ?f r0" using \<open>r \<in> _\<close> unfolding set_map by blast
    then show ?thesis using t(6) f(2) [of r0] unfolding table_ok_def by (simp only:)
  qed
  then have "table_ok ?tn" using t(6) f(1) by (simp add: table_ok_def o_def)
  moreover have "row_id ` set (map ?f ns) = row_id ` set ns" unfolding set_map image_image by (simp only: f(1))
  then have "linked (map ?f ns) es" using linked_mono [OF g(2), of "map ?f ns" es] by (simp only: order_refl)
  ultimately have "graph_ok v (db(zNodeTableName v \<mapsto> ?tn))"
    using graph_rows_change [of "db(zNodeTableName v \<mapsto> ?tn)" v ?tn te] t by (simp add: graph_ok_def)
  then show ?thesis using assms t(1) by (simp add: sql_update_def)
qed

lemma linked_remove:
  "linked ns es \<Longrightarrow> linked (filter (\<lambda>r. row_id r \<noteq> i) ns) (filter (\<lambda>r. \<not> (cell_eq (r ''source'') i \<or> cell_eq (r ''target'') i)) es)"
  unfolding linked_def by fastforce

definition default_names :: "graph_vtab \<Rightarrow> bool" where
  "default_names v \<longleftrightarrow> zNodeTableName v = nodes_of v \<and> zEdgeTableName v = edges_of v"

lemma remove_node_ok:
  assumes "graph_ok v db" and "default_names v"
  shows "graph_ok v (snd (graphRemoveNode v db i))" and "graph_ok v (snd (graphCascadeDeleteNodeFunc (Some v) db a))"
proof -
  have names: "nodes_of v = zNodeTableName v" "edges_of v = zEdgeTableName v" using assms(2) by (simp_all add: default_names_def)
  obtain ns es where g: "graph_rows v db = Some (ns, es)" "linked ns es" using assms(1) by (rule graph_okE)
  have cols: "set [''source'', ''target''] \<subseteq> set edge_select" by (simp add: edge_select_def)
  let ?P = "\<lambda>i r. cell_eq (r ''source'') i \<or> cell_eq (r ''target'') i"
  obtain db1 where d1: "sql_delete db (zNodeTableName v) [''id''] (\<lambda>r. cell_eq (r ''id'') i) = (SQLITE_OK, db1)"
    "graph_rows v db1 = Some (filter (\<lambda>r. row_id r \<noteq> i) ns, es)" using delete_node [OF g(1)] by blast
  obtain db2 where "sql_delete db1 (zEdgeTableName v) [''source'', ''target''] (?P i) = (SQLITE_OK, db2)"
    "graph_rows v db2 = Some (filter (\<lambda>r. row_id r \<noteq> i) ns, filter (\<lambda>r. \<not> ?P i r) es)"
    using delete_edge_where [OF d1(2) cols] by blast
  then show "graph_ok v (snd (graphRemoveNode v db i))"
    using d1(1) linked_remove [OF g(2), of i] by (simp add: graphRemoveNode_def names graph_ok_def)
  let ?i = "value_int64 a"
  obtain db3 where d3: "sql_delete db (zEdgeTableName v) [''source'', ''target''] (?P ?i) = (SQLITE_OK, db3)"
    "graph_rows v db3 = Some (ns, filter (\<lambda>r. \<not> ?P ?i r) es)" using delete_edge_where [OF g(1) cols] by blast
  obtain db4 where "sql_delete db3 (zNodeTableName v) [''id''] (\<lambda>r. cell_eq (r ''id'') ?i) = (SQLITE_OK, db4)"
    "graph_rows v db4 = Some (filter (\<lambda>r. row_id r \<noteq> ?i) ns, filter (\<lambda>r. \<not> ?P ?i r) es)" using delete_node [OF d3(2)] by blast
  then show "graph_ok v (snd (graphCascadeDeleteNodeFunc (Some v) db a))"
    using d3(1) linked_remove [OF g(2), of ?i]
    by (simp add: graphCascadeDeleteNodeFunc_def with_graph_def id_result_def Let_def names graph_ok_def)
qed

subsection \<open>Sequences of writes\<close>

text \<open>
  The writes that keep the graph linked: insertions through the virtual table, updates of nodes, deletions
  of edges, and the two operations that remove a node with its edges.
\<close>

inductive graph_write :: "graph_vtab \<Rightarrow> database \<Rightarrow> database \<Rightarrow> bool" for v where
  row_insert: "length argv \<ge> 11 \<Longrightarrow> value_type (argv ! 0) = SQLITE_NULL \<Longrightarrow> value_type (argv ! 1) = SQLITE_NULL \<Longrightarrow>
     graph_write v db (snd (graphUpdate self lit v db argv))"
| node_row_update: "length argv \<ge> 11 \<Longrightarrow> \<not> (value_type (argv ! 0) = SQLITE_NULL \<and> value_type (argv ! 1) = SQLITE_NULL) \<Longrightarrow>
     \<not> bit (value_int64 (argv ! 0)) 62 \<Longrightarrow> graph_write v db (snd (graphUpdate self lit v db argv))"
| edge_row_delete: "bit (value_int64 a) 62 \<Longrightarrow> graph_write v db (snd (graphUpdate self lit v db [a]))"
| node_add: "graph_write v db (snd (graphNodeAddFunc (Some v) db a0 a1))"
| node_upsert: "graph_write v db (snd (graphNodeUpsertFunc (Some v) db a0 a1))"
| node_update: "graph_write v db (snd (graphNodeUpdateFunc (Some v) db a0 a1))"
| edge_delete: "graph_write v db (snd (graphEdgeDeleteFunc (Some v) db a0))"
| edge_remove: "graph_write v db (snd (graphRemoveEdge v db i j))"
| node_remove: "graph_write v db (snd (graphRemoveNode v db i))"
| cascade_delete: "graph_write v db (snd (graphCascadeDeleteNodeFunc (Some v) db a0))"

lemma snd_id_result [simp]: "snd (id_result i r) = snd r"
  by (simp add: id_result_def split: prod.split)

lemma graph_write_ok:
  assumes "graph_write v db db'" and "default_names v" and "graph_ok v db"
  shows "graph_ok v db'"
proof -
  have names: "nodes_of v = zNodeTableName v" "edges_of v = zEdgeTableName v" using assms(2) by (simp_all add: default_names_def)
  note sql = insert_node_ok update_node_ok delete_edges_ok insert_edge_ok remove_node_ok
  from assms(1) show ?thesis
  proof cases
    case (row_insert argv self lit)
    then show ?thesis using sql assms(3) by (simp add: graphUpdate_def graph_insert_node_def Let_def)
  next
    case (node_row_update argv self lit)
    then show ?thesis using sql assms(3) by (auto simp: graphUpdate_def graph_update_row_def Let_def)
  next
    case (edge_row_delete a self lit)
    then show ?thesis using delete_edges_ok [OF assms(3), of "[''id'']"] by (simp add: graphUpdate_def graph_delete_row_def edge_select_def Let_def)
  qed (use sql assms(2,3) names in \<open>simp_all add: graphNodeAddFunc_def graphNodeUpsertFunc_def graphNodeUpdateFunc_def
        graphEdgeDeleteFunc_def graphRemoveEdge_def with_graph_def graphAddNode_def graphUpdateNode_def edge_select_def\<close>)
qed

lemma create_ok:
  assumes "graphCreate True (\<lambda>_. None) name [] = (Inr v, db)"
  shows "graph_ok v db \<and> default_names v"
proof -
  have v: "v = \<lparr>zTableName = name, zNodeTableName = name @ ''_nodes'', zEdgeTableName = name @ ''_edges''\<rparr>"
    and db: "db = sql_create (sql_create (\<lambda>_. None) (name @ ''_nodes'') node_columns) (name @ ''_edges'') edge_columns"
    using assms by (simp_all add: graphCreate_def new_vtab_def Let_def)
  have "db (name @ ''_nodes'') = Some \<lparr>tab_columns = node_columns, tab_rows = []\<rparr>"
    "db (name @ ''_edges'') = Some \<lparr>tab_columns = edge_columns, tab_rows = []\<rparr>"
    by (simp_all add: db sql_create_def)
  then have "graph_rows v db = Some ([], [])"
    by (simp add: v graph_rows_def table_ok_def has_columns_def node_select_def edge_select_def node_columns_def edge_columns_def)
  then show ?thesis by (simp add: graph_ok_def linked_def default_names_def nodes_of_def edges_of_def v)
qed



end
