(* ===== verification/GraphTraverse.thy ===== *)
theory GraphTraverse
  imports GraphStore
begin

text \<open>
  Graph traversal (\<^verbatim>\<open>sqlite-graph/src/graph-traverse.c\<close>), the queue of \<^verbatim>\<open>graph-util.c\<close>, and the functions of
  \<^verbatim>\<open>graph-tvf.c\<close> and \<^verbatim>\<open>graph-algo.c\<close> that read the path a traversal returns. \<open>ok n\<close> says whether an allocation of
  \<open>n\<close> bytes succeeds. A path is the text of a JSON array; \<open>None\<close> is a null pointer.
\<close>

subsection \<open>Visited sets\<close>

text \<open>The used part of the array, and the allocated size.\<close>

record visited_set =
  aNodes :: "i64 list"
  nAlloc :: nat

definition graphVisitedSetCreate :: "(nat \<Rightarrow> bool) \<Rightarrow> visited_set option" where
  "graphVisitedSetCreate ok = (if ok 16 \<and> ok (16 * 8) then Some \<lparr>aNodes = [], nAlloc = 16\<rparr> else None)"

definition graphVisitedSetAdd :: "(nat \<Rightarrow> bool) \<Rightarrow> visited_set \<Rightarrow> i64 \<Rightarrow> sqlite_rc \<times> visited_set" where
  "graphVisitedSetAdd ok p iNodeId =
     (if length (aNodes p) \<ge> nAlloc p \<and> \<not> ok (nAlloc p * 2 * 8) then (SQLITE_NOMEM, p)
      else (SQLITE_OK, \<lparr>aNodes = aNodes p @ [iNodeId],
                        nAlloc = (if length (aNodes p) \<ge> nAlloc p then nAlloc p * 2 else nAlloc p)\<rparr>))"

fun contains_from :: "i64 list \<Rightarrow> i64 \<Rightarrow> bool" where
  "contains_from [] iNodeId = False"
| "contains_from (x # xs) iNodeId = (if x = iNodeId then True else contains_from xs iNodeId)"

definition graphVisitedSetContains :: "visited_set \<Rightarrow> i64 \<Rightarrow> bool" where
  "graphVisitedSetContains p iNodeId = contains_from (aNodes p) iNodeId"

subsection \<open>Successors and paths\<close>

text \<open>\<open>SELECT to_id FROM T_edges WHERE from_id = x\<close>\<close>

definition edge_targets :: "graph_vtab \<Rightarrow> database \<Rightarrow> i64 \<Rightarrow> i64 list result" where
  "edge_targets v db x =
     map_sum id (map (\<lambda>r. value_int64 (r ''to_id'')))
       (sql_select db (edges_of v) [''to_id'', ''from_id''] (\<lambda>r. cell_eq (r ''from_id'') x))"

definition mprintf :: "(nat \<Rightarrow> bool) \<Rightarrow> bytes \<Rightarrow> bytes option" where
  "mprintf ok s = (if ok (length s + 1) then Some s else None)"

definition path_append :: "(nat \<Rightarrow> bool) \<Rightarrow> bytes option \<Rightarrow> i64 \<Rightarrow> bytes option" where
  "path_append ok zPath iNodeId =
     (case zPath of
        None \<Rightarrow> mprintf ok (91 # fmt_d iNodeId)
      | Some s \<Rightarrow> mprintf ok (s @ 44 # fmt_d iNodeId))"

text \<open>The end of a traversal closes the array.\<close>

definition path_close :: "(nat \<Rightarrow> bool) \<Rightarrow> sqlite_rc \<times> bytes option \<Rightarrow> sqlite_rc \<times> bytes option" where
  "path_close ok r =
     (case r of
        (SQLITE_OK, Some s) \<Rightarrow>
          (case mprintf ok (s @ [93]) of None \<Rightarrow> (SQLITE_NOMEM, None) | Some t \<Rightarrow> (SQLITE_OK, Some t))
      | _ \<Rightarrow> r)"

subsection \<open>Depth-first search\<close>

text \<open>
  The recursion takes the number of stack frames it may use; \<open>None\<close> is a stack overflow. The second
  function is the loop over the rows of the statement.
\<close>

type_synonym dfs_state = "visited_set \<times> bytes option"

fun graphDFSRecursive ::
  "(nat \<Rightarrow> bool) \<Rightarrow> graph_vtab \<Rightarrow> database \<Rightarrow> int \<Rightarrow> nat \<Rightarrow> i64 \<Rightarrow> int \<Rightarrow> dfs_state \<Rightarrow> (sqlite_rc \<times> dfs_state) option"
and dfs_rows ::
  "(nat \<Rightarrow> bool) \<Rightarrow> graph_vtab \<Rightarrow> database \<Rightarrow> int \<Rightarrow> nat \<Rightarrow> i64 list \<Rightarrow> int \<Rightarrow> dfs_state \<Rightarrow> (sqlite_rc \<times> dfs_state) option"
where
  "graphDFSRecursive ok v db nMaxDepth 0 iNodeId nCurrentDepth (vs, zPath) = None"
| "graphDFSRecursive ok v db nMaxDepth (Suc frames) iNodeId nCurrentDepth (vs, zPath) =
     (if nMaxDepth \<ge> 0 \<and> nCurrentDepth \<ge> nMaxDepth then Some (SQLITE_OK, vs, zPath)
      else if graphVisitedSetContains vs iNodeId then Some (SQLITE_OK, vs, zPath)
      else case graphVisitedSetAdd ok vs iNodeId of
        (SQLITE_OK, vs') \<Rightarrow>
          (case path_append ok zPath iNodeId of
             None \<Rightarrow> Some (SQLITE_NOMEM, vs', None)
           | Some s \<Rightarrow>
               (case edge_targets v db iNodeId of
                  Inl rc \<Rightarrow> Some (rc, vs', Some s)
                | Inr rows \<Rightarrow> dfs_rows ok v db nMaxDepth frames rows (nCurrentDepth + 1) (vs', Some s)))
      | (rc, vs') \<Rightarrow> Some (rc, vs', zPath))"
| "dfs_rows ok v db nMaxDepth frames [] nDepth st = Some (SQLITE_OK, st)"
| "dfs_rows ok v db nMaxDepth frames (to_id # rows) nDepth st =
     (case graphDFSRecursive ok v db nMaxDepth frames to_id nDepth st of
        None \<Rightarrow> None
      | Some (rc, st') \<Rightarrow>
          if rc = SQLITE_OK then dfs_rows ok v db nMaxDepth frames rows nDepth st' else Some (rc, st'))"

definition graphDFS ::
  "(nat \<Rightarrow> bool) \<Rightarrow> nat \<Rightarrow> graph_vtab \<Rightarrow> database \<Rightarrow> i64 \<Rightarrow> int \<Rightarrow> (sqlite_rc \<times> bytes option) option" where
  "graphDFS ok frames v db iStartId nMaxDepth =
     (case graphFindNode (ok 48) v db iStartId of
        None \<Rightarrow> Some (SQLITE_NOTFOUND, None)
      | Some _ \<Rightarrow>
          (case graphVisitedSetCreate ok of
             None \<Rightarrow> Some (SQLITE_NOMEM, None)
           | Some vs \<Rightarrow>
               map_option (\<lambda>(rc, vs', zPath). path_close ok (rc, zPath))
                 (graphDFSRecursive ok v db nMaxDepth frames iStartId 0 (vs, None))))"

subsection \<open>The queue\<close>

text \<open>The values of the linked list from head to tail.\<close>

type_synonym queue = "i64 list"

definition graphQueueCreate :: "(nat \<Rightarrow> bool) \<Rightarrow> queue option" where
  "graphQueueCreate ok = (if ok 16 then Some [] else None)"

definition graphQueueEnqueue :: "(nat \<Rightarrow> bool) \<Rightarrow> queue \<Rightarrow> i64 \<Rightarrow> sqlite_rc \<times> queue" where
  "graphQueueEnqueue ok q iNodeId = (if ok 16 then (SQLITE_OK, q @ [iNodeId]) else (SQLITE_NOMEM, q))"

definition graphQueueDequeue :: "queue \<Rightarrow> (i64 \<times> queue) option" where
  "graphQueueDequeue q = (case q of [] \<Rightarrow> None | x # q' \<Rightarrow> Some (x, q'))"

subsection \<open>Breadth-first search\<close>

record bfs_state =
  bQueue :: queue
  bVisited :: visited_set
  bDepths :: "(i64 \<times> int) list"
  bPath :: "bytes option"

fun depth_of :: "(i64 \<times> int) list \<Rightarrow> i64 \<Rightarrow> int" where
  "depth_of [] x = 0"
| "depth_of ((y, d) # ds) x = (if y = x then d else depth_of ds x)"

text \<open>One row of the statement; a result code other than \<open>SQLITE_OK\<close> leaves both loops.\<close>

definition bfs_row :: "(nat \<Rightarrow> bool) \<Rightarrow> int \<Rightarrow> i64 \<Rightarrow> bfs_state \<Rightarrow> sqlite_rc \<times> bfs_state" where
  "bfs_row ok nCurrentDepth to_id st =
     (if graphVisitedSetContains (bVisited st) to_id then (SQLITE_OK, st)
      else case graphVisitedSetAdd ok (bVisited st) to_id of
        (SQLITE_OK, vs) \<Rightarrow>
          (case graphQueueEnqueue ok (bQueue st) to_id of
             (SQLITE_OK, q) \<Rightarrow>
               (let st1 = st\<lparr>bVisited := vs, bQueue := q\<rparr> in
                if \<not> ok 24 then (SQLITE_NOMEM, st1)
                else
                  let st2 = st1\<lparr>bDepths := (to_id, nCurrentDepth + 1) # bDepths st,
                                bPath := path_append ok (bPath st) to_id\<rparr>
                  in (if bPath st2 = None then SQLITE_NOMEM else SQLITE_OK, st2))
           | (rc, q) \<Rightarrow> (rc, st\<lparr>bVisited := vs, bQueue := q\<rparr>))
      | (rc, vs) \<Rightarrow> (rc, st\<lparr>bVisited := vs\<rparr>))"

fun bfs_rows :: "(nat \<Rightarrow> bool) \<Rightarrow> int \<Rightarrow> i64 list \<Rightarrow> bfs_state \<Rightarrow> sqlite_rc \<times> bfs_state" where
  "bfs_rows ok nCurrentDepth [] st = (SQLITE_OK, st)"
| "bfs_rows ok nCurrentDepth (to_id # rows) st =
     (case bfs_row ok nCurrentDepth to_id st of
        (SQLITE_OK, st') \<Rightarrow> bfs_rows ok nCurrentDepth rows st'
      | (rc, st') \<Rightarrow> (rc, st'))"

text \<open>The targets of all edges, which bound the nodes a search can enqueue.\<close>

definition all_targets :: "graph_vtab \<Rightarrow> database \<Rightarrow> i64 set" where
  "all_targets v db = (case db (edges_of v) of None \<Rightarrow> {} | Some t \<Rightarrow> (\<lambda>r. value_int64 (r ''to_id'')) ` set (tab_rows t))"

definition unvisited :: "graph_vtab \<Rightarrow> database \<Rightarrow> bfs_state \<Rightarrow> i64 set" where
  "unvisited v db st = all_targets v db - set (aNodes (bVisited st))"

lemma finite_unvisited [simp]: "finite (unvisited v db st)"
  by (simp add: unvisited_def all_targets_def split: option.split)

lemma edge_targets_subset: "edge_targets v db x = Inr rows \<Longrightarrow> set rows \<subseteq> all_targets v db"
  by (auto simp: edge_targets_def all_targets_def sql_select_def map_sum_def split: option.splits if_splits)

lemma contains_from_iff: "contains_from xs x \<longleftrightarrow> x \<in> set xs"
  by (induction xs) auto

lemma contains_iff [simp]: "graphVisitedSetContains p x \<longleftrightarrow> x \<in> set (aNodes p)"
  by (simp add: graphVisitedSetContains_def contains_from_iff)

lemma bfs_row_measure:
  assumes "to_id \<in> all_targets v db" and "bfs_row ok d to_id st = (rc, st')"
  shows "card (unvisited v db st') + length (bQueue st') \<le> card (unvisited v db st) + length (bQueue st)"
proof (cases "to_id \<in> set (aNodes (bVisited st))")
  case False
  have "card (unvisited v db st - {to_id}) < card (unvisited v db st)"
    using assms(1) False by (intro psubset_card_mono finite_unvisited) (auto simp: unvisited_def)
  moreover have "unvisited v db st' = unvisited v db st - {to_id} \<and> length (bQueue st') \<le> Suc (length (bQueue st)) \<or>
      unvisited v db st' = unvisited v db st \<and> bQueue st' = bQueue st"
  proof (cases "length (aNodes (bVisited st)) \<ge> nAlloc (bVisited st) \<and> \<not> ok (nAlloc (bVisited st) * 2 * 8)")
    case True
    then show ?thesis using assms(2) False by (simp add: bfs_row_def graphVisitedSetAdd_def unvisited_def)
  next
    case grown: False
    then obtain vs where vs: "graphVisitedSetAdd ok (bVisited st) to_id = (SQLITE_OK, vs)" "aNodes vs = aNodes (bVisited st) @ [to_id]"
      by (auto simp: graphVisitedSetAdd_def)
    have st': "st' = snd (bfs_row ok d to_id st)" using assms(2) by simp
    have "bVisited st' = vs" unfolding st' using False vs(1)
      by (cases "ok 16"; cases "ok 24") (simp_all add: bfs_row_def graphQueueEnqueue_def Let_def)
    moreover have "length (bQueue st') \<le> Suc (length (bQueue st))" unfolding st' using False vs(1)
      by (cases "ok 16"; cases "ok 24") (simp_all add: bfs_row_def graphQueueEnqueue_def Let_def)
    ultimately show ?thesis using vs(2) by (auto simp: unvisited_def)
  qed
  ultimately show ?thesis
  proof (elim disjE conjE, goal_cases)
    case 1
    then show ?case unfolding 1(2) by linarith
  next
    case 2
    show ?case unfolding 2(2,3) by (rule order_refl)
  qed
qed (use assms(2) in \<open>simp add: bfs_row_def\<close>)

lemma bfs_rows_measure:
  assumes "set rows \<subseteq> all_targets v db"
  shows "card (unvisited v db (snd (bfs_rows ok d rows st))) + length (bQueue (snd (bfs_rows ok d rows st)))
    \<le> card (unvisited v db st) + length (bQueue st)"
  using assms
proof (induction rows arbitrary: st)
  case (Cons t rows)
  obtain rc st' where r: "bfs_row ok d t st = (rc, st')" by (cases "bfs_row ok d t st")
  then have "card (unvisited v db st') + length (bQueue st') \<le> card (unvisited v db st) + length (bQueue st)"
    using bfs_row_measure Cons.prems by auto
  then show ?case using Cons.IH [of st'] Cons.prems r by (cases rc) simp_all
qed simp

text \<open>
  The outer loop, with the result code that the last prepared statement left; a statement that cannot be
  prepared skips its node. The first component of the result says whether the loop was left by an error.
\<close>

function bfs_loop ::
  "(nat \<Rightarrow> bool) \<Rightarrow> graph_vtab \<Rightarrow> database \<Rightarrow> int \<Rightarrow> sqlite_rc \<Rightarrow> bfs_state \<Rightarrow> bool \<times> sqlite_rc \<times> bfs_state" where
  "bfs_loop ok v db nMaxDepth rc st =
     (case graphQueueDequeue (bQueue st) of
        None \<Rightarrow> (False, rc, st)
      | Some (iCurrentId, q) \<Rightarrow>
          (let nCurrentDepth = depth_of (bDepths st) iCurrentId; st1 = st\<lparr>bQueue := q\<rparr> in
           if nMaxDepth \<ge> 0 \<and> nCurrentDepth \<ge> nMaxDepth then bfs_loop ok v db nMaxDepth rc st1
           else case edge_targets v db iCurrentId of
             Inl rc' \<Rightarrow> bfs_loop ok v db nMaxDepth rc' st1
           | Inr rows \<Rightarrow>
               (let (rc', st2) = bfs_rows ok nCurrentDepth rows st1
                in if rc' = SQLITE_OK then bfs_loop ok v db nMaxDepth rc' st2 else (True, rc', st2))))"
  by pat_completeness auto
termination
proof (relation "measure (\<lambda>(ok, v, db, m, rc, st). card (unvisited v db st) + length (bQueue st))", goal_cases)
  case (4 ok v db m rc st x iCurrentId q nCurrentDepth st1 rows r rc' st2)
  have "card (unvisited v db st2) + length (bQueue st2) \<le> card (unvisited v db st1) + length (bQueue st1)"
    using bfs_rows_measure [OF edge_targets_subset [OF 4(6)], of ok nCurrentDepth st1] 4(7,8) by (metis snd_conv)
  then show ?case using 4(1,2,4) by (auto simp: graphQueueDequeue_def unvisited_def split: list.splits)
qed (auto simp: graphQueueDequeue_def unvisited_def split: list.splits)

declare bfs_loop.simps [simp del]

definition graphBFS ::
  "(nat \<Rightarrow> bool) \<Rightarrow> graph_vtab \<Rightarrow> database \<Rightarrow> i64 \<Rightarrow> int \<Rightarrow> sqlite_rc \<times> bytes option" where
  "graphBFS ok v db iStartId nMaxDepth =
     (case graphQueueCreate ok of
        None \<Rightarrow> (SQLITE_NOMEM, None)
      | Some q0 \<Rightarrow>
          (case graphVisitedSetCreate ok of
             None \<Rightarrow> (SQLITE_NOMEM, None)
           | Some vs0 \<Rightarrow>
               (case graphQueueEnqueue ok q0 iStartId of
                  (SQLITE_OK, q) \<Rightarrow>
                    (case graphVisitedSetAdd ok vs0 iStartId of
                       (SQLITE_OK, vs) \<Rightarrow>
                         if \<not> ok 24 then (SQLITE_NOMEM, None)
                         else (case path_append ok None iStartId of
                                 None \<Rightarrow> (SQLITE_NOMEM, None)
                               | Some s \<Rightarrow>
                                   (case bfs_loop ok v db nMaxDepth SQLITE_OK
                                           \<lparr>bQueue = q, bVisited = vs, bDepths = [(iStartId, 0)], bPath = Some s\<rparr> of
                                      (True, rc, st) \<Rightarrow> (rc, bPath st)
                                    | (False, rc, st) \<Rightarrow> path_close ok (rc, bPath st)))
                     | (rc, vs) \<Rightarrow> (rc, None))
                | (rc, q) \<Rightarrow> (rc, None))))"

definition graphShortestPathUnweighted ::
  "(nat \<Rightarrow> bool) \<Rightarrow> graph_vtab \<Rightarrow> database \<Rightarrow> i64 \<Rightarrow> i64 \<Rightarrow> sqlite_rc \<times> bytes option" where
  "graphShortestPathUnweighted ok v db iStartId iEndId = graphBFS ok v db iStartId (-1)"

subsection \<open>Reading a path\<close>

text \<open>The loop of \<open>parseTraversalPath\<close>; the text is followed by a zero byte. The last argument is the array of node ids.\<close>

function parse_ids :: "(nat \<Rightarrow> bool) \<Rightarrow> bytes \<Rightarrow> visited_set \<Rightarrow> i64 list result" where
  "parse_ids ok p arr =
     (if p = [] \<or> hd p = 0 \<or> hd p = 93 then Inr (aNodes arr)
      else let p1 = dropWhile (\<lambda>c. c = 32 \<or> c = 44) p in
        if p1 \<noteq> [] \<and> hd p1 = 93 then Inr (aNodes arr)
        else case strtol p1 of (iNodeId, n, erange) \<Rightarrow>
          if n = 0 then Inl SQLITE_ERROR
          else let grow = length (aNodes arr) \<ge> nAlloc arr;
                   size = (if grow then if nAlloc arr \<noteq> 0 then nAlloc arr * 2 else 16 else nAlloc arr)
               in if grow \<and> \<not> ok (size * 8) then Inl SQLITE_NOMEM
                  else parse_ids ok (drop n p1) \<lparr>aNodes = aNodes arr @ [iNodeId], nAlloc = size\<rparr>)"
  by pat_completeness auto
termination
proof (relation "measure (\<lambda>(ok, p, arr). length p)", goal_cases)
  case (2 ok p arr p1 iNodeId r n erange)
  have "length p1 \<le> length p" unfolding 2(2) by (rule length_dropWhile_le)
  moreover have "p1 \<noteq> []" using 2(4,5,6) by (auto simp: strtol_def c_sign_def)
  moreover have "0 < n" using 2(6) by simp
  ultimately have "length (drop n p1) < length p" by (cases p1) auto
  then show ?case by simp
qed simp

declare parse_ids.simps [simp del]

definition parseTraversalPath :: "(nat \<Rightarrow> bool) \<Rightarrow> bytes option \<Rightarrow> i64 list result" where
  "parseTraversalPath ok zPath =
     (case zPath of
        None \<Rightarrow> Inl SQLITE_ERROR
      | Some s \<Rightarrow> if s = [] \<or> hd s \<noteq> 91 then Inl SQLITE_ERROR else parse_ids ok (tl s) \<lparr>aNodes = [], nAlloc = 0\<rparr>)"

text \<open>\<open>graphIsConnected\<close> counts the commas of the path from the first node, and one for its bracket.\<close>

definition graphIsConnected :: "(nat \<Rightarrow> bool) \<Rightarrow> graph_vtab \<Rightarrow> database \<Rightarrow> bool" where
  "graphIsConnected ok v db =
     (let nNodes = graphCountNodes v db in
      if nNodes \<le> 1 then True
      else
        let iStartId = (case sql_select db (nodes_of v) [''id''] (\<lambda>_. True) of
                          Inr (r # _) \<Rightarrow> value_int64 (r ''id'') | _ \<Rightarrow> -1) in
        if iStartId = -1 then False
        else
          let nVisited = (case snd (graphShortestPathUnweighted ok v db iStartId (-1)) of
                            None \<Rightarrow> 0
                          | Some s \<Rightarrow> int (length (filter (\<lambda>c. c = 44) s)) + (if 91 \<in> set s then 1 else 0))
          in nVisited = nNodes)"

end
