(* ===== verification/GraphAlgo.thy ===== *)
theory GraphAlgo
  imports GraphTraverse
begin

text \<open>
  Shortest paths in weighted graphs (\<^verbatim>\<open>sqlite-graph/src/graph-algo.c\<close>): the binary heap, the hash map of distances
  and predecessors, and Dijkstra's algorithm, with the degree functions. \<open>ok n\<close> says whether an allocation of \<open>n\<close>
  bytes succeeds; \<open>None\<close> is an access outside an array, or no return.
\<close>

subsection \<open>The priority queue\<close>

type_synonym pq_node = "i64 \<times> f64"

text \<open>The used part of the array, and the allocated size.\<close>

record priority_queue =
  pq_nodes :: "pq_node list"
  pq_alloc :: nat

definition graphPriorityQueueCreate :: "(nat \<Rightarrow> bool) \<Rightarrow> priority_queue option" where
  "graphPriorityQueueCreate ok = (if ok 16 \<and> ok (16 * 16) then Some \<lparr>pq_nodes = [], pq_alloc = 16\<rparr> else None)"

definition pqParent :: "nat \<Rightarrow> nat" where
  "pqParent i = (i - 1) div 2"

definition pqLeftChild :: "nat \<Rightarrow> nat" where
  "pqLeftChild i = 2 * i + 1"

definition pqRightChild :: "nat \<Rightarrow> nat" where
  "pqRightChild i = 2 * i + 2"

definition pqSwap :: "pq_node list \<Rightarrow> nat \<Rightarrow> nat \<Rightarrow> pq_node list" where
  "pqSwap a i j = a[i := a ! j, j := a ! i]"

function pqBubbleUp :: "pq_node list \<Rightarrow> nat \<Rightarrow> pq_node list" where
  "pqBubbleUp a i =
     (if i > 0 \<and> dlt (snd (a ! i)) (snd (a ! pqParent i)) then pqBubbleUp (pqSwap a i (pqParent i)) (pqParent i) else a)"
  by pat_completeness auto
termination
  by (relation "measure snd") (auto simp: pqParent_def)

declare pqBubbleUp.simps [simp del]

definition pq_min_child :: "pq_node list \<Rightarrow> nat \<Rightarrow> nat \<Rightarrow> nat" where
  "pq_min_child a nUsed i =
     (let left = pqLeftChild i; right = pqRightChild i;
          m = (if left < nUsed \<and> dlt (snd (a ! left)) (snd (a ! i)) then left else i)
      in if right < nUsed \<and> dlt (snd (a ! right)) (snd (a ! m)) then right else m)"

function pqBubbleDown :: "pq_node list \<Rightarrow> nat \<Rightarrow> nat \<Rightarrow> pq_node list" where
  "pqBubbleDown a nUsed i =
     (let minIndex = pq_min_child a nUsed i
      in if minIndex \<noteq> i then pqBubbleDown (pqSwap a i minIndex) nUsed minIndex else a)"
  by pat_completeness auto
termination
  by (relation "measure (\<lambda>(a, n, i). n - i)") (auto simp: pq_min_child_def pqLeftChild_def pqRightChild_def Let_def split: if_splits)

declare pqBubbleDown.simps [simp del]

definition graphPriorityQueueInsert :: "(nat \<Rightarrow> bool) \<Rightarrow> priority_queue \<Rightarrow> i64 \<Rightarrow> f64 \<Rightarrow> sqlite_rc \<times> priority_queue" where
  "graphPriorityQueueInsert ok q iNodeId rDistance =
     (if length (pq_nodes q) \<ge> pq_alloc q \<and> \<not> ok (pq_alloc q * 2 * 16) then (SQLITE_NOMEM, q)
      else (SQLITE_OK, \<lparr>pq_nodes = pqBubbleUp (pq_nodes q @ [(iNodeId, rDistance)]) (length (pq_nodes q)),
                        pq_alloc = (if length (pq_nodes q) \<ge> pq_alloc q then pq_alloc q * 2 else pq_alloc q)\<rparr>))"

text \<open>\<open>None\<close> is \<open>SQLITE_NOTFOUND\<close>.\<close>

definition graphPriorityQueueExtractMin :: "priority_queue \<Rightarrow> (pq_node \<times> priority_queue) option" where
  "graphPriorityQueueExtractMin q =
     (case pq_nodes q of
        [] \<Rightarrow> None
      | root # _ \<Rightarrow>
          (let nUsed = length (pq_nodes q) - 1;
               a = (if nUsed > 0 then pqBubbleDown ((take nUsed (pq_nodes q))[0 := pq_nodes q ! nUsed]) nUsed 0 else [])
           in Some (root, q\<lparr>pq_nodes := a\<rparr>)))"

definition graphPriorityQueueIsEmpty :: "priority_queue \<Rightarrow> bool" where
  "graphPriorityQueueIsEmpty q \<longleftrightarrow> pq_nodes q = []"

subsection \<open>The map of distances\<close>

text \<open>An entry holds the node, its distance and its predecessor.\<close>

type_synonym distance_info = "i64 \<times> f64 \<times> i64"

record distance_map =
  nBuckets :: int
  aBuckets :: "distance_info list list"
  nEntries :: int

text \<open>
  The size is passed as an \<open>int\<close>: a size that is not positive gets no memory, and one that wrapped around to a smaller
  number makes the initialisation run out of the array (\<open>None\<close>).
\<close>

definition distanceMapCreate :: "(nat \<Rightarrow> bool) \<Rightarrow> int \<Rightarrow> distance_map option option" where
  "distanceMapCreate ok nExpectedNodes =
     (let n = nExpectedNodes * 2 + 1; size = c_int (n * 8) in
      if \<not> ok 24 then Some None
      else if n \<ge> 2 ^ 31 then None
      else if size \<le> 0 \<or> \<not> ok (nat size) then Some None
      else if size < n * 8 then None
      else Some (Some \<lparr>nBuckets = n, aBuckets = replicate (nat n) [], nEntries = 0\<rparr>))"

text \<open>The remainder of C has the sign of the node id; \<open>None\<close> is an index outside the buckets.\<close>

definition bucket_of :: "distance_map \<Rightarrow> i64 \<Rightarrow> nat option" where
  "bucket_of p iNodeId =
     (let r = (if iNodeId \<ge> 0 then iNodeId mod nBuckets p else - ((- iNodeId) mod nBuckets p))
      in if 0 \<le> r \<and> nat r < length (aBuckets p) then Some (nat r) else None)"

fun info_find :: "distance_info list \<Rightarrow> i64 \<Rightarrow> (f64 \<times> i64) option" where
  "info_find [] x = None"
| "info_find ((y, d, pr) # es) x = (if y = x then Some (d, pr) else info_find es x)"

fun info_set :: "distance_info list \<Rightarrow> i64 \<Rightarrow> f64 \<Rightarrow> i64 \<Rightarrow> distance_info list" where
  "info_set [] x d' pr' = []"
| "info_set ((y, d, pr) # es) x d' pr' = (if y = x then (y, d', pr') # es else (y, d, pr) # info_set es x d' pr')"

definition distanceMapSet ::
  "(nat \<Rightarrow> bool) \<Rightarrow> distance_map \<Rightarrow> i64 \<Rightarrow> f64 \<Rightarrow> i64 \<Rightarrow> (sqlite_rc \<times> distance_map) option" where
  "distanceMapSet ok p iNodeId rDistance iPredecessor =
     (case bucket_of p iNodeId of
        None \<Rightarrow> None
      | Some b \<Rightarrow>
          (let es = aBuckets p ! b in
           case info_find es iNodeId of
             Some _ \<Rightarrow> Some (SQLITE_OK, p\<lparr>aBuckets := (aBuckets p)[b := info_set es iNodeId rDistance iPredecessor]\<rparr>)
           | None \<Rightarrow>
               if ok 32
               then Some (SQLITE_OK, p\<lparr>aBuckets := (aBuckets p)[b := (iNodeId, rDistance, iPredecessor) # es], nEntries := nEntries p + 1\<rparr>)
               else Some (SQLITE_NOMEM, p)))"

definition DBL_MAX :: f64 where
  "DBL_MAX = 0x7FEFFFFFFFFFFFFF"

definition distanceMapGet :: "distance_map \<Rightarrow> i64 \<Rightarrow> f64 option" where
  "distanceMapGet p iNodeId =
     map_option (\<lambda>b. case info_find (aBuckets p ! b) iNodeId of Some (d, _) \<Rightarrow> d | None \<Rightarrow> DBL_MAX) (bucket_of p iNodeId)"

definition distanceMapGetPredecessor :: "distance_map \<Rightarrow> i64 \<Rightarrow> i64 option" where
  "distanceMapGetPredecessor p iNodeId =
     map_option (\<lambda>b. case info_find (aBuckets p ! b) iNodeId of Some (_, pr) \<Rightarrow> pr | None \<Rightarrow> -1) (bucket_of p iNodeId)"

subsection \<open>Dijkstra's algorithm\<close>

text \<open>\<open>SELECT to_id, weight FROM T_edges WHERE from_id = x\<close>\<close>

definition edge_weights :: "graph_vtab \<Rightarrow> database \<Rightarrow> i64 \<Rightarrow> (i64 \<times> f64) list result" where
  "edge_weights v db x =
     map_sum id (map (\<lambda>r. (value_int64 (r ''to_id''), value_double (r ''weight''))))
       (sql_select db (edges_of v) [''to_id'', ''weight'', ''from_id''] (\<lambda>r. cell_eq (r ''from_id'') x))"

type_synonym dijkstra_state = "priority_queue \<times> distance_map"

text \<open>The relaxation of one edge, and of the edges of a node; a result code other than \<open>SQLITE_OK\<close> leaves both loops.\<close>

definition relax_edge ::
  "(nat \<Rightarrow> bool) \<Rightarrow> i64 \<Rightarrow> f64 \<Rightarrow> i64 \<times> f64 \<Rightarrow> dijkstra_state \<Rightarrow> (sqlite_rc \<times> dijkstra_state) option" where
  "relax_edge ok iCurrentId rCurrentDist e st =
     (case (e, st) of ((to_id, weight), (q, dm)) \<Rightarrow>
        let rNewDist = dadd rCurrentDist weight in
        case distanceMapGet dm to_id of
          None \<Rightarrow> None
        | Some old \<Rightarrow>
            if dlt rNewDist old then
              (case distanceMapSet ok dm to_id rNewDist iCurrentId of
                 None \<Rightarrow> None
               | Some (rc, dm') \<Rightarrow>
                   if rc = SQLITE_OK
                   then Some (case graphPriorityQueueInsert ok q to_id rNewDist of (rc', q') \<Rightarrow> (rc', q', dm'))
                   else Some (rc, q, dm'))
            else Some (SQLITE_OK, st))"

fun relax_edges ::
  "(nat \<Rightarrow> bool) \<Rightarrow> i64 \<Rightarrow> f64 \<Rightarrow> (i64 \<times> f64) list \<Rightarrow> dijkstra_state \<Rightarrow> (sqlite_rc \<times> dijkstra_state) option" where
  "relax_edges ok iCurrentId rCurrentDist [] st = Some (SQLITE_OK, st)"
| "relax_edges ok iCurrentId rCurrentDist (e # rows) st =
     (case relax_edge ok iCurrentId rCurrentDist e st of
        None \<Rightarrow> None
      | Some (rc, st') \<Rightarrow> if rc = SQLITE_OK then relax_edges ok iCurrentId rCurrentDist rows st' else Some (rc, st'))"

text \<open>
  The loop ends on every input: a relaxation lowers the distance of a node, of which there are finitely
  many, and adds one entry to the queue.
\<close>

definition dist_of :: "distance_map \<Rightarrow> i64 \<Rightarrow> f64" where
  "dist_of dm x = (case distanceMapGet dm x of Some d \<Rightarrow> d | None \<Rightarrow> DBL_MAX)"

definition potential :: "graph_vtab \<Rightarrow> database \<Rightarrow> distance_map \<Rightarrow> nat" where
  "potential v db dm = (\<Sum>x \<in> all_targets v db. nat (dkey (dist_of dm x) + 2 ^ 63))"

lemma finite_all_targets [simp]: "finite (all_targets v db)"
  by (simp add: all_targets_def split: option.split)

lemma edge_weights_subset: "edge_weights v db x = Inr rows \<Longrightarrow> fst ` set rows \<subseteq> all_targets v db"
  by (auto simp: edge_weights_def all_targets_def sql_select_def map_sum_def split: option.splits if_splits)

lemma dkey_bound: "- (2 ^ 63) < dkey x"
  by (simp add: dkey_def fp_int_def dmag_def) (smt (verit) pos_mod_bound pos_mod_sign zero_less_numeral)

lemma info_find_set: "info_find es x \<noteq> None \<Longrightarrow> info_find (info_set es x d pr) y = (if y = x then Some (d, pr) else info_find es y)"
  by (induction es x d pr rule: info_set.induct) auto

lemma distance_map_set:
  assumes "distanceMapSet ok dm x d pr = Some (SQLITE_OK, dm')"
  shows "distanceMapGet dm' y = (if y = x then Some d else distanceMapGet dm y)"
    and "distanceMapGetPredecessor dm' y = (if y = x then Some pr else distanceMapGetPredecessor dm y)"
proof -
  obtain b es where b: "bucket_of dm x = Some b" "b < length (aBuckets dm)" "info_find es x = Some (d, pr)"
    "\<And>y. y \<noteq> x \<Longrightarrow> info_find es y = info_find (aBuckets dm ! b) y" "aBuckets dm' = (aBuckets dm)[b := es]" "nBuckets dm' = nBuckets dm"
  proof (cases "info_find (aBuckets dm ! the (bucket_of dm x)) x")
    case None
    then show ?thesis
      using assms that [of "the (bucket_of dm x)" "(x, d, pr) # aBuckets dm ! the (bucket_of dm x)"]
      by (auto simp: distanceMapSet_def Let_def bucket_of_def split: option.splits if_splits)
  next
    case (Some z)
    then show ?thesis
      using assms that [of "the (bucket_of dm x)" "info_set (aBuckets dm ! the (bucket_of dm x)) x d pr"]
        info_find_set [of "aBuckets dm ! the (bucket_of dm x)" x d pr]
      by (auto simp: distanceMapSet_def Let_def bucket_of_def split: option.splits if_splits)
  qed
  have bucket: "bucket_of dm' y = bucket_of dm y" for y using b(5,6) by (simp add: bucket_of_def)
  show "distanceMapGet dm' y = (if y = x then Some d else distanceMapGet dm y)"
    using b by (cases "bucket_of dm y") (auto simp: distanceMapGet_def bucket nth_list_update)
  show "distanceMapGetPredecessor dm' y = (if y = x then Some pr else distanceMapGetPredecessor dm y)"
    using b by (cases "bucket_of dm y") (auto simp: distanceMapGetPredecessor_def bucket nth_list_update)
qed

lemma length_pqBubbleUp [simp]: "length (pqBubbleUp a i) = length a"
  by (induction a i rule: pqBubbleUp.induct) (simp add: pqBubbleUp.simps [of _ "_ :: nat"] pqSwap_def)

lemma length_pqBubbleDown [simp]: "length (pqBubbleDown a n i) = length a"
proof (induction a n i rule: pqBubbleDown.induct)
  case (1 a n i)
  then show ?case by (subst pqBubbleDown.simps) (simp add: pqSwap_def Let_def)
qed

lemma relax_edge_measure:
  assumes "fst e \<in> all_targets v db" and "relax_edge ok cur d e (q, dm) = Some (rc, q', dm')" and "rc = SQLITE_OK"
  shows "potential v db dm' + length (pq_nodes q') \<le> potential v db dm + length (pq_nodes q)"
proof (cases "q' = q \<and> dm' = dm")
  case False
  obtain t w where e: "e = (t, w)" by (cases e)
  let ?d = "dadd d w"
  obtain old where old: "distanceMapGet dm t = Some old" "dlt ?d old"
    and set: "distanceMapSet ok dm t ?d cur = Some (SQLITE_OK, dm')"
    and ins: "graphPriorityQueueInsert ok q t ?d = (SQLITE_OK, q')"
    using assms(2,3) False unfolding relax_edge_def e Let_def by (auto split: option.splits if_splits prod.splits)
  have len: "length (pq_nodes q') = Suc (length (pq_nodes q))"
    using ins by (auto simp: graphPriorityQueueInsert_def split: if_splits)
  have upd: "dist_of dm' y = (if y = t then ?d else dist_of dm y)" for y
    using distance_map_set(1) [OF set] by (simp add: dist_of_def)
  let ?T = "all_targets v db" and ?f = "\<lambda>dm x. nat (dkey (dist_of dm x) + 2 ^ 63)"
  have "dist_of dm t = old" using old(1) by (simp add: dist_of_def)
  then have "?f dm' t < ?f dm t" using old(2) dkey_bound [of ?d] by (simp add: upd dlt_def)
  then have "(\<Sum>x \<in> ?T. ?f dm' x) < (\<Sum>x \<in> ?T. ?f dm x)"
    using assms(1) e by (intro sum_strict_mono_ex1) (auto simp: upd)
  then show ?thesis using len by (simp add: potential_def)
qed simp

lemma relax_edges_measure:
  assumes "fst ` set rows \<subseteq> all_targets v db" and "relax_edges ok cur d rows (q, dm) = Some (SQLITE_OK, q', dm')"
  shows "potential v db dm' + length (pq_nodes q') \<le> potential v db dm + length (pq_nodes q)"
  using assms
proof (induction rows arbitrary: q dm)
  case (Cons e rows)
  obtain q1 dm1 where r: "relax_edge ok cur d e (q, dm) = Some (SQLITE_OK, q1, dm1)"
    and rs: "relax_edges ok cur d rows (q1, dm1) = Some (SQLITE_OK, q', dm')"
    using Cons.prems(2) by (auto split: option.splits if_splits)
  have "potential v db dm1 + length (pq_nodes q1) \<le> potential v db dm + length (pq_nodes q)"
    using relax_edge_measure [OF _ r refl] Cons.prems(1) by simp
  then show ?case using Cons.IH [OF _ rs] Cons.prems(1) by simp
qed simp

lemma extract_length:
  "graphPriorityQueueExtractMin q = Some (e, q') \<Longrightarrow> length (pq_nodes q) = Suc (length (pq_nodes q'))"
  by (cases "pq_nodes q") (auto simp: graphPriorityQueueExtractMin_def Let_def)

text \<open>
  The result code at the end of the loop is that of the last statement prepared. The first component says
  whether the loop was left by an error.
\<close>

function dijkstra_loop ::
  "(nat \<Rightarrow> bool) \<Rightarrow> graph_vtab \<Rightarrow> database \<Rightarrow> i64 \<Rightarrow> sqlite_rc \<Rightarrow> dijkstra_state \<Rightarrow> (bool \<times> sqlite_rc \<times> distance_map) option" where
  "dijkstra_loop ok v db iEndId rc (q, dm) =
     (case graphPriorityQueueExtractMin q of
        None \<Rightarrow> Some (False, rc, dm)
      | Some ((iCurrentId, rCurrentDist), q1) \<Rightarrow>
          if iEndId \<ge> 0 \<and> iCurrentId = iEndId then Some (False, SQLITE_OK, dm)
          else case distanceMapGet dm iCurrentId of
            None \<Rightarrow> None
          | Some best \<Rightarrow>
              if dlt best rCurrentDist then dijkstra_loop ok v db iEndId SQLITE_OK (q1, dm)
              else case edge_weights v db iCurrentId of
                Inl rc' \<Rightarrow> dijkstra_loop ok v db iEndId rc' (q1, dm)
              | Inr rows \<Rightarrow>
                  (case relax_edges ok iCurrentId rCurrentDist rows (q1, dm) of
                     None \<Rightarrow> None
                   | Some (rc', q2, dm2) \<Rightarrow>
                       if rc' = SQLITE_OK then dijkstra_loop ok v db iEndId SQLITE_OK (q2, dm2)
                       else Some (True, rc', dm2)))"
  by pat_completeness auto
termination
proof (relation "measure (\<lambda>(ok, v, db, e, rc, q, dm). potential v db dm + length (pq_nodes q))", goal_cases)
  case (4 ok v db e rc q dm x y q1 cur d best rows z rc' w q2 dm2)
  then show ?case
    using relax_edges_measure [OF edge_weights_subset, of v db cur rows ok cur d q1 dm q2 dm2] extract_length [of q]
    by fastforce
qed (use extract_length in fastforce)+

declare dijkstra_loop.simps [simp del]

text \<open>
  The nodes from the end back to the start along the predecessors; the first argument bounds the number
  of rounds, and \<open>None\<close> also stands for a cycle of predecessors.
\<close>

fun path_back :: "nat \<Rightarrow> distance_map \<Rightarrow> i64 \<Rightarrow> i64 \<Rightarrow> i64 list option" where
  "path_back 0 dm iStartId iCurrent = None"
| "path_back (Suc n) dm iStartId iCurrent =
     (if iCurrent = -1 then Some []
      else if iCurrent = iStartId then Some [iCurrent]
      else case distanceMapGetPredecessor dm iCurrent of
        None \<Rightarrow> None
      | Some pr \<Rightarrow> map_option (\<lambda>xs. iCurrent # xs) (path_back n dm iStartId pr))"

text \<open>The text of the path, one \<open>sqlite3_mprintf\<close> per node and one for each bracket.\<close>

fun path_items :: "(nat \<Rightarrow> bool) \<Rightarrow> bytes option \<Rightarrow> bool \<Rightarrow> i64 list \<Rightarrow> bytes option" where
  "path_items ok z first [] = z"
| "path_items ok z first (x # xs) =
     (case z of
        None \<Rightarrow> None
      | Some s \<Rightarrow> path_items ok (mprintf ok (if first then s @ fmt_d x else s @ 44 # fmt_d x)) False xs)"

definition path_string :: "(nat \<Rightarrow> bool) \<Rightarrow> i64 list \<Rightarrow> bytes option" where
  "path_string ok aPath =
     (case path_items ok (mprintf ok [91]) True aPath of None \<Rightarrow> None | Some s \<Rightarrow> mprintf ok (s @ [93]))"

text \<open>The result code, the path and the distance; \<open>rounds\<close> bounds the walk back along the predecessors.\<close>

definition graphDijkstra ::
  "(nat \<Rightarrow> bool) \<Rightarrow> nat \<Rightarrow> graph_vtab \<Rightarrow> database \<Rightarrow> i64 \<Rightarrow> i64 \<Rightarrow> (sqlite_rc \<times> bytes option \<times> f64) option" where
  "graphDijkstra ok rounds v db iStartId iEndId =
     (case graphPriorityQueueCreate ok of
        None \<Rightarrow> Some (SQLITE_NOMEM, None, DBL_MAX)
      | Some q0 \<Rightarrow>
          (case distanceMapCreate ok (graphCountNodes v db) of
             None \<Rightarrow> None
           | Some None \<Rightarrow> Some (SQLITE_NOMEM, None, DBL_MAX)
           | Some (Some dm0) \<Rightarrow>
               (case distanceMapSet ok dm0 iStartId 0 (-1) of
                  None \<Rightarrow> None
                | Some (rc1, dm1) \<Rightarrow>
                    if rc1 \<noteq> SQLITE_OK then Some (rc1, None, DBL_MAX)
                    else case graphPriorityQueueInsert ok q0 iStartId 0 of (rc2, q1) \<Rightarrow>
                      if rc2 \<noteq> SQLITE_OK then Some (rc2, None, DBL_MAX)
                      else case dijkstra_loop ok v db iEndId SQLITE_OK (q1, dm1) of
                        None \<Rightarrow> None
                      | Some (True, rc, dm) \<Rightarrow> Some (rc, None, DBL_MAX)
                      | Some (False, rc, dm) \<Rightarrow>
                          if iEndId \<ge> 0 then
                            (case distanceMapGet dm iEndId of
                               None \<Rightarrow> None
                             | Some rFinalDist \<Rightarrow>
                                 if dlt rFinalDist DBL_MAX then
                                   (case path_back rounds dm iStartId iEndId of
                                      None \<Rightarrow> None
                                    | Some back \<Rightarrow>
                                        if \<not> ok (length back * 8) then Some (SQLITE_NOMEM, None, DBL_MAX)
                                        else (case path_string ok (rev back) of
                                                None \<Rightarrow> Some (SQLITE_NOMEM, None, DBL_MAX)
                                              | Some s \<Rightarrow> Some (rc, Some s, rFinalDist)))
                                 else Some (SQLITE_NOTFOUND, None, DBL_MAX))
                          else (case mprintf ok [123, 125] of
                                  None \<Rightarrow> Some (SQLITE_NOMEM, None, DBL_MAX)
                                | Some s \<Rightarrow> Some (SQLITE_OK, Some s, DBL_MAX)))))"

subsection \<open>Degrees and density\<close>

definition graphInDegree :: "graph_vtab \<Rightarrow> database \<Rightarrow> i64 \<Rightarrow> int" where
  "graphInDegree v db iNodeId = count_or_zero (count_rows db (edges_of v) [''to_id''] (\<lambda>r. cell_eq (r ''to_id'') iNodeId))"

definition graphOutDegree :: "graph_vtab \<Rightarrow> database \<Rightarrow> i64 \<Rightarrow> int" where
  "graphOutDegree v db iNodeId = count_or_zero (count_rows db (edges_of v) [''from_id''] (\<lambda>r. cell_eq (r ''from_id'') iNodeId))"

definition graphTotalDegree :: "graph_vtab \<Rightarrow> database \<Rightarrow> i64 \<Rightarrow> int" where
  "graphTotalDegree v db iNodeId = graphInDegree v db iNodeId + graphOutDegree v db iNodeId"

definition graphDegreeCentrality :: "graph_vtab \<Rightarrow> database \<Rightarrow> i64 \<Rightarrow> bool \<Rightarrow> f64" where
  "graphDegreeCentrality v db iNodeId bDirected =
     (let nNodes = graphCountNodes v db in
      if nNodes \<le> 1 then 0
      else if bDirected
      then ddiv (f64_of_int (graphInDegree v db iNodeId + graphOutDegree v db iNodeId))
             (dmul (f64_of_int 2) (f64_of_int (nNodes - 1)))
      else ddiv (f64_of_int (graphOutDegree v db iNodeId)) (f64_of_int (nNodes - 1)))"

text \<open>The product of the numbers of nodes is computed in \<open>int\<close>.\<close>

definition graphDensity :: "graph_vtab \<Rightarrow> database \<Rightarrow> bool \<Rightarrow> f64" where
  "graphDensity v db bDirected =
     (let nNodes = graphCountNodes v db; nEdges = graphCountEdges v db in
      if nNodes \<le> 1 then 0
      else if bDirected then ddiv (f64_of_int nEdges) (f64_of_int (c_int (nNodes * (nNodes - 1))))
      else ddiv (dmul (f64_of_int 2) (f64_of_int nEdges)) (f64_of_int (c_int (nNodes * (nNodes - 1)))))"

end
