(* ===== verification/MinHeap_Graph.thy ===== *)
theory MinHeap_Graph
  imports GraphAlgo
begin

text \<open>
  The binary heap of Dijkstra's algorithm implements a priority queue: the interface as a locale, with the
  order in which a client gets the entries back, and the heap as its interpretation.
\<close>

subsection \<open>The interface\<close>

locale min_queue =
  fixes put :: "'q \<Rightarrow> 'a \<Rightarrow> 'q" and take_min :: "'q \<Rightarrow> ('a \<times> 'q) option"
    and entries :: "'q \<Rightarrow> 'a multiset" and inv :: "'q \<Rightarrow> bool" and valid :: "'a \<Rightarrow> bool" and key :: "'a \<Rightarrow> int"
  assumes put_inv: "inv q \<Longrightarrow> valid x \<Longrightarrow> inv (put q x)"
    and put_entries: "inv q \<Longrightarrow> valid x \<Longrightarrow> entries (put q x) = add_mset x (entries q)"
    and take_None: "inv q \<Longrightarrow> take_min q = None \<longleftrightarrow> entries q = {#}"
    and take_Some: "inv q \<Longrightarrow> take_min q = Some (x, q') \<Longrightarrow>
      inv q' \<and> entries q = add_mset x (entries q') \<and> (\<forall>y \<in># entries q. key x \<le> key y)"
begin

text \<open>Taking the entries one by one gives all of them in ascending order.\<close>

fun drain :: "nat \<Rightarrow> 'q \<Rightarrow> 'a list" where
  "drain 0 q = []"
| "drain (Suc n) q = (case take_min q of None \<Rightarrow> [] | Some (x, q') \<Rightarrow> x # drain n q')"

lemma drain_sorted: "inv q \<Longrightarrow> size (entries q) \<le> n \<Longrightarrow> mset (drain n q) = entries q \<and> sorted (map key (drain n q))"
proof (induction n arbitrary: q)
  case (Suc n)
  show ?case
  proof (cases "take_min q")
    case None
    then show ?thesis using take_None [OF Suc.prems(1)] by simp
  next
    case (Some p)
    obtain x q' where p: "p = (x, q')" by (cases p)
    have t: "inv q'" "entries q = add_mset x (entries q')" "\<forall>y \<in># entries q. key x \<le> key y"
      using take_Some [OF Suc.prems(1)] Some p by auto
    have IH: "mset (drain n q') = entries q'" "sorted (map key (drain n q'))" using Suc.IH [OF t(1)] Suc.prems(2) t(2) by auto
    then have "\<forall>y \<in> set (drain n q'). key x \<le> key y" using t(2,3) by (metis set_mset_mset union_single_eq_member insert_noteq_member insertCI set_mset_add_mset_insert)
    then show ?thesis using Some p t(2) IH by simp
  qed
qed simp

end

subsection \<open>The heap\<close>

abbreviation nkey :: "pq_node \<Rightarrow> int" where
  "nkey e \<equiv> dkey (snd e)"

definition nan_free :: "pq_node list \<Rightarrow> bool" where
  "nan_free a \<longleftrightarrow> (\<forall>e \<in> set a. \<not> disnan (snd e))"

definition min_heap :: "pq_node list \<Rightarrow> bool" where
  "min_heap a \<longleftrightarrow> (\<forall>j. 0 < j \<and> j < length a \<longrightarrow> nkey (a ! pqParent j) \<le> nkey (a ! j))"

text \<open>The order holds but for the entry at \<open>i\<close> against its parent, or against its children.\<close>

definition up_hole :: "pq_node list \<Rightarrow> nat \<Rightarrow> bool" where
  "up_hole a i \<longleftrightarrow> i < length a \<and>
     (\<forall>j. 0 < j \<and> j < length a \<and> j \<noteq> i \<longrightarrow> nkey (a ! pqParent j) \<le> nkey (a ! j)) \<and>
     (\<forall>j. 0 < j \<and> j < length a \<and> pqParent j = i \<and> 0 < i \<longrightarrow> nkey (a ! pqParent i) \<le> nkey (a ! j))"

definition down_hole :: "pq_node list \<Rightarrow> nat \<Rightarrow> bool" where
  "down_hole a i \<longleftrightarrow> i < length a \<and>
     (\<forall>j. 0 < j \<and> j < length a \<and> pqParent j \<noteq> i \<longrightarrow> nkey (a ! pqParent j) \<le> nkey (a ! j)) \<and>
     (\<forall>j. 0 < j \<and> j < length a \<and> pqParent j = i \<and> 0 < i \<longrightarrow> nkey (a ! pqParent i) \<le> nkey (a ! j))"

lemma parent_less: "0 < j \<Longrightarrow> pqParent j < j"
  by (auto simp: pqParent_def)

lemma child_cases: "0 < j \<Longrightarrow> pqParent j = i \<longleftrightarrow> j = pqLeftChild i \<or> j = pqRightChild i"
  by (auto simp: pqParent_def pqLeftChild_def pqRightChild_def)

lemma dlt_nodes: "nan_free a \<Longrightarrow> i < length a \<Longrightarrow> j < length a \<Longrightarrow> dlt (snd (a ! i)) (snd (a ! j)) \<longleftrightarrow> nkey (a ! i) < nkey (a ! j)"
  by (simp add: nan_free_def dlt_def)

lemma pqSwap_facts:
  assumes "i < length a" and "j < length a"
  shows "mset (pqSwap a i j) = mset a" and "length (pqSwap a i j) = length a" and "nan_free (pqSwap a i j) = nan_free a"
    and "i \<noteq> j \<Longrightarrow> k < length a \<Longrightarrow> pqSwap a i j ! k = (if k = i then a ! j else if k = j then a ! i else a ! k)"
proof -
  show m: "mset (pqSwap a i j) = mset a" using assms by (simp add: pqSwap_def mset_swap_update)
  show "length (pqSwap a i j) = length a" by (simp add: pqSwap_def)
  show "nan_free (pqSwap a i j) = nan_free a" using mset_eq_setD [OF m] by (simp add: nan_free_def)
  show "i \<noteq> j \<Longrightarrow> k < length a \<Longrightarrow> pqSwap a i j ! k = (if k = i then a ! j else if k = j then a ! i else a ! k)"
    using assms by (auto simp: pqSwap_def nth_list_update)
qed

lemma up_step:
  assumes h: "up_hole a i" and i: "0 < i" and lt: "nkey (a ! i) < nkey (a ! pqParent i)"
  shows "up_hole (pqSwap a i (pqParent i)) (pqParent i)"
proof -
  let ?p = "pqParent i"
  have p: "?p < i" "i < length a" using parent_less [OF i] h by (auto simp: up_hole_def)
  then have pl: "?p < length a" by simp
  note nth = pqSwap_facts(4) [OF p(2) pl]
  have h1: "nkey (a ! pqParent j) \<le> nkey (a ! j)" if "0 < j" "j < length a" "j \<noteq> i" for j using h that by (simp add: up_hole_def)
  have h2: "nkey (a ! ?p) \<le> nkey (a ! j)" if "0 < j" "j < length a" "pqParent j = i" for j using h that i by (simp add: up_hole_def)
  show ?thesis
    unfolding up_hole_def pqSwap_facts(2) [OF p(2) pl]
  proof (intro conjI allI impI)
    show "?p < length a" by (rule pl)
  next
    fix j assume j: "0 < j \<and> j < length a \<and> j \<noteq> ?p"
    have q: "pqParent j < length a" "pqParent j < j" using j parent_less [of j] by auto
    consider "j = i" | "pqParent j = i" | "pqParent j = ?p" "j \<noteq> i" | "j \<noteq> i" "pqParent j \<noteq> i" "pqParent j \<noteq> ?p" by blast
    then show "nkey (pqSwap a i ?p ! pqParent j) \<le> nkey (pqSwap a i ?p ! j)"
    proof cases
      case 1
      then show ?thesis using nth [of i] nth [of ?p] p pl lt by simp
    next
      case 2
      then show ?thesis using nth [of i] nth [of j] p j h2 [of j] q by auto
    next
      case 3
      then show ?thesis using nth [of ?p] nth [of j] p pl j h1 [of j] lt by auto
    next
      case 4
      then show ?thesis using nth [of j] nth [of "pqParent j"] p j q h1 [of j] by auto
    qed
  next
    fix j assume j: "0 < j \<and> j < length a \<and> pqParent j = ?p \<and> 0 < ?p"
    let ?g = "pqParent ?p"
    have g: "?g < ?p" using j parent_less by simp
    have "nkey (a ! ?g) \<le> nkey (a ! ?p)" using h1 [of ?p] j p pl by simp
    moreover have "nkey (a ! ?p) \<le> nkey (a ! j)" if "j \<noteq> i" using h1 [of j] j that by simp
    ultimately show "nkey (pqSwap a i ?p ! ?g) \<le> nkey (pqSwap a i ?p ! j)"
      using nth [of ?g] nth [of j] g p pl j parent_less [of j] by auto
  qed
qed

lemma pqBubbleUp_heap:
  "up_hole a i \<Longrightarrow> nan_free a \<Longrightarrow> min_heap (pqBubbleUp a i) \<and> mset (pqBubbleUp a i) = mset a"
proof (induction a i rule: pqBubbleUp.induct)
  case (1 a i)
  have i: "i < length a" using 1(2) by (simp add: up_hole_def)
  show ?case
  proof (cases "i > 0 \<and> dlt (snd (a ! i)) (snd (a ! pqParent i))")
    case True
    have p: "pqParent i < length a" using parent_less [of i] True i by simp
    have lt: "nkey (a ! i) < nkey (a ! pqParent i)" using True dlt_nodes [OF 1(3) i p] by simp
    have "pqBubbleUp a i = pqBubbleUp (pqSwap a i (pqParent i)) (pqParent i)" using True by (simp add: pqBubbleUp.simps [of a i])
    then show ?thesis using 1(1) [OF True up_step [OF 1(2) _ lt]] True pqSwap_facts(1,3) [OF i p] 1(3) by simp
  next
    case False
    have p: "0 < i \<Longrightarrow> pqParent i < length a" using parent_less [of i] i by simp
    have "nkey (a ! pqParent i) \<le> nkey (a ! i)" if "0 < i" using False dlt_nodes [OF 1(3) i p] that by auto
    then have "min_heap a" using 1(2) by (auto simp: min_heap_def up_hole_def)
    moreover have "pqBubbleUp a i = a" using False by (auto simp: pqBubbleUp.simps [of a i])
    ultimately show ?thesis by simp
  qed
qed

lemma min_child_props:
  assumes "nan_free a" and "i < length a" and "g = pq_min_child a (length a) i"
  shows "g = i \<or> (g = pqLeftChild i \<or> g = pqRightChild i) \<and> g < length a"
    and "nkey (a ! g) \<le> nkey (a ! i)" and "g \<noteq> i \<Longrightarrow> nkey (a ! g) < nkey (a ! i)"
    and "0 < j \<Longrightarrow> j < length a \<Longrightarrow> pqParent j = i \<Longrightarrow> nkey (a ! g) \<le> nkey (a ! j)"
proof -
  note cmp = dlt_nodes [OF assms(1)]
  show "g = i \<or> (g = pqLeftChild i \<or> g = pqRightChild i) \<and> g < length a" using assms(3) by (auto simp: pq_min_child_def Let_def)
  show "nkey (a ! g) \<le> nkey (a ! i)" "g \<noteq> i \<Longrightarrow> nkey (a ! g) < nkey (a ! i)"
    using assms(2,3) by (auto simp: pq_min_child_def Let_def cmp split: if_splits)
  show "0 < j \<Longrightarrow> j < length a \<Longrightarrow> pqParent j = i \<Longrightarrow> nkey (a ! g) \<le> nkey (a ! j)"
    using assms(2,3) child_cases [of j i] by (auto simp: pq_min_child_def Let_def cmp split: if_splits)
qed

lemma down_step:
  assumes h: "down_hole a i" and nan: "nan_free a" and g: "g = pq_min_child a (length a) i" "g \<noteq> i"
  shows "down_hole (pqSwap a i g) g"
proof -
  have i: "i < length a" using h by (simp add: down_hole_def)
  note c = min_child_props [OF nan i g(1)]
  have gl: "g < length a" and gc: "g = pqLeftChild i \<or> g = pqRightChild i" using c(1) g(2) by auto
  then have pg: "pqParent g = i" "i < g" using child_cases [of g i] by (auto simp: pqLeftChild_def pqRightChild_def)
  note nth = pqSwap_facts(4) [OF i gl not_sym [OF g(2)]]
  have h1: "nkey (a ! pqParent j) \<le> nkey (a ! j)" if "0 < j" "j < length a" "pqParent j \<noteq> i" for j using h that by (simp add: down_hole_def)
  have h2: "nkey (a ! pqParent i) \<le> nkey (a ! j)" if "0 < j" "j < length a" "pqParent j = i" "0 < i" for j using h that by (simp add: down_hole_def)
  show ?thesis
    unfolding down_hole_def pqSwap_facts(2) [OF i gl]
  proof (intro conjI allI impI)
    show "g < length a" by (rule gl)
  next
    fix j assume j: "0 < j \<and> j < length a \<and> pqParent j \<noteq> g"
    have q: "pqParent j < length a" "pqParent j < j" using j parent_less [of j] by auto
    consider "j = i" | "j = g" | "pqParent j = i" "j \<noteq> g" | "j \<noteq> i" "j \<noteq> g" "pqParent j \<noteq> i" by blast
    then show "nkey (pqSwap a i g ! pqParent j) \<le> nkey (pqSwap a i g ! j)"
    proof cases
      case 1
      then show ?thesis using nth [of i] nth [of "pqParent i"] j q h2 [of g] gl pg i by auto
    next
      case 2
      then show ?thesis using nth [of i] nth [of g] pg c(2) i gl by simp
    next
      case 3
      then show ?thesis using nth [of i] nth [of j] j q c(4) [of j] i by auto
    next
      case 4
      then show ?thesis using nth [of j] nth [of "pqParent j"] j q h1 [of j] by auto
    qed
  next
    fix j assume j: "0 < j \<and> j < length a \<and> pqParent j = g \<and> 0 < g"
    have "nkey (a ! g) \<le> nkey (a ! j)" using h1 [of j] j pg by auto
    moreover have "j \<noteq> i" "j \<noteq> g" using parent_less [of j] j pg by auto
    ultimately show "nkey (pqSwap a i g ! pqParent g) \<le> nkey (pqSwap a i g ! j)" using nth [of i] nth [of j] i j pg by simp
  qed
qed

lemma pqBubbleDown_heap:
  "n = length a \<Longrightarrow> down_hole a i \<Longrightarrow> nan_free a \<Longrightarrow> min_heap (pqBubbleDown a n i) \<and> mset (pqBubbleDown a n i) = mset a"
proof (induction a n i rule: pqBubbleDown.induct)
  case (1 a n i)
  have i: "i < length a" using 1(3) by (simp add: down_hole_def)
  define g where "g = pq_min_child a n i"
  have g: "g = pq_min_child a (length a) i" using g_def 1(2) by simp
  note c = min_child_props [OF 1(4) i g]
  show ?case
  proof (cases "g = i")
    case True
    have "nkey (a ! i) \<le> nkey (a ! j)" if "0 < j" "j < length a" "pqParent j = i" for j using c(4) [OF that] True by simp
    then have "min_heap a" using 1(3) by (auto simp: min_heap_def down_hole_def)
    moreover have "pqBubbleDown a n i = a" using True by (simp add: pqBubbleDown.simps [of a n i] g_def [symmetric] Let_def)
    ultimately show ?thesis by simp
  next
    case False
    then have gl: "g < length a" using c(1) by auto
    have "pqBubbleDown a n i = pqBubbleDown (pqSwap a i g) n g"
      using False by (subst pqBubbleDown.simps) (simp add: g_def [symmetric] Let_def)
    then show ?thesis
      using 1(1) [OF g_def _ _ down_step [OF 1(3,4) g False]] False pqSwap_facts(1-3) [OF i gl] 1(2,4) by simp
  qed
qed

lemma min_heap_root:
  assumes "min_heap a" and "j < length a"
  shows "nkey (a ! 0) \<le> nkey (a ! j)"
  using assms(2)
proof (induction j rule: less_induct)
  case (less j)
  show ?case
  proof (cases "j = 0")
    case False
    then have "nkey (a ! 0) \<le> nkey (a ! pqParent j)" using less parent_less [of j] by simp
    moreover have "nkey (a ! pqParent j) \<le> nkey (a ! j)" using assms(1) less.prems False by (simp add: min_heap_def)
    ultimately show ?thesis by simp
  qed simp
qed

definition queue_ok :: "priority_queue \<Rightarrow> bool" where
  "queue_ok q \<longleftrightarrow> min_heap (pq_nodes q) \<and> nan_free (pq_nodes q)"

definition queue_put :: "priority_queue \<Rightarrow> pq_node \<Rightarrow> priority_queue" where
  "queue_put q e = snd (graphPriorityQueueInsert (\<lambda>_. True) q (fst e) (snd e))"

lemma insert_heap:
  assumes "queue_ok q" and "\<not> disnan d"
  shows "queue_ok (queue_put q (x, d)) \<and> mset (pq_nodes (queue_put q (x, d))) = add_mset (x, d) (mset (pq_nodes q))"
proof -
  let ?a = "pq_nodes q @ [(x, d)]" and ?n = "length (pq_nodes q)"
  have "up_hole ?a ?n"
    unfolding up_hole_def
  proof (intro conjI allI impI)
    fix j assume j: "0 < j \<and> j < length ?a \<and> j \<noteq> ?n"
    then have "j < ?n" "pqParent j < ?n" using parent_less [of j] by auto
    then show "nkey (?a ! pqParent j) \<le> nkey (?a ! j)" using assms(1) j by (simp add: queue_ok_def min_heap_def nth_append)
  next
    fix j assume j: "0 < j \<and> j < length ?a \<and> pqParent j = ?n \<and> 0 < ?n"
    then show "nkey (?a ! pqParent ?n) \<le> nkey (?a ! j)" using parent_less [of j] by simp
  qed simp
  moreover have nan: "nan_free ?a" using assms by (auto simp: nan_free_def queue_ok_def)
  ultimately have h: "min_heap (pqBubbleUp ?a ?n)" "mset (pqBubbleUp ?a ?n) = mset ?a" using pqBubbleUp_heap by blast+
  have "nan_free (pqBubbleUp ?a ?n)" using nan mset_eq_setD [OF h(2)] by (simp add: nan_free_def)
  moreover have "pq_nodes (queue_put q (x, d)) = pqBubbleUp ?a ?n" by (simp add: queue_put_def graphPriorityQueueInsert_def)
  ultimately show ?thesis using h by (simp add: queue_ok_def)
qed

lemma extract_heap:
  assumes "queue_ok q" and "graphPriorityQueueExtractMin q = Some (e, q')"
  shows "queue_ok q' \<and> mset (pq_nodes q) = add_mset e (mset (pq_nodes q')) \<and> (\<forall>x \<in># mset (pq_nodes q). nkey e \<le> nkey x)"
proof -
  let ?a = "pq_nodes q"
  obtain r where a: "?a = e # r" using assms(2) by (cases ?a) (auto simp: graphPriorityQueueExtractMin_def Let_def)
  have nan: "nan_free ?a" and heap: "min_heap ?a" using assms(1) by (simp_all add: queue_ok_def)
  have min: "\<forall>x \<in># mset ?a. nkey e \<le> nkey x"
    using min_heap_root [OF heap] a by (metis in_set_conv_nth nth_Cons_0 set_mset_mset)
  show ?thesis
  proof (cases "r = []")
    case True
    then show ?thesis using assms(2) a min by (auto simp: graphPriorityQueueExtractMin_def Let_def queue_ok_def min_heap_def nan_free_def)
  next
    case False
    then obtain b l where r: "r = b @ [l]" by (cases r rule: rev_cases) auto
    let ?n = "length r"
    let ?h = "(take ?n ?a)[0 := ?a ! ?n]"
    have h: "?h = l # b" using a r by simp
    have "q' = q\<lparr>pq_nodes := pqBubbleDown ?h ?n 0\<rparr>" using assms(2) a False by (simp add: graphPriorityQueueExtractMin_def Let_def)
    then have q': "pq_nodes q' = pqBubbleDown (l # b) ?n 0" using h by simp
    have at: "(l # b) ! j = ?a ! j" if "0 < j" "j < ?n" for j
    proof -
      have "j - 1 < length b" using that r by auto
      then have "b ! (j - 1) = r ! (j - 1)" using r by (simp add: nth_append)
      then show ?thesis using that a by simp
    qed
    have "down_hole (l # b) 0"
      unfolding down_hole_def
    proof (intro conjI allI impI)
      fix j assume j: "0 < j \<and> j < length (l # b) \<and> pqParent j \<noteq> 0"
      moreover have "length ?a = Suc ?n" "length (l # b) = ?n" using a r by simp_all
      ultimately have "nkey (?a ! pqParent j) \<le> nkey (?a ! j)" using heap unfolding min_heap_def by auto
      then show "nkey ((l # b) ! pqParent j) \<le> nkey ((l # b) ! j)" using at [of j] at [of "pqParent j"] j parent_less [of j] r by simp
    qed simp_all
    moreover have nb: "nan_free (l # b)" using nan a r by (auto simp: nan_free_def)
    ultimately have d: "min_heap (pqBubbleDown (l # b) ?n 0)" "mset (pqBubbleDown (l # b) ?n 0) = mset (l # b)"
      using pqBubbleDown_heap [of ?n "l # b" 0] r by simp_all
    have "nan_free (pqBubbleDown (l # b) ?n 0)" using nb mset_eq_setD [OF d(2)] by (simp add: nan_free_def)
    then show ?thesis using d q' min a r by (simp add: queue_ok_def)
  qed
qed

interpretation dijkstra_queue: min_queue queue_put graphPriorityQueueExtractMin "\<lambda>q. mset (pq_nodes q)" queue_ok
  "\<lambda>e. \<not> disnan (snd e)" nkey
proof
  fix q :: priority_queue and e :: pq_node
  assume q: "queue_ok q" and e: "\<not> disnan (snd e)"
  obtain x d where xd: "e = (x, d)" by (cases e)
  show "queue_ok (queue_put q e)" "mset (pq_nodes (queue_put q e)) = add_mset e (mset (pq_nodes q))"
    using insert_heap [OF q, of d x] e xd by simp_all
next
  fix q :: priority_queue
  show "graphPriorityQueueExtractMin q = None \<longleftrightarrow> mset (pq_nodes q) = {#}"
    by (cases "pq_nodes q") (simp_all add: graphPriorityQueueExtractMin_def Let_def)
next
  fix q q' :: priority_queue and e :: pq_node
  assume "queue_ok q" and "graphPriorityQueueExtractMin q = Some (e, q')"
  then show "queue_ok q' \<and> mset (pq_nodes q) = add_mset e (mset (pq_nodes q')) \<and> (\<forall>y \<in># mset (pq_nodes q). nkey e \<le> nkey y)"
    by (rule extract_heap)
qed

end
