(* ===== verification/GraphTraverse_Correct.thy ===== *)
theory GraphTraverse_Correct
  imports GraphTraverse Json_Correct
begin

text \<open>
  Traversals visit what they should: a breadth-first search visits the nodes within its depth limit in the
  order of their distance, a depth-first search without limit the reachable nodes, each once, and the path
  they return reads back as the list of the nodes visited.
\<close>

subsection \<open>Walks\<close>

definition traversable :: "graph_vtab \<Rightarrow> database \<Rightarrow> bool" where
  "traversable v db \<longleftrightarrow> (case db (edges_of v) of None \<Rightarrow> False | Some t \<Rightarrow> has_columns t [''to_id'', ''from_id''])"

definition succs :: "graph_vtab \<Rightarrow> database \<Rightarrow> i64 \<Rightarrow> i64 list" where
  "succs v db x = (case edge_targets v db x of Inl _ \<Rightarrow> [] | Inr rows \<Rightarrow> rows)"

lemma edge_targets_succs: "traversable v db \<Longrightarrow> edge_targets v db x = Inr (succs v db x)"
  by (cases "db (edges_of v)") (simp_all add: traversable_def succs_def edge_targets_def sql_select_def)

lemma succs_subset: "set (succs v db x) \<subseteq> all_targets v db"
  using edge_targets_subset [of v db x] by (cases "edge_targets v db x") (auto simp: succs_def)

text \<open>A walk of \<open>k\<close> edges from \<open>s\<close>.\<close>

inductive walk :: "(i64 \<Rightarrow> i64 list) \<Rightarrow> i64 \<Rightarrow> nat \<Rightarrow> i64 \<Rightarrow> bool" for S s where
  walk_0: "walk S s 0 s"
| walk_Suc: "walk S s k x \<Longrightarrow> y \<in> set (S x) \<Longrightarrow> walk S s (Suc k) y"

inductive_simps walk_0_iff [simp]: "walk S s 0 y"
inductive_cases walk_SucE: "walk S s (Suc k) y"

lemma walk_trans: "walk S x k y \<Longrightarrow> z \<in> set (S s) \<Longrightarrow> x = z \<Longrightarrow> walk S s (Suc k) y"
  by (induction rule: walk.induct) (auto intro: walk.intros)

text \<open>A sample: three nodes in a row.\<close>

definition node_row :: "i64 \<Rightarrow> sql_row" where
  "node_row i = (\<lambda>c. if c = ''id'' then cell_int i else cell_null)"

definition link_row :: "i64 \<Rightarrow> i64 \<Rightarrow> i64 \<Rightarrow> sql_row" where
  "link_row i s t = (\<lambda>c. if c = ''id'' then cell_int i else if c = ''from_id'' then cell_int s
                          else if c = ''to_id'' then cell_int t else cell_null)"

definition walk_vtab :: graph_vtab where
  "walk_vtab = \<lparr>zTableName = ''g'', zNodeTableName = ''g_nodes'', zEdgeTableName = ''g_edges''\<rparr>"

definition walk_db :: database where
  "walk_db = (\<lambda>_. None)
     (''g_nodes'' \<mapsto> \<lparr>tab_columns = node_columns, tab_rows = [node_row 1, node_row 2, node_row 3]\<rparr>,
      ''g_edges'' \<mapsto> \<lparr>tab_columns = [(''id'', cell_null), (''from_id'', cell_null), (''to_id'', cell_null)],
        tab_rows = [link_row 1 1 2, link_row 2 2 3]\<rparr>)"

lemma walk_db_facts:
  "traversable walk_vtab walk_db"
  "all_targets walk_vtab walk_db = {2, 3}"
  "graphFindNode True walk_vtab walk_db 1 \<noteq> None"
  "walk_db (nodes_of walk_vtab) = Some \<lparr>tab_columns = node_columns, tab_rows = [node_row 1, node_row 2, node_row 3]\<rparr>"
  by (simp_all add: traversable_def all_targets_def walk_db_def walk_vtab_def edges_of_def nodes_of_def has_columns_def
      link_row_def cell_int_def graphFindNode_def sql_select_def node_columns_def node_row_def cell_eq_def)

subsection \<open>Texts of paths\<close>

fun ids_text :: "i64 list \<Rightarrow> bytes" where
  "ids_text [] = []"
| "ids_text [x] = fmt_d x"
| "ids_text (x # xs) = fmt_d x @ 44 # ids_text xs"

lemma ids_text_snoc: "xs \<noteq> [] \<Longrightarrow> ids_text (xs @ [y]) = ids_text xs @ 44 # fmt_d y"
proof (induction xs rule: ids_text.induct)
  case (3 x y xs)
  then show ?case by simp
qed simp_all

abbreviation path_text :: "i64 list \<Rightarrow> bytes" where
  "path_text xs \<equiv> 91 # ids_text xs @ [93]"

lemma path_append_text:
  "path_append (\<lambda>_. True) (if V = [] then None else Some (91 # ids_text V)) x = Some (91 # ids_text (V @ [x]))"
  by (simp add: path_append_def mprintf_def ids_text_snoc)

lemma visited_add:
  "\<exists>vs. graphVisitedSetAdd (\<lambda>_. True) p x = (SQLITE_OK, vs) \<and> aNodes vs = aNodes p @ [x]"
  by (simp add: graphVisitedSetAdd_def)

subsection \<open>Breadth-first search\<close>

lemma bfs_row_new:
  assumes "x \<notin> set (aNodes (bVisited st))" and "bPath st = Some (91 # ids_text (aNodes (bVisited st)))" and "aNodes (bVisited st) \<noteq> []"
  shows "\<exists>st'. bfs_row (\<lambda>_. True) d x st = (SQLITE_OK, st') \<and> aNodes (bVisited st') = aNodes (bVisited st) @ [x] \<and>
    bQueue st' = bQueue st @ [x] \<and> bPath st' = Some (91 # ids_text (aNodes (bVisited st) @ [x])) \<and>
    bDepths st' = (x, d + 1) # bDepths st"
  using assms path_append_text [of "aNodes (bVisited st)" x] visited_add [of "bVisited st" x]
  by (auto simp: bfs_row_def graphQueueEnqueue_def Let_def)

lemma bfs_rows_run:
  assumes "aNodes (bVisited st) = V" "distinct V" "V \<noteq> []" "bPath st = Some (91 # ids_text V)"
  shows "\<exists>st' W. bfs_rows (\<lambda>_. True) d rows st = (SQLITE_OK, st') \<and> aNodes (bVisited st') = V @ W \<and>
    bQueue st' = bQueue st @ W \<and> bPath st' = Some (91 # ids_text (V @ W)) \<and> distinct (V @ W) \<and>
    set (V @ W) = set V \<union> set rows \<and> set W \<subseteq> set rows \<and>
    (\<forall>x \<in> set V. depth_of (bDepths st') x = depth_of (bDepths st) x) \<and> (\<forall>x \<in> set W. depth_of (bDepths st') x = d + 1)"
  using assms
proof (induction rows arbitrary: st V)
  case Nil
  then show ?case by (intro exI [of _ st] exI [of _ "[]"]) simp
next
  case (Cons x rows)
  show ?case
  proof (cases "x \<in> set V")
    case True
    then have "bfs_rows (\<lambda>_. True) d (x # rows) st = bfs_rows (\<lambda>_. True) d rows st"
      using Cons.prems(1) by (simp add: bfs_row_def)
    moreover have "set V \<union> set (x # rows) = set V \<union> set rows" using True by auto
    moreover have "A \<subseteq> set rows \<Longrightarrow> A \<subseteq> set (x # rows)" for A by auto
    ultimately show ?thesis using Cons.IH [OF Cons.prems] by (elim exE conjE, intro exI conjI) (simp_all only:)
  next
    case False
    obtain st1 where s1: "bfs_row (\<lambda>_. True) d x st = (SQLITE_OK, st1)" "aNodes (bVisited st1) = V @ [x]"
      "bQueue st1 = bQueue st @ [x]" "bPath st1 = Some (91 # ids_text (V @ [x]))" "bDepths st1 = (x, d + 1) # bDepths st"
      using bfs_row_new [of x st d] False Cons.prems by auto
    obtain st' W where w: "bfs_rows (\<lambda>_. True) d rows st1 = (SQLITE_OK, st')" "aNodes (bVisited st') = (V @ [x]) @ W"
      "bQueue st' = bQueue st1 @ W" "bPath st' = Some (91 # ids_text ((V @ [x]) @ W))" "distinct ((V @ [x]) @ W)"
      "set ((V @ [x]) @ W) = set (V @ [x]) \<union> set rows" "set W \<subseteq> set rows"
      "\<forall>y \<in> set (V @ [x]). depth_of (bDepths st') y = depth_of (bDepths st1) y" "\<forall>y \<in> set W. depth_of (bDepths st') y = d + 1"
      using Cons.IH [OF s1(2) _ _ s1(4)] False Cons.prems(2) by auto
    have "\<forall>y \<in> set V. depth_of (bDepths st') y = depth_of (bDepths st) y" using w(8) s1(5) False by auto
    moreover have "\<forall>y \<in> set (x # W). depth_of (bDepths st') y = d + 1" using w(8,9) s1(5) by auto
    ultimately show ?thesis using w s1 by (intro exI [of _ st'] exI [of _ "x # W"]) auto
  qed
qed

text \<open>
  The invariant of the outer loop: the visited nodes are the processed ones followed by the queue, their
  depths are the lengths of walks and ascend, those of the queue differ by at most one, and the successors
  of a processed node above the limit are visited at most one deeper.
\<close>

definition bfs_inv :: "(i64 \<Rightarrow> i64 list) \<Rightarrow> i64 \<Rightarrow> int \<Rightarrow> i64 list \<Rightarrow> i64 list \<Rightarrow> (i64 \<Rightarrow> int) \<Rightarrow> bool" where
  "bfs_inv S s m done q D \<longleftrightarrow>
     distinct (done @ q) \<and> s \<in> set (done @ q) \<and> D s = 0 \<and> sorted (map D (done @ q)) \<and>
     (\<forall>x \<in> set (done @ q). 0 \<le> D x \<and> walk S s (nat (D x)) x \<and> (0 \<le> m \<longrightarrow> D x \<le> m)) \<and>
     (\<forall>x \<in> set done. m < 0 \<or> D x < m \<longrightarrow> (\<forall>y \<in> set (S x). y \<in> set (done @ q) \<and> D y \<le> D x + 1)) \<and>
     (q \<noteq> [] \<longrightarrow> (\<forall>y \<in> set (done @ q). D y \<le> D (hd q) + 1))"

lemma bfs_inv_skip:
  assumes "bfs_inv S s m done (x # q) D" and "0 \<le> m" and "D x \<ge> m"
  shows "bfs_inv S s m (done @ [x]) q D"
proof -
  have all: "D y \<le> D x + 1" if "y \<in> set (done @ x # q)" for y using assms(1) that by (auto simp: bfs_inv_def)
  have "D x \<le> D y" if "y \<in> set q" for y using assms(1) that by (auto simp: bfs_inv_def sorted_append)
  then have "D y \<le> D (hd q) + 1" if "q \<noteq> []" "y \<in> set (done @ x # q)" for y
    using all [OF that(2)] hd_in_set [OF that(1)] by (meson add_right_mono order_trans)
  then show ?thesis using assms unfolding bfs_inv_def by auto
qed

lemma map_const_on: "\<forall>x \<in> set xs. f x = c \<Longrightarrow> map f xs = replicate (length xs) c"
  by (induction xs) auto

lemma bfs_inv_expand:
  assumes inv: "bfs_inv S s m done (x # q) D" and lim: "\<not> (0 \<le> m \<and> D x \<ge> m)"
    and W: "distinct ((done @ x # q) @ W)" "set ((done @ x # q) @ W) = set (done @ x # q) \<union> set (S x)" "set W \<subseteq> set (S x)"
    and D: "\<forall>y \<in> set (done @ x # q). D' y = D y" "\<forall>y \<in> set W. D' y = D x + 1"
  shows "bfs_inv S s m (done @ [x]) (q @ W) D'"
proof -
  let ?V = "done @ x # q"
  have le: "D y \<le> D x + 1" if "y \<in> set ?V" for y using inv that by (auto simp: bfs_inv_def)
  have ge: "D x \<le> D y" if "y \<in> set q" for y using inv that by (auto simp: bfs_inv_def sorted_append)
  have x: "0 \<le> D x" "walk S s (nat (D x)) x" using inv by (auto simp: bfs_inv_def)
  have V: "sorted (map D ?V)" "\<forall>y \<in> set ?V. 0 \<le> D y \<and> walk S s (nat (D y)) y \<and> (0 \<le> m \<longrightarrow> D y \<le> m)"
    "s \<in> set ?V" "D s = 0"
    "\<forall>z \<in> set done. m < 0 \<or> D z < m \<longrightarrow> (\<forall>y \<in> set (S z). y \<in> set ?V \<and> D y \<le> D z + 1)"
    using inv by (simp_all add: bfs_inv_def)
  have map_eq: "map D' ?V = map D ?V" using D(1) by simp
  have new: "0 \<le> D' y \<and> walk S s (nat (D' y)) y \<and> (0 \<le> m \<longrightarrow> D' y \<le> m)" if "y \<in> set W" for y
  proof -
    have "nat (D x + 1) = Suc (nat (D x))" using x(1) by simp
    then show ?thesis using that D(2) x W(3) lim walk_Suc [OF x(2), of y] by auto
  qed
  have "sorted (map D' (?V @ W))"
  proof -
    have "map D' W = replicate (length W) (D x + 1)" using D(2) by (rule map_const_on)
    then have "map D' (?V @ W) = map D ?V @ replicate (length W) (D x + 1)" unfolding map_append [of D' ?V W] map_eq by simp
    moreover have "y \<le> D x + 1" if "y \<in> set (map D ?V)" for y using that le unfolding set_map by blast
    ultimately show ?thesis using V(1) by (simp only: sorted_append [of "map D ?V"]) (auto simp: in_set_replicate)
  qed
  moreover have "\<forall>y \<in> set (?V @ W). 0 \<le> D' y \<and> walk S s (nat (D' y)) y \<and> (0 \<le> m \<longrightarrow> D' y \<le> m)"
    using V(2) D(1) new by auto
  moreover have "\<forall>z \<in> set (done @ [x]). m < 0 \<or> D' z < m \<longrightarrow> (\<forall>y \<in> set (S z). y \<in> set (?V @ W) \<and> D' y \<le> D' z + 1)"
  proof (intro ballI impI)
    fix z y assume z: "z \<in> set (done @ [x])" "m < 0 \<or> D' z < m" and y: "y \<in> set (S z)"
    show "y \<in> set (?V @ W) \<and> D' y \<le> D' z + 1"
    proof (cases "z = x")
      case True
      then have "y \<in> set (?V @ W)" using y W(2) by blast
      moreover have "D' y \<le> D x + 1" if "y \<in> set ?V" using that le D(1) by metis
      ultimately show ?thesis using True D by auto
    next
      case False
      then have zd: "z \<in> set done" using z(1) by simp
      then have "D' z = D z" using D(1) by simp
      then have y': "y \<in> set ?V" "D y \<le> D z + 1" using V(5) zd z(2) y by auto
      then have "D' y = D y" using D(1) by blast
      then show ?thesis using y' \<open>D' z = D z\<close> by auto
    qed
  qed
  moreover have "D' y \<le> D' (hd (q @ W)) + 1" if "q @ W \<noteq> []" "y \<in> set (?V @ W)" for y
  proof -
    have "hd (q @ W) \<in> set q \<or> hd (q @ W) \<in> set W" using that(1) by (cases q; cases W) auto
    then have "D x \<le> D' (hd (q @ W))" using ge D by auto
    moreover have "D' y \<le> D x + 1" using that(2) le D by auto
    ultimately show ?thesis by linarith
  qed
  moreover have "D' s = 0" using bspec [OF D(1) V(3)] V(4) by simp
  moreover have "s \<in> set (?V @ W)" using V(3) by auto
  ultimately show ?thesis using W(1) by (simp add: bfs_inv_def)
qed

text \<open>The loop ends with every node of the queue processed.\<close>

lemma bfs_loop_run:
  assumes "traversable v db" and "bfs_inv (succs v db) s m done (bQueue st) (depth_of (bDepths st))"
    and "aNodes (bVisited st) = done @ bQueue st" and "bPath st = Some (91 # ids_text (done @ bQueue st))"
  shows "\<exists>st' V. bfs_loop (\<lambda>_. True) v db m SQLITE_OK st = (False, SQLITE_OK, st') \<and>
    bfs_inv (succs v db) s m V [] (depth_of (bDepths st')) \<and> bPath st' = Some (91 # ids_text V) \<and> (\<exists>U. V = done @ bQueue st @ U)"
  using assms
proof (induction "card (unvisited v db st) + length (bQueue st)" arbitrary: st "done" rule: less_induct)
  case less
  show ?case
  proof (cases "bQueue st")
    case Nil
    then show ?thesis using less.prems by (auto simp: bfs_loop.simps [of _ v db m SQLITE_OK st] graphQueueDequeue_def)
  next
    case (Cons x q)
    let ?D = "depth_of (bDepths st)" and ?st = "st\<lparr>bQueue := q\<rparr>"
    have inv: "bfs_inv (succs v db) s m done (x # q) ?D" using less.prems(2) Cons by simp
    have small: "card (unvisited v db ?st) + length (bQueue ?st) < card (unvisited v db st) + length (bQueue st)"
      using Cons by (simp add: unvisited_def)
    show ?thesis
    proof (cases "m \<ge> 0 \<and> ?D x \<ge> m")
      case True
      have "bfs_loop (\<lambda>_. True) v db m SQLITE_OK st = bfs_loop (\<lambda>_. True) v db m SQLITE_OK ?st"
        using True Cons by (simp add: bfs_loop.simps [of _ v db m SQLITE_OK st] graphQueueDequeue_def Let_def)
      moreover have "bfs_inv (succs v db) s m (done @ [x]) q ?D" using bfs_inv_skip [OF inv] True by blast
      ultimately show ?thesis using less.hyps [OF small, of "done @ [x]"] less.prems Cons by simp
    next
      case False
      obtain st2 W where w: "bfs_rows (\<lambda>_. True) (?D x) (succs v db x) ?st = (SQLITE_OK, st2)"
        "aNodes (bVisited st2) = (done @ x # q) @ W" "bQueue st2 = bQueue ?st @ W"
        "bPath st2 = Some (91 # ids_text ((done @ x # q) @ W))" "distinct ((done @ x # q) @ W)"
        "set ((done @ x # q) @ W) = set (done @ x # q) \<union> set (succs v db x)" "set W \<subseteq> set (succs v db x)"
        "\<forall>y \<in> set (done @ x # q). depth_of (bDepths st2) y = depth_of (bDepths ?st) y" "\<forall>y \<in> set W. depth_of (bDepths st2) y = ?D x + 1"
        using bfs_rows_run [of ?st "done @ x # q" "?D x" "succs v db x"] less.prems(3,4) inv Cons
        by (auto simp: bfs_inv_def)
      have run: "bfs_loop (\<lambda>_. True) v db m SQLITE_OK st = bfs_loop (\<lambda>_. True) v db m SQLITE_OK st2"
        using Cons w(1) edge_targets_succs [OF less.prems(1), of x]
        by (simp only: bfs_loop.simps [of _ v db m SQLITE_OK st] graphQueueDequeue_def Let_def False if_False list.case
            option.case prod.case sum.case if_True simp_thms)
      have inv2: "bfs_inv (succs v db) s m (done @ [x]) (bQueue st2) (depth_of (bDepths st2))"
        using bfs_inv_expand [OF inv False w(5,6,7) _ w(9)] w(3,8) by simp
      have less2: "card (unvisited v db st2) + length (bQueue st2) < card (unvisited v db st) + length (bQueue st)"
        using bfs_rows_measure [OF succs_subset [of v db x], of "\<lambda>_. True" "?D x" ?st] w(1) small by simp
      have V2: "done @ x # q @ W = (done @ [x]) @ bQueue st2" using w(3) by simp
      have "aNodes (bVisited st2) = (done @ [x]) @ bQueue st2" "bPath st2 = Some (91 # ids_text ((done @ [x]) @ bQueue st2))"
        using w(2,4) V2 by simp_all
      then obtain st' V U where IH: "bfs_loop (\<lambda>_. True) v db m SQLITE_OK st2 = (False, SQLITE_OK, st')"
        "bfs_inv (succs v db) s m V [] (depth_of (bDepths st'))" "bPath st' = Some (91 # ids_text V)"
        "V = (done @ [x]) @ bQueue st2 @ U"
        using less.hyps [OF less2 less.prems(1) inv2] by blast
      have "V = done @ bQueue st @ (W @ U)" using IH(4) V2 Cons by simp
      then show ?thesis using IH(1-3) unfolding run by blast
    qed
  qed
qed

lemma bfs_inv_visited:
  "bfs_inv S s m V [] D \<Longrightarrow> x \<in> set V \<Longrightarrow> 0 \<le> D x \<and> walk S s (nat (D x)) x \<and> (0 \<le> m \<longrightarrow> D x \<le> m)"
  unfolding bfs_inv_def append_Nil2 by blast

lemma bfs_inv_order: "bfs_inv S s m V [] D \<Longrightarrow> distinct V \<and> sorted (map D V)"
  unfolding bfs_inv_def append_Nil2 by blast

lemma bfs_inv_expanded:
  "bfs_inv S s m V [] D \<Longrightarrow> x \<in> set V \<Longrightarrow> m < 0 \<or> D x < m \<Longrightarrow> y \<in> set (S x) \<Longrightarrow> y \<in> set V \<and> D y \<le> D x + 1"
  unfolding bfs_inv_def append_Nil2 by blast

text \<open>A finished search holds every node within the limit, at its distance.\<close>

lemma bfs_inv_final:
  assumes "bfs_inv S s m V [] D" and "walk S s k y" and "m < 0 \<or> int k \<le> m"
  shows "y \<in> set V \<and> D y \<le> int k"
  using assms(2,3)
proof (induction k arbitrary: y)
  case 0
  then show ?case using assms(1) by (auto simp: bfs_inv_def)
next
  case (Suc k)
  then obtain x where x: "walk S s k x" "y \<in> set (S x)" by (auto elim: walk_SucE)
  then have IH: "x \<in> set V \<and> D x \<le> int k" using Suc.IH Suc.prems(2) by auto
  then have "y \<in> set V \<and> D y \<le> D x + 1" using bfs_inv_expanded [OF assms(1) _ _ x(2)] Suc.prems(2) by auto
  then show ?case using IH by auto
qed

definition distance_from :: "(i64 \<Rightarrow> i64 list) \<Rightarrow> i64 \<Rightarrow> i64 \<Rightarrow> nat" where
  "distance_from S s x = (LEAST k. walk S s k x)"

lemma bfs_inv_distance:
  assumes "bfs_inv S s m V [] D" and "x \<in> set V"
  shows "D x = int (distance_from S s x)"
proof -
  have d: "0 \<le> D x" "walk S s (nat (D x)) x" "m < 0 \<or> D x \<le> m"
    using bfs_inv_visited [OF assms] by auto
  let ?k = "distance_from S s x"
  have k: "walk S s ?k x" "?k \<le> nat (D x)" using d(2) unfolding distance_from_def by (auto intro: LeastI Least_le)
  then have "D x \<le> int ?k" using bfs_inv_final [OF assms(1) k(1)] d(1,3) by auto
  then show ?thesis using k(2) d(1) by linarith
qed

lemma bfs_visits:
  assumes "traversable v db"
  shows "\<exists>V. graphBFS (\<lambda>_. True) v db s m = (SQLITE_OK, Some (path_text V)) \<and> distinct V \<and> hd V = s \<and>
    set V = {x. \<exists>k. walk (succs v db) s k x \<and> (m < 0 \<or> int k \<le> m)} \<and>
    sorted (map (distance_from (succs v db) s) V)"
proof -
  let ?S = "succs v db"
  define m' where "m' = m"
  obtain vs where vs: "graphVisitedSetAdd (\<lambda>_. True) \<lparr>aNodes = [], nAlloc = 16\<rparr> s = (SQLITE_OK, vs)" "aNodes vs = [s]"
    using visited_add [of "\<lparr>aNodes = [], nAlloc = 16\<rparr>" s] by auto
  define st where "st = \<lparr>bQueue = [s], bVisited = vs, bDepths = [(s, 0)], bPath = Some (91 # ids_text [s])\<rparr>"
  have "bfs_inv ?S s m [] (bQueue st) (depth_of (bDepths st))"
    by (auto simp: bfs_inv_def st_def)
  then obtain st' V where l: "bfs_loop (\<lambda>_. True) v db m SQLITE_OK st = (False, SQLITE_OK, st')"
    "bfs_inv ?S s m V [] (depth_of (bDepths st'))" "bPath st' = Some (91 # ids_text V)" "\<exists>U. V = [s] @ U"
    using bfs_loop_run [OF assms, of s m "[]" st] vs(2) by (auto simp: st_def)
  have run: "graphBFS (\<lambda>_. True) v db s m = (SQLITE_OK, Some (path_text V))"
    using l vs by (simp add: graphBFS_def graphQueueCreate_def graphVisitedSetCreate_def graphQueueEnqueue_def
        path_append_def mprintf_def st_def path_close_def)
  have set: "set V = {x. \<exists>k. walk ?S s k x \<and> (m < 0 \<or> int k \<le> m)}"
  proof (intro set_eqI iffI)
    fix x assume "x \<in> set V"
    then show "x \<in> {x. \<exists>k. walk ?S s k x \<and> (m < 0 \<or> int k \<le> m)}"
      using bfs_inv_visited [OF l(2) \<open>x \<in> set V\<close>] by (intro CollectI exI [of _ "nat (depth_of (bDepths st') x)"]) auto
  next
    fix x assume "x \<in> {x. \<exists>k. walk ?S s k x \<and> (m < 0 \<or> int k \<le> m)}"
    then show "x \<in> set V" using bfs_inv_final [OF l(2)] l(4) by auto
  qed
  have sorted: "sorted (map (distance_from ?S s) V)"
  proof -
    have "map (depth_of (bDepths st')) V = map int (map (distance_from ?S s) V)"
      using bfs_inv_distance [OF l(2)] by simp
    then have "sorted (map int (map (distance_from ?S s) V))" using bfs_inv_order [OF l(2)] by (simp only:)
    then show ?thesis unfolding sorted_map [of int] by simp
  qed
  have "distinct V" using bfs_inv_order [OF l(2)] by blast
  moreover have "hd V = s" using l(4) by auto
  ultimately show ?thesis using run set sorted by (intro exI [of _ V] conjI)
qed

subsection \<open>Depth-first search\<close>

definition reaches :: "(i64 \<Rightarrow> i64 list) \<Rightarrow> i64 \<Rightarrow> i64 \<Rightarrow> bool" where
  "reaches S x y \<longleftrightarrow> (\<exists>k. walk S x k y)"

lemma reaches_refl: "reaches S x x"
  by (auto simp: reaches_def intro: walk_0)

lemma reaches_step: "z \<in> set (S x) \<Longrightarrow> reaches S z y \<Longrightarrow> reaches S x y"
  unfolding reaches_def by (blast intro: walk_trans)

lemma reaches_closed:
  assumes "reaches S x y" and "x \<in> A" and "\<forall>a \<in> A. set (S a) \<subseteq> A"
  shows "y \<in> A"
proof -
  obtain k where "walk S x k y" using assms(1) by (auto simp: reaches_def)
  then show ?thesis by (induction rule: walk.induct) (use assms(2,3) in auto)
qed

text \<open>The path of a list of visited nodes; there is none before the first node.\<close>

definition open_path :: "i64 list \<Rightarrow> bytes option" where
  "open_path V = (if V = [] then None else Some (91 # ids_text V))"

text \<open>What a call adds to the visited nodes: nodes reachable from those it was called for, closed under successors.\<close>

definition dfs_extends :: "(i64 \<Rightarrow> i64 list) \<Rightarrow> i64 list \<Rightarrow> i64 list \<Rightarrow> i64 list \<Rightarrow> bool" where
  "dfs_extends S rows V W \<longleftrightarrow>
     distinct (V @ W) \<and> set rows \<subseteq> set (V @ W) \<and> (\<forall>w \<in> set W. \<exists>r \<in> set rows. reaches S r w) \<and>
     (\<forall>w \<in> set W. set (S w) \<subseteq> set (V @ W))"

lemma dfs_extends_append:
  assumes "dfs_extends S [x] V W" and "dfs_extends S rows (V @ W) W'"
  shows "dfs_extends S (x # rows) V (W @ W')"
  unfolding dfs_extends_def
proof (intro conjI ballI)
  show "distinct (V @ W @ W')" using assms(2) by (simp add: dfs_extends_def)
  show "set (x # rows) \<subseteq> set (V @ W @ W')" using assms by (auto simp: dfs_extends_def)
  fix w assume w: "w \<in> set (W @ W')"
  have "\<forall>w \<in> set W. reaches S x w" "\<forall>w \<in> set W'. \<exists>r \<in> set rows. reaches S r w" using assms by (auto simp: dfs_extends_def)
  then show "\<exists>r \<in> set (x # rows). reaches S r w" using w by auto
  have "\<forall>w \<in> set W. set (S w) \<subseteq> set (V @ W)" "\<forall>w \<in> set W'. set (S w) \<subseteq> set ((V @ W) @ W')" using assms unfolding dfs_extends_def by blast+
  then show "set (S w) \<subseteq> set (V @ W @ W')" using w by fastforce
qed

lemma dfs_extends_new:
  assumes "x \<notin> set V" and "dfs_extends S (S x) (V @ [x]) W"
  shows "dfs_extends S [x] V (x # W)"
  unfolding dfs_extends_def
proof (intro conjI ballI)
  show "distinct (V @ x # W)" "set [x] \<subseteq> set (V @ x # W)" using assms(2) by (auto simp: dfs_extends_def)
  fix w assume w: "w \<in> set (x # W)"
  have "\<forall>w \<in> set W. \<exists>r \<in> set (S x). reaches S r w" using assms(2) unfolding dfs_extends_def by blast
  then have "reaches S x w" using w reaches_refl reaches_step [of _ S x w] by auto
  then show "\<exists>r \<in> set [x]. reaches S r w" by simp
  have "\<forall>w \<in> set W. set (S w) \<subseteq> set ((V @ [x]) @ W)" "set (S x) \<subseteq> set ((V @ [x]) @ W)" using assms(2) unfolding dfs_extends_def by blast+
  then show "set (S w) \<subseteq> set (V @ x # W)" using w by auto
qed

lemma dfs_rows_run:
  assumes rec: "\<And>x d vs V. aNodes vs = V \<Longrightarrow> distinct V \<Longrightarrow> card (U - set V) < n \<Longrightarrow> x \<in> U \<Longrightarrow>
      \<exists>vs' W. graphDFSRecursive (\<lambda>_. True) v db m n x d (vs, open_path V) = Some (SQLITE_OK, vs', open_path (V @ W)) \<and>
        aNodes vs' = V @ W \<and> dfs_extends S [x] V W"
    and U: "finite U" "set rows \<subseteq> U" and V: "aNodes vs = V" "distinct V" "card (U - set V) < n"
  shows "\<exists>vs' W. dfs_rows (\<lambda>_. True) v db m n rows d (vs, open_path V) = Some (SQLITE_OK, vs', open_path (V @ W)) \<and>
        aNodes vs' = V @ W \<and> dfs_extends S rows V W"
  using U(2) V
proof (induction rows arbitrary: vs V)
  case Nil
  then show ?case by (intro exI [of _ vs] exI [of _ "[]"]) (simp add: dfs_extends_def)
next
  case (Cons x rows)
  obtain vs1 W1 where r: "graphDFSRecursive (\<lambda>_. True) v db m n x d (vs, open_path V) = Some (SQLITE_OK, vs1, open_path (V @ W1))"
    "aNodes vs1 = V @ W1" "dfs_extends S [x] V W1"
    using rec [OF Cons.prems(2,3,4), of x d] Cons.prems(1) by auto
  have "card (U - set (V @ W1)) \<le> card (U - set V)" using U(1) by (intro card_mono) auto
  then obtain vs2 W2 where rs: "dfs_rows (\<lambda>_. True) v db m n rows d (vs1, open_path (V @ W1)) =
      Some (SQLITE_OK, vs2, open_path ((V @ W1) @ W2))" "aNodes vs2 = (V @ W1) @ W2" "dfs_extends S rows (V @ W1) W2"
    using Cons.IH [OF _ r(2)] r(3) Cons.prems(1,4) by (auto simp: dfs_extends_def)
  have "dfs_extends S (x # rows) V (W1 @ W2)" using dfs_extends_append r(3) rs(3) by blast
  then show ?case using r(1) rs(1,2) by (intro exI [of _ vs2] exI [of _ "W1 @ W2"]) simp
qed

lemma dfs_run:
  assumes "traversable v db" and "m < 0" and "finite U" and "all_targets v db \<subseteq> U"
    and "aNodes vs = V" "distinct V" "card (U - set V) < n" "x \<in> U"
  shows "\<exists>vs' W. graphDFSRecursive (\<lambda>_. True) v db m n x d (vs, open_path V) = Some (SQLITE_OK, vs', open_path (V @ W)) \<and>
        aNodes vs' = V @ W \<and> dfs_extends (succs v db) [x] V W \<and> (x \<notin> set V \<longrightarrow> hd W = x)"
  using assms(5-)
proof (induction n arbitrary: x d vs V)
  case (Suc n)
  show ?case
  proof (cases "x \<in> set V")
    case True
    then show ?thesis using Suc.prems assms(2)
      by (intro exI [of _ vs] exI [of _ "[]"]) (simp add: dfs_extends_def)
  next
    case False
    obtain vs1 where vs1: "graphVisitedSetAdd (\<lambda>_. True) vs x = (SQLITE_OK, vs1)" "aNodes vs1 = V @ [x]"
      using visited_add [of vs x] Suc.prems(1) by auto
    have path: "path_append (\<lambda>_. True) (open_path V) x = Some (91 # ids_text (V @ [x]))"
      using path_append_text [of V x] by (simp add: open_path_def)
    have "U - set (V @ [x]) \<subset> U - set V" using False Suc.prems(4) by auto
    then have "card (U - set (V @ [x])) < n" using Suc.prems(3) assms(3) psubset_card_mono [of "U - set V"] by fastforce
    moreover have "set (succs v db x) \<subseteq> U" using succs_subset assms(4) by blast
    moreover have "\<exists>vs' W. graphDFSRecursive (\<lambda>_. True) v db m n x d (vs, open_path V) = Some (SQLITE_OK, vs', open_path (V @ W)) \<and>
        aNodes vs' = V @ W \<and> dfs_extends (succs v db) [x] V W"
      if "aNodes vs = V" "distinct V" "card (U - set V) < n" "x \<in> U" for x d vs V using Suc.IH [OF that] by blast
    note rows = dfs_rows_run [OF this assms(3)]
    ultimately obtain vs' W where w: "dfs_rows (\<lambda>_. True) v db m n (succs v db x) (d + 1) (vs1, open_path (V @ [x])) =
        Some (SQLITE_OK, vs', open_path ((V @ [x]) @ W))" "aNodes vs' = (V @ [x]) @ W" "dfs_extends (succs v db) (succs v db x) (V @ [x]) W"
      using rows [of "succs v db x" vs1 "V @ [x]" "d + 1"] vs1(2) False Suc.prems(2) by auto
    have "graphDFSRecursive (\<lambda>_. True) v db m (Suc n) x d (vs, open_path V) =
        dfs_rows (\<lambda>_. True) v db m n (succs v db x) (d + 1) (vs1, open_path (V @ [x]))"
      using False Suc.prems(1) assms(2) vs1(1) path edge_targets_succs [OF assms(1)] by (simp add: open_path_def)
    then show ?thesis using w dfs_extends_new [OF False w(3)] by (intro exI [of _ vs'] exI [of _ "x # W"]) simp
  qed
qed simp

text \<open>
  C36. A depth-first search without depth limit from an existing node ends, with at most one stack frame more than
  there are nodes to visit, and visits exactly the nodes that can be reached, each once, starting with
  the start node.
\<close>

theorem graphDFS_visits_reachable:
  assumes "traversable v db" and "m < 0" and "graphFindNode True v db s \<noteq> None"
    and "card (insert s (all_targets v db)) < n"
  shows "\<exists>V. graphDFS (\<lambda>_. True) n v db s m = Some (SQLITE_OK, Some (path_text V)) \<and> distinct V \<and>
    set V = {x. reaches (succs v db) s x} \<and> hd V = s"
proof -
  let ?U = "insert s (all_targets v db)" and ?S = "succs v db"
  have U: "finite ?U" by (simp add: all_targets_def split: option.split)
  obtain vs' W where w: "graphDFSRecursive (\<lambda>_. True) v db m n s 0 (\<lparr>aNodes = [], nAlloc = 16\<rparr>, open_path []) =
      Some (SQLITE_OK, vs', open_path W)" "dfs_extends ?S [s] [] W" "hd W = s"
    using dfs_run [OF assms(1,2) U, of "\<lparr>aNodes = [], nAlloc = 16\<rparr>" "[]" n s 0] assms(4) by auto
  have "s \<in> set W" using w(2) by (simp add: dfs_extends_def)
  then have "W \<noteq> []" by auto
  then have "graphDFS (\<lambda>_. True) n v db s m = Some (SQLITE_OK, Some (path_text W))"
    using w(1) assms(3) by (auto simp: graphDFS_def graphVisitedSetCreate_def open_path_def path_close_def mprintf_def)
  moreover have "set W = {x. reaches ?S s x}"
    using w(2) reaches_closed [of ?S s _ "set W"] \<open>s \<in> set W\<close> by (auto simp: dfs_extends_def)
  moreover have "distinct W" using w(2) by (simp add: dfs_extends_def)
  ultimately show ?thesis using w(3) by blast
qed

theorem graphDFS_visits_reachable_witness:
  "\<exists>V. graphDFS (\<lambda>_. True) 5 walk_vtab walk_db 1 (-1) = Some (SQLITE_OK, Some (path_text V)) \<and> distinct V \<and>
    set V = {x. reaches (succs walk_vtab walk_db) 1 x} \<and> hd V = 1"
  by (rule graphDFS_visits_reachable [OF walk_db_facts(1)]) (simp_all add: walk_db_facts)

subsection \<open>Reading a path back\<close>

lemma fmt_d_bytes: "c \<in> set (fmt_d i) \<Longrightarrow> c \<noteq> 0 \<and> c \<noteq> 32 \<and> c \<noteq> 44 \<and> c \<noteq> 91 \<and> c \<noteq> 93"
proof -
  assume "c \<in> set (fmt_d i)"
  then have "c_isdigit c \<or> c = 45" using dec_digits_digits by (auto simp: fmt_d_def split: if_splits)
  then show ?thesis by (auto simp: c_isdigit_def word_le_nat_alt)
qed

lemma fmt_d_not_Nil: "fmt_d i \<noteq> []"
  using dec_digits_digits by (simp add: fmt_d_def)

lemma drop_separators:
  assumes "pre = [] \<or> pre = [44]"
  shows "dropWhile (\<lambda>c. c = 32 \<or> c = 44) (pre @ fmt_d i @ r) = fmt_d i @ r"
  using assms fmt_d_bytes [of "hd (fmt_d i)" i] fmt_d_not_Nil [of i] by (cases "fmt_d i") auto

lemma parse_id:
  assumes "pre = [] \<or> pre = [44]" and "LONG_MIN \<le> i" and "i \<le> LONG_MAX" and "\<not> c_isdigit c"
  shows "\<exists>n. parse_ids (\<lambda>_. True) (pre @ fmt_d i @ c # r) arr =
    parse_ids (\<lambda>_. True) (c # r) \<lparr>aNodes = aNodes arr @ [i], nAlloc = n\<rparr>"
proof -
  let ?p = "pre @ fmt_d i @ c # r"
  have hd: "fmt_d i \<noteq> []" "hd (fmt_d i) \<noteq> 0" "hd (fmt_d i) \<noteq> 93"
    using fmt_d_bytes [of "hd (fmt_d i)" i] fmt_d_not_Nil [of i] by auto
  have "?p \<noteq> [] \<and> hd ?p \<noteq> 0 \<and> hd ?p \<noteq> 93" using assms(1) hd by auto
  moreover have "hd (fmt_d i @ c # r) \<noteq> 93" using hd by simp
  ultimately show ?thesis
    unfolding parse_ids.simps [of _ ?p] Let_def drop_separators [OF assms(1)] strtol_fmt_d [OF assms(2-4)]
    using hd(1) by auto
qed

lemma parse_ids_text:
  "xs \<noteq> [] \<Longrightarrow> \<forall>x \<in> set xs. LONG_MIN \<le> x \<and> x \<le> LONG_MAX \<Longrightarrow> pre = [] \<or> pre = [44] \<Longrightarrow>
   parse_ids (\<lambda>_. True) (pre @ ids_text xs @ [93]) arr = Inr (aNodes arr @ xs)"
proof (induction xs arbitrary: pre arr rule: ids_text.induct)
  case (2 x)
  have "\<not> c_isdigit 93" by (simp add: c_isdigit_def)
  then obtain n where "parse_ids (\<lambda>_. True) (pre @ fmt_d x @ 93 # []) arr =
      parse_ids (\<lambda>_. True) [93] \<lparr>aNodes = aNodes arr @ [x], nAlloc = n\<rparr>"
    using parse_id [of pre x 93 "[]" arr] 2 by auto
  then show ?case by (simp add: parse_ids.simps [of _ "[93]"])
next
  case (3 x y ys)
  have "\<not> c_isdigit 44" by (simp add: c_isdigit_def)
  then obtain n where "parse_ids (\<lambda>_. True) (pre @ fmt_d x @ 44 # ids_text (y # ys) @ [93]) arr =
      parse_ids (\<lambda>_. True) ([44] @ ids_text (y # ys) @ [93]) \<lparr>aNodes = aNodes arr @ [x], nAlloc = n\<rparr>"
    using parse_id [of pre x 44 "ids_text (y # ys) @ [93]" arr] 3 by auto
  then show ?case using "3.IH" [of "[44]" "\<lparr>aNodes = aNodes arr @ [x], nAlloc = n\<rparr>"] 3(3) by simp
qed simp

lemma parse_path_text:
  "xs \<noteq> [] \<Longrightarrow> \<forall>x \<in> set xs. LONG_MIN \<le> x \<and> x \<le> LONG_MAX \<Longrightarrow> parseTraversalPath (\<lambda>_. True) (Some (path_text xs)) = Inr xs"
  using parse_ids_text [of xs "[]" "\<lparr>aNodes = [], nAlloc = 0\<rparr>"] by (simp add: parseTraversalPath_def)

text \<open>The commas of a path, and its bracket.\<close>

lemma path_commas: "xs \<noteq> [] \<Longrightarrow> Suc (length (filter (\<lambda>c. c = 44) (path_text xs))) = length xs"
proof (induction xs rule: ids_text.induct)
  case (2 x)
  then show ?case using fmt_d_bytes by (auto simp: filter_empty_conv)
next
  case (3 x y ys)
  have "filter (\<lambda>c. c = 44) (fmt_d x) = []" using fmt_d_bytes by (auto simp: filter_empty_conv)
  then show ?case using 3 by simp
qed simp


lemma bracket_in_path: "91 \<in> set (path_text xs)"
  by simp

text \<open>
  C35. A breadth-first search visits exactly the nodes that have a walk from the start within the depth limit
  (any walk when the limit is negative), each once, in the order of their distance from the start, and the
  text it returns is read back by \<open>parseTraversalPath\<close> as the list of the visited nodes.
\<close>

theorem graphBFS_visits_by_distance:
  assumes "traversable v db" and "LONG_MIN \<le> s \<and> s \<le> LONG_MAX"
    and "\<forall>x \<in> all_targets v db. LONG_MIN \<le> x \<and> x \<le> LONG_MAX"
  shows "\<exists>V. graphBFS (\<lambda>_. True) v db s m = (SQLITE_OK, Some (path_text V)) \<and>
    parseTraversalPath (\<lambda>_. True) (Some (path_text V)) = Inr V \<and> distinct V \<and> hd V = s \<and>
    set V = {x. \<exists>k. walk (succs v db) s k x \<and> (m < 0 \<or> int k \<le> m)} \<and>
    sorted (map (distance_from (succs v db) s) V)"
proof -
  obtain V where V: "graphBFS (\<lambda>_. True) v db s m = (SQLITE_OK, Some (path_text V))" "distinct V" "hd V = s"
    "set V = {x. \<exists>k. walk (succs v db) s k x \<and> (m < 0 \<or> int k \<le> m)}" "sorted (map (distance_from (succs v db) s) V)"
    using bfs_visits [OF assms(1), of s m] by blast
  have "s \<in> set V" unfolding V(4) by (auto intro!: exI [of _ 0])
  then have "V \<noteq> []" by auto
  moreover have "x = s \<or> x \<in> all_targets v db" if "walk (succs v db) s k x" for k x
    using that succs_subset by cases auto
  then have "\<forall>x \<in> set V. LONG_MIN \<le> x \<and> x \<le> LONG_MAX" unfolding V(4) using assms(2,3) by auto
  ultimately have "parseTraversalPath (\<lambda>_. True) (Some (path_text V)) = Inr V" using parse_path_text by blast
  then show ?thesis using V by (intro exI [of _ V] conjI)
qed

theorem graphBFS_visits_by_distance_witness:
  "\<exists>V. graphBFS (\<lambda>_. True) walk_vtab walk_db 1 1 = (SQLITE_OK, Some (path_text V)) \<and> hd V = 1 \<and>
    set V = {x. \<exists>k. walk (succs walk_vtab walk_db) 1 k x \<and> (1 < (0::int) \<or> int k \<le> 1)}"
  using graphBFS_visits_by_distance [OF walk_db_facts(1), of 1 1] walk_db_facts(2) by (fastforce simp: LONG_MIN_def LONG_MAX_def)




subsection \<open>The tables the extension creates\<close>

text \<open>
  C40. The backing tables that \<open>graphCreate\<close> makes name the ends of an edge \<open>source\<close> and \<open>target\<close>, the traversals ask for
  \<open>from_id\<close> and \<open>to_id\<close>: on such a table both traversals report an error from any existing node, with the text of a
  path that was not closed.
\<close>

theorem traversals_fail_on_created_tables:
  assumes "db (edges_of v) = Some \<lparr>tab_columns = edge_columns, tab_rows = es\<rparr>"
    and "graphFindNode True v db s \<noteq> None" and "m \<noteq> 0"
  shows "graphBFS (\<lambda>_. True) v db s m = (SQLITE_ERROR, Some (91 # fmt_d s)) \<and>
    graphDFS (\<lambda>_. True) (Suc n) v db s m = Some (SQLITE_ERROR, Some (91 # fmt_d s))"
proof -
  have e: "edge_targets v db x = Inl SQLITE_ERROR" for x
    using assms(1) by (simp add: edge_targets_def sql_select_def has_columns_def edge_columns_def)
  have m: "\<not> (0 \<le> m \<and> m \<le> 0)" using assms(3) by simp
  obtain vs where vs: "graphVisitedSetAdd (\<lambda>_. True) \<lparr>aNodes = [], nAlloc = 16\<rparr> s = (SQLITE_OK, vs)"
    using visited_add [of "\<lparr>aNodes = [], nAlloc = 16\<rparr>" s] by auto
  let ?st = "\<lparr>bQueue = [s], bVisited = vs, bDepths = [(s, 0)], bPath = Some (91 # fmt_d s)\<rparr>"
  have "bfs_loop (\<lambda>_. True) v db m SQLITE_OK ?st = bfs_loop (\<lambda>_. True) v db m SQLITE_ERROR (?st\<lparr>bQueue := []\<rparr>)"
    using m e by (auto simp: bfs_loop.simps [of _ _ _ _ SQLITE_OK ?st] graphQueueDequeue_def Let_def)
  also have "\<dots> = (False, SQLITE_ERROR, ?st\<lparr>bQueue := []\<rparr>)"
    by (simp add: bfs_loop.simps [of _ _ _ _ SQLITE_ERROR] graphQueueDequeue_def)
  finally have "graphBFS (\<lambda>_. True) v db s m = (SQLITE_ERROR, Some (91 # fmt_d s))"
    using vs by (simp add: graphBFS_def graphQueueCreate_def graphVisitedSetCreate_def graphQueueEnqueue_def
        path_append_def mprintf_def path_close_def)
  moreover have "graphDFS (\<lambda>_. True) (Suc n) v db s m = Some (SQLITE_ERROR, Some (91 # fmt_d s))"
    using m e vs assms(2) by (auto simp: graphDFS_def graphVisitedSetCreate_def path_append_def mprintf_def path_close_def)
  ultimately show ?thesis by blast
qed

theorem traversals_fail_on_created_tables_witness:
  "graphBFS (\<lambda>_. True) walk_vtab (walk_db(''g_edges'' \<mapsto> \<lparr>tab_columns = edge_columns, tab_rows = []\<rparr>)) 1 5 =
    (SQLITE_ERROR, Some (91 # fmt_d 1))"
  using traversals_fail_on_created_tables [of "walk_db(''g_edges'' \<mapsto> \<lparr>tab_columns = edge_columns, tab_rows = []\<rparr>)" walk_vtab "[]" 1 5]
  by (simp add: walk_vtab_def edges_of_def nodes_of_def graphFindNode_def sql_select_def walk_db_def has_columns_def node_columns_def
      node_row_def cell_eq_def cell_int_def)

end
