(* ===== verification/GraphAlgo_Correct.thy ===== *)
theory GraphAlgo_Correct
  imports MinHeap_Graph GraphTraverse_Correct Float_Exact
begin

text \<open>
  Dijkstra's algorithm on edges with finite non-negative weights: although every addition is rounded, the
  distance it reports is the smallest rounded length of a walk, and the path it returns has that length.
  This only needs that a rounded sum grows with its first argument and is not below it.
\<close>

subsection \<open>Lengths\<close>

definition dinf :: int where
  "dinf = 2047 * 2 ^ 52"

text \<open>A distance: a number or infinity, not negative. A weight: finite, not negative.\<close>

definition is_distance :: "f64 \<Rightarrow> bool" where
  "is_distance d \<longleftrightarrow> \<not> dneg_bit d \<and> dmag d \<le> dinf"

definition is_weight :: "f64 \<Rightarrow> bool" where
  "is_weight w \<longleftrightarrow> 0 \<le> dkey w \<and> dmag w < dinf"

lemma dmag_range: "0 \<le> dmag x \<and> dmag x < 2 ^ 63"
  by (simp add: dmag_def)

lemma distance_key: "is_distance d \<Longrightarrow> dkey d = dmag d \<and> \<not> disnan d \<and> 0 \<le> dkey d \<and> dkey d \<le> dinf"
  using dmag_range [of d] by (simp add: is_distance_def dkey_def fp_int_def disnan_def dinf_def)

lemma distance_eqI: "is_distance d \<Longrightarrow> is_distance e \<Longrightarrow> dkey d = dkey e \<Longrightarrow> d = e"
proof -
  assume d: "is_distance d" and e: "is_distance e" and k: "dkey d = dkey e"
  have "uint d = dmag d" "uint e = dmag e" using d e by (simp_all add: is_distance_def dneg_bit_def dmag_def)
  then show ?thesis using k distance_key [OF d] distance_key [OF e] by (simp add: word_uint_eq_iff)
qed

lemma distance_0: "is_distance 0" "dkey 0 = 0"
  by (simp_all add: is_distance_def dneg_bit_def dmag_def dinf_def dkey_def fp_int_def)

lemma DBL_MAX_key: "is_distance DBL_MAX" "dkey DBL_MAX = dinf - 1"
  by (simp_all add: is_distance_def dneg_bit_def dmag_def dinf_def dkey_def fp_int_def DBL_MAX_def)

definition weight_units :: "f64 \<Rightarrow> int" where
  "weight_units w = mag_units 52 (dkey w)"

definition sum_key :: "int \<Rightarrow> int \<Rightarrow> int" where
  "sum_key k u = min dinf (round_mag 52 (mag_units 52 k + u) 1)"

lemma weight_units_nonneg: "is_weight w \<Longrightarrow> 0 \<le> weight_units w"
  by (simp add: is_weight_def weight_units_def mag_units_nonneg)

lemma weight_val: "is_weight w \<Longrightarrow> dval w = FFin (dneg_bit w) (weight_units w) \<and> (dneg_bit w \<longrightarrow> weight_units w = 0)"
  using dmag_range [of w]
  by (auto simp: is_weight_def weight_units_def dval_def fp_of_mag_def binary64_def dinf_def dkey_def fp_int_def)

lemma f64_of_XRat:
  assumes "0 \<le> n"
  shows "dmag (f64_of (XRat s n 1)) = min dinf (round_mag 52 n 1)" and "dneg_bit (f64_of (XRat s n 1)) = s"
proof -
  let ?b = "min dinf (round_mag 52 n 1)"
  have b: "0 \<le> ?b" "?b < 2 ^ 63" using round_mag_nonneg [OF assms, of 1 52] by (auto simp: dinf_def)
  have "f64_of (XRat s n 1) = (if s then word_of_int (2 ^ 63 + ?b) else word_of_int ?b)"
    by (simp add: f64_of_def xround_def binary64_def dinf_def)
  then show "dmag (f64_of (XRat s n 1)) = ?b" "dneg_bit (f64_of (XRat s n 1)) = s" using f64_of_fields [OF b] by blast+
qed

lemma round_mag_0: "round_mag 52 0 1 = 0"
  using round_mag_units [of 0 52] by simp

lemma dadd_distance:
  assumes "is_distance d" and "is_weight w"
  shows "is_distance (dadd d w)" and "dkey (dadd d w) = (if dkey d = dinf then dinf else sum_key (dkey d) (weight_units w))"
proof -
  note w = weight_val [OF assms(2)] weight_units_nonneg [OF assms(2)]
  note k = distance_key [OF assms(1)]
  have *: "\<not> dneg_bit (dadd d w) \<and> dmag (dadd d w) = (if dkey d = dinf then dinf else sum_key (dkey d) (weight_units w))"
  proof (cases "dkey d = dinf")
    case True
    then have "dval d = FInf False" using assms(1) k by (simp add: dval_def fp_of_mag_def binary64_def dinf_def is_distance_def)
    then have "dadd d w = f64_of (XInf False)" using w by (simp add: dadd_def)
    then have "dadd d w = word_of_int dinf" by (simp add: f64_of_def xround_def binary64_def dinf_def)
    then show ?thesis using True f64_of_fields [of dinf "dadd d w" False] by (simp add: dinf_def)
  next
    case False
    have u: "0 \<le> mag_units 52 (dkey d)" using k by (simp add: mag_units_nonneg)
    have "dval d = FFin False (mag_units 52 (dkey d))"
      using assms(1) k False by (simp add: dval_def fp_of_mag_def binary64_def dinf_def is_distance_def)
    then have "dadd d w = f64_of (x_of_int False (mag_units 52 (dkey d) + weight_units w))"
      using w(1) by (auto simp: dadd_def fp_int_def)
    also have "x_of_int False (mag_units 52 (dkey d) + weight_units w) = XRat False (mag_units 52 (dkey d) + weight_units w) 1"
      using u w(2) by (auto simp: x_of_int_def)
    finally show ?thesis using f64_of_XRat [of "mag_units 52 (dkey d) + weight_units w" False] u w(2) False by (simp add: sum_key_def)
  qed
  have r: "0 \<le> sum_key (dkey d) (weight_units w)"
    using w(2) k by (auto simp: sum_key_def dinf_def intro!: round_mag_nonneg add_nonneg_nonneg mag_units_nonneg)
  show "is_distance (dadd d w)" using * by (auto simp: is_distance_def sum_key_def)
  then show "dkey (dadd d w) = (if dkey d = dinf then dinf else sum_key (dkey d) (weight_units w))"
    using * distance_key [of "dadd d w"] by simp
qed

subsection \<open>Weighted walks\<close>

text \<open>
  The walks from \<open>s\<close> along the edges \<open>A\<close>: the nodes, the length as \<open>add\<close> sums it up from \<open>z\<close>, and the last node.
\<close>

inductive wwalk :: "('l \<Rightarrow> 'w \<Rightarrow> 'l) \<Rightarrow> ('n \<Rightarrow> ('n \<times> 'w) list) \<Rightarrow> 'n \<Rightarrow> 'l \<Rightarrow> 'n list \<Rightarrow> 'l \<Rightarrow> 'n \<Rightarrow> bool" for add A s z where
  wwalk_start: "wwalk add A s z [s] z s"
| wwalk_step: "wwalk add A s z p d x \<Longrightarrow> (y, w) \<in> set (A x) \<Longrightarrow> wwalk add A s z (p @ [y]) (add d w) y"

text \<open>A list of nodes that leads back to \<open>s\<close> along the predecessors \<open>P\<close>.\<close>

fun leads_back :: "('n \<Rightarrow> 'n) \<Rightarrow> 'n \<Rightarrow> 'n list \<Rightarrow> bool" where
  "leads_back P s [] \<longleftrightarrow> False"
| "leads_back P s [x] \<longleftrightarrow> x = s"
| "leads_back P s (x # y # b) \<longleftrightarrow> x \<noteq> s \<and> y = P x \<and> leads_back P s (y # b)"

subsection \<open>Interface: lengths that grow\<close>

text \<open>What the algorithm needs of its lengths, as keys: a sum is not below its first argument and grows with it.\<close>

locale growing_lengths =
  fixes add :: "'l \<Rightarrow> 'w \<Rightarrow> 'l" and key :: "'l \<Rightarrow> int" and len :: "'l \<Rightarrow> bool" and wt :: "'w \<Rightarrow> bool"
  assumes add_len: "len d \<Longrightarrow> wt w \<Longrightarrow> len (add d w)"
    and add_ge: "len d \<Longrightarrow> wt w \<Longrightarrow> key d \<le> key (add d w)"
    and add_mono: "len d \<Longrightarrow> len e \<Longrightarrow> wt w \<Longrightarrow> key d \<le> key e \<Longrightarrow> key (add d w) \<le> key (add e w)"
    and len_eqI: "len d \<Longrightarrow> len e \<Longrightarrow> key d = key e \<Longrightarrow> d = e"
begin

text \<open>
  The invariant of the search: \<open>D\<close> are the distances (\<open>M\<close> for none), \<open>P\<close> the predecessors, \<open>Q\<close> the queue, \<open>F\<close> the
  nodes taken from the queue in that order, and \<open>R\<close> the edges of theirs that were relaxed.
\<close>

definition search_inv ::
  "('n \<Rightarrow> ('n \<times> 'w) list) \<Rightarrow> 'n \<Rightarrow> 'l \<Rightarrow> 'l \<Rightarrow> ('n \<Rightarrow> ('n \<times> 'w) list) \<Rightarrow> ('n \<Rightarrow> 'l) \<Rightarrow> ('n \<Rightarrow> 'n) \<Rightarrow> ('n \<times> 'l) multiset \<Rightarrow> 'n list \<Rightarrow> bool" where
  "search_inv A s z M R D P Q F \<longleftrightarrow>
     (\<forall>x d. (x, d) \<in># Q \<longrightarrow> len d \<and> key (D x) \<le> key d \<and> key d < key M) \<and>
     (\<forall>x. len (D x) \<and> key z \<le> key (D x) \<and> key (D x) \<le> key M) \<and>
     (\<forall>x. key (D x) < key M \<longrightarrow> x \<notin> set F \<longrightarrow> (x, D x) \<in># Q) \<and>
     (\<forall>x \<in> set F. key (D x) < key M \<and> (\<forall>y d. (y, d) \<in># Q \<longrightarrow> key (D x) \<le> key d)) \<and>
     (\<forall>x \<in> set F. \<forall>y w. (y, w) \<in> set (R x) \<longrightarrow> key (D y) \<le> key (add (D x) w)) \<and>
     D s = z \<and> distinct F \<and>
     (\<forall>y. key (D y) < key M \<longrightarrow> y \<noteq> s \<longrightarrow> P y \<in> set F \<and> (\<exists>w. (y, w) \<in> set (A (P y)) \<and> D y = add (D (P y)) w)) \<and>
     (\<forall>i < length F. F ! i \<noteq> s \<longrightarrow> (\<exists>j < i. P (F ! i) = F ! j))"

lemma search_invI:
  assumes "\<And>x d. (x, d) \<in># Q \<Longrightarrow> len d \<and> key (D x) \<le> key d \<and> key d < key M"
    and "\<And>x. len (D x) \<and> key z \<le> key (D x) \<and> key (D x) \<le> key M"
    and "\<And>x. key (D x) < key M \<Longrightarrow> x \<notin> set F \<Longrightarrow> (x, D x) \<in># Q"
    and "\<And>x. x \<in> set F \<Longrightarrow> key (D x) < key M"
    and "\<And>x y d. x \<in> set F \<Longrightarrow> (y, d) \<in># Q \<Longrightarrow> key (D x) \<le> key d"
    and "\<And>x y w. x \<in> set F \<Longrightarrow> (y, w) \<in> set (R x) \<Longrightarrow> key (D y) \<le> key (add (D x) w)"
    and "D s = z" and "distinct F"
    and "\<And>y. key (D y) < key M \<Longrightarrow> y \<noteq> s \<Longrightarrow> P y \<in> set F \<and> (\<exists>w. (y, w) \<in> set (A (P y)) \<and> D y = add (D (P y)) w)"
    and "\<And>i. i < length F \<Longrightarrow> F ! i \<noteq> s \<Longrightarrow> \<exists>j < i. P (F ! i) = F ! j"
  shows "search_inv A s z M R D P Q F"
  unfolding search_inv_def using assms by blast

lemma search_invD:
  assumes "search_inv A s z M R D P Q F"
  shows "(x, d) \<in># Q \<Longrightarrow> len d \<and> key (D x) \<le> key d \<and> key d < key M"
    and "len (D x) \<and> key z \<le> key (D x) \<and> key (D x) \<le> key M"
    and "key (D x) < key M \<Longrightarrow> x \<notin> set F \<Longrightarrow> (x, D x) \<in># Q"
    and "x \<in> set F \<Longrightarrow> key (D x) < key M"
    and "x \<in> set F \<Longrightarrow> (y, d) \<in># Q \<Longrightarrow> key (D x) \<le> key d"
    and "x \<in> set F \<Longrightarrow> (y, w) \<in> set (R x) \<Longrightarrow> key (D y) \<le> key (add (D x) w)"
    and "D s = z" and "distinct F"
    and "key (D y) < key M \<Longrightarrow> y \<noteq> s \<Longrightarrow> P y \<in> set F \<and> (\<exists>w. (y, w) \<in> set (A (P y)) \<and> D y = add (D (P y)) w)"
    and "i < length F \<Longrightarrow> F ! i \<noteq> s \<Longrightarrow> \<exists>j < i. P (F ! i) = F ! j"
  using assms unfolding search_inv_def by blast+

lemma search_start:
  assumes "len z" "len M" "key z < key M"
  shows "search_inv A s z M A (\<lambda>x. if x = s then z else M) P {#(s, z)#} []"
  by (rule search_invI) (use assms in \<open>auto split: if_splits\<close>)

text \<open>An outdated entry is dropped.\<close>

lemma search_drop:
  assumes "search_inv A s z M R D P (add_mset (x, d) Q) F" and "key (D x) < key d"
  shows "search_inv A s z M R D P Q F"
proof (rule search_invI)
  note I = search_invD [OF assms(1)]
  show "(y, D y) \<in># Q" if "key (D y) < key M" "y \<notin> set F" for y using I(3) [OF that] assms(2) by auto
  show "len e \<and> key (D y) \<le> key e \<and> key e < key M" if "(y, e) \<in># Q" for y e using I(1) [of y e] that by simp
  show "key (D y) \<le> key e" if "y \<in> set F" "(u, e) \<in># Q" for y u e using I(5) [of y u e] that by simp
qed (use search_invD [OF assms(1)] in blast)+

text \<open>The nearest entry settles its node.\<close>

lemma search_settle:
  assumes "search_inv A s z M A D P (add_mset (x, d) Q) F" and "\<not> key (D x) < key d"
    and min: "\<forall>y e. (y, e) \<in># Q \<longrightarrow> key d \<le> key e" and F': "F' = (if x \<in> set F then F else F @ [x])"
  shows "search_inv A s z M (A(x := [])) D P Q F'" and "D x = d" and "x \<in> set F'"
    and "\<And>u. u \<in> set F' \<Longrightarrow> key (D u) \<le> key (D x)"
proof -
  note I = search_invD [OF assms(1)]
  have in': "(x, d) \<in># add_mset (x, d) Q" by simp
  show Dx: "D x = d" using I(1) [OF in'] I(2) [of x] assms(2) by (intro len_eqI) auto
  show x: "x \<in> set F'" using F' by simp
  have setF: "u \<in> set F' \<longleftrightarrow> u = x \<or> u \<in> set F" for u using F' by auto
  show "key (D u) \<le> key (D x)" if "u \<in> set F'" for u using that I(5) [of u x d] Dx setF by auto
  show "search_inv A s z M (A(x := [])) D P Q F'"
  proof (rule search_invI)
    show "len e \<and> key (D y) \<le> key e \<and> key e < key M" if "(y, e) \<in># Q" for y e using I(1) [of y e] that by simp
    show "len (D y) \<and> key z \<le> key (D y) \<and> key (D y) \<le> key M" for y by (rule I(2))
    show "(y, D y) \<in># Q" if "key (D y) < key M" "y \<notin> set F'" for y using I(3) [of y] that setF by auto
    show "key (D y) < key M" if "y \<in> set F'" for y using I(4) [of y] I(1) [OF in'] that setF Dx by auto
    show "key (D y) \<le> key e" if "y \<in> set F'" "(u, e) \<in># Q" for y u e
      using I(5) [of y u e] that setF Dx min by auto
    show "key (D t) \<le> key (add (D y) w)" if "y \<in> set F'" "(t, w) \<in> set ((A(x := [])) y)" for y t w
      using I(6) [of y t w] that setF by (auto split: if_splits)
    show "D s = z" by (rule I(7))
    show "distinct F'" using I(8) F' by simp
    show "P y \<in> set F' \<and> (\<exists>w. (y, w) \<in> set (A (P y)) \<and> D y = add (D (P y)) w)" if "key (D y) < key M" "y \<noteq> s" for y
      using I(9) [OF that] setF by auto
    show "\<exists>j < i. P (F' ! i) = F' ! j" if i: "i < length F'" "F' ! i \<noteq> s" for i
    proof (cases "i < length F")
      case True
      have old: "F' ! j = F ! j" if "j \<le> i" for j using that True F' by (simp add: nth_append)
      have "F ! i \<noteq> s" using i(2) old [of i] by simp
      then obtain j where j: "j < i" "P (F ! i) = F ! j" using I(10) [OF True] by blast
      then show ?thesis using old [of i] old [of j] by (intro exI [of _ j]) simp
    next
      case False
      then have new: "i = length F" "F' = F @ [x]" using i F' by (auto split: if_splits)
      then have "P x \<in> set F" using I(9) [of x] I(1) [OF in'] i Dx by auto
      then obtain j where "j < length F" "P x = F ! j" by (metis in_set_conv_nth)
      then show ?thesis using new by (intro exI [of _ j]) (simp add: nth_append)
    qed
  qed
qed

text \<open>Relaxing an edge of the node that was settled last.\<close>

lemma search_relax:
  assumes "search_inv A s z M (A(x := r)) D P Q F" and x: "x \<in> set F" and last: "\<And>u. u \<in> set F \<Longrightarrow> key (D u) \<le> key (D x)"
    and e: "(y, w) \<in> set (A x)" "wt w" and nd: "nd = add (D x) w" and lt: "key nd < key (D y)"
  shows "search_inv A s z M (A(x := r @ [(y, w)])) (D(y := nd)) (P(y := x)) (add_mset (y, nd) Q) F" and "y \<notin> set F"
proof -
  note I = search_invD [OF assms(1)]
  have ge: "key (D x) \<le> key nd" using add_ge [OF _ e(2)] I(2) [of x] nd by simp
  show yF: "y \<notin> set F" using last [of y] ge lt by auto
  then have yx: "y \<noteq> x" using x by auto
  have ys: "y \<noteq> s" using I(2) [of x] I(7) ge lt by auto
  have le: "key ((D(y := nd)) u) \<le> key (D u)" for u using lt by simp
  have same: "(D(y := nd)) u = D u" if "u \<in> set F" for u using that yF by auto
  show "search_inv A s z M (A(x := r @ [(y, w)])) (D(y := nd)) (P(y := x)) (add_mset (y, nd) Q) F"
  proof (rule search_invI)
    have lnd: "len nd" using add_len [OF _ e(2)] I(2) [of x] nd by simp
    have ndM: "key nd < key M" using I(2) [of y] lt by simp
    show "len f \<and> key ((D(y := nd)) u) \<le> key f \<and> key f < key M" if "(u, f) \<in># add_mset (y, nd) Q" for u f
      using that I(1) [of u f] le [of u] lnd ndM by fastforce
    show "len ((D(y := nd)) u) \<and> key z \<le> key ((D(y := nd)) u) \<and> key ((D(y := nd)) u) \<le> key M" for u
      using I(2) [of u] I(2) [of x] lnd ndM ge by simp
    show "(u, (D(y := nd)) u) \<in># add_mset (y, nd) Q" if "key ((D(y := nd)) u) < key M" "u \<notin> set F" for u
      using I(3) [of u] that by (cases "u = y") simp_all
    show "key ((D(y := nd)) u) < key M" if "u \<in> set F" for u using I(4) [OF that] same [OF that] by simp
    show "key ((D(y := nd)) u) \<le> key f" if "u \<in> set F" "(t, f) \<in># add_mset (y, nd) Q" for u t f
      using I(5) [of u t f] that same [of u] last [of u] ge by fastforce
    show "key ((D(y := nd)) t) \<le> key (add ((D(y := nd)) u) v)" if uv: "u \<in> set F" "(t, v) \<in> set ((A(x := r @ [(y, w)])) u)" for u t v
    proof (cases "u = x \<and> (t, v) = (y, w)")
      case True
      then show ?thesis using nd yx by simp
    next
      case False
      then have "(t, v) \<in> set ((A(x := r)) u)" using uv(2) by (auto split: if_splits)
      then show ?thesis using I(6) [OF uv(1)] le [of t] same [OF uv(1)] by force
    qed
    show "(D(y := nd)) s = z" using I(7) ys by simp
    show "distinct F" by (rule I(8))
    show "(P(y := x)) u \<in> set F \<and> (\<exists>v. (u, v) \<in> set (A ((P(y := x)) u)) \<and> (D(y := nd)) u = add ((D(y := nd)) ((P(y := x)) u)) v)"
      if u: "key ((D(y := nd)) u) < key M" "u \<noteq> s" for u
    proof (cases "u = y")
      case True
      then show ?thesis using x e(1) nd yx by auto
    next
      case False
      then show ?thesis using I(9) [of u] u same [of "P u"] by auto
    qed
    show "\<exists>j < i. (P(y := x)) (F ! i) = F ! j" if "i < length F" "F ! i \<noteq> s" for i
    proof -
      have "F ! i \<noteq> y" using yF that(1) by auto
      then show ?thesis using I(10) [OF that] by simp
    qed
  qed
qed

lemma search_keep:
  assumes "search_inv A s z M (A(x := r)) D P Q F" and "\<not> key (add (D x) w) < key (D y)"
  shows "search_inv A s z M (A(x := r @ [(y, w)])) D P Q F"
proof (rule search_invI)
  note I = search_invD [OF assms(1)]
  show "key (D t) \<le> key (add (D u) v)" if uv: "u \<in> set F" "(t, v) \<in> set ((A(x := r @ [(y, w)])) u)" for u t v
    using I(6) [of u t v] uv assms(2) by (cases "u = x") auto
qed (use search_invD [OF assms(1)] in blast)+

text \<open>A walk is not shorter than the distance of its end, or than some entry of the queue.\<close>

lemma search_bound:
  assumes I: "search_inv A s z M A D P Q F" and wt: "\<And>x y w. (y, w) \<in> set (A x) \<Longrightarrow> wt w" and "wwalk add A s z p d x"
  shows "len d \<and> (key (D x) \<le> key d \<or> (\<exists>y e. (y, e) \<in># Q \<and> key e \<le> key d))"
  using assms(3)
proof (induction rule: wwalk.induct)
  case wwalk_start
  then show ?case using search_invD(2,7) [OF I] by force
next
  case (wwalk_step p d x y w)
  have l: "len d" "len (add d w)" and ge: "key d \<le> key (add d w)"
    using wwalk_step.IH add_len [OF _ wt] add_ge [OF _ wt] wwalk_step.hyps(2) by blast+
  consider (entry) u e where "(u, e) \<in># Q" "key e \<le> key d" | (settled) "key (D x) \<le> key d" "x \<in> set F"
    | (queued) "key (D x) \<le> key d" "(x, D x) \<in># Q" | (far) "key M \<le> key d"
    using wwalk_step.IH search_invD(3) [OF I, of x] by force
  then show ?case
  proof cases
    case entry
    then show ?thesis using l ge by force
  next
    case settled
    have "key (D y) \<le> key (add (D x) w)" by (rule search_invD(6) [OF I settled(2) wwalk_step.hyps(2)])
    also have "\<dots> \<le> key (add d w)" using search_invD(2) [OF I, of x] add_mono [OF _ l(1) wt [OF wwalk_step.hyps(2)] settled(1)] by blast
    finally show ?thesis using l by blast
  next
    case queued
    then show ?thesis using l ge by force
  next
    case far
    then show ?thesis using l ge search_invD(2) [OF I, of y] by force
  qed
qed

text \<open>The predecessors of a node that has a distance are a walk of that length.\<close>

lemma walk_back_step:
  assumes "wwalk add A s z (rev (P x # b)) (D (P x)) (P x)" and "leads_back P s (P x # b)" and "x \<noteq> s"
    and "(x, w) \<in> set (A (P x))" and "D x = add (D (P x)) w"
  shows "wwalk add A s z (rev (x # P x # b)) (D x) x \<and> leads_back P s (x # P x # b)"
  using wwalk_step [OF assms(1,4)] assms(2,3,5) by simp

lemma search_path_settled:
  assumes I: "search_inv A s z M R D P Q F"
  shows "i < length F \<Longrightarrow> \<exists>b. wwalk add A s z (rev (F ! i # b)) (D (F ! i)) (F ! i) \<and> leads_back P s (F ! i # b) \<and>
    length b \<le> i \<and> set b \<subseteq> set F"
proof (induction i rule: less_induct)
  case (less i)
  show ?case
  proof (cases "F ! i = s")
    case True
    then show ?thesis using wwalk_start [of add A s z] search_invD(7) [OF I] by (intro exI [of _ "[]"]) simp
  next
    case False
    then obtain j where j: "j < i" "P (F ! i) = F ! j" using search_invD(10) [OF I less.prems] by blast
    obtain b where b: "wwalk add A s z (rev (F ! j # b)) (D (F ! j)) (F ! j)" "leads_back P s (F ! j # b)" "length b \<le> j" "set b \<subseteq> set F"
      using less.IH [OF j(1)] j(1) less.prems by auto
    have "key (D (F ! i)) < key M" by (rule search_invD(4) [OF I]) (simp add: less.prems)
    then obtain w where w: "(F ! i, w) \<in> set (A (P (F ! i)))" "D (F ! i) = add (D (P (F ! i))) w"
      using search_invD(9) [OF I] False by blast
    show ?thesis using walk_back_step [where A = A and P = P and D = D and x = "F ! i", OF _ _ False w] b j less.prems by (intro exI [of _ "F ! j # b"]) auto
  qed
qed

lemma search_path:
  assumes I: "search_inv A s z M R D P Q F" and t: "key (D t) < key M"
  shows "\<exists>b. wwalk add A s z (rev (t # b)) (D t) t \<and> leads_back P s (t # b) \<and> length b \<le> length F \<and> set b \<subseteq> set F"
proof (cases "t = s")
  case True
  then show ?thesis using wwalk_start [of add A s z] search_invD(7) [OF I] by (intro exI [of _ "[]"]) simp
next
  case False
  obtain w where w: "P t \<in> set F" "(t, w) \<in> set (A (P t))" "D t = add (D (P t)) w" using search_invD(9) [OF I t False] by blast
  then obtain i where i: "i < length F" "P t = F ! i" by (metis in_set_conv_nth)
  obtain b where "wwalk add A s z (rev (F ! i # b)) (D (F ! i)) (F ! i)" "leads_back P s (F ! i # b)" "length b \<le> i" "set b \<subseteq> set F"
    using search_path_settled [OF I i(1)] by blast
  then show ?thesis using walk_back_step [where A = A and P = P and D = D and x = t, OF _ _ False w(2,3)] i w(1) by (intro exI [of _ "F ! i # b"]) auto
qed

end

interpretation double_lengths: growing_lengths dadd dkey is_distance is_weight
proof
  fix d e w assume d: "is_distance d" and w: "is_weight w"
  show "is_distance (dadd d w)" by (rule dadd_distance [OF d w])
  note k = distance_key [OF d] and u = weight_units_nonneg [OF w]
  have "mag_units 52 (dkey d) \<le> mag_units 52 (dkey d) + weight_units w" using u by simp
  then have "dkey d \<le> round_mag 52 (mag_units 52 (dkey d) + weight_units w) 1"
    using round_mag_mono [of "mag_units 52 (dkey d)" _ 1 52] round_mag_units [of "dkey d" 52] k mag_units_nonneg [of "dkey d" 52] by fastforce
  then show "dkey d \<le> dkey (dadd d w)" using k by (auto simp: dadd_distance(2) [OF d w] sum_key_def)
  assume e: "is_distance e" and le: "dkey d \<le> dkey e"
  have "mag_units 52 (dkey d) \<le> mag_units 52 (dkey e)" using k le by (intro mag_units_mono) auto
  then have "round_mag 52 (mag_units 52 (dkey d) + weight_units w) 1 \<le> round_mag 52 (mag_units 52 (dkey e) + weight_units w) 1"
    using k u by (intro round_mag_mono) (auto simp: mag_units_nonneg)
  then show "dkey (dadd d w) \<le> dkey (dadd e w)"
    using le distance_key [OF e] by (auto simp: dadd_distance(2) [OF d w] dadd_distance(2) [OF e w] sum_key_def)
next
  fix d e assume "is_distance d" "is_distance e" "dkey d = dkey e"
  then show "d = e" by (rule distance_eqI)
qed

subsection \<open>The map of distances on node ids that are not negative\<close>

definition map_ok :: "distance_map \<Rightarrow> bool" where
  "map_ok dm \<longleftrightarrow> 0 < nBuckets dm \<and> length (aBuckets dm) = nat (nBuckets dm)"

definition pred_of :: "distance_map \<Rightarrow> i64 \<Rightarrow> i64" where
  "pred_of dm x = (case distanceMapGetPredecessor dm x of Some y \<Rightarrow> y | None \<Rightarrow> -1)"

lemma bucket_Some: "map_ok dm \<Longrightarrow> 0 \<le> x \<Longrightarrow> bucket_of dm x = Some (nat (x mod nBuckets dm))"
  by (simp add: map_ok_def bucket_of_def)

lemma distanceMapGet_Some: "map_ok dm \<Longrightarrow> 0 \<le> x \<Longrightarrow> distanceMapGet dm x = Some (dist_of dm x)"
  by (simp add: dist_of_def distanceMapGet_def bucket_Some)

lemma distanceMapGetPredecessor_Some: "map_ok dm \<Longrightarrow> 0 \<le> x \<Longrightarrow> distanceMapGetPredecessor dm x = Some (pred_of dm x)"
  by (simp add: pred_of_def distanceMapGetPredecessor_def bucket_Some)

lemma distanceMapSet_ok:
  assumes "map_ok dm" and "0 \<le> x" and "\<And>n. ok n"
  obtains dm' where "distanceMapSet ok dm x d pr = Some (SQLITE_OK, dm')" "map_ok dm'"
    "dist_of dm' = (dist_of dm)(x := d)" "pred_of dm' = (pred_of dm)(x := pr)"
proof -
  obtain dm' where set: "distanceMapSet ok dm x d pr = Some (SQLITE_OK, dm')" and "map_ok dm'"
    using assms
    by (cases "info_find (aBuckets dm ! nat (x mod nBuckets dm)) x") (simp_all add: distanceMapSet_def Let_def bucket_Some map_ok_def)
  moreover have "dist_of dm' = (dist_of dm)(x := d)" "pred_of dm' = (pred_of dm)(x := pr)"
    using distance_map_set [OF set] by (auto simp: dist_of_def pred_of_def)
  ultimately show ?thesis using that by blast
qed

lemma graphPriorityQueueInsert_ok:
  assumes "queue_ok q" and "is_distance d" and "\<And>n. ok n"
  obtains q' where "graphPriorityQueueInsert ok q x d = (SQLITE_OK, q')" "queue_ok q'"
    "mset (pq_nodes q') = add_mset (x, d) (mset (pq_nodes q))"
proof -
  have "graphPriorityQueueInsert ok q x d = (SQLITE_OK, queue_put q (x, d))"
    using assms(3) by (simp add: graphPriorityQueueInsert_def queue_put_def)
  moreover have "\<not> disnan d" using distance_key [OF assms(2)] by simp
  ultimately show ?thesis
    using that dijkstra_queue.put_inv [OF assms(1), of "(x, d)"] dijkstra_queue.put_entries [OF assms(1), of "(x, d)"] by simp
qed

lemma dlt_distance: "is_distance d \<Longrightarrow> is_distance e \<Longrightarrow> dlt d e \<longleftrightarrow> dkey d < dkey e"
  using distance_key [of d] distance_key [of e] by (simp add: dlt_def)

subsection \<open>The loop\<close>

text \<open>The edges of a node with their weights, where the table has the columns the statement asks for.\<close>

definition weighted_edges :: "graph_vtab \<Rightarrow> database \<Rightarrow> i64 \<Rightarrow> (i64 \<times> f64) list" where
  "weighted_edges v db x = (case edge_weights v db x of Inl _ \<Rightarrow> [] | Inr rows \<Rightarrow> rows)"

definition weighted_graph :: "graph_vtab \<Rightarrow> database \<Rightarrow> bool" where
  "weighted_graph v db \<longleftrightarrow> (case db (edges_of v) of None \<Rightarrow> False | Some t \<Rightarrow>
     has_columns t [''to_id'', ''weight'', ''from_id''] \<and>
     (\<forall>r \<in> set (tab_rows t). 0 \<le> value_int64 (r ''to_id'') \<and> is_weight (value_double (r ''weight''))))"

lemma edge_weights_weighted: "weighted_graph v db \<Longrightarrow> edge_weights v db x = Inr (weighted_edges v db x)"
  by (cases "db (edges_of v)") (simp_all add: weighted_graph_def weighted_edges_def edge_weights_def sql_select_def)

lemma weighted_edges_ok: "weighted_graph v db \<Longrightarrow> (y, w) \<in> set (weighted_edges v db x) \<Longrightarrow> 0 \<le> y \<and> is_weight w \<and> y \<in> all_targets v db"
  by (cases "db (edges_of v)")
    (auto simp: weighted_graph_def weighted_edges_def edge_weights_def sql_select_def all_targets_def split: if_splits)

lemma all_targets_nonneg: "weighted_graph v db \<Longrightarrow> y \<in> all_targets v db \<Longrightarrow> 0 \<le> y"
  by (auto simp: weighted_graph_def all_targets_def split: option.splits)

abbreviation search_ok ::
  "(i64 \<Rightarrow> (i64 \<times> f64) list) \<Rightarrow> i64 \<Rightarrow> (i64 \<Rightarrow> (i64 \<times> f64) list) \<Rightarrow> dijkstra_state \<Rightarrow> i64 list \<Rightarrow> bool" where
  "search_ok A s R st F \<equiv> map_ok (snd st) \<and> queue_ok (fst st) \<and>
     double_lengths.search_inv A s 0 DBL_MAX R (dist_of (snd st)) (pred_of (snd st)) (mset (pq_nodes (fst st))) F"

lemma relax_edge_search:
  assumes inv: "search_ok A s (A(x := r)) st F" and x: "x \<in> set F"
    and last: "\<forall>u \<in> set F. dkey (dist_of (snd st) u) \<le> dkey (dist_of (snd st) x)" and d: "dist_of (snd st) x = d"
    and e: "(y, w) \<in> set (A x)" "0 \<le> y" "is_weight w" and ok: "\<And>n. ok n"
  obtains st' where "relax_edge ok x d (y, w) st = Some (SQLITE_OK, st')" "search_ok A s (A(x := r @ [(y, w)])) st' F"
    "\<forall>u \<in> set F. dist_of (snd st') u = dist_of (snd st) u"
proof -
  obtain q dm where st: "st = (q, dm)" by (cases st)
  have I: "map_ok dm" "queue_ok q" "double_lengths.search_inv A s 0 DBL_MAX (A(x := r)) (dist_of dm) (pred_of dm) (mset (pq_nodes q)) F"
    using inv st by simp_all
  have len: "is_distance (dist_of dm u)" for u using double_lengths.search_invD(2) [OF I(3)] by blast
  let ?nd = "dadd d w"
  have nd: "is_distance ?nd" using dadd_distance(1) [OF len e(3), of x] d st by simp
  show ?thesis
  proof (cases "dlt ?nd (dist_of dm y)")
    case False
    then have "\<not> dkey (dadd (dist_of dm x) w) < dkey (dist_of dm y)" using dlt_distance [OF nd len] d st by simp
    then have "search_ok A s (A(x := r @ [(y, w)])) st F" using double_lengths.search_keep [OF I(3)] I(1,2) st by simp
    moreover have "relax_edge ok x d (y, w) st = Some (SQLITE_OK, st)"
      using False distanceMapGet_Some [OF I(1) e(2)] by (simp add: relax_edge_def st)
    ultimately show ?thesis using that by blast
  next
    case True
    then have lt: "dkey ?nd < dkey (dist_of dm y)" using dlt_distance [OF nd len] by simp
    obtain dm' where dm': "distanceMapSet ok dm y ?nd x = Some (SQLITE_OK, dm')" "map_ok dm'"
      "dist_of dm' = (dist_of dm)(y := ?nd)" "pred_of dm' = (pred_of dm)(y := x)"
      using distanceMapSet_ok [OF I(1) e(2)] ok by blast
    obtain q' where q': "graphPriorityQueueInsert ok q y ?nd = (SQLITE_OK, q')" "queue_ok q'"
      "mset (pq_nodes q') = add_mset (y, ?nd) (mset (pq_nodes q))"
      using graphPriorityQueueInsert_ok [OF I(2) nd] ok by blast
    have last': "dkey (dist_of dm u) \<le> dkey (dist_of dm x)" if "u \<in> set F" for u using last that st by simp
    have "?nd = dadd (dist_of dm x) w" using d st by simp
    note R = double_lengths.search_relax [OF I(3) x last' e(1,3) this lt]
    have "search_ok A s (A(x := r @ [(y, w)])) (q', dm') F" using R(1) dm' q' by simp
    moreover have "relax_edge ok x d (y, w) st = Some (SQLITE_OK, q', dm')"
      using True distanceMapGet_Some [OF I(1) e(2)] dm'(1) q'(1) by (simp add: relax_edge_def st)
    moreover have "\<forall>u \<in> set F. dist_of (snd (q', dm')) u = dist_of (snd st) u" using R(2) dm'(3) st by auto
    ultimately show ?thesis using that by blast
  qed
qed

lemma relax_edges_search:
  assumes "search_ok A s (A(x := r)) st F" and "x \<in> set F"
    and "\<forall>u \<in> set F. dkey (dist_of (snd st) u) \<le> dkey (dist_of (snd st) x)" and "dist_of (snd st) x = d"
    and "set rows \<subseteq> set (A x)" and "\<And>y w. (y, w) \<in> set (A x) \<Longrightarrow> 0 \<le> y \<and> is_weight w" and ok: "\<And>n. ok n"
  shows "\<exists>st'. relax_edges ok x d rows st = Some (SQLITE_OK, st') \<and> search_ok A s (A(x := r @ rows)) st' F"
  using assms(1,3-5)
proof (induction rows arbitrary: st r)
  case Nil
  then show ?case by simp
next
  case (Cons e rows)
  obtain y w where e: "e = (y, w)" by (cases e)
  have yw: "(y, w) \<in> set (A x)" "0 \<le> y" "is_weight w" using Cons.prems(4) e assms(6) by auto
  obtain st1 where st1: "relax_edge ok x d (y, w) st = Some (SQLITE_OK, st1)" "search_ok A s (A(x := r @ [(y, w)])) st1 F"
    "\<forall>u \<in> set F. dist_of (snd st1) u = dist_of (snd st) u"
    by (rule relax_edge_search [OF Cons.prems(1) assms(2) Cons.prems(2,3) yw ok])
  have "\<exists>st'. relax_edges ok x d rows st1 = Some (SQLITE_OK, st') \<and> search_ok A s (A(x := (r @ [(y, w)]) @ rows)) st' F"
  proof (rule Cons.IH [OF st1(2)])
    show "\<forall>u \<in> set F. dkey (dist_of (snd st1) u) \<le> dkey (dist_of (snd st1) x)" using st1(3) Cons.prems(2) assms(2) by metis
    show "dist_of (snd st1) x = d" using st1(3) Cons.prems(3) assms(2) by metis
    show "set rows \<subseteq> set (A x)" using Cons.prems(4) by simp
  qed
  moreover have "(r @ [(y, w)]) @ rows = r @ e # rows" and "relax_edges ok x d (e # rows) st = relax_edges ok x d rows st1"
    using st1(1) e by simp_all
  ultimately show ?case by (simp only:)
qed

lemma queue_entry_nonneg:
  assumes "weighted_graph v db" and "0 \<le> s" and "double_lengths.search_inv (weighted_edges v db) s 0 DBL_MAX R D P Q F" and "(x, d) \<in># Q"
  shows "0 \<le> x"
proof (cases "x = s")
  case False
  have "dkey (D x) < dkey DBL_MAX" using double_lengths.search_invD(1) [OF assms(3,4)] by simp
  then show ?thesis using double_lengths.search_invD(9) [OF assms(3) _ False] weighted_edges_ok [OF assms(1)] by blast
qed (use assms(2) in simp)

text \<open>The loop ends without an error, and no entry it leaves in the queue is nearer than the end node.\<close>

lemma dijkstra_loop_search:
  assumes g: "weighted_graph v db" and A: "A = weighted_edges v db" and s: "0 \<le> s" and t: "0 \<le> t" and ok: "\<And>n. ok n"
    and "search_ok A s A (q, dm) F"
  shows "\<exists>dm' Q' F'. dijkstra_loop ok v db t SQLITE_OK (q, dm) = Some (False, SQLITE_OK, dm') \<and> map_ok dm' \<and>
    double_lengths.search_inv A s 0 DBL_MAX A (dist_of dm') (pred_of dm') Q' F' \<and> (\<forall>y e. (y, e) \<in># Q' \<longrightarrow> dkey (dist_of dm' t) \<le> dkey e)"
  using assms(6)
proof (induction "potential v db dm + length (pq_nodes q)" arbitrary: q dm F rule: less_induct)
  case less
  let ?Q = "mset (pq_nodes q)"
  have m: "map_ok dm" and q: "queue_ok q" and I: "double_lengths.search_inv A s 0 DBL_MAX A (dist_of dm) (pred_of dm) ?Q F"
    using less.prems by simp_all
  note D = double_lengths.search_invD [OF I]
  show ?case
  proof (cases "graphPriorityQueueExtractMin q")
    case None
    then have "?Q = {#}" using dijkstra_queue.take_None [OF q] by simp
    moreover have "dijkstra_loop ok v db t SQLITE_OK (q, dm) = Some (False, SQLITE_OK, dm)" using None by (simp add: dijkstra_loop.simps)
    ultimately show ?thesis using m I by (intro exI [of _ dm] exI [of _ ?Q] exI [of _ F]) simp
  next
    case (Some r)
    obtain x d q1 where r: "r = ((x, d), q1)" by (metis prod.collapse)
    have q1: "queue_ok q1" "?Q = add_mset (x, d) (mset (pq_nodes q1))" and min: "\<forall>e \<in># ?Q. dkey d \<le> nkey e"
      using dijkstra_queue.take_Some [OF q Some [unfolded r]] unfolding snd_conv by blast+
    have shorter: "length (pq_nodes q) = Suc (length (pq_nodes q1))" using extract_length [of q] Some r by simp
    have xQ: "(x, d) \<in># ?Q" using q1(2) by simp
    have x: "0 \<le> x" using queue_entry_nonneg [OF g s _ xQ] I A by simp
    have stale: "dlt (dist_of dm x) d \<longleftrightarrow> dkey (dist_of dm x) < dkey d" using dlt_distance D(2) [of x] D(1) [OF xQ] by blast
    note step = dijkstra_loop.simps [of ok v db t SQLITE_OK q dm, unfolded Some r] distanceMapGet_Some [OF m x]
    show ?thesis
    proof (cases "x = t")
      case True
      then have "dijkstra_loop ok v db t SQLITE_OK (q, dm) = Some (False, SQLITE_OK, dm)" using step t by simp
      moreover have "dkey (dist_of dm t) \<le> dkey e" if "(y, e) \<in># ?Q" for y e using D(1) [OF xQ] min that True by fastforce
      ultimately show ?thesis using m I by (intro exI [of _ dm] exI [of _ ?Q] exI [of _ F]) simp
    next
      case notend: False
      show ?thesis
      proof (cases "dlt (dist_of dm x) d")
        case True
        have "double_lengths.search_inv A s 0 DBL_MAX A (dist_of dm) (pred_of dm) (mset (pq_nodes q1)) F"
          using double_lengths.search_drop [of A s 0 DBL_MAX A "dist_of dm" "pred_of dm" x d "mset (pq_nodes q1)" F] I q1(2) stale True by simp
        moreover have "dijkstra_loop ok v db t SQLITE_OK (q, dm) = dijkstra_loop ok v db t SQLITE_OK (q1, dm)" using step notend True by simp
        ultimately show ?thesis using less.hyps [of dm q1 F] m q1(1) shorter by simp
      next
        case False
        define F' where "F' = (if x \<in> set F then F else F @ [x])"
        have "\<not> dkey (dist_of dm x) < dkey d" "\<forall>y e. (y, e) \<in># mset (pq_nodes q1) \<longrightarrow> dkey d \<le> dkey e"
          using min q1(2) False stale by fastforce+
        note S = double_lengths.search_settle [OF I [unfolded q1(2)] this F'_def]
        have S': "double_lengths.search_inv A s 0 DBL_MAX (A(x := [])) (dist_of dm) (pred_of dm) (mset (pq_nodes q1)) F'"
          "dist_of dm x = d" "x \<in> set F'" "\<forall>u \<in> set F'. dkey (dist_of dm u) \<le> dkey (dist_of dm x)"
          using S by blast+
        have "search_ok A s (A(x := [])) (q1, dm) F'" using m q1(1) S'(1) by simp
        then have "\<exists>st'. relax_edges ok x d (A x) (q1, dm) = Some (SQLITE_OK, st') \<and> search_ok A s (A(x := [] @ A x)) st' F'"
          using S'(2-4) weighted_edges_ok [OF g] A by (intro relax_edges_search [OF _ S'(3) _ _ _ _ ok]) auto
        then obtain q2 dm2 where st2: "relax_edges ok x d (A x) (q1, dm) = Some (SQLITE_OK, q2, dm2)" "search_ok A s A (q2, dm2) F'"
          by (simp only: append_Nil fun_upd_triv) auto
        have "potential v db dm2 + length (pq_nodes q2) \<le> potential v db dm + length (pq_nodes q1)"
          using relax_edges_measure [OF edge_weights_subset [OF edge_weights_weighted [OF g]]] st2(1) A by blast
        moreover have "dijkstra_loop ok v db t SQLITE_OK (q, dm) = dijkstra_loop ok v db t SQLITE_OK (q2, dm2)"
          using step notend False edge_weights_weighted [OF g, of x] A st2(1) by simp
        ultimately show ?thesis using less.hyps [OF _ st2(2)] shorter by simp
      qed
    qed
  qed
qed

subsection \<open>The path\<close>

lemma path_back_leads:
  assumes "map_ok dm"
  shows "leads_back (pred_of dm) s b \<Longrightarrow> \<forall>x \<in> set b. 0 \<le> x \<Longrightarrow> length b \<le> n \<Longrightarrow> path_back n dm s (hd b) = Some b"
proof (induction "pred_of dm" s b arbitrary: n rule: leads_back.induct)
  case (2 s x)
  then show ?case by (cases n) auto
next
  case (3 s x y b)
  then obtain k where "n = Suc k" by (cases n) auto
  then show ?case using 3 distanceMapGetPredecessor_Some [OF assms, of x] by auto
qed simp

lemma path_items_text:
  assumes "\<And>n. ok n" and "p \<noteq> []"
  shows "path_items ok (Some (z @ ids_text p)) False xs = Some (z @ ids_text (p @ xs))"
  using assms(2)
proof (induction xs arbitrary: p)
  case (Cons x xs)
  have "path_items ok (Some (z @ ids_text p)) False (x # xs) = path_items ok (Some (z @ ids_text (p @ [x]))) False xs"
    using assms(1) Cons.prems by (simp add: mprintf_def ids_text_snoc)
  then show ?case using Cons.IH [of "p @ [x]"] by simp
qed simp

lemma path_string_text:
  assumes "\<And>n. ok n" and "p \<noteq> []"
  shows "path_string ok p = Some (path_text p)"
proof -
  obtain x xs where p: "p = x # xs" using assms(2) by (cases p) auto
  have "path_items ok (Some [91]) True p = Some (91 # ids_text p)"
    using path_items_text [of ok "[x]" "[91]" xs] assms(1) p by (simp add: mprintf_def)
  then show ?thesis using assms(1) by (simp add: path_string_def mprintf_def)
qed

lemma distanceMapCreate_ok:
  assumes "\<And>n. ok n" and "0 \<le> n" and "n < 2 ^ 27"
  shows "distanceMapCreate ok n = Some (Some \<lparr>nBuckets = n * 2 + 1, aBuckets = replicate (nat (n * 2 + 1)) [], nEntries = 0\<rparr>)"
  using assms c_int_id [of "(n * 2 + 1) * 8"] by (simp add: distanceMapCreate_def Let_def)

lemma empty_map: "dist_of \<lparr>nBuckets = b, aBuckets = replicate k [], nEntries = i\<rparr> = (\<lambda>_. DBL_MAX)"
  by (auto simp: dist_of_def distanceMapGet_def bucket_of_def Let_def)

lemma empty_queue: "queue_ok \<lparr>pq_nodes = [], pq_alloc = n\<rparr>"
  by (simp add: queue_ok_def min_heap_def nan_free_def)

lemma settled_nodes:
  assumes "weighted_graph v db" and "double_lengths.search_inv (weighted_edges v db) s 0 DBL_MAX R D P Q F"
  shows "set F \<subseteq> insert s (all_targets v db)" and "length F \<le> card (insert s (all_targets v db))"
proof -
  show sub: "set F \<subseteq> insert s (all_targets v db)"
    using double_lengths.search_invD(4,9) [OF assms(2)] weighted_edges_ok [OF assms(1)] by blast
  then show "length F \<le> card (insert s (all_targets v db))"
    using double_lengths.search_invD(8) [OF assms(2)] card_mono [OF _ sub] distinct_card [of F] by simp
qed

subsection \<open>Shortest paths\<close>

lemma dijkstra_run:
  assumes g: "weighted_graph v db" and s: "0 \<le> s" and t: "0 \<le> t" and ok: "\<And>n. ok n"
    and count: "0 \<le> graphCountNodes v db" "graphCountNodes v db < 2 ^ 27"
  obtains q1 dm1 dm Q F where
    "graphPriorityQueueCreate ok = Some \<lparr>pq_nodes = [], pq_alloc = 16\<rparr>"
    "distanceMapCreate ok (graphCountNodes v db) = Some (Some \<lparr>nBuckets = graphCountNodes v db * 2 + 1,
       aBuckets = replicate (nat (graphCountNodes v db * 2 + 1)) [], nEntries = 0\<rparr>)"
    "distanceMapSet ok \<lparr>nBuckets = graphCountNodes v db * 2 + 1,
       aBuckets = replicate (nat (graphCountNodes v db * 2 + 1)) [], nEntries = 0\<rparr> s 0 (-1) = Some (SQLITE_OK, dm1)"
    "graphPriorityQueueInsert ok \<lparr>pq_nodes = [], pq_alloc = 16\<rparr> s 0 = (SQLITE_OK, q1)"
    "dijkstra_loop ok v db t SQLITE_OK (q1, dm1) = Some (False, SQLITE_OK, dm)" "map_ok dm"
    "double_lengths.search_inv (weighted_edges v db) s 0 DBL_MAX (weighted_edges v db) (dist_of dm) (pred_of dm) Q F"
    "\<forall>y e. (y, e) \<in># Q \<longrightarrow> dkey (dist_of dm t) \<le> dkey e"
proof -
  let ?q = "\<lparr>pq_nodes = [], pq_alloc = 16\<rparr>" and ?n = "graphCountNodes v db" and ?A = "weighted_edges v db"
  let ?m = "\<lparr>nBuckets = ?n * 2 + 1, aBuckets = replicate (nat (?n * 2 + 1)) [], nEntries = 0\<rparr>"
  have m: "map_ok ?m" using count(1) by (simp add: map_ok_def)
  obtain dm1 where dm1: "distanceMapSet ok ?m s 0 (-1) = Some (SQLITE_OK, dm1)" "map_ok dm1" "dist_of dm1 = (dist_of ?m)(s := 0)"
    by (rule distanceMapSet_ok [OF m s ok])
  obtain q1 where q1: "graphPriorityQueueInsert ok ?q s 0 = (SQLITE_OK, q1)" "queue_ok q1" "mset (pq_nodes q1) = add_mset (s, 0) (mset (pq_nodes ?q))"
    by (rule graphPriorityQueueInsert_ok [OF empty_queue distance_0(1) ok])
  have D1: "dist_of dm1 = (\<lambda>x. if x = s then 0 else DBL_MAX)" by (auto simp: dm1(3) empty_map)
  have lt: "dkey 0 < dkey DBL_MAX" using distance_0(2) DBL_MAX_key(2) by (simp add: dinf_def)
  have "double_lengths.search_inv ?A s 0 DBL_MAX ?A (dist_of dm1) (pred_of dm1) (mset (pq_nodes q1)) []"
    using double_lengths.search_start [OF distance_0(1) DBL_MAX_key(1) lt, of ?A s "pred_of dm1"] D1 q1(3) by simp
  then have start: "search_ok ?A s ?A (q1, dm1) []" using dm1(2) q1(2) by simp
  obtain dm Q F where "dijkstra_loop ok v db t SQLITE_OK (q1, dm1) = Some (False, SQLITE_OK, dm)" "map_ok dm"
    "double_lengths.search_inv ?A s 0 DBL_MAX ?A (dist_of dm) (pred_of dm) Q F" "\<forall>y e. (y, e) \<in># Q \<longrightarrow> dkey (dist_of dm t) \<le> dkey e"
    using dijkstra_loop_search [where ok = ok, OF g refl s t ok start] by blast
  moreover have "graphPriorityQueueCreate ok = Some ?q" using ok by (simp add: graphPriorityQueueCreate_def)
  ultimately show ?thesis using that dm1(1) q1(1) distanceMapCreate_ok [where ok = ok, OF ok count] by blast
qed

text \<open>
  C34. On edges with finite weights that are not negative, and node ids that are not negative, \<open>graphDijkstra\<close> returns
  a walk from the start to the end together with its length, and no walk is shorter, all lengths added up in
  rounded \<open>double\<close> arithmetic; or it reports \<open>SQLITE_NOTFOUND\<close>, and then no walk has a length below \<open>DBL_MAX\<close>. Going back
  along the predecessors ends after at most as many rounds as there are nodes and one more.
\<close>

theorem dijkstra_finds_shortest_path:
  assumes "weighted_graph v db" and "0 \<le> s" and "0 \<le> t" and "\<forall>n. ok n"
    and "0 \<le> graphCountNodes v db" and "graphCountNodes v db < 2 ^ 27" and "card (insert s (all_targets v db)) < rounds"
  shows "(\<exists>p d. graphDijkstra ok rounds v db s t = Some (SQLITE_OK, Some (path_text p), d) \<and>
            wwalk dadd (weighted_edges v db) s 0 p d t \<and> dlt d DBL_MAX \<and>
            (\<forall>p' d'. wwalk dadd (weighted_edges v db) s 0 p' d' t \<longrightarrow> dle d d')) \<or>
         (graphDijkstra ok rounds v db s t = Some (SQLITE_NOTFOUND, None, DBL_MAX) \<and>
            (\<forall>p' d'. wwalk dadd (weighted_edges v db) s 0 p' d' t \<longrightarrow> dle DBL_MAX d'))"
proof -
  let ?A = "weighted_edges v db"
  have ok: "\<And>n. ok n" using assms(4) by simp
  obtain q1 dm1 dm Q F where run:
    "graphPriorityQueueCreate ok = Some \<lparr>pq_nodes = [], pq_alloc = 16\<rparr>"
    "distanceMapCreate ok (graphCountNodes v db) = Some (Some \<lparr>nBuckets = graphCountNodes v db * 2 + 1,
       aBuckets = replicate (nat (graphCountNodes v db * 2 + 1)) [], nEntries = 0\<rparr>)"
    "distanceMapSet ok \<lparr>nBuckets = graphCountNodes v db * 2 + 1,
       aBuckets = replicate (nat (graphCountNodes v db * 2 + 1)) [], nEntries = 0\<rparr> s 0 (-1) = Some (SQLITE_OK, dm1)"
    "graphPriorityQueueInsert ok \<lparr>pq_nodes = [], pq_alloc = 16\<rparr> s 0 = (SQLITE_OK, q1)"
    "dijkstra_loop ok v db t SQLITE_OK (q1, dm1) = Some (False, SQLITE_OK, dm)"
    and m: "map_ok dm" and I: "double_lengths.search_inv ?A s 0 DBL_MAX ?A (dist_of dm) (pred_of dm) Q F"
    and Q: "\<forall>y e. (y, e) \<in># Q \<longrightarrow> dkey (dist_of dm t) \<le> dkey e"
    by (rule dijkstra_run [OF assms(1-3) ok assms(5,6)])
  let ?d = "dist_of dm t"
  have len: "is_distance ?d" and le: "dkey ?d \<le> dkey DBL_MAX" using double_lengths.search_invD(2) [OF I] by blast+
  have bound: "is_distance d' \<and> dkey ?d \<le> dkey d'" if "wwalk dadd ?A s 0 p' d' t" for p' d'
    using double_lengths.search_bound [OF I _ that] weighted_edges_ok [OF assms(1)] Q by fastforce
  have result: "graphDijkstra ok rounds v db s t =
      (if dlt ?d DBL_MAX then case path_back rounds dm s t of None \<Rightarrow> None | Some back \<Rightarrow>
         (case path_string ok (rev back) of None \<Rightarrow> Some (SQLITE_NOMEM, None, DBL_MAX) | Some z \<Rightarrow> Some (SQLITE_OK, Some z, ?d))
       else Some (SQLITE_NOTFOUND, None, DBL_MAX))"
    using run distanceMapGet_Some [OF m assms(3)] assms(3,4)
    by (cases "path_back rounds dm s t") (simp_all add: graphDijkstra_def)
  show ?thesis
  proof (cases "dlt ?d DBL_MAX")
    case False
    then have "dkey DBL_MAX \<le> dkey ?d" using dlt_distance [OF len DBL_MAX_key(1)] by simp
    then have "dle DBL_MAX d'" if "wwalk dadd ?A s 0 p' d' t" for p' d'
      using bound [OF that] distance_key [OF DBL_MAX_key(1)] distance_key [of d'] by (auto simp: dle_def)
    then show ?thesis using result False by simp
  next
    case True
    then have lt: "dkey ?d < dkey DBL_MAX" using dlt_distance [OF len DBL_MAX_key(1)] by simp
    obtain b where b: "wwalk dadd ?A s 0 (rev (t # b)) ?d t" "leads_back (pred_of dm) s (t # b)" "length b \<le> length F" "set b \<subseteq> set F"
      using double_lengths.search_path [OF I lt] by blast
    have "\<forall>x \<in> set (t # b). 0 \<le> x"
      using b(4) settled_nodes(1) [OF assms(1) I] assms(1-3) all_targets_nonneg [OF assms(1)] by fastforce
    then have "path_back rounds dm s t = Some (t # b)"
      using path_back_leads [OF m b(2), of rounds] settled_nodes(2) [OF assms(1) I] b(3) assms(7) by simp
    then have "graphDijkstra ok rounds v db s t = Some (SQLITE_OK, Some (path_text (rev (t # b))), ?d)"
      using result True path_string_text [OF ok, of "rev (t # b)"] by simp
    moreover have "dle ?d d'" if "wwalk dadd ?A s 0 p' d' t" for p' d'
      using bound [OF that] distance_key [OF len] distance_key [of d'] by (auto simp: dle_def)
    ultimately show ?thesis using b(1) True by blast
  qed
qed

text \<open>A sample: the direct edge from 1 to 3 has weight 5, the two edges over 2 have weight 1 each.\<close>

definition weighted_row :: "i64 \<Rightarrow> i64 \<Rightarrow> f64 \<Rightarrow> sql_row" where
  "weighted_row s t w = (\<lambda>c. if c = ''from_id'' then cell_int s else if c = ''to_id'' then cell_int t
                            else if c = ''weight'' then cell_real w else cell_null)"

definition weighted_db :: database where
  "weighted_db = walk_db(''g_edges'' \<mapsto> \<lparr>tab_columns = [(''from_id'', cell_null), (''to_id'', cell_null), (''weight'', cell_null)],
     tab_rows = [weighted_row 1 3 0x4014000000000000, weighted_row 1 2 0x3FF0000000000000, weighted_row 2 3 0x3FF0000000000000]\<rparr>)"

lemma sample_weights: "is_weight 0x4014000000000000" "is_weight 0x3FF0000000000000"
  by (simp_all add: is_weight_def dkey_def fp_int_def dmag_def dneg_bit_def dinf_def)

lemma weighted_db_facts:
  "weighted_graph walk_vtab weighted_db" "all_targets walk_vtab weighted_db = {2, 3}" "graphCountNodes walk_vtab weighted_db = 3"
  by (auto simp: weighted_graph_def all_targets_def graphCountNodes_def count_rows_def count_or_zero_def sql_select_def weighted_db_def
      walk_db_def walk_vtab_def edges_of_def nodes_of_def has_columns_def weighted_row_def cell_int_def cell_real_def sample_weights c_int_id)

theorem dijkstra_finds_shortest_path_witness:
  "(\<exists>p d. graphDijkstra (\<lambda>_. True) 4 walk_vtab weighted_db 1 3 = Some (SQLITE_OK, Some (path_text p), d) \<and>
       wwalk dadd (weighted_edges walk_vtab weighted_db) 1 0 p d 3 \<and> dlt d DBL_MAX \<and>
       (\<forall>p' d'. wwalk dadd (weighted_edges walk_vtab weighted_db) 1 0 p' d' 3 \<longrightarrow> dle d d')) \<or>
   (graphDijkstra (\<lambda>_. True) 4 walk_vtab weighted_db 1 3 = Some (SQLITE_NOTFOUND, None, DBL_MAX) \<and>
       (\<forall>p' d'. wwalk dadd (weighted_edges walk_vtab weighted_db) 1 0 p' d' 3 \<longrightarrow> dle DBL_MAX d'))"
  by (rule dijkstra_finds_shortest_path [OF weighted_db_facts(1)]) (simp_all add: weighted_db_facts)

end
