(* ===== verification/Spec2Isabelle.thy ===== *)
theory Spec2Isabelle
  imports KDTree_File IVF_File HNSW_File Knn_Correct QueryPlan_Correct Json_Correct GraphVtab_Correct GraphAlgo_Correct
begin

text \<open>
  A verification library for the multimodal extension of SQLite under \<^verbatim>\<open>src/\<close>.

  \<^bold>\<open>The program.\<close> \<^verbatim>\<open>src/sqlite-vec/sqlite-vec.c\<close> is a SQLite extension that stores vectors in \<open>vec0\<close> virtual
  tables and answers nearest-neighbour queries over them. A table keeps its rows in shadow tables: chunks of
  a fixed number of rows with a validity bitmap and the row ids, one blob of vectors per chunk and vector
  column, one blob per chunk and metadata column, and a table that maps row ids to chunk positions. A
  query goes through the planner (\<open>vec0BestIndex\<close>), which writes a plan string, and the filter (\<open>vec0Filter\<close>),
  which reads it and runs a flat scan or searches one of three in-memory indexes: a k-d tree, an inverted
  file (IVF) or a layered navigable graph (HNSW). Writes (\<open>vec0Update\<close>) change the shadow tables and then the
  index. The indexes are saved to files when a table is closed. Scalar SQL functions parse, print, compare
  and transform vectors.

  \<^verbatim>\<open>src/sqlite-graph/\<close> is a second extension: a property graph in two backing tables, one for the nodes and one for
  the edges, behind a \<open>graph\<close> virtual table (\<^verbatim>\<open>graph-vtab.c\<close>) and SQL functions (\<^verbatim>\<open>graph.c\<close>), with traversals
  (\<^verbatim>\<open>graph-traverse.c\<close>) and algorithms (\<^verbatim>\<open>graph-algo.c\<close>) that read the edges of one node at a time with a statement.

  \<^bold>\<open>Foundations.\<close>
  \<^item> \<open>Prelude\<close>: result codes, integer widths, \<open>qsort\<close> and \<open>bsearch\<close>, best-\<open>k\<close> selections and the locale of a
    bounded best-\<open>k\<close> accumulator.
  \<^item> \<open>IEEE_Float\<close>, \<open>Float_Exact\<close>: \<open>float\<close> and \<open>double\<close> as bit patterns with correctly rounded operations;
    monotonicity of rounding, and exactness on integers.
  \<^item> \<open>ByteIO\<close>, \<open>Storage\<close>, \<open>Bitmap\<close>: files and blobs as byte lists, SQL values, \<open>strncmp\<close>, the bitmaps of a chunk.
  \<^item> \<open>Hits\<close>, \<open>RowidMap\<close>, \<open>VecIndex\<close>: search results, the row id filter of an index search, and the locales that
    state what an index promises of insertion and deletion, interpreted for all three indexes.

  \<^bold>\<open>Indexes.\<close>
  \<^item> \<open>KDTree\<close>, \<open>KDTree_Balance\<close>, \<open>KDTree_Correct\<close>, \<open>KDTree_File\<close>: the \<open>kdtree_*\<close> functions. Order, counters and
    contents under insertion with local rebuilds and tombstone deletion; logarithmic height; the bounded
    search is exact when its pruning test is a lower bound, and misses rows under the default metric; the
    file round trip.
  \<^item> \<open>IVF\<close>, \<open>MaxHeap\<close>, \<open>IVF_Correct\<close>, \<open>IVF_File\<close>: the \<open>ivf_*\<close> functions. Contents under addition, deletion,
    training and update; the search returns the best rows of the probed lists.
  \<^item> \<open>HNSW\<close>, \<open>ExchangeSort\<close>, \<open>HNSW_Correct\<close>, \<open>HNSW_File\<close>: the \<open>hnsw_*\<close> functions. Well-formedness and contents;
    the descent ends in a local minimum; the search is sound, and complete for reachable nodes.

  \<^bold>\<open>Tables.\<close>
  \<^item> \<open>Metadata\<close>, \<open>MetadataFilter\<close>: writing, reading, clearing and filtering metadata columns.
  \<^item> \<open>Selection\<close>, \<open>FlatScan\<close>: \<open>min_idx\<close>, \<open>merge_sorted_lists\<close> and the scan over the chunks; it returns the nearest
    rows that pass the constraints.
  \<^item> \<open>TableStore\<close>, \<open>TableStore_Correct\<close>, \<open>TableScan\<close>: inserting, reading, updating and deleting rows in the shadow
    tables; inserts and deletes refine a map from row ids to rows, and a scan returns the live rows.
  \<^item> \<open>IndexedTable\<close>, \<open>IndexedTable_Correct\<close>: \<open>vec0Update\<close> with its handlers over the shadow tables and the index;
    the index stays in step with the table.
  \<^item> \<open>Knn\<close>, \<open>Knn_Correct\<close>: \<open>vec0Filter_knn\<close>; the hits of an index query are live rows that satisfy the constraints.
  \<^item> \<open>QueryPlan\<close>, \<open>QueryPlan_Correct\<close>: \<open>vec0BestIndex\<close> and the reading of the plan in \<open>vec0Filter\<close>; every plan is
    accepted and every argument decodes to the role of its constraint.

  \<^bold>\<open>Values and functions.\<close>
  \<^item> \<open>Distance\<close>, \<open>Distance_Exact\<close>: the distance functions.
  \<^item> \<open>VectorValue\<close>, \<open>ScalarFuns\<close>, \<open>ScalarFuns_Correct\<close>, \<open>Json_Correct\<close>: \<open>vector_from_value\<close> with \<open>strtod\<close> and
    \<open>strtol\<close>, and the SQL functions; results are vectors, the JSON round trip, and the agreement of the
    distances of queries and of expressions.

  \<^bold>\<open>Graphs.\<close>
  \<^item> \<open>GraphStore\<close>: tables as column lists with rows, the effect of the statements the extension runs, and the node
    and edge operations of \<^verbatim>\<open>graph.c\<close>.
  \<^item> \<open>GraphVtab\<close>, \<open>GraphVtab_Correct\<close>: planning, cursor, columns and \<open>graphUpdate\<close> of the virtual table and the SQL functions;
    row ids address exactly one row, and the operations that check it keep every edge between existing nodes.
  \<^item> \<open>GraphTraverse\<close>, \<open>GraphTraverse_Correct\<close>: depth-first and breadth-first search and what reads their text;
    the first visits the reachable nodes, the second does so by distance.
  \<^item> \<open>GraphAlgo\<close>, \<open>MinHeap_Graph\<close>, \<open>GraphAlgo_Correct\<close>: Dijkstra with its binary heap and hash map, and the degree
    functions. The heap implements a priority queue (locale \<open>min_queue\<close>); the search is proved over lengths that
    grow (locale \<open>growing_lengths\<close>) and so for the rounded sums of \<open>double\<close>.

  \<^bold>\<open>Bounds and fuel.\<close> The greedy descent of the graph takes fuel, which the termination theorem shows to be
  enough: every round moves to a strictly nearer node. Reading a k-d tree from a file takes the length of the
  file as fuel, since every node reads at least one integer. The depth-first search takes the number of stack
  frames, and one more than the number of nodes is shown to be enough; the walk back along the predecessors of
  Dijkstra takes the number of rounds, with the same bound. All other loops are structural or have a
  termination proof. Row ids are unbounded integers with the conversions to \<open>int\<close> written out where the code has
  them; vectors are words.

  \<^bold>\<open>Errors.\<close> A result code is a value; an access outside an array, a conversion that C leaves undefined and a
  failed \<open>assert\<close> are \<open>None\<close>. The outcome of allocations (in the graph part a predicate on their size), the random levels of the graph, the random choices of the
  training and the contents of fresh memory are arguments. So are, for graphs, the value of a weight that was
  printed into a statement with \<open>%f\<close>, and the effect of the statement on the virtual table itself that an edge update
  runs.

  \<^bold>\<open>Not modelled.\<close> The AVX and NEON variants of the distances; the SQL texts, which are modelled by their
  documented effect on the shadow tables; partition key and auxiliary columns and TEXT primary keys in the
  storage; disk errors; printing and freeing; static blob tables and the \<open>npy\<close> reader; the vendored SQLite core. Of the graph extension: the Cypher engine, bulk
  loading, caching, compression, schema and parallel helpers, PageRank, strongly connected components, and
  disconnecting and dropping the virtual table.
\<close>

end
